(* ===== verification/Lbx_Prelude.thy ===== *)
theory Lbx_Prelude
  imports Main "HOL-Library.Word"
begin

text \<open>
  Shared vocabulary of the LUKSbox development: machine integers at their width, byte buffers
  with Rust's slice reads and \<open>copy_from_slice\<close> writes, little-endian integer encodings,
  results (\<open>Result<T, E>\<close> as a sum), and computations that draw from the operating system's
  random generator (state passing over an arbitrary generator state). The collections
  \<open>buf_simps\<close>, \<open>le_simps\<close> and \<open>res_simps\<close> carry the component proofs.
\<close>

named_theorems buf_simps "reads of a byte buffer after writes"
named_theorems le_simps "little-endian encodings"
named_theorems res_simps "results and random computations"

section \<open>Machine integers and byte buffers\<close>

type_synonym u8 = "8 word"
type_synonym u16 = "16 word"
type_synonym u32 = "32 word"
type_synonym u64 = "64 word"
type_synonym bytes = "u8 list"

abbreviation (input) USIZE_LIMIT :: nat where
  "USIZE_LIMIT \<equiv> 2 ^ 64"

abbreviation (input) U16_MAX :: nat where
  "U16_MAX \<equiv> 65535"

text \<open>Rust's \<open>checked_add\<close> and \<open>checked_mul\<close> on \<open>u64\<close>: \<open>None\<close> on overflow.\<close>

definition checked_add_u64 :: "u64 \<Rightarrow> u64 \<Rightarrow> u64 option" where
  "checked_add_u64 a b = (if unat a + unat b < 2 ^ 64 then Some (a + b) else None)"

definition checked_mul_u64 :: "u64 \<Rightarrow> u64 \<Rightarrow> u64 option" where
  "checked_mul_u64 a b = (if unat a * unat b < 2 ^ 64 then Some (a * b) else None)"

lemma checked_add_u64_Some:
  "checked_add_u64 a b = Some c \<longleftrightarrow> unat a + unat b < 2 ^ 64 \<and> unat c = unat a + unat b"
proof -
  have "unat (a + b) = unat a + unat b" if "unat a + unat b < 2 ^ 64"
    using that by (simp add: unat_word_ariths)
  then show ?thesis
    by (auto simp: checked_add_u64_def word_unat_eq_iff)
qed

lemma checked_mul_u64_Some:
  "checked_mul_u64 a b = Some c \<longleftrightarrow> unat a * unat b < 2 ^ 64 \<and> unat c = unat a * unat b"
proof -
  have "unat (a * b) = unat a * unat b" if "unat a * unat b < 2 ^ 64"
    using that by (simp add: unat_word_ariths)
  then show ?thesis
    by (auto simp: checked_mul_u64_def word_unat_eq_iff)
qed

text \<open>
  \<open>slice buf off n\<close> is \<open>&buf[off..off + n]\<close> and \<open>put buf off bs\<close> is
  \<open>buf[off..off + bs.len()].copy_from_slice(bs)\<close>; both are used within the buffer only, which
  the length lemmas below check (Rust would panic outside).
\<close>

definition slice :: "'a list \<Rightarrow> nat \<Rightarrow> nat \<Rightarrow> 'a list" where
  "slice buf off n = take n (drop off buf)"

definition put :: "'a list \<Rightarrow> nat \<Rightarrow> 'a list \<Rightarrow> 'a list" where
  "put buf off bs = take off buf @ bs @ drop (off + length bs) buf"

lemma length_put [simp]:
  "off + length bs \<le> length buf \<Longrightarrow> length (put buf off bs) = length buf"
  by (simp add: put_def)

lemma length_slice [simp]: "off + n \<le> length buf \<Longrightarrow> length (slice buf off n) = n"
  by (simp add: slice_def)

lemma slice_put_same [buf_simps]:
  "off + length bs \<le> length buf \<Longrightarrow> n = length bs \<Longrightarrow> slice (put buf off bs) off n = bs"
  by (simp add: slice_def put_def)

lemma slice_put_before [buf_simps]:
  "off' + n \<le> off \<Longrightarrow> off + length bs \<le> length buf \<Longrightarrow>
    slice (put buf off bs) off' n = slice buf off' n"
  by (simp add: slice_def put_def take_drop)

lemma slice_put_after [buf_simps]:
  "off + length bs \<le> off' \<Longrightarrow> off + length bs \<le> length buf \<Longrightarrow>
    slice (put buf off bs) off' n = slice buf off' n"
  by (simp add: slice_def put_def)

lemma slice_update_other [buf_simps]:
  "i < off \<or> off + n \<le> i \<Longrightarrow> slice (buf[i := x]) off n = slice buf off n"
  by (auto simp: slice_def drop_update_swap take_update_swap list_update_beyond)

lemma nth_put_before [buf_simps]:
  "i < off \<Longrightarrow> off + length bs \<le> length buf \<Longrightarrow> put buf off bs ! i = buf ! i"
  by (simp add: put_def nth_append)

lemma nth_put_after [buf_simps]:
  "off + length bs \<le> i \<Longrightarrow> i < length buf \<Longrightarrow> put buf off bs ! i = buf ! i"
  by (cases "bs = []") (simp_all add: put_def nth_append less_diff_conv2)

lemma slice_append_left [buf_simps]:
  "off + n \<le> length xs \<Longrightarrow> slice (xs @ ys) off n = slice xs off n"
  by (simp add: slice_def)

lemma slice_append_right [buf_simps]:
  "length xs \<le> off \<Longrightarrow> slice (xs @ ys) off n = slice ys (off - length xs) n"
  by (simp add: slice_def)

lemma slice_slice [buf_simps]:
  "off' + n' \<le> n \<Longrightarrow> slice (slice buf off n) off' n' = slice buf (off + off') n'"
  by (simp add: slice_def drop_take ac_simps)

lemma slice_all [buf_simps]: "n = length xs \<Longrightarrow> slice xs 0 n = xs"
  by (simp add: slice_def)

lemma slice_zero_len [simp]: "slice xs off 0 = []"
  by (simp add: slice_def)

lemma take_as_slice: "take n xs = slice xs 0 n"
  by (simp add: slice_def)

lemma first_two: "2 \<le> length c \<Longrightarrow> [c ! 0, c ! 1] = take 2 c"
  by (cases c; cases "tl c") auto

lemma nth_slice [buf_simps]: "off + n \<le> length buf \<Longrightarrow> i < n \<Longrightarrow> slice buf off n ! i = buf ! (off + i)"
  by (simp add: slice_def)

lemma put_put_append:
  "off + length xs + length ys \<le> length buf \<Longrightarrow>
    put (put buf off xs) (off + length xs) ys = put buf off (xs @ ys)"
  by (simp add: put_def ac_simps)

lemma update_as_put: "i < length buf \<Longrightarrow> buf[i := x] = put buf i [x]"
  by (simp add: put_def upd_conv_take_nth_drop)

lemma put_nil [simp]: "put buf off [] = buf"
  by (simp add: put_def)

lemma slice_take [buf_simps]: "off + n \<le> m \<Longrightarrow> slice (take m xs) off n = slice xs off n"
  by (simp add: slice_def drop_take)

section \<open>Little-endian integers\<close>

fun nat_to_le :: "nat \<Rightarrow> nat \<Rightarrow> bytes" where
  "nat_to_le 0 x = []"
| "nat_to_le (Suc n) x = of_nat (x mod 256) # nat_to_le n (x div 256)"

fun nat_of_le :: "bytes \<Rightarrow> nat" where
  "nat_of_le [] = 0"
| "nat_of_le (b # bs) = unat b + 256 * nat_of_le bs"

lemma length_nat_to_le [simp]: "length (nat_to_le n x) = n"
  by (induction n arbitrary: x) auto

lemma unat_of_nat_mod256 [simp]: "unat (of_nat (x mod 256) :: u8) = x mod 256"
  by (simp add: unat_of_nat)

lemma nat_of_le_to_le: "nat_of_le (nat_to_le n x) = x mod 256 ^ n"
proof (induction n arbitrary: x)
  case 0
  then show ?case by simp
next
  case (Suc n)
  have "nat_of_le (nat_to_le (Suc n) x) = x mod 256 + 256 * (x div 256 mod 256 ^ n)"
    by (simp add: Suc.IH)
  then show ?case
    by (simp add: mod_mult2_eq)
qed

lemma unat_u8_less: "unat (b :: u8) < 256"
  using unsigned_less [of b, where ?'a = nat] by simp

lemma nat_of_le_less: "nat_of_le bs < 256 ^ length bs"
proof (induction bs)
  case Nil
  then show ?case by simp
next
  case (Cons b bs)
  have "unat b < 256" by (rule unat_u8_less)
  with Cons.IH show ?case by simp
qed

lemma nat_to_le_of_le: "nat_to_le (length bs) (nat_of_le bs) = bs"
proof (induction bs)
  case Nil
  then show ?case by simp
next
  case (Cons b bs)
  have "unat b < 256" by (rule unat_u8_less)
  then have "(unat b + 256 * nat_of_le bs) mod 256 = unat b"
    and "(unat b + 256 * nat_of_le bs) div 256 = nat_of_le bs"
    by simp_all
  with Cons.IH show ?case by simp
qed

text \<open>\<open>to_le_bytes\<close> and \<open>from_le_bytes\<close> at the widths the program uses.\<close>

definition u16_to_le :: "u16 \<Rightarrow> bytes" where
  "u16_to_le x = nat_to_le 2 (unat x)"

definition u16_from_le :: "bytes \<Rightarrow> u16" where
  "u16_from_le bs = of_nat (nat_of_le bs)"

definition u32_to_le :: "u32 \<Rightarrow> bytes" where
  "u32_to_le x = nat_to_le 4 (unat x)"

definition u32_from_le :: "bytes \<Rightarrow> u32" where
  "u32_from_le bs = of_nat (nat_of_le bs)"

definition u64_to_le :: "u64 \<Rightarrow> bytes" where
  "u64_to_le x = nat_to_le 8 (unat x)"

definition u64_from_le :: "bytes \<Rightarrow> u64" where
  "u64_from_le bs = of_nat (nat_of_le bs)"

lemma length_le [simp]:
  "length (u16_to_le a) = 2" "length (u32_to_le b) = 4" "length (u64_to_le c) = 8"
  by (simp_all add: u16_to_le_def u32_to_le_def u64_to_le_def)

lemma from_to_le [simp, le_simps]:
  "u16_from_le (u16_to_le a) = a" "u32_from_le (u32_to_le b) = b" "u64_from_le (u64_to_le c) = c"
proof -
  have "unat a < 256 ^ 2" "unat b < 256 ^ 4" "unat c < 256 ^ 8"
    using unsigned_less [of a, where ?'a = nat] unsigned_less [of b, where ?'a = nat]
      unsigned_less [of c, where ?'a = nat] by simp_all
  then show "u16_from_le (u16_to_le a) = a" "u32_from_le (u32_to_le b) = b"
    "u64_from_le (u64_to_le c) = c"
    by (simp_all add: u16_from_le_def u16_to_le_def u32_from_le_def u32_to_le_def
        u64_from_le_def u64_to_le_def nat_of_le_to_le)
qed

lemma to_from_le:
  "length bs = 2 \<Longrightarrow> u16_to_le (u16_from_le bs) = bs"
  "length bs = 4 \<Longrightarrow> u32_to_le (u32_from_le bs) = bs"
  "length bs = 8 \<Longrightarrow> u64_to_le (u64_from_le bs) = bs"
  using nat_of_le_less [of bs] nat_to_le_of_le [of bs]
  by (simp_all add: u16_from_le_def u16_to_le_def u32_from_le_def u32_to_le_def
      u64_from_le_def u64_to_le_def unat_of_nat)

lemma u16_to_le_inject [simp]: "u16_to_le a = u16_to_le b \<longleftrightarrow> a = b"
  by (metis from_to_le(1))

lemma u32_to_le_inject [simp]: "u32_to_le a = u32_to_le b \<longleftrightarrow> a = b"
  by (metis from_to_le(2))

lemma u64_to_le_inject [simp]: "u64_to_le a = u64_to_le b \<longleftrightarrow> a = b"
  by (metis from_to_le(3))

lemma unat_of_nat_u16 [simp]: "n \<le> U16_MAX \<Longrightarrow> unat (of_nat n :: u16) = n"
  by (simp add: unat_of_nat)

lemma unat_of_nat_u64: "n < 2 ^ 64 \<Longrightarrow> unat (of_nat n :: u64) = n"
  by (simp add: unat_of_nat)

lemma of_nat_u16_pos [simp]: "n \<le> U16_MAX \<Longrightarrow> (0 :: u16) < of_nat n \<longleftrightarrow> 0 < n"
  by (simp add: word_less_nat_alt)

section \<open>Results\<close>

text \<open>\<open>Result<T, E>\<close> as a sum, \<open>Inl\<close> for the error; \<open>bindE\<close> is the \<open>?\<close> operator.\<close>

definition bindE :: "'e + 'a \<Rightarrow> ('a \<Rightarrow> 'e + 'b) \<Rightarrow> 'e + 'b" where
  "bindE m f = (case m of Inl e \<Rightarrow> Inl e | Inr x \<Rightarrow> f x)"

lemma bindE_simps [simp, res_simps]:
  "bindE (Inl e) f = Inl e" "bindE (Inr x) f = f x"
  by (simp_all add: bindE_def)

lemma bindE_eq_Inr [res_simps]: "bindE m f = Inr y \<longleftrightarrow> (\<exists>x. m = Inr x \<and> f x = Inr y)"
  by (cases m) auto

lemma bindE_eq_Inl [res_simps]:
  "bindE m f = Inl e \<longleftrightarrow> m = Inl e \<or> (\<exists>x. m = Inr x \<and> f x = Inl e)"
  by (cases m) auto

definition map_err :: "('e \<Rightarrow> 'f) \<Rightarrow> 'e + 'a \<Rightarrow> 'f + 'a" where
  "map_err h m = (case m of Inl e \<Rightarrow> Inl (h e) | Inr x \<Rightarrow> Inr x)"

definition ok_or :: "'e \<Rightarrow> 'a option \<Rightarrow> 'e + 'a" where
  "ok_or e m = (case m of None \<Rightarrow> Inl e | Some x \<Rightarrow> Inr x)"

lemma map_err_simps [simp, res_simps]:
  "map_err h (Inl e) = Inl (h e)" "map_err h (Inr x) = Inr x"
  by (simp_all add: map_err_def)

lemma map_err_eq_Inr [simp, res_simps]: "map_err h m = Inr x \<longleftrightarrow> m = Inr x"
  by (cases m) auto

lemma ok_or_simps [simp, res_simps]: "ok_or e None = Inl e" "ok_or e (Some x) = Inr x"
  by (simp_all add: ok_or_def)

lemma ok_or_eq_Inr [simp, res_simps]: "ok_or e m = Inr x \<longleftrightarrow> m = Some x"
  by (cases m) auto

definition is_ok :: "'e + 'a \<Rightarrow> bool" where
  "is_ok m \<longleftrightarrow> (case m of Inl _ \<Rightarrow> False | Inr _ \<Rightarrow> True)"

lemma is_ok_simps [simp]: "is_ok (Inr x)" "\<not> is_ok (Inl e)"
  by (simp_all add: is_ok_def)

lemma is_ok_iff: "is_ok m \<longleftrightarrow> (\<exists>x. m = Inr x)"
  by (cases m) auto

section \<open>Computations that draw random bytes\<close>

text \<open>
  Code that calls \<open>OsRng\<close> threads the generator's state \<open>'r\<close>: a computation returns its
  result together with the state after the draws it made.
\<close>

type_synonym ('r, 'e, 'a) rand = "'r \<Rightarrow> ('e + 'a) \<times> 'r"

definition bindR :: "('r, 'e, 'a) rand \<Rightarrow> ('a \<Rightarrow> ('r, 'e, 'b) rand) \<Rightarrow> ('r, 'e, 'b) rand" where
  "bindR m f = (\<lambda>r. case m r of (Inl e, r') \<Rightarrow> (Inl e, r') | (Inr x, r') \<Rightarrow> f x r')"

definition retR :: "'a \<Rightarrow> ('r, 'e, 'a) rand" where
  "retR x = (\<lambda>r. (Inr x, r))"

definition failR :: "'e \<Rightarrow> ('r, 'e, 'a) rand" where
  "failR e = (\<lambda>r. (Inl e, r))"

definition liftR :: "'e + 'a \<Rightarrow> ('r, 'e, 'a) rand" where
  "liftR m = (\<lambda>r. (m, r))"

lemma bindR_eq_Inr [res_simps]:
  "bindR m f r = (Inr y, r'') \<longleftrightarrow> (\<exists>x r'. m r = (Inr x, r') \<and> f x r' = (Inr y, r''))"
  by (cases "m r"; cases "fst (m r)") (auto simp: bindR_def)

lemma bindR_eq_Inl [res_simps]:
  "bindR m f r = (Inl e, r'') \<longleftrightarrow>
     m r = (Inl e, r'') \<or> (\<exists>x r'. m r = (Inr x, r') \<and> f x r' = (Inl e, r''))"
  by (cases "m r"; cases "fst (m r)") (auto simp: bindR_def)

lemma retR_eq [simp, res_simps]: "retR x r = (y, r') \<longleftrightarrow> y = Inr x \<and> r' = r"
  by (auto simp: retR_def)

lemma failR_eq [simp, res_simps]: "failR e r = (y, r') \<longleftrightarrow> y = Inl e \<and> r' = r"
  by (auto simp: failR_def)

lemma liftR_eq [simp, res_simps]: "liftR m r = (y, r') \<longleftrightarrow> m = y \<and> r' = r"
  by (auto simp: liftR_def)

section \<open>Codecs\<close>

text \<open>
  The contract between a serialiser and its parser: on well-formed values parsing undoes
  serialising, and whatever the parser accepts is well formed. Serialisers that pad with random
  bytes take the padding as an argument of type \<open>'p\<close>; padding that \<open>pad_ok\<close> rejects is
  never drawn.
\<close>

locale codec =
  fixes encode :: "'p \<Rightarrow> 'a \<Rightarrow> bytes"
    and decode :: "bytes \<Rightarrow> 'e + 'a"
    and pad_ok :: "'p \<Rightarrow> bool"
    and wf :: "'a \<Rightarrow> bool"
    and width :: nat
  assumes decode_encode: "pad_ok p \<Longrightarrow> wf x \<Longrightarrow> decode (encode p x) = Inr x"
    and encode_width: "pad_ok p \<Longrightarrow> wf x \<Longrightarrow> length (encode p x) = width"
    and decode_wf: "length bs = width \<Longrightarrow> decode bs = Inr x \<Longrightarrow> wf x"
begin

lemma encode_inject:
  "pad_ok p \<Longrightarrow> pad_ok q \<Longrightarrow> wf x \<Longrightarrow> wf y \<Longrightarrow> encode p x = encode q y \<Longrightarrow> x = y"
  using decode_encode [of p x] decode_encode [of q y] by simp

lemma decode_reencode:
  "length bs = width \<Longrightarrow> decode bs = Inr x \<Longrightarrow> pad_ok p \<Longrightarrow> decode (encode p x) = Inr x"
  using decode_wf decode_encode by blast

end

end
