(* ===== verification/Lbx_Crypto.thy ===== *)
theory Lbx_Crypto
  imports Lbx_Prelude
begin

text \<open>
  The cryptographic layer of \<open>luksbox-core\<close>: \<open>error.rs\<close>, \<open>aead.rs\<close>, \<open>kdf.rs\<close> and the
  subkey derivation of \<open>key.rs\<close>. The primitives themselves (the RustCrypto crates \<open>aes-gcm\<close>,
  \<open>aes-gcm-siv\<close>, \<open>chacha20poly1305\<close>, \<open>argon2\<close>, \<open>hkdf\<close>, \<open>hmac\<close>, \<open>chacha20\<close>), the operating
  system's random generator and the memory allocator are not part of the repository: they are
  the fields of the record \<open>env\<close>, an argument of every definition that calls them. What the
  code relies on is stated by the predicates \<open>aead_correct\<close>, \<open>rng_fills\<close>,
  \<open>digest_lengths\<close>, \<open>env_live\<close> and \<open>argon2_ready\<close>; \<open>demo_env\<close> is a concrete environment that
  satisfies them.
\<close>

section \<open>Errors\<close>

text \<open>
  \<open>luksbox_core::Error\<close>; \<open>Panic\<close> is added for the calls to \<open>expect\<close> in the modelled
  code.
\<close>

datatype error =
    InvalidMagic
  | UnsupportedVersion u16 u16
  | UnsupportedCipher u16
  | UnsupportedKdf u16
  | UnsupportedSlotKind u8
  | BufferTooShort nat nat
  | HeaderAuthFailed
  | KeyslotAuthFailed
  | Kdf
  | KdfOutOfMemory u32 u32
  | Aead
  | InvalidKeyslotIndex nat
  | NoFreeKeyslot
  | SepRegionFull
  | EmptyKeyslot
  | InvalidField
  | Fido2CredIdTooLong nat
  | OsRng string
  | Panic string

type_synonym 'a res = "error + 'a"
type_synonym ('r, 'a) rnd = "('r, error, 'a) rand"

section \<open>Cipher suites, KDF ids and Argon2id parameters\<close>

datatype CipherSuite = Aes256Gcm | ChaCha20Poly1305 | Aes256GcmSiv

definition suite_from_u16 :: "u16 \<Rightarrow> CipherSuite res" where
  "suite_from_u16 v =
     (if v = 0x0001 then Inr Aes256Gcm
      else if v = 0x0002 then Inr ChaCha20Poly1305
      else if v = 0x0003 then Inr Aes256GcmSiv
      else Inl (UnsupportedCipher v))"

fun suite_as_u16 :: "CipherSuite \<Rightarrow> u16" where
  "suite_as_u16 Aes256Gcm = 0x0001"
| "suite_as_u16 ChaCha20Poly1305 = 0x0002"
| "suite_as_u16 Aes256GcmSiv = 0x0003"

definition nonce_len :: "CipherSuite \<Rightarrow> nat" where
  "nonce_len suite = 12"

definition tag_len :: "CipherSuite \<Rightarrow> nat" where
  "tag_len suite = 16"

definition recommended :: CipherSuite where
  "recommended = Aes256GcmSiv"

datatype KdfId = Argon2id

definition kdf_from_u16 :: "u16 \<Rightarrow> KdfId res" where
  "kdf_from_u16 v = (if v = 0x0001 then Inr Argon2id else Inl (UnsupportedKdf v))"

fun kdf_as_u16 :: "KdfId \<Rightarrow> u16" where
  "kdf_as_u16 Argon2id = 0x0001"

record Argon2idParams =
  m_cost_kib :: u32
  t_cost :: u32
  p_cost :: u32

abbreviation (input) SAFE_M_COST_KIB_MAX :: u32 where
  "SAFE_M_COST_KIB_MAX \<equiv> 4 * 1024 * 1024"

abbreviation (input) SAFE_T_COST_MAX :: u32 where
  "SAFE_T_COST_MAX \<equiv> 16"

abbreviation (input) SAFE_P_COST_MAX :: u32 where
  "SAFE_P_COST_MAX \<equiv> 16"

definition is_sane_for_disk :: "Argon2idParams \<Rightarrow> bool" where
  "is_sane_for_disk p \<longleftrightarrow>
     8 \<le> m_cost_kib p \<and> m_cost_kib p \<le> SAFE_M_COST_KIB_MAX
     \<and> 1 \<le> t_cost p \<and> t_cost p \<le> SAFE_T_COST_MAX
     \<and> 1 \<le> p_cost p \<and> p_cost p \<le> SAFE_P_COST_MAX"

definition INTERACTIVE :: Argon2idParams where
  "INTERACTIVE = \<lparr>m_cost_kib = 256 * 1024, t_cost = 3, p_cost = 4\<rparr>"

definition MODERATE :: Argon2idParams where
  "MODERATE = \<lparr>m_cost_kib = 512 * 1024, t_cost = 4, p_cost = 4\<rparr>"

definition SENSITIVE :: Argon2idParams where
  "SENSITIVE = \<lparr>m_cost_kib = 1024 * 1024, t_cost = 5, p_cost = 4\<rparr>"

abbreviation (input) zero_params :: Argon2idParams where
  "zero_params \<equiv> \<lparr>m_cost_kib = 0, t_cost = 0, p_cost = 0\<rparr>"

lemma suite_from_as [simp]: "suite_from_u16 (suite_as_u16 s) = Inr s"
  by (cases s) (simp_all add: suite_from_u16_def)

lemma suite_as_from: "suite_from_u16 v = Inr s \<Longrightarrow> suite_as_u16 s = v"
  by (auto simp: suite_from_u16_def split: if_splits)

lemma kdf_from_as [simp]: "kdf_from_u16 (kdf_as_u16 k) = Inr k"
  by (cases k) (simp add: kdf_from_u16_def)

lemma presets_sane: "is_sane_for_disk INTERACTIVE" "is_sane_for_disk MODERATE" "is_sane_for_disk SENSITIVE"
  by (simp_all add: is_sane_for_disk_def INTERACTIVE_def MODERATE_def SENSITIVE_def)

section \<open>The environment\<close>

text \<open>
  One field per outside function. An AEAD maps key, nonce, associated data and message to the
  ciphertext with its tag, or fails. \<open>argon2_block_count\<close> is \<open>Params::new\<close> followed by
  \<open>block_count\<close> (None where \<open>Params::new\<close> refuses the costs); \<open>try_reserve\<close> tells
  whether the allocator grants that many 1 KiB blocks.
\<close>

type_synonym aead_fun = "bytes \<Rightarrow> bytes \<Rightarrow> bytes \<Rightarrow> bytes \<Rightarrow> bytes option"

record 'r env =
  aes_gcm_encrypt :: aead_fun
  aes_gcm_decrypt :: aead_fun
  chacha_encrypt :: aead_fun
  chacha_decrypt :: aead_fun
  aes_gcm_siv_encrypt :: aead_fun
  aes_gcm_siv_decrypt :: aead_fun
  argon2_block_count :: "u32 \<Rightarrow> u32 \<Rightarrow> u32 \<Rightarrow> nat option"
  try_reserve :: "nat \<Rightarrow> bool"
  argon2_hash :: "bytes \<Rightarrow> bytes \<Rightarrow> u32 \<Rightarrow> u32 \<Rightarrow> u32 \<Rightarrow> bytes option"
  hkdf_sha256 :: "bytes \<Rightarrow> bytes \<Rightarrow> bytes \<Rightarrow> bytes"
  hmac_sha256 :: "bytes \<Rightarrow> bytes \<Rightarrow> bytes"
  chacha20_keystream :: "bytes \<Rightarrow> nat \<Rightarrow> bytes"
  try_fill_bytes :: "nat \<Rightarrow> 'r \<Rightarrow> (string + bytes) \<times> 'r"

definition seal :: "'r env \<Rightarrow> CipherSuite \<Rightarrow> bytes \<Rightarrow> bytes \<Rightarrow> bytes \<Rightarrow> bytes \<Rightarrow> bytes res" where
  "seal E suite key nonce aad plaintext =
     (case suite of
        Aes256Gcm \<Rightarrow> ok_or Aead (aes_gcm_encrypt E key nonce aad plaintext)
      | ChaCha20Poly1305 \<Rightarrow> ok_or Aead (chacha_encrypt E key nonce aad plaintext)
      | Aes256GcmSiv \<Rightarrow> ok_or Aead (aes_gcm_siv_encrypt E key nonce aad plaintext))"

definition aead_open :: "'r env \<Rightarrow> CipherSuite \<Rightarrow> bytes \<Rightarrow> bytes \<Rightarrow> bytes \<Rightarrow> bytes \<Rightarrow> bytes res" where
  "aead_open E suite key nonce aad ciphertext =
     (case suite of
        Aes256Gcm \<Rightarrow> ok_or Aead (aes_gcm_decrypt E key nonce aad ciphertext)
      | ChaCha20Poly1305 \<Rightarrow> ok_or Aead (chacha_decrypt E key nonce aad ciphertext)
      | Aes256GcmSiv \<Rightarrow> ok_or Aead (aes_gcm_siv_decrypt E key nonce aad ciphertext))"

text \<open>A draw of \<open>n\<close> bytes, its failure mapped to \<open>Error::OsRng\<close> as every caller does.\<close>

definition fill :: "'r env \<Rightarrow> nat \<Rightarrow> ('r, bytes) rnd" where
  "fill E n = (\<lambda>r. case try_fill_bytes E n r of
      (Inl msg, r') \<Rightarrow> (Inl (OsRng msg), r')
    | (Inr bs, r') \<Rightarrow> (Inr bs, r'))"

text \<open>A draw whose failure panics (\<open>expect\<close>).\<close>

definition fill_expect :: "'r env \<Rightarrow> string \<Rightarrow> nat \<Rightarrow> ('r, bytes) rnd" where
  "fill_expect E what n = (\<lambda>r. case try_fill_bytes E n r of
      (Inl msg, r') \<Rightarrow> (Inl (Panic what), r')
    | (Inr bs, r') \<Rightarrow> (Inr bs, r'))"

section \<open>What the code relies on\<close>

definition aead_pair_ok :: "aead_fun \<Rightarrow> aead_fun \<Rightarrow> bool" where
  "aead_pair_ok enc dec \<longleftrightarrow>
     (\<forall>k n a m c. enc k n a m = Some c \<longrightarrow> dec k n a c = Some m \<and> length c = length m + 16)"

definition aead_correct :: "'r env \<Rightarrow> bool" where
  "aead_correct E \<longleftrightarrow>
     aead_pair_ok (aes_gcm_encrypt E) (aes_gcm_decrypt E)
     \<and> aead_pair_ok (chacha_encrypt E) (chacha_decrypt E)
     \<and> aead_pair_ok (aes_gcm_siv_encrypt E) (aes_gcm_siv_decrypt E)"

definition rng_fills :: "'r env \<Rightarrow> bool" where
  "rng_fills E \<longleftrightarrow> (\<forall>n r bs r'. try_fill_bytes E n r = (Inr bs, r') \<longrightarrow> length bs = n)"

definition digest_lengths :: "'r env \<Rightarrow> bool" where
  "digest_lengths E \<longleftrightarrow>
     (\<forall>salt ikm info. length (hkdf_sha256 E salt ikm info) = 32)
     \<and> (\<forall>key data. length (hmac_sha256 E key data) = 32)
     \<and> (\<forall>key n. length (chacha20_keystream E key n) = n)
     \<and> (\<forall>pw salt m t p k. argon2_hash E pw salt m t p = Some k \<longrightarrow> length k = 32)"

text \<open>
  What the code needs to get through: the generator delivers, the ciphers accept messages far
  below their documented limits, and (for \<open>argon2_ready\<close>) the costs are ones that
  \<open>Params::new\<close> accepts and the allocator can serve.
\<close>

definition env_live :: "'r env \<Rightarrow> bool" where
  "env_live E \<longleftrightarrow>
     (\<forall>n r. \<exists>bs r'. try_fill_bytes E n r = (Inr bs, r'))
     \<and> (\<forall>k n a m. length m \<le> 2 ^ 32 \<longrightarrow>
          aes_gcm_encrypt E k n a m \<noteq> None \<and> chacha_encrypt E k n a m \<noteq> None
          \<and> aes_gcm_siv_encrypt E k n a m \<noteq> None)"

definition argon2_ready :: "'r env \<Rightarrow> Argon2idParams \<Rightarrow> bool" where
  "argon2_ready E p \<longleftrightarrow>
     (\<exists>n. argon2_block_count E (m_cost_kib p) (t_cost p) (p_cost p) = Some n \<and> try_reserve E n)
     \<and> (\<forall>pw salt. argon2_hash E pw salt (m_cost_kib p) (t_cost p) (p_cost p) \<noteq> None)"

lemma seal_open:
  "aead_correct E \<Longrightarrow> seal E suite k n a m = Inr c \<Longrightarrow> aead_open E suite k n a c = Inr m"
  by (cases suite) (auto simp: seal_def aead_open_def aead_correct_def aead_pair_ok_def)

lemma seal_length:
  "aead_correct E \<Longrightarrow> seal E suite k n a m = Inr c \<Longrightarrow> length c = length m + 16"
  by (cases suite) (auto simp: seal_def aead_correct_def aead_pair_ok_def)

lemma fill_length: "rng_fills E \<Longrightarrow> fill E n r = (Inr bs, r') \<Longrightarrow> length bs = n"
  by (auto simp: fill_def rng_fills_def split: prod.splits sum.splits)

lemma fill_expect_length: "rng_fills E \<Longrightarrow> fill_expect E w n r = (Inr bs, r') \<Longrightarrow> length bs = n"
  by (auto simp: fill_expect_def rng_fills_def split: prod.splits sum.splits)

text \<open>A computation that returns a result from every generator state.\<close>

definition succeeds :: "('r, 'e, 'a) rand \<Rightarrow> bool" where
  "succeeds m \<longleftrightarrow> (\<forall>r. \<exists>x r'. m r = (Inr x, r'))"

named_theorems live_intros "computations that succeed in a live environment"

lemma succeeds_bindR [live_intros]: "succeeds m \<Longrightarrow> (\<And>x. succeeds (f x)) \<Longrightarrow> succeeds (bindR m f)"
  unfolding succeeds_def bindR_eq_Inr by metis

lemma succeeds_retR [live_intros]: "succeeds (retR x)"
  by (simp add: succeeds_def)

lemma succeeds_liftR [live_intros]: "is_ok m \<Longrightarrow> succeeds (liftR m)"
  by (auto simp: succeeds_def is_ok_iff)

lemma succeeds_fill [live_intros]:
  assumes "env_live E"
  shows "succeeds (fill E n)"
  unfolding succeeds_def
proof
  fix r
  from assms obtain bs r' where "try_fill_bytes E n r = (Inr bs, r')"
    unfolding env_live_def by blast
  then have "fill E n r = (Inr bs, r')" by (simp add: fill_def)
  then show "\<exists>x r'. fill E n r = (Inr x, r')" by blast
qed

lemma succeeds_fill_expect [live_intros]:
  assumes "env_live E"
  shows "succeeds (fill_expect E w n)"
  unfolding succeeds_def
proof
  fix r
  from assms obtain bs r' where "try_fill_bytes E n r = (Inr bs, r')"
    unfolding env_live_def by blast
  then have "fill_expect E w n r = (Inr bs, r')" by (simp add: fill_expect_def)
  then show "\<exists>x r'. fill_expect E w n r = (Inr x, r')" by blast
qed

lemma is_ok_bindE [live_intros]: "is_ok m \<Longrightarrow> (\<And>x. m = Inr x \<Longrightarrow> is_ok (f x)) \<Longrightarrow> is_ok (bindE m f)"
  by (cases m) auto

lemma seal_live: "env_live E \<Longrightarrow> length m \<le> 2 ^ 32 \<Longrightarrow> is_ok (seal E suite k n a m)"
  by (cases suite) (auto simp: env_live_def seal_def ok_or_def split: option.splits)

lemma hkdf_length [simp]: "digest_lengths E \<Longrightarrow> length (hkdf_sha256 E salt ikm info) = 32"
  unfolding digest_lengths_def by blast

lemma keystream_length [simp]: "digest_lengths E \<Longrightarrow> length (chacha20_keystream E key n) = n"
  unfolding digest_lengths_def by blast

lemma hmac_length [simp]: "digest_lengths E \<Longrightarrow> length (hmac_sha256 E key data) = 32"
  unfolding digest_lengths_def by blast

section \<open>Key derivation\<close>

abbreviation (input) KEY_LEN :: nat where
  "KEY_LEN \<equiv> 32"

text \<open>Byte-string literals.\<close>

definition bstr :: "string \<Rightarrow> bytes" where
  "bstr s = map (\<lambda>c. of_nat (of_char c)) s"

definition derive_subkey :: "'r env \<Rightarrow> bytes \<Rightarrow> bytes \<Rightarrow> bytes \<Rightarrow> bytes" where
  "derive_subkey E mvk salt info = hkdf_sha256 E salt mvk info"

definition derive_kek :: "'r env \<Rightarrow> bytes \<Rightarrow> bytes \<Rightarrow> Argon2idParams \<Rightarrow> bytes res" where
  "derive_kek E passphrase salt params =
     (case argon2_block_count E (m_cost_kib params) (t_cost params) (p_cost params) of
        None \<Rightarrow> Inl Kdf
      | Some block_count \<Rightarrow>
          if \<not> try_reserve E block_count
          then (let needed_kib = of_nat block_count :: u32
                in Inl (KdfOutOfMemory needed_kib (needed_kib div 1024)))
          else ok_or Kdf (argon2_hash E passphrase salt
                            (m_cost_kib params) (t_cost params) (p_cost params)))"

text \<open>The Argon2id input of the FIDO2 slots: \<open>"lbx:fido" || passphrase || 0xff || hmac_secret\<close>.\<close>

definition fido2_kdf_input :: "bytes \<Rightarrow> bytes \<Rightarrow> bytes" where
  "fido2_kdf_input passphrase hmac_secret = bstr ''lbx:fido'' @ passphrase @ [0xff] @ hmac_secret"

definition derive_kek_with_fido2 ::
  "'r env \<Rightarrow> bytes \<Rightarrow> bytes \<Rightarrow> bytes \<Rightarrow> Argon2idParams \<Rightarrow> bytes res" where
  "derive_kek_with_fido2 E passphrase hmac_secret salt params =
     (if 0xff \<in> set passphrase then Inl InvalidField
      else derive_kek E (fido2_kdf_input passphrase hmac_secret) salt params)"

definition derive_hybrid_fido2_kek ::
  "'r env \<Rightarrow> bytes \<Rightarrow> bytes \<Rightarrow> bytes \<Rightarrow> bytes \<Rightarrow> Argon2idParams \<Rightarrow> bytes res" where
  "derive_hybrid_fido2_kek E passphrase hmac_secret pq_shared salt params =
     bindE (derive_kek_with_fido2 E passphrase hmac_secret salt params) (\<lambda>classical.
       Inr (hkdf_sha256 E salt (classical @ pq_shared) (bstr ''lbx:hybrid-fido-kek/v1'')))"

definition derive_hybrid_kek ::
  "'r env \<Rightarrow> bytes \<Rightarrow> bytes \<Rightarrow> bytes \<Rightarrow> Argon2idParams \<Rightarrow> bytes res" where
  "derive_hybrid_kek E passphrase pq_shared salt params =
     bindE (derive_kek E passphrase salt params) (\<lambda>classical.
       Inr (hkdf_sha256 E salt (classical @ pq_shared) (bstr ''lbx:hybrid-kek/v1'')))"

lemma argon2_hash_length:
  "digest_lengths E \<Longrightarrow> argon2_hash E pw salt m t p = Some k \<Longrightarrow> length k = 32"
  unfolding digest_lengths_def by blast

lemma derive_kek_length:
  assumes "digest_lengths E" and "derive_kek E pw salt params = Inr k"
  shows "length k = 32"
proof -
  from assms(2) have
    "argon2_hash E pw salt (m_cost_kib params) (t_cost params) (p_cost params) = Some k"
    by (simp add: derive_kek_def Let_def split: option.splits if_splits)
  with assms(1) show ?thesis by (rule argon2_hash_length)
qed

lemma derive_kek_live [live_intros]:
  assumes "argon2_ready E params"
  shows "is_ok (derive_kek E pw salt params)"
proof -
  from assms obtain n where n: "argon2_block_count E (m_cost_kib params) (t_cost params) (p_cost params) = Some n"
    "try_reserve E n"
    unfolding argon2_ready_def by blast
  from assms have "argon2_hash E pw salt (m_cost_kib params) (t_cost params) (p_cost params) \<noteq> None"
    unfolding argon2_ready_def by blast
  with n show ?thesis by (auto simp: derive_kek_def)
qed

lemma derive_kek_with_fido2_live [live_intros]:
  "argon2_ready E params \<Longrightarrow> 0xff \<notin> set pw \<Longrightarrow> is_ok (derive_kek_with_fido2 E pw h salt params)"
  by (simp add: derive_kek_with_fido2_def derive_kek_live)

section \<open>A concrete environment\<close>

text \<open>
  A small environment that meets the three assumptions, for evaluating the model: the
  ``ciphers'' append a 16-byte checksum of key, nonce, associated data and message, the
  digests are checksums, and the generator counts.
\<close>

definition checksum :: "bytes \<Rightarrow> u8" where
  "checksum bs = fold (\<lambda>b acc. 3 * acc + b + 1) bs 7"

definition demo_encrypt :: aead_fun where
  "demo_encrypt k n a m = Some (m @ replicate 16 (checksum (k @ n @ a @ m)))"

definition demo_decrypt :: aead_fun where
  "demo_decrypt k n a c =
     (let m = take (length c - 16) c in
      if 16 \<le> length c \<and> drop (length c - 16) c = replicate 16 (checksum (k @ n @ a @ m))
      then Some m else None)"

definition demo_env :: "nat env" where
  "demo_env = \<lparr>
     aes_gcm_encrypt = demo_encrypt, aes_gcm_decrypt = demo_decrypt,
     chacha_encrypt = demo_encrypt, chacha_decrypt = demo_decrypt,
     aes_gcm_siv_encrypt = demo_encrypt, aes_gcm_siv_decrypt = demo_decrypt,
     argon2_block_count = (\<lambda>m t p. if m < 8 \<or> t = 0 \<or> p = 0 then None else Some (unat m)),
     try_reserve = (\<lambda>n. n \<le> 4194304),
     argon2_hash = (\<lambda>pw salt m t p. Some (replicate 32 (checksum (pw @ salt)))),
     hkdf_sha256 = (\<lambda>salt ikm info. replicate 32 (checksum (salt @ ikm @ info))),
     hmac_sha256 = (\<lambda>key data. replicate 32 (checksum (key @ data))),
     chacha20_keystream = (\<lambda>key n. replicate n (checksum key)),
     try_fill_bytes = (\<lambda>n r. (Inr (replicate n (of_nat r)), Suc r))\<rparr>"

lemma demo_pair_ok: "aead_pair_ok demo_encrypt demo_decrypt"
  by (auto simp: aead_pair_ok_def demo_encrypt_def demo_decrypt_def Let_def)

lemma demo_env_ok: "aead_correct demo_env" "rng_fills demo_env" "digest_lengths demo_env"
  by (simp_all add: aead_correct_def rng_fills_def digest_lengths_def demo_env_def demo_pair_ok)

lemma demo_env_live: "env_live demo_env"
  by (simp add: env_live_def demo_env_def demo_encrypt_def)

lemma demo_argon2_ready: "is_sane_for_disk p \<Longrightarrow> argon2_ready demo_env p"
  by (auto simp: argon2_ready_def demo_env_def is_sane_for_disk_def word_le_nat_alt word_less_nat_alt)

end
