(* ===== verification/Lbx_SlotKind.thy ===== *)
theory Lbx_SlotKind
  imports Lbx_Crypto
begin

text \<open>
  \<open>SlotKind\<close> of \<open>luksbox-core/src/keyslot.rs\<close>: the 28 keyslot kinds, their on-disk byte and
  the predicates that classify them. The lemmas relate the byte to the kind in both directions
  and state how the classes nest, which the parser, the constructors and the unlock paths rely
  on.
\<close>

datatype SlotKind =
    Empty
  | Passphrase
  | Fido2HmacSecret
  | Fido2DerivedMvk
  | HybridPqKemPassphrase
  | HybridPqKemFido2
  | HybridPqKem1024Passphrase
  | HybridPqKem1024Fido2
  | Tpm2Sealed
  | Tpm2Fido2
  | Tpm2SealedPin
  | HybridPqKemTpm2
  | HybridPqKemTpm2Fido2
  | HybridPqKem1024Tpm2
  | HybridPqKem1024Tpm2Fido2
  | SepSealed
  | SepSealedBiometric
  | HybridPqKemSep
  | HybridPqKem1024Sep
  | SepFido2
  | HybridPqKemSepFido2
  | HybridPqKem1024SepFido2
  | SepPassphrase
  | HybridPqKemSepPassphrase
  | HybridPqKem1024SepPassphrase
  | SepFido2Passphrase
  | HybridPqKemSepFido2Passphrase
  | HybridPqKem1024SepFido2Passphrase

fun kind_as_u8 :: "SlotKind \<Rightarrow> u8" where
  "kind_as_u8 Empty = 0"
| "kind_as_u8 Passphrase = 1"
| "kind_as_u8 Fido2HmacSecret = 2"
| "kind_as_u8 Fido2DerivedMvk = 3"
| "kind_as_u8 HybridPqKemPassphrase = 4"
| "kind_as_u8 HybridPqKemFido2 = 5"
| "kind_as_u8 HybridPqKem1024Passphrase = 6"
| "kind_as_u8 HybridPqKem1024Fido2 = 7"
| "kind_as_u8 Tpm2Sealed = 8"
| "kind_as_u8 Tpm2Fido2 = 9"
| "kind_as_u8 Tpm2SealedPin = 10"
| "kind_as_u8 HybridPqKemTpm2 = 11"
| "kind_as_u8 HybridPqKemTpm2Fido2 = 12"
| "kind_as_u8 HybridPqKem1024Tpm2 = 13"
| "kind_as_u8 HybridPqKem1024Tpm2Fido2 = 14"
| "kind_as_u8 SepSealed = 15"
| "kind_as_u8 SepSealedBiometric = 16"
| "kind_as_u8 HybridPqKemSep = 17"
| "kind_as_u8 HybridPqKem1024Sep = 18"
| "kind_as_u8 SepFido2 = 19"
| "kind_as_u8 HybridPqKemSepFido2 = 20"
| "kind_as_u8 HybridPqKem1024SepFido2 = 21"
| "kind_as_u8 SepPassphrase = 22"
| "kind_as_u8 HybridPqKemSepPassphrase = 23"
| "kind_as_u8 HybridPqKem1024SepPassphrase = 24"
| "kind_as_u8 SepFido2Passphrase = 25"
| "kind_as_u8 HybridPqKemSepFido2Passphrase = 26"
| "kind_as_u8 HybridPqKem1024SepFido2Passphrase = 27"

definition kind_from_u8 :: "u8 \<Rightarrow> SlotKind res" where
  "kind_from_u8 v =
     (if v = 0 then Inr Empty
      else if v = 1 then Inr Passphrase
      else if v = 2 then Inr Fido2HmacSecret
      else if v = 3 then Inr Fido2DerivedMvk
      else if v = 4 then Inr HybridPqKemPassphrase
      else if v = 5 then Inr HybridPqKemFido2
      else if v = 6 then Inr HybridPqKem1024Passphrase
      else if v = 7 then Inr HybridPqKem1024Fido2
      else if v = 8 then Inr Tpm2Sealed
      else if v = 9 then Inr Tpm2Fido2
      else if v = 10 then Inr Tpm2SealedPin
      else if v = 11 then Inr HybridPqKemTpm2
      else if v = 12 then Inr HybridPqKemTpm2Fido2
      else if v = 13 then Inr HybridPqKem1024Tpm2
      else if v = 14 then Inr HybridPqKem1024Tpm2Fido2
      else if v = 15 then Inr SepSealed
      else if v = 16 then Inr SepSealedBiometric
      else if v = 17 then Inr HybridPqKemSep
      else if v = 18 then Inr HybridPqKem1024Sep
      else if v = 19 then Inr SepFido2
      else if v = 20 then Inr HybridPqKemSepFido2
      else if v = 21 then Inr HybridPqKem1024SepFido2
      else if v = 22 then Inr SepPassphrase
      else if v = 23 then Inr HybridPqKemSepPassphrase
      else if v = 24 then Inr HybridPqKem1024SepPassphrase
      else if v = 25 then Inr SepFido2Passphrase
      else if v = 26 then Inr HybridPqKemSepFido2Passphrase
      else if v = 27 then Inr HybridPqKem1024SepFido2Passphrase
      else Inl (UnsupportedSlotKind v))"

section \<open>Classes of kinds\<close>

definition is_hybrid_pq :: "SlotKind \<Rightarrow> bool" where
  "is_hybrid_pq k \<longleftrightarrow> k \<in> {HybridPqKemPassphrase, HybridPqKemFido2, HybridPqKem1024Passphrase,
     HybridPqKem1024Fido2, HybridPqKemTpm2, HybridPqKemTpm2Fido2, HybridPqKem1024Tpm2,
     HybridPqKem1024Tpm2Fido2, HybridPqKemSep, HybridPqKem1024Sep, HybridPqKemSepFido2,
     HybridPqKem1024SepFido2, HybridPqKemSepPassphrase, HybridPqKem1024SepPassphrase,
     HybridPqKemSepFido2Passphrase, HybridPqKem1024SepFido2Passphrase}"

definition is_hybrid_pq_1024 :: "SlotKind \<Rightarrow> bool" where
  "is_hybrid_pq_1024 k \<longleftrightarrow> k \<in> {HybridPqKem1024Passphrase, HybridPqKem1024Fido2,
     HybridPqKem1024Tpm2, HybridPqKem1024Tpm2Fido2, HybridPqKem1024Sep, HybridPqKem1024SepFido2,
     HybridPqKem1024SepPassphrase, HybridPqKem1024SepFido2Passphrase}"

definition is_hybrid_pq_passphrase :: "SlotKind \<Rightarrow> bool" where
  "is_hybrid_pq_passphrase k \<longleftrightarrow> k \<in> {HybridPqKemPassphrase, HybridPqKem1024Passphrase}"

definition is_hybrid_pq_fido2 :: "SlotKind \<Rightarrow> bool" where
  "is_hybrid_pq_fido2 k \<longleftrightarrow> k \<in> {HybridPqKemFido2, HybridPqKem1024Fido2}"

definition is_tpm2 :: "SlotKind \<Rightarrow> bool" where
  "is_tpm2 k \<longleftrightarrow> k \<in> {Tpm2Sealed, Tpm2Fido2, Tpm2SealedPin, HybridPqKemTpm2,
     HybridPqKemTpm2Fido2, HybridPqKem1024Tpm2, HybridPqKem1024Tpm2Fido2}"

definition is_tpm2_fido2 :: "SlotKind \<Rightarrow> bool" where
  "is_tpm2_fido2 k \<longleftrightarrow> k \<in> {Tpm2Fido2, HybridPqKemTpm2Fido2, HybridPqKem1024Tpm2Fido2}"

definition is_tpm2_pin :: "SlotKind \<Rightarrow> bool" where
  "is_tpm2_pin k \<longleftrightarrow> k = Tpm2SealedPin"

definition is_sep :: "SlotKind \<Rightarrow> bool" where
  "is_sep k \<longleftrightarrow> k \<in> {SepSealed, SepSealedBiometric, HybridPqKemSep, HybridPqKem1024Sep,
     SepFido2, HybridPqKemSepFido2, HybridPqKem1024SepFido2, SepPassphrase,
     HybridPqKemSepPassphrase, HybridPqKem1024SepPassphrase, SepFido2Passphrase,
     HybridPqKemSepFido2Passphrase, HybridPqKem1024SepFido2Passphrase}"

definition is_sep_biometric :: "SlotKind \<Rightarrow> bool" where
  "is_sep_biometric k \<longleftrightarrow> k = SepSealedBiometric"

definition is_sep_fido2 :: "SlotKind \<Rightarrow> bool" where
  "is_sep_fido2 k \<longleftrightarrow> k \<in> {SepFido2, HybridPqKemSepFido2, HybridPqKem1024SepFido2,
     SepFido2Passphrase, HybridPqKemSepFido2Passphrase, HybridPqKem1024SepFido2Passphrase}"

definition has_inline_hmac_salt :: "SlotKind \<Rightarrow> bool" where
  "has_inline_hmac_salt k \<longleftrightarrow>
     k \<in> {Fido2HmacSecret, Fido2DerivedMvk, HybridPqKemFido2, HybridPqKem1024Fido2, Tpm2Fido2,
          HybridPqKemTpm2Fido2, HybridPqKem1024Tpm2Fido2} \<or> is_sep_fido2 k"

definition is_sep_passphrase :: "SlotKind \<Rightarrow> bool" where
  "is_sep_passphrase k \<longleftrightarrow> k \<in> {SepPassphrase, HybridPqKemSepPassphrase,
     HybridPqKem1024SepPassphrase, SepFido2Passphrase, HybridPqKemSepFido2Passphrase,
     HybridPqKem1024SepFido2Passphrase}"

text \<open>The kinds whose unlock runs Argon2id (\<open>kdf_runs_argon2\<close> in \<open>Keyslot::from_bytes\<close>).\<close>

definition kdf_runs_argon2 :: "SlotKind \<Rightarrow> bool" where
  "kdf_runs_argon2 k \<longleftrightarrow>
     k \<in> {Passphrase, Fido2HmacSecret, HybridPqKemPassphrase, HybridPqKemFido2,
          HybridPqKem1024Passphrase, HybridPqKem1024Fido2} \<or> is_sep_passphrase k"

text \<open>The kinds whose variable region holds the raw TPM blob, without a sub-format.\<close>

definition raw_tpm_blob :: "SlotKind \<Rightarrow> bool" where
  "raw_tpm_blob k \<longleftrightarrow> k \<in> {Tpm2Sealed, Tpm2SealedPin, HybridPqKemTpm2, HybridPqKem1024Tpm2}"

lemmas kind_class_defs =
  is_hybrid_pq_def is_hybrid_pq_1024_def is_hybrid_pq_passphrase_def is_hybrid_pq_fido2_def
  is_tpm2_def is_tpm2_fido2_def is_tpm2_pin_def is_sep_def is_sep_biometric_def is_sep_fido2_def
  has_inline_hmac_salt_def is_sep_passphrase_def kdf_runs_argon2_def raw_tpm_blob_def

section \<open>The kind byte\<close>

lemma kind_from_as [simp]: "kind_from_u8 (kind_as_u8 k) = Inr k"
  by (cases k) (simp_all add: kind_from_u8_def)

lemma kind_as_u8_inject [simp]: "kind_as_u8 k = kind_as_u8 k' \<longleftrightarrow> k = k'"
  by (metis kind_from_as sum.inject(2))

lemma kind_as_from: "kind_from_u8 v = Inr k \<Longrightarrow> kind_as_u8 k = v"
  unfolding kind_from_u8_def by (auto split: if_splits)

lemma kind_as_u8_zero [simp]: "kind_as_u8 k = 0 \<longleftrightarrow> k = Empty"
  by (metis kind_as_u8.simps(1) kind_as_u8_inject)

lemma kind_from_u8_error: "kind_from_u8 v = Inl e \<Longrightarrow> e = UnsupportedSlotKind v"
  unfolding kind_from_u8_def by (auto split: if_splits)

lemma kind_bytes_cover:
  fixes v :: u8
  assumes "\<not> 27 < v"
  shows "\<exists>k. kind_as_u8 k = v"
proof -
  have "unat v \<in> set [0..<28]" using assms by (simp add: word_less_nat_alt)
  then have "v \<in> of_nat ` set [0..<28]" by (intro image_eqI [of _ _ "unat v"]) simp_all
  then have "v \<in> {0, 1, 2, 3, 4, 5, 6, 7, 8, 9, 10, 11, 12, 13, 14, 15, 16, 17, 18, 19, 20, 21, 22, 23, 24, 25, 26, 27}"
    by (simp add: upt_conv_Cons)
  then have "is_ok (kind_from_u8 v)" by (elim insertE emptyE) (simp_all add: kind_from_u8_def)
  then show ?thesis by (auto simp: is_ok_iff dest: kind_as_from)
qed

section \<open>How the classes nest\<close>

lemma has_inline_hmac_salt_iff:
  "has_inline_hmac_salt k \<longleftrightarrow>
     k = Fido2HmacSecret \<or> k = Fido2DerivedMvk \<or> is_hybrid_pq_fido2 k \<or> is_tpm2_fido2 k \<or> is_sep_fido2 k"
  by (auto simp: kind_class_defs)

lemma class_disjoint:
  "\<not> (is_sep k \<and> is_tpm2 k)" "\<not> (raw_tpm_blob k \<and> has_inline_hmac_salt k)"
  "is_sep k \<Longrightarrow> has_inline_hmac_salt k \<longleftrightarrow> is_sep_fido2 k"
  "\<not> (is_sep k \<and> raw_tpm_blob k)"
  by (cases k; simp add: kind_class_defs)+

lemma class_subset:
  "is_sep_fido2 k \<Longrightarrow> is_sep k" "is_sep_passphrase k \<Longrightarrow> is_sep k"
  "is_hybrid_pq_1024 k \<Longrightarrow> is_hybrid_pq k" "is_tpm2_fido2 k \<Longrightarrow> is_tpm2 k"
  "raw_tpm_blob k \<Longrightarrow> is_tpm2 k"
  by (cases k; simp add: kind_class_defs)+

lemma is_tpm2_split: "is_tpm2 k \<longleftrightarrow> raw_tpm_blob k \<or> is_tpm2_fido2 k"
  by (auto simp: kind_class_defs)

lemma Empty_classes [simp]:
  "\<not> has_inline_hmac_salt Empty" "\<not> kdf_runs_argon2 Empty" "\<not> raw_tpm_blob Empty" "\<not> is_sep Empty"
  by (simp_all add: kind_class_defs)

section \<open>Properties\<close>

text \<open>
  The kind byte is a faithful code. The parser accepts a byte as a kind exactly when that kind
  writes that byte, so the 28 kinds have distinct bytes and no byte is read as a different kind;
  exactly the bytes above 27 are refused, with the byte in the error.
\<close>

theorem kind_byte_code:
  "(kind_from_u8 v = Inr k \<longleftrightarrow> kind_as_u8 k = v)
   \<and> (kind_from_u8 v = Inl e \<longleftrightarrow> 27 < v \<and> e = UnsupportedSlotKind v)"
proof
  show "kind_from_u8 v = Inr k \<longleftrightarrow> kind_as_u8 k = v"
    using kind_as_from kind_from_as by blast
  have "kind_as_u8 k \<le> 27" for k by (cases k) simp_all
  moreover have "kind_from_u8 v = Inr k \<longleftrightarrow> kind_as_u8 k = v" for k
    using kind_as_from kind_from_as by blast
  moreover have "\<exists>k. kind_as_u8 k = v" if "\<not> 27 < v"
    using that kind_bytes_cover by simp
  ultimately show "kind_from_u8 v = Inl e \<longleftrightarrow> 27 < v \<and> e = UnsupportedSlotKind v"
    using kind_from_u8_error by (metis linorder_not_le sum.exhaust sum.inject(1) sum.simps(4))
qed

end
