(* ===== verification/Lbx_Keyslot.thy ===== *)
theory Lbx_Keyslot
  imports Lbx_SlotKind
begin

text \<open>
  The 512-byte keyslot of \<open>luksbox-core/src/keyslot.rs\<close>: its record, its on-disk layout
  (\<open>to_bytes\<close>, \<open>from_bytes\<close>), the associated data that binds it (\<open>build_aead_aad\<close>) and the
  wrap and unwrap of the master volume key. \<open>slot_wf\<close> is the invariant of every slot the
  constructors build and the parser accepts. The lemmas show that parsing undoes serialising
  for every kind and layout version, that the parser establishes the invariant, and that the
  associated data determines every field it is meant to bind.
\<close>

section \<open>Layout\<close>

abbreviation (input) SLOT_SIZE :: nat where "SLOT_SIZE \<equiv> 512"
abbreviation (input) FIDO2_CRED_ID_MAX :: nat where "FIDO2_CRED_ID_MAX \<equiv> 352"
abbreviation (input) FIDO2_CRED_ID_MAX_V1V2 :: nat where "FIDO2_CRED_ID_MAX_V1V2 \<equiv> 128"
abbreviation (input) FIDO2_HMAC_SALT_LEN :: nat where "FIDO2_HMAC_SALT_LEN \<equiv> 32"
abbreviation (input) OFF_KIND :: nat where "OFF_KIND \<equiv> 0"
abbreviation (input) OFF_AAD_VERSION :: nat where "OFF_AAD_VERSION \<equiv> 1"
abbreviation (input) AAD_VERSION_V1 :: u8 where "AAD_VERSION_V1 \<equiv> 0"
abbreviation (input) AAD_VERSION_V2 :: u8 where "AAD_VERSION_V2 \<equiv> 1"
abbreviation (input) AAD_VERSION_V3 :: u8 where "AAD_VERSION_V3 \<equiv> 2"
abbreviation (input) AAD_VERSION_V4 :: u8 where "AAD_VERSION_V4 \<equiv> 3"
abbreviation (input) OFF_UUID :: nat where "OFF_UUID \<equiv> 4"
abbreviation (input) OFF_M_COST :: nat where "OFF_M_COST \<equiv> 20"
abbreviation (input) OFF_T_COST :: nat where "OFF_T_COST \<equiv> 24"
abbreviation (input) OFF_P_COST :: nat where "OFF_P_COST \<equiv> 28"
abbreviation (input) OFF_KDF_SALT :: nat where "OFF_KDF_SALT \<equiv> 32"
abbreviation (input) OFF_AEAD_NONCE :: nat where "OFF_AEAD_NONCE \<equiv> 64"
abbreviation (input) OFF_WRAPPED_CT :: nat where "OFF_WRAPPED_CT \<equiv> 76"
abbreviation (input) OFF_WRAPPED_TAG :: nat where "OFF_WRAPPED_TAG \<equiv> 108"
abbreviation (input) OFF_CRED_LEN :: nat where "OFF_CRED_LEN \<equiv> 124"
abbreviation (input) OFF_HMAC_SALT_LEN :: nat where "OFF_HMAC_SALT_LEN \<equiv> 126"
abbreviation (input) OFF_CRED :: nat where "OFF_CRED \<equiv> 128"
abbreviation (input) OFF_HMAC_SALT_V1V2 :: nat where "OFF_HMAC_SALT_V1V2 \<equiv> 256"
abbreviation (input) OFF_HMAC_SALT_V3 :: nat where "OFF_HMAC_SALT_V3 \<equiv> 480"
abbreviation (input) SLOT_AAD_LEN :: nat where "SLOT_AAD_LEN \<equiv> OFF_WRAPPED_CT"

definition slot_layout :: "u8 \<Rightarrow> nat \<times> nat" where
  "slot_layout v =
     (if v = AAD_VERSION_V1 \<or> v = AAD_VERSION_V2 then (FIDO2_CRED_ID_MAX_V1V2, OFF_HMAC_SALT_V1V2)
      else (FIDO2_CRED_ID_MAX, OFF_HMAC_SALT_V3))"

record Keyslot =
  kind :: SlotKind
  aad_version :: u8
  uuid :: bytes
  kdf_params :: Argon2idParams
  kdf_salt :: bytes
  aead_nonce :: bytes
  wrapped_ct :: bytes
  wrapped_tag :: bytes
  fido2_cred_id :: bytes
  fido2_hmac_salt :: bytes

definition empty_slot :: Keyslot where
  "empty_slot = \<lparr>kind = Empty, aad_version = AAD_VERSION_V1, uuid = replicate 16 0,
     kdf_params = zero_params, kdf_salt = replicate 32 0, aead_nonce = replicate 12 0,
     wrapped_ct = replicate 32 0, wrapped_tag = replicate 16 0,
     fido2_cred_id = [], fido2_hmac_salt = replicate 32 0\<rparr>"

definition slot_is_empty :: "Keyslot \<Rightarrow> bool" where
  "slot_is_empty s \<longleftrightarrow> kind s = Empty"

definition fido2_salt_prehashed :: "Keyslot \<Rightarrow> bool" where
  "fido2_salt_prehashed s \<longleftrightarrow> AAD_VERSION_V4 \<le> aad_version s"

definition touches_fido2 :: "Keyslot \<Rightarrow> bool" where
  "touches_fido2 s \<longleftrightarrow>
     kind s \<in> {Fido2HmacSecret, Fido2DerivedMvk, HybridPqKemFido2, HybridPqKem1024Fido2, Tpm2Fido2,
               HybridPqKemTpm2Fido2, HybridPqKem1024Tpm2Fido2} \<or> is_sep_fido2 (kind s)"

section \<open>Serialisation\<close>

text \<open>\<open>write_aad_region\<close>: the structured fields at offsets 0 to 76.\<close>

definition write_aad_region :: "Keyslot \<Rightarrow> bytes \<Rightarrow> bytes" where
  "write_aad_region s dst =
     (let dst = dst[OFF_KIND := kind_as_u8 (kind s)];
          dst = dst[OFF_AAD_VERSION := aad_version s];
          dst = put dst (OFF_AAD_VERSION + 1) (replicate (OFF_UUID - (OFF_AAD_VERSION + 1)) 0);
          dst = put dst OFF_UUID (uuid s);
          dst = put dst OFF_M_COST (u32_to_le (m_cost_kib (kdf_params s)));
          dst = put dst OFF_T_COST (u32_to_le (t_cost (kdf_params s)));
          dst = put dst OFF_P_COST (u32_to_le (p_cost (kdf_params s)));
          dst = put dst OFF_KDF_SALT (kdf_salt s);
          dst = put dst OFF_AEAD_NONCE (aead_nonce s)
      in dst)"

text \<open>
  The variable region, written the same way by \<open>to_bytes\<close> and \<open>build_aead_aad\<close>: the two
  length fields, the credential id clamped to the layout's capacity, the hmac salt.
\<close>

definition write_cred_region :: "Keyslot \<Rightarrow> bytes \<Rightarrow> bytes" where
  "write_cred_region s buf =
     (let (cred_max, off_hmac_salt) = slot_layout (aad_version s);
          cred = take (min (length (fido2_cred_id s)) cred_max) (fido2_cred_id s);
          cred_len = of_nat (length cred) :: u16;
          salt_len = (if has_inline_hmac_salt (kind s) then of_nat FIDO2_HMAC_SALT_LEN else 0) :: u16;
          buf = put buf OFF_CRED_LEN (u16_to_le cred_len);
          buf = put buf OFF_HMAC_SALT_LEN (u16_to_le salt_len);
          buf = (if 0 < cred_len then put buf OFF_CRED cred else buf);
          buf = (if 0 < salt_len then put buf off_hmac_salt (fido2_hmac_salt s) else buf)
      in buf)"

definition build_aead_aad :: "Keyslot \<Rightarrow> bytes \<Rightarrow> bytes" where
  "build_aead_aad s header_salt =
     (let buf = replicate SLOT_SIZE 0;
          buf = write_aad_region s buf;
          buf = (if AAD_VERSION_V2 \<le> aad_version s then write_cred_region s buf else buf);
          aad_tail_end = (if AAD_VERSION_V3 \<le> aad_version s then SLOT_SIZE
                          else OFF_HMAC_SALT_V1V2 + FIDO2_HMAC_SALT_LEN);
          aad = take SLOT_AAD_LEN buf;
          aad = (if AAD_VERSION_V2 \<le> aad_version s
                 then aad @ slice buf OFF_CRED_LEN (aad_tail_end - OFF_CRED_LEN) else aad)
      in aad @ header_salt)"

text \<open>
  \<open>to_bytes\<close> first fills the slot with random bytes (\<open>padding\<close>), then overwrites the
  structured fields; an empty slot keeps only its zero kind byte.
\<close>

definition slot_layout_bytes :: "bytes \<Rightarrow> Keyslot \<Rightarrow> bytes" where
  "slot_layout_bytes padding s =
     (if slot_is_empty s then padding[OFF_KIND := 0]
      else
        (let buf = write_aad_region s padding;
             buf = put buf OFF_WRAPPED_CT (wrapped_ct s);
             buf = put buf OFF_WRAPPED_TAG (wrapped_tag s)
         in write_cred_region s buf))"

definition slot_to_bytes :: "'r env \<Rightarrow> Keyslot \<Rightarrow> ('r, bytes) rnd" where
  "slot_to_bytes E s =
     bindR (fill_expect E ''OS RNG failure during slot serialization (entropy padding)'' SLOT_SIZE)
       (\<lambda>padding. retR (slot_layout_bytes padding s))"

text \<open>
  \<open>from_bytes\<close>: the fields of a non-empty slot of kind \<open>k\<close>, the checks on them in the order of
  the source, and the parser itself.
\<close>

definition slot_params_at :: "bytes \<Rightarrow> Argon2idParams" where
  "slot_params_at buf =
     \<lparr>m_cost_kib = u32_from_le (slice buf OFF_M_COST 4),
      t_cost = u32_from_le (slice buf OFF_T_COST 4),
      p_cost = u32_from_le (slice buf OFF_P_COST 4)\<rparr>"

definition slot_cred_len :: "bytes \<Rightarrow> nat" where
  "slot_cred_len buf = unat (u16_from_le (slice buf OFF_CRED_LEN 2))"

definition slot_salt_len :: "bytes \<Rightarrow> nat" where
  "slot_salt_len buf = unat (u16_from_le (slice buf OFF_HMAC_SALT_LEN 2))"

definition slot_field_checks :: "SlotKind \<Rightarrow> bytes \<Rightarrow> unit res" where
  "slot_field_checks k buf =
     (if AAD_VERSION_V4 < buf ! OFF_AAD_VERSION then Inl InvalidField
      else if fst (slot_layout (buf ! OFF_AAD_VERSION)) < slot_cred_len buf
        then Inl (Fido2CredIdTooLong (slot_cred_len buf))
      else if kdf_runs_argon2 k \<and> \<not> is_sane_for_disk (slot_params_at buf) then Inl InvalidField
      else if has_inline_hmac_salt k \<and> slot_salt_len buf \<noteq> FIDO2_HMAC_SALT_LEN then Inl InvalidField
      else if raw_tpm_blob k \<and> slot_salt_len buf \<noteq> 0 then Inl InvalidField
      else if is_sep k \<and> \<not> is_sep_fido2 k \<and> (slot_salt_len buf \<noteq> 0 \<or> slot_cred_len buf \<noteq> 0)
        then Inl InvalidField
      else Inr ())"

definition slot_fields_at :: "SlotKind \<Rightarrow> bytes \<Rightarrow> Keyslot" where
  "slot_fields_at k buf =
     \<lparr>kind = k,
      aad_version = buf ! OFF_AAD_VERSION,
      uuid = slice buf OFF_UUID 16,
      kdf_params = slot_params_at buf,
      kdf_salt = slice buf OFF_KDF_SALT 32,
      aead_nonce = slice buf OFF_AEAD_NONCE 12,
      wrapped_ct = slice buf OFF_WRAPPED_CT 32,
      wrapped_tag = slice buf OFF_WRAPPED_TAG 16,
      fido2_cred_id = (if has_inline_hmac_salt k \<or> raw_tpm_blob k
                       then slice buf OFF_CRED (slot_cred_len buf) else []),
      fido2_hmac_salt = (if has_inline_hmac_salt k
                         then slice buf (snd (slot_layout (buf ! OFF_AAD_VERSION))) 32
                         else replicate 32 0)\<rparr>"

definition slot_from_bytes :: "bytes \<Rightarrow> Keyslot res" where
  "slot_from_bytes buf =
     bindE (kind_from_u8 (buf ! OFF_KIND)) (\<lambda>k.
       if k = Empty then Inr empty_slot
       else bindE (slot_field_checks k buf) (\<lambda>_. Inr (slot_fields_at k buf)))"

section \<open>Wrapping the master volume key\<close>

definition wrap_mvk :: "'r env \<Rightarrow> CipherSuite \<Rightarrow> Keyslot \<Rightarrow> bytes \<Rightarrow> bytes \<Rightarrow> bytes \<Rightarrow> Keyslot res" where
  "wrap_mvk E suite s kek mvk header_salt =
     bindE (seal E suite kek (aead_nonce s) (build_aead_aad s header_salt) mvk) (\<lambda>ct.
       if length ct \<noteq> KEY_LEN + tag_len suite then Inl Aead
       else Inr (s\<lparr>wrapped_ct := take KEY_LEN ct, wrapped_tag := drop KEY_LEN ct\<rparr>))"

definition unwrap_mvk :: "'r env \<Rightarrow> CipherSuite \<Rightarrow> Keyslot \<Rightarrow> bytes \<Rightarrow> bytes \<Rightarrow> bytes res" where
  "unwrap_mvk E suite s kek header_salt =
     (case aead_open E suite kek (aead_nonce s) (build_aead_aad s header_salt)
             (wrapped_ct s @ wrapped_tag s) of
        Inl e \<Rightarrow> Inl KeyslotAuthFailed
      | Inr pt \<Rightarrow> if length pt \<noteq> KEY_LEN then Inl KeyslotAuthFailed else Inr pt)"

section \<open>The slot invariant\<close>

definition slot_wf :: "Keyslot \<Rightarrow> bool" where
  "slot_wf s \<longleftrightarrow>
     (kind s = Empty \<longrightarrow> s = empty_slot)
     \<and> aad_version s \<le> AAD_VERSION_V4
     \<and> length (uuid s) = 16 \<and> length (kdf_salt s) = 32 \<and> length (aead_nonce s) = 12
     \<and> length (wrapped_ct s) = 32 \<and> length (wrapped_tag s) = 16
     \<and> length (fido2_hmac_salt s) = 32
     \<and> length (fido2_cred_id s) \<le> fst (slot_layout (aad_version s))
     \<and> (kdf_runs_argon2 (kind s) \<longrightarrow> is_sane_for_disk (kdf_params s))
     \<and> (\<not> has_inline_hmac_salt (kind s) \<longrightarrow> fido2_hmac_salt s = replicate 32 0)
     \<and> (\<not> has_inline_hmac_salt (kind s) \<and> \<not> raw_tpm_blob (kind s) \<longrightarrow> fido2_cred_id s = [])"

section \<open>Reading back what was written\<close>

lemma slot_layout_cases:
  "slot_layout v = (128, 256) \<or> slot_layout v = (352, 480)"
  by (auto simp: slot_layout_def)

lemma length_write_aad_region [simp]:
  "slot_wf s \<Longrightarrow> 76 \<le> length dst \<Longrightarrow> length (write_aad_region s dst) = length dst"
  by (simp add: write_aad_region_def slot_wf_def Let_def)

lemma aad_region_reads [buf_simps]:
  assumes "slot_wf s" and "76 \<le> length dst"
  shows "write_aad_region s dst ! 0 = kind_as_u8 (kind s)"
    and "write_aad_region s dst ! Suc 0 = aad_version s"
    and "slice (write_aad_region s dst) 4 16 = uuid s"
    and "slice (write_aad_region s dst) 20 4 = u32_to_le (m_cost_kib (kdf_params s))"
    and "slice (write_aad_region s dst) 24 4 = u32_to_le (t_cost (kdf_params s))"
    and "slice (write_aad_region s dst) 28 4 = u32_to_le (p_cost (kdf_params s))"
    and "slice (write_aad_region s dst) 32 32 = kdf_salt s"
    and "slice (write_aad_region s dst) 64 12 = aead_nonce s"
proof -
  have ne: "dst \<noteq> []" using assms(2) by auto
  show "write_aad_region s dst ! 0 = kind_as_u8 (kind s)"
    and "write_aad_region s dst ! Suc 0 = aad_version s"
    and "slice (write_aad_region s dst) 4 16 = uuid s"
    and "slice (write_aad_region s dst) 20 4 = u32_to_le (m_cost_kib (kdf_params s))"
    and "slice (write_aad_region s dst) 24 4 = u32_to_le (t_cost (kdf_params s))"
    and "slice (write_aad_region s dst) 28 4 = u32_to_le (p_cost (kdf_params s))"
    and "slice (write_aad_region s dst) 32 32 = kdf_salt s"
    and "slice (write_aad_region s dst) 64 12 = aead_nonce s"
    using assms ne by (simp_all add: write_aad_region_def slot_wf_def Let_def buf_simps)
qed

lemma params_collapse [simp]: "\<lparr>m_cost_kib = m_cost_kib p, t_cost = t_cost p, p_cost = p_cost p\<rparr> = p"
  by (cases p) simp

lemma slot_eqI:
  "kind s = kind t \<Longrightarrow> aad_version s = aad_version t \<Longrightarrow> uuid s = uuid t \<Longrightarrow>
   kdf_params s = kdf_params t \<Longrightarrow> kdf_salt s = kdf_salt t \<Longrightarrow> aead_nonce s = aead_nonce t \<Longrightarrow>
   wrapped_ct s = wrapped_ct t \<Longrightarrow> wrapped_tag s = wrapped_tag t \<Longrightarrow>
   fido2_cred_id s = fido2_cred_id t \<Longrightarrow> fido2_hmac_salt s = fido2_hmac_salt t \<Longrightarrow> s = (t :: Keyslot)"
  by (cases s; cases t) simp

lemma cred_clamp [simp]:
  "slot_wf s \<Longrightarrow> take (min (length (fido2_cred_id s)) (fst (slot_layout (aad_version s)))) (fido2_cred_id s)
     = fido2_cred_id s"
  by (simp add: slot_wf_def)

lemma slot_wf_cred_bound: "slot_wf s \<Longrightarrow> length (fido2_cred_id s) \<le> 352"
  using slot_layout_cases [of "aad_version s"] by (auto simp: slot_wf_def)

lemma write_cred_region_wf:
  assumes "slot_wf s"
  shows "write_cred_region s buf =
    (let off = snd (slot_layout (aad_version s));
         b1 = put buf 124 (u16_to_le (of_nat (length (fido2_cred_id s))));
         b2 = put b1 126 (u16_to_le (if has_inline_hmac_salt (kind s) then 32 else 0));
         b3 = (if fido2_cred_id s \<noteq> [] then put b2 128 (fido2_cred_id s) else b2)
     in if has_inline_hmac_salt (kind s) then put b3 off (fido2_hmac_salt s) else b3)"
  using assms slot_wf_cred_bound [OF assms] cred_clamp [OF assms]
  by (cases "slot_layout (aad_version s)") (simp add: write_cred_region_def Let_def)

lemma length_write_cred_region [simp]:
  assumes "slot_wf s" and "length buf = 512"
  shows "length (write_cred_region s buf) = 512"
  using assms slot_wf_cred_bound [OF assms(1)] slot_layout_cases [of "aad_version s"]
  by (auto simp: write_cred_region_wf Let_def slot_wf_def)

lemma cred_region_reads [buf_simps]:
  assumes "slot_wf s" and "length buf = 512"
  shows "slice (write_cred_region s buf) 124 2 = u16_to_le (of_nat (length (fido2_cred_id s)))"
    and "slice (write_cred_region s buf) 126 2 = u16_to_le (if has_inline_hmac_salt (kind s) then 32 else 0)"
    and "slice (write_cred_region s buf) 128 (length (fido2_cred_id s)) = fido2_cred_id s"
    and "has_inline_hmac_salt (kind s) \<Longrightarrow>
          slice (write_cred_region s buf) (snd (slot_layout (aad_version s))) 32 = fido2_hmac_salt s"
  using assms slot_wf_cred_bound [OF assms(1)] slot_layout_cases [of "aad_version s"]
  by (auto simp: write_cred_region_wf Let_def slot_wf_def buf_simps)

lemma cred_region_frame [buf_simps]:
  assumes "slot_wf s" and "length buf = 512"
  shows "off + n \<le> 124 \<Longrightarrow> slice (write_cred_region s buf) off n = slice buf off n"
    and "i < 124 \<Longrightarrow> write_cred_region s buf ! i = buf ! i"
  using assms slot_wf_cred_bound [OF assms(1)] slot_layout_cases [of "aad_version s"]
  by (auto simp: write_cred_region_wf Let_def slot_wf_def buf_simps)

lemma slot_layout_roundtrip:
  assumes wf: "slot_wf s" and pad: "length padding = 512"
  shows "slot_from_bytes (slot_layout_bytes padding s) = Inr s"
proof (cases "kind s = Empty")
  case True
  with wf have "s = empty_slot" by (simp add: slot_wf_def)
  then show ?thesis using pad
    by (simp add: slot_layout_bytes_def slot_is_empty_def empty_slot_def slot_from_bytes_def kind_from_u8_def)
next
  case False
  let ?b = "slot_layout_bytes padding s"
  have b: "?b = write_cred_region s (put (put (write_aad_region s padding) 76 (wrapped_ct s)) 108 (wrapped_tag s))"
    using False by (simp add: slot_layout_bytes_def slot_is_empty_def Let_def)
  have len: "length (wrapped_ct s) = 32" "length (wrapped_tag s) = 16" using wf by (simp_all add: slot_wf_def)
  have bytes: "?b ! 0 = kind_as_u8 (kind s)" "?b ! Suc 0 = aad_version s"
    using wf pad len by (simp_all add: b buf_simps)
  have fields: "slice ?b 4 16 = uuid s" "slice ?b 20 4 = u32_to_le (m_cost_kib (kdf_params s))"
    "slice ?b 24 4 = u32_to_le (t_cost (kdf_params s))" "slice ?b 28 4 = u32_to_le (p_cost (kdf_params s))"
    "slice ?b 32 32 = kdf_salt s" "slice ?b 64 12 = aead_nonce s" "slice ?b 76 32 = wrapped_ct s"
    "slice ?b 108 16 = wrapped_tag s"
    "slice ?b 124 2 = u16_to_le (of_nat (length (fido2_cred_id s)))"
    "slice ?b 126 2 = u16_to_le (if has_inline_hmac_salt (kind s) then 32 else 0)"
    "slice ?b 128 (length (fido2_cred_id s)) = fido2_cred_id s"
    using wf pad len by (simp_all add: b buf_simps)
  have salt: "has_inline_hmac_salt (kind s) \<Longrightarrow>
      slice ?b (snd (slot_layout (aad_version s))) 32 = fido2_hmac_salt s"
    using wf pad len by (simp add: b buf_simps)
  have cl: "unat (of_nat (length (fido2_cred_id s)) :: u16) = length (fido2_cred_id s)"
    using slot_wf_cred_bound [OF wf] by simp
  have params: "slot_params_at ?b = kdf_params s"
    and clen: "slot_cred_len ?b = length (fido2_cred_id s)"
    and slen: "slot_salt_len ?b = (if has_inline_hmac_salt (kind s) then 32 else 0)"
    by (simp_all add: slot_params_at_def slot_cred_len_def slot_salt_len_def fields cl)
  have "slot_field_checks (kind s) ?b = Inr ()"
    using wf class_disjoint [of "kind s"]
    by (auto simp: slot_field_checks_def bytes params clen slen slot_wf_def not_less)
  moreover have "slot_fields_at (kind s) ?b = s"
    using wf by (intro slot_eqI) (auto simp: slot_fields_at_def bytes fields params clen salt slot_wf_def)
  ultimately show ?thesis
    using False by (simp add: slot_from_bytes_def bytes)
qed

section \<open>The parser establishes the invariant\<close>

lemma kind_slot_fields_at [simp]: "kind (slot_fields_at k buf) = k"
  by (simp add: slot_fields_at_def)

lemma slot_from_bytes_wf:
  assumes len: "length buf = 512" and ok: "slot_from_bytes buf = Inr s"
  shows "slot_wf s"
proof (cases "kind s = Empty")
  case True
  with ok have "s = empty_slot"
    by (auto simp: slot_from_bytes_def res_simps split: if_splits)
  then show ?thesis by (simp add: slot_wf_def empty_slot_def)
next
  case False
  with ok have s: "s = slot_fields_at (kind s) buf" and checks: "slot_field_checks (kind s) buf = Inr ()"
    by (auto simp: slot_from_bytes_def res_simps empty_slot_def split: if_splits)
  have v: "buf ! 1 \<le> 3" and cap: "slot_cred_len buf \<le> fst (slot_layout (buf ! 1))"
    and sane: "kdf_runs_argon2 (kind s) \<longrightarrow> is_sane_for_disk (slot_params_at buf)"
    using checks by (auto simp: slot_field_checks_def not_less split: if_splits)
  have "slot_cred_len buf \<le> 352" "snd (slot_layout (buf ! 1)) \<le> 480"
    using cap slot_layout_cases [of "buf ! 1"] by auto
  with False v cap sane len have "slot_wf (slot_fields_at (kind s) buf)"
    by (simp add: slot_wf_def slot_fields_at_def)
  with s show ?thesis by simp
qed

section \<open>What the associated data binds\<close>

text \<open>The associated data is a fixed 76-byte head, a tail that depends on the version, and the header salt.\<close>

definition aad_head :: "Keyslot \<Rightarrow> bytes" where
  "aad_head s = take 76 (write_aad_region s (replicate 512 0))"

definition aad_tail :: "Keyslot \<Rightarrow> bytes" where
  "aad_tail s =
     (if 1 \<le> aad_version s
      then slice (write_cred_region s (write_aad_region s (replicate 512 0))) 124
             ((if 2 \<le> aad_version s then 512 else 288) - 124)
      else [])"

lemma take_cred_region:
  "slot_wf s \<Longrightarrow> length buf = 512 \<Longrightarrow> take 76 (write_cred_region s buf) = take 76 buf"
  by (simp add: take_as_slice buf_simps)

lemma build_aead_aad_split:
  "slot_wf s \<Longrightarrow> build_aead_aad s hs = aad_head s @ aad_tail s @ hs"
  by (simp add: build_aead_aad_def aad_head_def aad_tail_def Let_def take_cred_region)

lemma aad_head_length [simp]: "slot_wf s \<Longrightarrow> length (aad_head s) = 76"
  by (simp add: aad_head_def)

lemma aad_tail_length:
  "slot_wf s \<Longrightarrow> length (aad_tail s) =
     (if 2 \<le> aad_version s then 388 else if 1 \<le> aad_version s then 164 else 0)"
  by (simp add: aad_tail_def word_le_nat_alt)

lemma slot_layout_by_version:
  "2 \<le> v \<Longrightarrow> slot_layout v = (352, 480)" "\<not> 2 \<le> v \<Longrightarrow> slot_layout v = (128, 256)"
  by (auto simp: slot_layout_def word_le_nat_alt word_unat_eq_iff)

lemma aad_head_reads:
  assumes "slot_wf s"
  shows "aad_head s ! 0 = kind_as_u8 (kind s)" "aad_head s ! 1 = aad_version s"
    "slice (aad_head s) 4 16 = uuid s" 
    "slice (aad_head s) 20 4 = u32_to_le (m_cost_kib (kdf_params s))"
    "slice (aad_head s) 24 4 = u32_to_le (t_cost (kdf_params s))"
    "slice (aad_head s) 28 4 = u32_to_le (p_cost (kdf_params s))"
    "slice (aad_head s) 32 32 = kdf_salt s" "slice (aad_head s) 64 12 = aead_nonce s"
  using assms aad_region_reads [OF assms, of "replicate 512 0"]
  by (simp_all add: aad_head_def take_as_slice buf_simps)

lemma params_eqI:
  "m_cost_kib p = m_cost_kib q \<Longrightarrow> t_cost p = t_cost q \<Longrightarrow> p_cost p = p_cost q \<Longrightarrow> p = (q :: Argon2idParams)"
  by (cases p; cases q) simp

lemma aad_head_inject:
  assumes "slot_wf s" "slot_wf t" "aad_head s = aad_head t"
  shows "kind s = kind t" "aad_version s = aad_version t" "uuid s = uuid t"
    "kdf_params s = kdf_params t" "kdf_salt s = kdf_salt t" "aead_nonce s = aead_nonce t"
proof -
  note r = aad_head_reads [OF assms(1)] and q = aad_head_reads [OF assms(2)]
  show "kind s = kind t" using r(1) q(1) assms(3) by simp
  show "aad_version s = aad_version t" using r(2) q(2) assms(3) by simp
  show "uuid s = uuid t" using r(3) q(3) assms(3) by simp
  show "kdf_params s = kdf_params t"
    using r(4-6) q(4-6) assms(3) by (intro params_eqI) (metis from_to_le(2))+
  show "kdf_salt s = kdf_salt t" using r(7) q(7) assms(3) by simp
  show "aead_nonce s = aead_nonce t" using r(8) q(8) assms(3) by simp
qed

lemma aad_tail_reads:
  assumes "slot_wf s" "1 \<le> aad_version s"
  shows "slice (aad_tail s) 0 2 = u16_to_le (of_nat (length (fido2_cred_id s)))"
    "slice (aad_tail s) 4 (length (fido2_cred_id s)) = fido2_cred_id s"
    "has_inline_hmac_salt (kind s) \<Longrightarrow>
       slice (aad_tail s) (snd (slot_layout (aad_version s)) - 124) 32 = fido2_hmac_salt s"
proof -
  let ?b = "write_cred_region s (write_aad_region s (replicate 512 0))"
  have layout: "if 2 \<le> aad_version s then slot_layout (aad_version s) = (352, 480)
      else slot_layout (aad_version s) = (128, 256)"
    by (simp add: slot_layout_by_version)
  note reads = cred_region_reads [OF assms(1), of "write_aad_region s (replicate 512 0)"]
  have cred: "length (fido2_cred_id s) \<le> fst (slot_layout (aad_version s))"
    using assms(1) by (simp add: slot_wf_def)
  show "slice (aad_tail s) 0 2 = u16_to_le (of_nat (length (fido2_cred_id s)))"
    using assms reads(1) by (simp add: aad_tail_def buf_simps)
  show "slice (aad_tail s) 4 (length (fido2_cred_id s)) = fido2_cred_id s"
    using assms reads(3) layout cred by (simp add: aad_tail_def buf_simps split: if_splits)
  show "slice (aad_tail s) (snd (slot_layout (aad_version s)) - 124) 32 = fido2_hmac_salt s"
    if "has_inline_hmac_salt (kind s)"
    using assms reads(4) [OF _ that] layout by (simp add: aad_tail_def buf_simps split: if_splits)
qed

lemma build_aead_aad_binds:
  assumes wf: "slot_wf s" "slot_wf t"
    and eq: "build_aead_aad s hs = build_aead_aad t hs'" and hs: "length hs = 32" "length hs' = 32"
  shows "kind s = kind t" "aad_version s = aad_version t" "uuid s = uuid t"
    "kdf_params s = kdf_params t" "kdf_salt s = kdf_salt t" "aead_nonce s = aead_nonce t" "hs = hs'"
    "1 \<le> aad_version s \<Longrightarrow> fido2_cred_id s = fido2_cred_id t \<and> fido2_hmac_salt s = fido2_hmac_salt t"
proof -
  from eq wf have e: "aad_head s @ aad_tail s @ hs = aad_head t @ aad_tail t @ hs'"
    by (simp add: build_aead_aad_split)
  then have head: "aad_head s = aad_head t" and rest: "aad_tail s @ hs = aad_tail t @ hs'"
    using wf by (simp_all add: append_eq_append_conv)
  note same = aad_head_inject [OF wf head]
  show "kind s = kind t" "aad_version s = aad_version t" "uuid s = uuid t"
    "kdf_params s = kdf_params t" "kdf_salt s = kdf_salt t" "aead_nonce s = aead_nonce t"
    by (fact same)+
  have "length (aad_tail s) = length (aad_tail t)"
    using wf same(2) by (simp add: aad_tail_length)
  with rest have tail: "aad_tail s = aad_tail t" and "hs = hs'" by simp_all
  then show "hs = hs'" by simp
  show "fido2_cred_id s = fido2_cred_id t \<and> fido2_hmac_salt s = fido2_hmac_salt t" if v: "1 \<le> aad_version s"
  proof
    note rs = aad_tail_reads [OF wf(1) v] and rt = aad_tail_reads [OF wf(2) v [unfolded same(2)]]
    have "of_nat (length (fido2_cred_id s)) = (of_nat (length (fido2_cred_id t)) :: u16)"
      using rs(1) rt(1) tail by (metis from_to_le(1))
    then have "unat (of_nat (length (fido2_cred_id s)) :: u16) = unat (of_nat (length (fido2_cred_id t)) :: u16)"
      by (rule arg_cong)
    then have "length (fido2_cred_id s) = length (fido2_cred_id t)"
      using slot_wf_cred_bound [OF wf(1)] slot_wf_cred_bound [OF wf(2)]
      by simp
    then show "fido2_cred_id s = fido2_cred_id t" using rs(2) rt(2) tail by metis
    show "fido2_hmac_salt s = fido2_hmac_salt t"
    proof (cases "has_inline_hmac_salt (kind s)")
      case True
      with rs(3) rt(3) tail same show ?thesis by simp
    next
      case False
      with wf same(1) show ?thesis by (simp add: slot_wf_def)
    qed
  qed
qed

section \<open>The slot as a codec\<close>

lemma length_slot_layout_bytes [simp]:
  assumes "slot_wf s" and "length padding = 512"
  shows "length (slot_layout_bytes padding s) = 512"
proof -
  have "length (wrapped_ct s) = 32" "length (wrapped_tag s) = 16"
    using assms(1) by (simp_all add: slot_wf_def)
  with assms show ?thesis by (simp add: slot_layout_bytes_def Let_def)
qed

interpretation slot_codec: codec slot_layout_bytes slot_from_bytes "\<lambda>p. length p = 512" slot_wf 512
  by unfold_locales (auto intro: slot_layout_roundtrip slot_from_bytes_wf)

lemma slot_to_bytes_layout:
  assumes "rng_fills E" and "slot_to_bytes E s r = (Inr buf, r')"
  shows "\<exists>padding. length padding = 512 \<and> buf = slot_layout_bytes padding s"
  using assms by (auto simp: slot_to_bytes_def res_simps dest: fill_expect_length)

section \<open>Wrap and unwrap\<close>

lemma build_aead_aad_wrapped [simp]:
  "build_aead_aad (s\<lparr>wrapped_ct := c, wrapped_tag := t\<rparr>) hs = build_aead_aad s hs"
proof -
  have "write_aad_region (s\<lparr>wrapped_ct := c, wrapped_tag := t\<rparr>) = write_aad_region s"
    and "write_cred_region (s\<lparr>wrapped_ct := c, wrapped_tag := t\<rparr>) = write_cred_region s"
    by (simp_all add: fun_eq_iff write_aad_region_def write_cred_region_def)
  then show ?thesis by (simp add: build_aead_aad_def Let_def)
qed

lemma wrap_mvk_cases:
  assumes "wrap_mvk E suite s kek mvk hs = Inr s'"
  obtains ct where "seal E suite kek (aead_nonce s) (build_aead_aad s hs) mvk = Inr ct"
    and "length ct = 48" and "s' = s\<lparr>wrapped_ct := take 32 ct, wrapped_tag := drop 32 ct\<rparr>"
  using assms by (auto simp: wrap_mvk_def res_simps tag_len_def split: if_splits)

lemma unwrap_wrap_mvk:
  assumes "aead_correct E" and "length mvk = 32" and "wrap_mvk E suite s kek mvk hs = Inr s'"
  shows "unwrap_mvk E suite s' kek hs = Inr mvk"
proof -
  from assms(3) obtain ct where ct: "seal E suite kek (aead_nonce s) (build_aead_aad s hs) mvk = Inr ct"
    and s': "s' = s\<lparr>wrapped_ct := take 32 ct, wrapped_tag := drop 32 ct\<rparr>"
    by (rule wrap_mvk_cases)
  from seal_open [OF assms(1) ct] assms(2) show ?thesis
    by (simp add: unwrap_mvk_def s')
qed

lemma unwrap_mvk_eq_Inr:
  "unwrap_mvk E suite s kek hs = Inr mvk \<longleftrightarrow>
     aead_open E suite kek (aead_nonce s) (build_aead_aad s hs) (wrapped_ct s @ wrapped_tag s) = Inr mvk
     \<and> length mvk = 32"
  by (cases "aead_open E suite kek (aead_nonce s) (build_aead_aad s hs) (wrapped_ct s @ wrapped_tag s)")
     (auto simp: unwrap_mvk_def)

lemma unwrap_mvk_length: "unwrap_mvk E suite s kek hs = Inr mvk \<Longrightarrow> length mvk = 32"
  by (auto simp: unwrap_mvk_def split: sum.splits if_splits)

lemma unwrap_mvk_error: "unwrap_mvk E suite s kek hs = Inl e \<Longrightarrow> e = KeyslotAuthFailed"
  by (auto simp: unwrap_mvk_def split: sum.splits if_splits)

lemma wrap_mvk_wf:
  assumes "slot_wf s" and "kind s \<noteq> Empty" and "wrap_mvk E suite s kek mvk hs = Inr s'"
  shows "slot_wf s'" "kind s' = kind s"
  using assms(3) by (rule wrap_mvk_cases; use assms(1,2) in \<open>simp add: slot_wf_def\<close>)+

lemma wrap_mvk_live:
  assumes "env_live E" "aead_correct E" "length mvk = 32"
  shows "is_ok (wrap_mvk E suite s kek mvk hs)"
proof -
  obtain ct where ct: "seal E suite kek (aead_nonce s) (build_aead_aad s hs) mvk = Inr ct"
    using seal_live [OF assms(1)] assms(3) by (force simp: is_ok_iff)
  with seal_length [OF assms(2) ct] assms(3) show ?thesis
    by (simp add: wrap_mvk_def tag_len_def)
qed

lemma slot_to_bytes_live [live_intros]: "env_live E \<Longrightarrow> succeeds (slot_to_bytes E s)"
  unfolding slot_to_bytes_def by (intro live_intros)

section \<open>Properties\<close>

text \<open>A FIDO2 slot with distinguishable fields, for evaluating the model.\<close>

definition demo_slot :: Keyslot where
  "demo_slot = \<lparr>kind = Fido2HmacSecret, aad_version = AAD_VERSION_V4, uuid = replicate 16 1,
     kdf_params = INTERACTIVE, kdf_salt = replicate 32 2, aead_nonce = replicate 12 3,
     wrapped_ct = replicate 32 4, wrapped_tag = replicate 16 5, fido2_cred_id = [6, 7, 8],
     fido2_hmac_salt = replicate 32 9\<rparr>"

lemma demo_slot_wf: "slot_wf demo_slot" "slot_wf (demo_slot\<lparr>fido2_cred_id := [6, 7]\<rparr>)"
  by (simp_all add: slot_wf_def demo_slot_def slot_layout_def kind_class_defs presets_sane)

text \<open>
  C25: a well-formed slot survives the disk. Serialising draws 512 bytes of padding and always
  returns 512 bytes, and parsing them returns the slot, for every kind and every layout version.
\<close>

theorem slot_disk_roundtrip:
  assumes "rng_fills E" "env_live E" "slot_wf s"
  shows "\<exists>buf r'. slot_to_bytes E s r = (Inr buf, r') \<and> length buf = 512 \<and> slot_from_bytes buf = Inr s"
proof -
  obtain buf r' where buf: "slot_to_bytes E s r = (Inr buf, r')"
    using slot_to_bytes_live [OF assms(2)] unfolding succeeds_def by blast
  from slot_to_bytes_layout [OF assms(1) this] obtain p where "length p = 512" "buf = slot_layout_bytes p s" by blast
  with buf assms(3) slot_codec.decode_encode slot_codec.encode_width show ?thesis by auto
qed

theorem slot_disk_roundtrip_witness:
  "\<exists>buf r'. slot_to_bytes demo_env demo_slot 0 = (Inr buf, r') \<and> length buf = 512
     \<and> slot_from_bytes buf = Inr demo_slot"
  by (rule slot_disk_roundtrip) (simp_all add: demo_env_ok demo_env_live demo_slot_wf)

text \<open>
  C23: what an untrusted slot can ask for. Whatever 512 bytes are parsed, an accepted slot is well
  formed: its layout version is known, a kind that runs Argon2id asks for at most 4 GiB, 16 passes
  and 16 lanes and at least the minimum costs, the variable region fits the layout, kinds without
  one have none, and serialising the slot again is lossless.
\<close>

theorem slot_parse_bounds:
  assumes "length buf = 512" "slot_from_bytes buf = Inr s"
  shows "slot_wf s \<and> aad_version s \<le> AAD_VERSION_V4
    \<and> (kdf_runs_argon2 (kind s) \<longrightarrow>
        8 \<le> unat (m_cost_kib (kdf_params s)) \<and> unat (m_cost_kib (kdf_params s)) \<le> 4 * 1024 * 1024
        \<and> 1 \<le> unat (t_cost (kdf_params s)) \<and> unat (t_cost (kdf_params s)) \<le> 16
        \<and> 1 \<le> unat (p_cost (kdf_params s)) \<and> unat (p_cost (kdf_params s)) \<le> 16)
    \<and> length (fido2_cred_id s) \<le> (if aad_version s < AAD_VERSION_V3 then 128 else 352)
    \<and> (\<forall>padding. length padding = 512 \<longrightarrow> slot_from_bytes (slot_layout_bytes padding s) = Inr s)"
proof -
  have wf: "slot_wf s" by (rule slot_codec.decode_wf [OF assms])
  then have "kdf_runs_argon2 (kind s) \<longrightarrow> is_sane_for_disk (kdf_params s)"
    and v: "aad_version s \<le> 3" and "length (fido2_cred_id s) \<le> fst (slot_layout (aad_version s))"
    by (simp_all add: slot_wf_def)
  then show ?thesis
    using wf slot_codec.decode_reencode [OF assms]
    by (auto simp: is_sane_for_disk_def word_le_nat_alt word_less_nat_alt slot_layout_by_version)
qed

theorem slot_parse_bounds_witness:
  "slot_wf demo_slot \<and> slot_from_bytes (slot_layout_bytes (replicate 512 1) demo_slot) = Inr demo_slot"
proof -
  have parsed: "slot_from_bytes (slot_layout_bytes (replicate 512 0) demo_slot) = Inr demo_slot"
    by (simp add: slot_layout_roundtrip demo_slot_wf)
  show ?thesis
    using slot_parse_bounds [OF _ parsed] by (simp add: demo_slot_wf)
qed

text \<open>
  C24: the associated data binds the slot. Two well-formed slots (with 32-byte header salts) that
  give the same associated data agree on kind, layout version, uuid, Argon2id costs, salt, nonce and
  header salt; from layout version 2 on they also agree on the credential region and the hmac salt.
  An attacker can therefore change none of these without the AEAD tag failing.
\<close>

theorem slot_aad_binds:
  assumes "slot_wf s" "slot_wf t" "length hs = 32" "length hs' = 32"
    and "build_aead_aad s hs = build_aead_aad t hs'"
  shows "hs = hs' \<and> kind s = kind t \<and> aad_version s = aad_version t \<and> uuid s = uuid t
    \<and> kdf_params s = kdf_params t \<and> kdf_salt s = kdf_salt t \<and> aead_nonce s = aead_nonce t
    \<and> (AAD_VERSION_V2 \<le> aad_version s \<longrightarrow> t = s\<lparr>wrapped_ct := wrapped_ct t, wrapped_tag := wrapped_tag t\<rparr>)"
proof -
  note b = build_aead_aad_binds [OF assms(1,2,5,3,4)]
  have "t = s\<lparr>wrapped_ct := wrapped_ct t, wrapped_tag := wrapped_tag t\<rparr>" if "1 \<le> aad_version s"
    using b(1-6) b(8) [OF that] by (intro slot_eqI) simp_all
  with b show ?thesis by simp
qed

theorem slot_aad_binds_witness:
  "build_aead_aad demo_slot (replicate 32 0)
     \<noteq> build_aead_aad (demo_slot\<lparr>fido2_cred_id := [6, 7]\<rparr>) (replicate 32 0)"
  using slot_aad_binds [OF demo_slot_wf, of "replicate 32 0" "replicate 32 0"]
  by (auto simp: demo_slot_def)

end
