(* ===== verification/Lbx_Enroll.thy ===== *)
theory Lbx_Enroll
  imports Lbx_Keyslot
begin

text \<open>
  The constructors \<open>Keyslot::new_*\<close> and the unlock paths \<open>Keyslot::unlock_*\<close> of
  \<open>luksbox-core/src/keyslot.rs\<close>, with the key-encryption keys they derive. The locale
  \<open>slot_scheme\<close> is the contract between a constructor and the unlock path of its kind: the
  constructor wraps the volume key under a key that the unlock path derives again from the
  same factors. It is interpreted once per scheme, and gives the enrol/unlock round trip, the
  errors an unlock can return and the invariant of the new slot for each of them.
\<close>

section \<open>Key-encryption keys\<close>

abbreviation (input) MVK_FROM_FIDO2_INFO :: bytes where
  "MVK_FROM_FIDO2_INFO \<equiv> bstr ''lbx:mvk-fido/v1''"
abbreviation (input) TPM2_FIDO2_KEK_INFO :: bytes where
  "TPM2_FIDO2_KEK_INFO \<equiv> bstr ''lbx:tpm2-fido2-kek/v1''"
abbreviation (input) HYBRID_TPM2_KEK_INFO :: bytes where
  "HYBRID_TPM2_KEK_INFO \<equiv> bstr ''lbx:hybrid-tpm-kek/v1''"
abbreviation (input) HYBRID_TPM2_FIDO2_KEK_INFO :: bytes where
  "HYBRID_TPM2_FIDO2_KEK_INFO \<equiv> bstr ''lbx:hybrid-tpm-fido2-kek/v1''"
abbreviation (input) SEP_KEK_INFO :: bytes where
  "SEP_KEK_INFO \<equiv> bstr ''lbx:sep-kek/v1''"

definition derive_tpm2_fido2_kek :: "'r env \<Rightarrow> bytes \<Rightarrow> bytes \<Rightarrow> bytes \<Rightarrow> bytes" where
  "derive_tpm2_fido2_kek E tpm_unsealed hmac_secret header_salt =
     hkdf_sha256 E header_salt (tpm_unsealed @ hmac_secret) TPM2_FIDO2_KEK_INFO"

definition derive_hybrid_tpm2_kek :: "'r env \<Rightarrow> bytes \<Rightarrow> bytes \<Rightarrow> bytes \<Rightarrow> bytes" where
  "derive_hybrid_tpm2_kek E tpm_unsealed pq_shared header_salt =
     hkdf_sha256 E header_salt (tpm_unsealed @ pq_shared) HYBRID_TPM2_KEK_INFO"

definition derive_hybrid_tpm2_fido2_kek :: "'r env \<Rightarrow> bytes \<Rightarrow> bytes \<Rightarrow> bytes \<Rightarrow> bytes \<Rightarrow> bytes" where
  "derive_hybrid_tpm2_fido2_kek E tpm_unsealed hmac_secret pq_shared header_salt =
     hkdf_sha256 E header_salt (tpm_unsealed @ hmac_secret @ pq_shared) HYBRID_TPM2_FIDO2_KEK_INFO"

definition opt_bytes :: "bytes option \<Rightarrow> bytes" where
  "opt_bytes m = (case m of None \<Rightarrow> [] | Some b \<Rightarrow> b)"

definition sep_ikm :: "bytes \<Rightarrow> bytes option \<Rightarrow> bytes option \<Rightarrow> bytes option \<Rightarrow> bytes" where
  "sep_ikm sep_shared passphrase_kek hmac_secret pq_shared =
     sep_shared @ opt_bytes passphrase_kek @ opt_bytes hmac_secret @ opt_bytes pq_shared"

definition derive_sep_kek ::
  "'r env \<Rightarrow> bytes \<Rightarrow> bytes option \<Rightarrow> bytes option \<Rightarrow> bytes option \<Rightarrow> bytes \<Rightarrow> bytes" where
  "derive_sep_kek E sep_shared passphrase_kek hmac_secret pq_shared header_salt =
     hkdf_sha256 E header_salt (sep_ikm sep_shared passphrase_kek hmac_secret pq_shared) SEP_KEK_INFO"

definition derive_mvk_from_fido2 :: "'r env \<Rightarrow> bytes \<Rightarrow> bytes \<Rightarrow> bytes" where
  "derive_mvk_from_fido2 E salt hmac_secret = hkdf_sha256 E salt hmac_secret MVK_FROM_FIDO2_INFO"

section \<open>Passphrase and FIDO2 slots\<close>

text \<open>The slot literal of every constructor, before the volume key is wrapped into it.\<close>

definition fresh_slot ::
  "SlotKind \<Rightarrow> bytes \<Rightarrow> Argon2idParams \<Rightarrow> bytes \<Rightarrow> bytes \<Rightarrow> bytes \<Rightarrow> bytes \<Rightarrow> Keyslot" where
  "fresh_slot k slot_uuid params salt nonce cred hmac_salt =
     \<lparr>kind = k, aad_version = AAD_VERSION_V4, uuid = slot_uuid, kdf_params = params,
      kdf_salt = salt, aead_nonce = nonce, wrapped_ct = replicate 32 0,
      wrapped_tag = replicate 16 0, fido2_cred_id = cred, fido2_hmac_salt = hmac_salt\<rparr>"

definition new_passphrase ::
  "'r env \<Rightarrow> CipherSuite \<Rightarrow> bytes \<Rightarrow> bytes \<Rightarrow> Argon2idParams \<Rightarrow> bytes \<Rightarrow> ('r, Keyslot) rnd" where
  "new_passphrase E suite mvk passphrase params header_salt =
     bindR (fill E 16) (\<lambda>slot_uuid. bindR (fill E 32) (\<lambda>salt. bindR (fill E 12) (\<lambda>nonce.
       let slot = fresh_slot Passphrase slot_uuid params salt nonce [] (replicate 32 0) in
       liftR (bindE (derive_kek E passphrase salt params) (\<lambda>kek.
         wrap_mvk E suite slot kek mvk header_salt)))))"

definition unlock_passphrase ::
  "'r env \<Rightarrow> CipherSuite \<Rightarrow> Keyslot \<Rightarrow> bytes \<Rightarrow> bytes \<Rightarrow> bytes res" where
  "unlock_passphrase E suite s passphrase header_salt =
     (if kind s \<noteq> Passphrase then Inl InvalidField
      else bindE (derive_kek E passphrase (kdf_salt s) (kdf_params s)) (\<lambda>kek.
        unwrap_mvk E suite s kek header_salt))"

definition new_fido2 ::
  "'r env \<Rightarrow> CipherSuite \<Rightarrow> bytes \<Rightarrow> bytes option \<Rightarrow> bytes \<Rightarrow> bytes \<Rightarrow> bytes \<Rightarrow> Argon2idParams
    \<Rightarrow> bytes \<Rightarrow> ('r, Keyslot) rnd" where
  "new_fido2 E suite mvk passphrase hmac_secret cred_id hmac_salt params header_salt =
     (if FIDO2_CRED_ID_MAX < length cred_id then failR (Fido2CredIdTooLong (length cred_id))
      else bindR (fill E 16) (\<lambda>slot_uuid. bindR (fill E 32) (\<lambda>salt. bindR (fill E 12) (\<lambda>nonce.
        let slot = fresh_slot Fido2HmacSecret slot_uuid params salt nonce cred_id hmac_salt in
        liftR (bindE (derive_kek_with_fido2 E (opt_bytes passphrase) hmac_secret salt params) (\<lambda>kek.
          wrap_mvk E suite slot kek mvk header_salt))))))"

definition unlock_fido2 ::
  "'r env \<Rightarrow> CipherSuite \<Rightarrow> Keyslot \<Rightarrow> bytes option \<Rightarrow> bytes \<Rightarrow> bytes \<Rightarrow> bytes res" where
  "unlock_fido2 E suite s passphrase hmac_secret header_salt =
     (if kind s \<noteq> Fido2HmacSecret then Inl InvalidField
      else bindE (derive_kek_with_fido2 E (opt_bytes passphrase) hmac_secret (kdf_salt s) (kdf_params s))
        (\<lambda>kek. unwrap_mvk E suite s kek header_salt))"

definition new_fido2_derived_mvk :: "'r env \<Rightarrow> bytes \<Rightarrow> bytes \<Rightarrow> ('r, Keyslot) rnd" where
  "new_fido2_derived_mvk E cred_id hmac_salt =
     (if FIDO2_CRED_ID_MAX < length cred_id then failR (Fido2CredIdTooLong (length cred_id))
      else bindR (fill E 16) (\<lambda>slot_uuid. bindR (fill E 32) (\<lambda>salt. bindR (fill E 12) (\<lambda>nonce.
           bindR (fill E 32) (\<lambda>ct. bindR (fill E 16) (\<lambda>tag.
        retR ((fresh_slot Fido2DerivedMvk slot_uuid zero_params salt nonce cred_id hmac_salt)
               \<lparr>wrapped_ct := ct, wrapped_tag := tag\<rparr>)))))))"

definition unlock_fido2_derived_mvk :: "'r env \<Rightarrow> Keyslot \<Rightarrow> bytes \<Rightarrow> bytes res" where
  "unlock_fido2_derived_mvk E s hmac_secret =
     (if kind s \<noteq> Fido2DerivedMvk then Inl InvalidField
      else Inr (derive_mvk_from_fido2 E (fido2_hmac_salt s) hmac_secret))"

section \<open>Hybrid passphrase and FIDO2 slots\<close>

definition build_hybrid_pq_passphrase ::
  "'r env \<Rightarrow> SlotKind \<Rightarrow> CipherSuite \<Rightarrow> bytes \<Rightarrow> bytes \<Rightarrow> bytes \<Rightarrow> Argon2idParams \<Rightarrow> bytes
    \<Rightarrow> ('r, Keyslot) rnd" where
  "build_hybrid_pq_passphrase E k suite mvk passphrase pq_shared params header_salt =
     bindR (fill E 16) (\<lambda>slot_uuid. bindR (fill E 32) (\<lambda>salt. bindR (fill E 12) (\<lambda>nonce.
       let slot = fresh_slot k slot_uuid params salt nonce [] (replicate 32 0) in
       liftR (bindE (derive_hybrid_kek E passphrase pq_shared salt params) (\<lambda>kek.
         wrap_mvk E suite slot kek mvk header_salt)))))"

definition new_hybrid_pq_passphrase ::
  "'r env \<Rightarrow> CipherSuite \<Rightarrow> bytes \<Rightarrow> bytes \<Rightarrow> bytes \<Rightarrow> Argon2idParams \<Rightarrow> bytes \<Rightarrow> ('r, Keyslot) rnd" where
  "new_hybrid_pq_passphrase E suite mvk passphrase pq_shared params header_salt =
     build_hybrid_pq_passphrase E HybridPqKemPassphrase suite mvk passphrase pq_shared params header_salt"

definition new_hybrid_pq_1024_passphrase ::
  "'r env \<Rightarrow> CipherSuite \<Rightarrow> bytes \<Rightarrow> bytes \<Rightarrow> bytes \<Rightarrow> Argon2idParams \<Rightarrow> bytes \<Rightarrow> ('r, Keyslot) rnd" where
  "new_hybrid_pq_1024_passphrase E suite mvk passphrase pq_shared params header_salt =
     build_hybrid_pq_passphrase E HybridPqKem1024Passphrase suite mvk passphrase pq_shared params header_salt"

definition unlock_hybrid_pq_passphrase ::
  "'r env \<Rightarrow> CipherSuite \<Rightarrow> Keyslot \<Rightarrow> bytes \<Rightarrow> bytes \<Rightarrow> bytes \<Rightarrow> bytes res" where
  "unlock_hybrid_pq_passphrase E suite s passphrase pq_shared header_salt =
     (if \<not> is_hybrid_pq_passphrase (kind s) then Inl InvalidField
      else bindE (derive_hybrid_kek E passphrase pq_shared (kdf_salt s) (kdf_params s)) (\<lambda>kek.
        unwrap_mvk E suite s kek header_salt))"

definition build_hybrid_pq_fido2 ::
  "'r env \<Rightarrow> SlotKind \<Rightarrow> CipherSuite \<Rightarrow> bytes \<Rightarrow> bytes option \<Rightarrow> bytes \<Rightarrow> bytes \<Rightarrow> bytes \<Rightarrow> bytes
    \<Rightarrow> Argon2idParams \<Rightarrow> bytes \<Rightarrow> ('r, Keyslot) rnd" where
  "build_hybrid_pq_fido2 E k suite mvk passphrase hmac_secret pq_shared cred_id hmac_salt params header_salt =
     (if FIDO2_CRED_ID_MAX < length cred_id then failR (Fido2CredIdTooLong (length cred_id))
      else bindR (fill E 16) (\<lambda>slot_uuid. bindR (fill E 32) (\<lambda>salt. bindR (fill E 12) (\<lambda>nonce.
        let slot = fresh_slot k slot_uuid params salt nonce cred_id hmac_salt in
        liftR (bindE (derive_hybrid_fido2_kek E (opt_bytes passphrase) hmac_secret pq_shared salt params)
          (\<lambda>kek. wrap_mvk E suite slot kek mvk header_salt))))))"

definition new_hybrid_pq_fido2 ::
  "'r env \<Rightarrow> CipherSuite \<Rightarrow> bytes \<Rightarrow> bytes option \<Rightarrow> bytes \<Rightarrow> bytes \<Rightarrow> bytes \<Rightarrow> bytes
    \<Rightarrow> Argon2idParams \<Rightarrow> bytes \<Rightarrow> ('r, Keyslot) rnd" where
  "new_hybrid_pq_fido2 E suite mvk passphrase hmac_secret pq_shared cred_id hmac_salt params header_salt =
     build_hybrid_pq_fido2 E HybridPqKemFido2 suite mvk passphrase hmac_secret pq_shared cred_id
       hmac_salt params header_salt"

definition new_hybrid_pq_1024_fido2 ::
  "'r env \<Rightarrow> CipherSuite \<Rightarrow> bytes \<Rightarrow> bytes option \<Rightarrow> bytes \<Rightarrow> bytes \<Rightarrow> bytes \<Rightarrow> bytes
    \<Rightarrow> Argon2idParams \<Rightarrow> bytes \<Rightarrow> ('r, Keyslot) rnd" where
  "new_hybrid_pq_1024_fido2 E suite mvk passphrase hmac_secret pq_shared cred_id hmac_salt params header_salt =
     build_hybrid_pq_fido2 E HybridPqKem1024Fido2 suite mvk passphrase hmac_secret pq_shared cred_id
       hmac_salt params header_salt"

definition unlock_hybrid_pq_fido2 ::
  "'r env \<Rightarrow> CipherSuite \<Rightarrow> Keyslot \<Rightarrow> bytes option \<Rightarrow> bytes \<Rightarrow> bytes \<Rightarrow> bytes \<Rightarrow> bytes res" where
  "unlock_hybrid_pq_fido2 E suite s passphrase hmac_secret pq_shared header_salt =
     (if \<not> is_hybrid_pq_fido2 (kind s) then Inl InvalidField
      else bindE (derive_hybrid_fido2_kek E (opt_bytes passphrase) hmac_secret pq_shared
                    (kdf_salt s) (kdf_params s))
        (\<lambda>kek. unwrap_mvk E suite s kek header_salt))"

section \<open>TPM slots\<close>

definition new_tpm2 ::
  "'r env \<Rightarrow> CipherSuite \<Rightarrow> bytes \<Rightarrow> bytes \<Rightarrow> bytes \<Rightarrow> bytes \<Rightarrow> ('r, Keyslot) rnd" where
  "new_tpm2 E suite mvk kek_from_tpm sealed_blob header_salt =
     (if FIDO2_CRED_ID_MAX < length sealed_blob then failR (Fido2CredIdTooLong (length sealed_blob))
      else bindR (fill E 16) (\<lambda>slot_uuid. bindR (fill E 12) (\<lambda>nonce. bindR (fill E 32) (\<lambda>salt.
        let slot = fresh_slot Tpm2Sealed slot_uuid zero_params salt nonce sealed_blob (replicate 32 0) in
        liftR (wrap_mvk E suite slot kek_from_tpm mvk header_salt)))))"

definition new_tpm2_pin ::
  "'r env \<Rightarrow> CipherSuite \<Rightarrow> bytes \<Rightarrow> bytes \<Rightarrow> bytes \<Rightarrow> bytes \<Rightarrow> ('r, Keyslot) rnd" where
  "new_tpm2_pin E suite mvk kek_from_tpm sealed_blob header_salt =
     (if FIDO2_CRED_ID_MAX < length sealed_blob then failR (Fido2CredIdTooLong (length sealed_blob))
      else bindR (fill E 16) (\<lambda>slot_uuid. bindR (fill E 12) (\<lambda>nonce. bindR (fill E 32) (\<lambda>salt.
        let slot = fresh_slot Tpm2SealedPin slot_uuid zero_params salt nonce sealed_blob (replicate 32 0) in
        liftR (wrap_mvk E suite slot kek_from_tpm mvk header_salt)))))"

definition unlock_tpm2 ::
  "'r env \<Rightarrow> CipherSuite \<Rightarrow> Keyslot \<Rightarrow> bytes \<Rightarrow> bytes \<Rightarrow> bytes res" where
  "unlock_tpm2 E suite s kek_from_tpm header_salt =
     (if kind s \<notin> {Tpm2Sealed, Tpm2SealedPin} then Inl InvalidField
      else unwrap_mvk E suite s kek_from_tpm header_salt)"

definition tpm2_sealed_blob :: "Keyslot \<Rightarrow> bytes option" where
  "tpm2_sealed_blob s =
     (if kind s \<in> {Tpm2Sealed, Tpm2SealedPin, HybridPqKemTpm2, HybridPqKem1024Tpm2}
      then Some (fido2_cred_id s) else None)"

text \<open>The sub-format \<open>[tpm_blob_len: u16 LE | tpm_blob | cred_id]\<close> of the fused kinds.\<close>

definition combine_blob :: "bytes \<Rightarrow> bytes \<Rightarrow> bytes res" where
  "combine_blob sealed_blob cred_id =
     (let combined_len = 2 + length sealed_blob + length cred_id in
      if USIZE_LIMIT \<le> combined_len then Inl InvalidField
      else if FIDO2_CRED_ID_MAX < combined_len then Inl (Fido2CredIdTooLong combined_len)
      else if U16_MAX < length sealed_blob then Inl InvalidField
      else Inr (u16_to_le (of_nat (length sealed_blob)) @ sealed_blob @ cred_id))"

definition new_tpm2_fido2 ::
  "'r env \<Rightarrow> CipherSuite \<Rightarrow> bytes \<Rightarrow> bytes \<Rightarrow> bytes \<Rightarrow> bytes \<Rightarrow> bytes \<Rightarrow> bytes \<Rightarrow> bytes
    \<Rightarrow> ('r, Keyslot) rnd" where
  "new_tpm2_fido2 E suite mvk tpm_unsealed hmac_secret sealed_blob cred_id hmac_salt header_salt =
     bindR (liftR (combine_blob sealed_blob cred_id)) (\<lambda>combined.
     bindR (fill E 16) (\<lambda>slot_uuid. bindR (fill E 12) (\<lambda>nonce. bindR (fill E 32) (\<lambda>salt.
       let slot = fresh_slot Tpm2Fido2 slot_uuid zero_params salt nonce combined hmac_salt in
       liftR (wrap_mvk E suite slot (derive_tpm2_fido2_kek E tpm_unsealed hmac_secret header_salt)
                mvk header_salt)))))"

definition unlock_tpm2_fido2 ::
  "'r env \<Rightarrow> CipherSuite \<Rightarrow> Keyslot \<Rightarrow> bytes \<Rightarrow> bytes \<Rightarrow> bytes \<Rightarrow> bytes res" where
  "unlock_tpm2_fido2 E suite s tpm_unsealed hmac_secret header_salt =
     (if kind s \<noteq> Tpm2Fido2 then Inl InvalidField
      else unwrap_mvk E suite s (derive_tpm2_fido2_kek E tpm_unsealed hmac_secret header_salt) header_salt)"

definition tpm2_fido2_sealed_blob :: "Keyslot \<Rightarrow> bytes option" where
  "tpm2_fido2_sealed_blob s =
     (if kind s \<notin> {Tpm2Fido2, HybridPqKemTpm2Fido2, HybridPqKem1024Tpm2Fido2} then None
      else
        (let buf = fido2_cred_id s in
         if length buf < 2 then None
         else
           (let blob_len = unat (u16_from_le [buf ! 0, buf ! 1]) in
            if length buf < 2 + blob_len then None else Some (slice buf 2 blob_len))))"

definition tpm2_fido2_cred_id :: "Keyslot \<Rightarrow> bytes option" where
  "tpm2_fido2_cred_id s =
     (if kind s \<notin> {Tpm2Fido2, HybridPqKemTpm2Fido2, HybridPqKem1024Tpm2Fido2} then None
      else
        (let buf = fido2_cred_id s in
         if length buf < 2 then None
         else
           (let off = 2 + unat (u16_from_le [buf ! 0, buf ! 1]) in
            if length buf < off then None else Some (drop off buf))))"

definition new_hybrid_pq_tpm2 ::
  "'r env \<Rightarrow> CipherSuite \<Rightarrow> bytes \<Rightarrow> bytes \<Rightarrow> bytes \<Rightarrow> bytes \<Rightarrow> bytes \<Rightarrow> ('r, Keyslot) rnd" where
  "new_hybrid_pq_tpm2 E suite mvk kek_from_tpm pq_shared sealed_blob header_salt =
     (if FIDO2_CRED_ID_MAX < length sealed_blob then failR (Fido2CredIdTooLong (length sealed_blob))
      else bindR (fill E 16) (\<lambda>slot_uuid. bindR (fill E 12) (\<lambda>nonce. bindR (fill E 32) (\<lambda>salt.
        let slot = fresh_slot HybridPqKemTpm2 slot_uuid zero_params salt nonce sealed_blob (replicate 32 0) in
        liftR (wrap_mvk E suite slot (derive_hybrid_tpm2_kek E kek_from_tpm pq_shared header_salt)
                 mvk header_salt)))))"

definition unlock_hybrid_pq_tpm2 ::
  "'r env \<Rightarrow> CipherSuite \<Rightarrow> Keyslot \<Rightarrow> bytes \<Rightarrow> bytes \<Rightarrow> bytes \<Rightarrow> bytes res" where
  "unlock_hybrid_pq_tpm2 E suite s kek_from_tpm pq_shared header_salt =
     (if kind s \<notin> {HybridPqKemTpm2, HybridPqKem1024Tpm2} then Inl InvalidField
      else unwrap_mvk E suite s (derive_hybrid_tpm2_kek E kek_from_tpm pq_shared header_salt) header_salt)"

definition new_hybrid_pq_tpm2_fido2 ::
  "'r env \<Rightarrow> CipherSuite \<Rightarrow> bytes \<Rightarrow> bytes \<Rightarrow> bytes \<Rightarrow> bytes \<Rightarrow> bytes \<Rightarrow> bytes \<Rightarrow> bytes \<Rightarrow> bytes
    \<Rightarrow> ('r, Keyslot) rnd" where
  "new_hybrid_pq_tpm2_fido2 E suite mvk tpm_unsealed hmac_secret pq_shared sealed_blob cred_id
       hmac_salt header_salt =
     bindR (liftR (combine_blob sealed_blob cred_id)) (\<lambda>combined.
     bindR (fill E 16) (\<lambda>slot_uuid. bindR (fill E 12) (\<lambda>nonce. bindR (fill E 32) (\<lambda>salt.
       let slot = fresh_slot HybridPqKemTpm2Fido2 slot_uuid zero_params salt nonce combined hmac_salt in
       liftR (wrap_mvk E suite slot
                (derive_hybrid_tpm2_fido2_kek E tpm_unsealed hmac_secret pq_shared header_salt)
                mvk header_salt)))))"

definition unlock_hybrid_pq_tpm2_fido2 ::
  "'r env \<Rightarrow> CipherSuite \<Rightarrow> Keyslot \<Rightarrow> bytes \<Rightarrow> bytes \<Rightarrow> bytes \<Rightarrow> bytes \<Rightarrow> bytes res" where
  "unlock_hybrid_pq_tpm2_fido2 E suite s tpm_unsealed hmac_secret pq_shared header_salt =
     (if kind s \<notin> {HybridPqKemTpm2Fido2, HybridPqKem1024Tpm2Fido2} then Inl InvalidField
      else unwrap_mvk E suite s
             (derive_hybrid_tpm2_fido2_kek E tpm_unsealed hmac_secret pq_shared header_salt) header_salt)"

text \<open>
  The ML-KEM-1024 variants build the 768 slot, change its kind, draw a fresh nonce and wrap
  again, since the kind byte is part of the associated data.
\<close>

definition rewrap_as :: "'r env \<Rightarrow> CipherSuite \<Rightarrow> SlotKind \<Rightarrow> Keyslot \<Rightarrow> bytes \<Rightarrow> bytes \<Rightarrow> bytes
    \<Rightarrow> ('r, Keyslot) rnd" where
  "rewrap_as E suite k s kek mvk header_salt =
     (let s = s\<lparr>kind := k, wrapped_ct := replicate 32 0, wrapped_tag := replicate 16 0\<rparr> in
      bindR (fill E 12) (\<lambda>nonce.
        liftR (wrap_mvk E suite (s\<lparr>aead_nonce := nonce\<rparr>) kek mvk header_salt)))"

definition new_hybrid_pq_1024_tpm2 ::
  "'r env \<Rightarrow> CipherSuite \<Rightarrow> bytes \<Rightarrow> bytes \<Rightarrow> bytes \<Rightarrow> bytes \<Rightarrow> bytes \<Rightarrow> ('r, Keyslot) rnd" where
  "new_hybrid_pq_1024_tpm2 E suite mvk kek_from_tpm pq_shared sealed_blob header_salt =
     bindR (new_hybrid_pq_tpm2 E suite mvk kek_from_tpm pq_shared sealed_blob header_salt) (\<lambda>s.
       rewrap_as E suite HybridPqKem1024Tpm2 s
         (derive_hybrid_tpm2_kek E kek_from_tpm pq_shared header_salt) mvk header_salt)"

definition new_hybrid_pq_1024_tpm2_fido2 ::
  "'r env \<Rightarrow> CipherSuite \<Rightarrow> bytes \<Rightarrow> bytes \<Rightarrow> bytes \<Rightarrow> bytes \<Rightarrow> bytes \<Rightarrow> bytes \<Rightarrow> bytes \<Rightarrow> bytes
    \<Rightarrow> ('r, Keyslot) rnd" where
  "new_hybrid_pq_1024_tpm2_fido2 E suite mvk tpm_unsealed hmac_secret pq_shared sealed_blob cred_id
       hmac_salt header_salt =
     bindR (new_hybrid_pq_tpm2_fido2 E suite mvk tpm_unsealed hmac_secret pq_shared sealed_blob
              cred_id hmac_salt header_salt) (\<lambda>s.
       rewrap_as E suite HybridPqKem1024Tpm2Fido2 s
         (derive_hybrid_tpm2_fido2_kek E tpm_unsealed hmac_secret pq_shared header_salt) mvk header_salt)"

section \<open>Secure Enclave slots\<close>

definition check_sep_factors :: "SlotKind \<Rightarrow> bool \<Rightarrow> bool \<Rightarrow> bool \<Rightarrow> unit res" where
  "check_sep_factors k has_fido2 has_passphrase has_pq =
     (if \<not> is_sep k \<or> is_sep_fido2 k \<noteq> has_fido2 \<or> is_sep_passphrase k \<noteq> has_passphrase
         \<or> is_hybrid_pq k \<noteq> has_pq
      then Inl InvalidField else Inr ())"

definition reject_null_factor :: "bytes \<Rightarrow> unit res" where
  "reject_null_factor factor = (if list_all (\<lambda>b. b = 0) factor then Inl InvalidField else Inr ())"

definition reject_null_opt :: "bytes option \<Rightarrow> unit res" where
  "reject_null_opt factor = (case factor of None \<Rightarrow> Inr () | Some f \<Rightarrow> reject_null_factor f)"

definition sep_factor_checks ::
  "SlotKind \<Rightarrow> bytes \<Rightarrow> bytes option \<Rightarrow> bytes option \<Rightarrow> bytes option \<Rightarrow> unit res" where
  "sep_factor_checks k sep_shared hmac_secret passphrase pq_shared =
     bindE (check_sep_factors k (hmac_secret \<noteq> None) (passphrase \<noteq> None) (pq_shared \<noteq> None)) (\<lambda>_.
     bindE (reject_null_factor sep_shared) (\<lambda>_.
     bindE (reject_null_opt hmac_secret) (\<lambda>_. reject_null_opt pq_shared)))"

definition passphrase_factor ::
  "'r env \<Rightarrow> bytes option \<Rightarrow> bytes \<Rightarrow> Argon2idParams \<Rightarrow> bytes option res" where
  "passphrase_factor E passphrase salt params =
     (case passphrase of None \<Rightarrow> Inr None
      | Some pp \<Rightarrow> bindE (derive_kek E pp salt params) (\<lambda>k. Inr (Some k)))"

definition new_sep ::
  "'r env \<Rightarrow> CipherSuite \<Rightarrow> bytes \<Rightarrow> SlotKind \<Rightarrow> bytes \<Rightarrow> bytes option \<Rightarrow> bytes option \<Rightarrow> Argon2idParams
    \<Rightarrow> bytes option \<Rightarrow> bytes \<Rightarrow> bytes \<Rightarrow> bytes \<Rightarrow> ('r, Keyslot) rnd" where
  "new_sep E suite mvk k sep_shared hmac_secret passphrase params pq_shared cred_id hmac_salt header_salt =
     bindR (liftR (sep_factor_checks k sep_shared hmac_secret passphrase pq_shared)) (\<lambda>_.
     if is_sep_fido2 k \<and> (cred_id = [] \<or> FIDO2_CRED_ID_MAX < length cred_id)
       then failR (Fido2CredIdTooLong (length cred_id))
     else if \<not> is_sep_fido2 k \<and> cred_id \<noteq> [] then failR InvalidField
     else
       bindR (fill E 16) (\<lambda>slot_uuid. bindR (fill E 12) (\<lambda>nonce. bindR (fill E 32) (\<lambda>salt.
         let stored_params = (if passphrase \<noteq> None then params else zero_params);
             slot = fresh_slot k slot_uuid stored_params salt nonce
                      (if is_sep_fido2 k then cred_id else [])
                      (if is_sep_fido2 k then hmac_salt else replicate 32 0)
         in liftR (bindE (passphrase_factor E passphrase salt params) (\<lambda>pp_kek.
              wrap_mvk E suite slot (derive_sep_kek E sep_shared pp_kek hmac_secret pq_shared header_salt)
                mvk header_salt))))))"

definition unlock_sep ::
  "'r env \<Rightarrow> CipherSuite \<Rightarrow> Keyslot \<Rightarrow> bytes \<Rightarrow> bytes option \<Rightarrow> bytes option \<Rightarrow> bytes option \<Rightarrow> bytes
    \<Rightarrow> bytes res" where
  "unlock_sep E suite s sep_shared hmac_secret passphrase pq_shared header_salt =
     bindE (sep_factor_checks (kind s) sep_shared hmac_secret passphrase pq_shared) (\<lambda>_.
     bindE (passphrase_factor E passphrase (kdf_salt s) (kdf_params s)) (\<lambda>pp_kek.
       unwrap_mvk E suite s (derive_sep_kek E sep_shared pp_kek hmac_secret pq_shared header_salt)
         header_salt))"

section \<open>The contract between a constructor and its unlock path\<close>

lemma fresh_slot_wf:
  assumes "k \<noteq> Empty" "length u = 16" "length salt = 32" "length nonce = 12" "length hsalt = 32"
    and "length cred \<le> 352" and "kdf_runs_argon2 k \<longrightarrow> is_sane_for_disk p"
    and "\<not> has_inline_hmac_salt k \<longrightarrow> hsalt = replicate 32 0"
    and "\<not> has_inline_hmac_salt k \<and> \<not> raw_tpm_blob k \<longrightarrow> cred = []"
  shows "slot_wf (fresh_slot k u p salt nonce cred hsalt)"
  using assms by (simp add: fresh_slot_def slot_wf_def slot_layout_by_version)

lemma fresh_slot_sel [simp]:
  "kind (fresh_slot k u p salt nonce cred hsalt) = k"
  "kdf_salt (fresh_slot k u p salt nonce cred hsalt) = salt"
  "kdf_params (fresh_slot k u p salt nonce cred hsalt) = p"
  "fido2_cred_id (fresh_slot k u p salt nonce cred hsalt) = cred"
  "fido2_hmac_salt (fresh_slot k u p salt nonce cred hsalt) = hsalt"
  by (simp_all add: fresh_slot_def)

locale slot_scheme =
  fixes E :: "'r env" and suite :: CipherSuite and hs :: bytes
    and accepts :: "SlotKind \<Rightarrow> bool"
    and pre :: bool
    and derive :: "Keyslot \<Rightarrow> bytes res"
    and enroll :: "bytes \<Rightarrow> ('r, Keyslot) rnd"
    and unlock :: "Keyslot \<Rightarrow> bytes res"
  assumes enroll_wraps: "enroll mvk r = (Inr s, r') \<Longrightarrow>
      \<exists>s0 kek. accepts (kind s0) \<and> kind s0 \<noteq> Empty \<and> derive s0 = Inr kek
        \<and> wrap_mvk E suite s0 kek mvk hs = Inr s \<and> (rng_fills E \<and> pre \<longrightarrow> slot_wf s0)"
    and unlock_unwraps: "unlock s =
      (if accepts (kind s) then bindE (derive s) (\<lambda>kek. unwrap_mvk E suite s kek hs)
       else Inl InvalidField)"
    and derive_frame: "derive (s\<lparr>wrapped_ct := c, wrapped_tag := t\<rparr>) = derive s"
begin

lemma unlock_enrolled:
  assumes "aead_correct E" and "length mvk = 32" and new: "enroll mvk r = (Inr s, r')"
  shows "unlock s = Inr mvk"
proof -
  from enroll_wraps [OF new] obtain s0 kek where s0: "accepts (kind s0)" "derive s0 = Inr kek"
    and w: "wrap_mvk E suite s0 kek mvk hs = Inr s" by blast
  from w obtain c t where s: "s = s0\<lparr>wrapped_ct := c, wrapped_tag := t\<rparr>"
    by (blast elim: wrap_mvk_cases)
  with s0 have "accepts (kind s)" "derive s = Inr kek"
    by (simp_all add: derive_frame)
  with unwrap_wrap_mvk [OF assms(1,2) w] show ?thesis
    by (simp add: unlock_unwraps)
qed

lemma enroll_wf:
  assumes "rng_fills E" and "pre" and new: "enroll mvk r = (Inr s, r')"
  shows "slot_wf s \<and> accepts (kind s) \<and> kind s \<noteq> Empty"
  using enroll_wraps [OF new] assms(1,2) wrap_mvk_wf by metis

lemma unlock_from_disk:
  assumes "aead_correct E" and "rng_fills E" and "length mvk = 32" and "pre"
    and new: "enroll mvk r = (Inr s, r1)" and disk: "slot_to_bytes E s r2 = (Inr buf, r3)"
  shows "slot_from_bytes buf = Inr s \<and> unlock s = Inr mvk"
proof -
  obtain padding where "length padding = 512" and buf: "buf = slot_layout_bytes padding s"
    using slot_to_bytes_layout [OF assms(2) disk] by blast
  moreover have "slot_wf s" using enroll_wf [OF assms(2,4) new] by blast
  ultimately have "slot_from_bytes buf = Inr s" by (simp add: slot_codec.decode_encode)
  with unlock_enrolled [OF assms(1,3) new] show ?thesis by blast
qed

lemma unlock_opens:
  "unlock s = Inr mvk \<Longrightarrow>
     accepts (kind s) \<and> length mvk = 32 \<and>
     (\<exists>kek. derive s = Inr kek \<and>
       aead_open E suite kek (aead_nonce s) (build_aead_aad s hs) (wrapped_ct s @ wrapped_tag s) = Inr mvk)"
  by (auto simp: unlock_unwraps res_simps unwrap_mvk_eq_Inr split: if_splits)

lemma unlock_errors:
  "unlock s = Inl e \<Longrightarrow>
     (if accepts (kind s) then derive s = Inl e \<or> e = KeyslotAuthFailed else e = InvalidField)"
  by (auto simp: unlock_unwraps res_simps dest: unwrap_mvk_error split: if_splits)

end

text \<open>
  Every constructor draws a uuid, a salt and a nonce and wraps the volume key into a fresh
  slot, under a key computed from the salt.
\<close>

definition enrolled_as ::
  "'r env \<Rightarrow> CipherSuite \<Rightarrow> bytes \<Rightarrow> SlotKind \<Rightarrow> Argon2idParams \<Rightarrow> bytes \<Rightarrow> bytes \<Rightarrow> (bytes \<Rightarrow> bytes res)
    \<Rightarrow> bytes \<Rightarrow> Keyslot \<Rightarrow> bool" where
  "enrolled_as E suite hs k p cred hsalt kekf mvk s \<longleftrightarrow>
     (\<exists>u salt nonce kek. (rng_fills E \<longrightarrow> length u = 16 \<and> length salt = 32 \<and> length nonce = 12)
        \<and> kekf salt = Inr kek
        \<and> wrap_mvk E suite (fresh_slot k u p salt nonce cred hsalt) kek mvk hs = Inr s)"

lemma enrolled_as_wraps:
  assumes "enrolled_as E suite hs k p cred hsalt kekf mvk s"
    and "accepts k" "k \<noteq> Empty" and "\<And>u salt nonce. derive (fresh_slot k u p salt nonce cred hsalt) = kekf salt"
    and "rng_fills E \<Longrightarrow> pre \<Longrightarrow> length hsalt = 32 \<and> length cred \<le> 352
      \<and> (kdf_runs_argon2 k \<longrightarrow> is_sane_for_disk p) \<and> (\<not> has_inline_hmac_salt k \<longrightarrow> hsalt = replicate 32 0)
      \<and> (\<not> has_inline_hmac_salt k \<and> \<not> raw_tpm_blob k \<longrightarrow> cred = [])"
  shows "\<exists>s0 kek. accepts (kind s0) \<and> kind s0 \<noteq> Empty \<and> derive s0 = Inr kek
        \<and> wrap_mvk E suite s0 kek mvk hs = Inr s \<and> (rng_fills E \<and> pre \<longrightarrow> slot_wf s0)"
proof -
  from assms(1) obtain u salt nonce kek where d:
    "rng_fills E \<longrightarrow> length u = 16 \<and> length salt = 32 \<and> length nonce = 12" "kekf salt = Inr kek"
    "wrap_mvk E suite (fresh_slot k u p salt nonce cred hsalt) kek mvk hs = Inr s"
    unfolding enrolled_as_def by blast
  have "slot_wf (fresh_slot k u p salt nonce cred hsalt)" if "rng_fills E" "pre"
    using assms(3) d(1) assms(5) [OF that] that by (intro fresh_slot_wf) auto
  with assms(2-4) d(2,3) show ?thesis
    by (intro exI [where x = "fresh_slot k u p salt nonce cred hsalt"]) auto
qed

lemma new_passphrase_enrolled:
  "new_passphrase E suite mvk pw params hs r = (Inr s, r') \<Longrightarrow>
     enrolled_as E suite hs Passphrase params [] (replicate 32 0) (\<lambda>salt. derive_kek E pw salt params) mvk s"
  by (fastforce simp: new_passphrase_def res_simps enrolled_as_def dest: fill_length)

lemma new_fido2_enrolled:
  "new_fido2 E suite mvk pw h cred hsalt params hs r = (Inr s, r') \<Longrightarrow> length cred \<le> 352 \<and>
     enrolled_as E suite hs Fido2HmacSecret params cred hsalt
       (\<lambda>salt. derive_kek_with_fido2 E (opt_bytes pw) h salt params) mvk s"
  by (fastforce simp: new_fido2_def res_simps enrolled_as_def dest: fill_length split: if_splits)

lemma build_hybrid_pq_passphrase_enrolled:
  "build_hybrid_pq_passphrase E k suite mvk pw pq params hs r = (Inr s, r') \<Longrightarrow>
     enrolled_as E suite hs k params [] (replicate 32 0) (\<lambda>salt. derive_hybrid_kek E pw pq salt params) mvk s"
  by (fastforce simp: build_hybrid_pq_passphrase_def res_simps enrolled_as_def dest: fill_length)

lemma build_hybrid_pq_fido2_enrolled:
  "build_hybrid_pq_fido2 E k suite mvk pw h pq cred hsalt params hs r = (Inr s, r') \<Longrightarrow> length cred \<le> 352 \<and>
     enrolled_as E suite hs k params cred hsalt
       (\<lambda>salt. derive_hybrid_fido2_kek E (opt_bytes pw) h pq salt params) mvk s"
  by (fastforce simp: build_hybrid_pq_fido2_def res_simps enrolled_as_def dest: fill_length split: if_splits)

lemma new_tpm2_enrolled:
  "new_tpm2 E suite mvk tk blob hs r = (Inr s, r') \<Longrightarrow> length blob \<le> 352 \<and>
     enrolled_as E suite hs Tpm2Sealed zero_params blob (replicate 32 0) (\<lambda>_. Inr tk) mvk s"
  by (fastforce simp: new_tpm2_def res_simps enrolled_as_def dest: fill_length split: if_splits)

lemma new_tpm2_pin_enrolled:
  "new_tpm2_pin E suite mvk tk blob hs r = (Inr s, r') \<Longrightarrow> length blob \<le> 352 \<and>
     enrolled_as E suite hs Tpm2SealedPin zero_params blob (replicate 32 0) (\<lambda>_. Inr tk) mvk s"
  by (fastforce simp: new_tpm2_pin_def res_simps enrolled_as_def dest: fill_length split: if_splits)

lemma new_hybrid_pq_tpm2_enrolled:
  "new_hybrid_pq_tpm2 E suite mvk tk pq blob hs r = (Inr s, r') \<Longrightarrow> length blob \<le> 352 \<and>
     enrolled_as E suite hs HybridPqKemTpm2 zero_params blob (replicate 32 0)
       (\<lambda>_. Inr (derive_hybrid_tpm2_kek E tk pq hs)) mvk s"
  by (fastforce simp: new_hybrid_pq_tpm2_def res_simps enrolled_as_def dest: fill_length split: if_splits)

lemma combine_blob_length: "combine_blob blob cred = Inr c \<Longrightarrow> length c \<le> 352"
  by (auto simp: combine_blob_def Let_def split: if_splits)

lemma new_tpm2_fido2_enrolled:
  "new_tpm2_fido2 E suite mvk tk h blob cred hsalt hs r = (Inr s, r') \<Longrightarrow>
     \<exists>c. combine_blob blob cred = Inr c \<and>
       enrolled_as E suite hs Tpm2Fido2 zero_params c hsalt (\<lambda>_. Inr (derive_tpm2_fido2_kek E tk h hs)) mvk s"
  by (fastforce simp: new_tpm2_fido2_def res_simps enrolled_as_def dest: fill_length)

lemma new_hybrid_pq_tpm2_fido2_enrolled:
  "new_hybrid_pq_tpm2_fido2 E suite mvk tk h pq blob cred hsalt hs r = (Inr s, r') \<Longrightarrow>
     \<exists>c. combine_blob blob cred = Inr c \<and>
       enrolled_as E suite hs HybridPqKemTpm2Fido2 zero_params c hsalt
         (\<lambda>_. Inr (derive_hybrid_tpm2_fido2_kek E tk h pq hs)) mvk s"
  by (fastforce simp: new_hybrid_pq_tpm2_fido2_def res_simps enrolled_as_def dest: fill_length)

lemma rewrap_enrolled:
  assumes "enrolled_as E suite hs k p cred hsalt kekf mvk s0"
    and "rewrap_as E suite k' s0 kek mvk hs r = (Inr s, r')"
  shows "enrolled_as E suite hs k' p cred hsalt (\<lambda>_. Inr kek) mvk s"
proof -
  from assms(1) obtain u salt nonce kek0 where
    l: "rng_fills E \<longrightarrow> length u = 16 \<and> length salt = 32 \<and> length nonce = 12"
    and w0: "wrap_mvk E suite (fresh_slot k u p salt nonce cred hsalt) kek0 mvk hs = Inr s0"
    unfolding enrolled_as_def by blast
  from assms(2) obtain n r1 where f: "fill E 12 r = (Inr n, r1)"
    and w: "wrap_mvk E suite (s0\<lparr>kind := k', wrapped_ct := replicate 32 0, wrapped_tag := replicate 16 0,
              aead_nonce := n\<rparr>) kek mvk hs = Inr s"
    by (auto simp: rewrap_as_def Let_def res_simps)
  have "s0\<lparr>kind := k', wrapped_ct := replicate 32 0, wrapped_tag := replicate 16 0, aead_nonce := n\<rparr>
      = fresh_slot k' u p salt n cred hsalt"
    using w0 by (rule wrap_mvk_cases) (simp add: fresh_slot_def)
  with w l f show ?thesis
    unfolding enrolled_as_def using fill_length by (metis (no_types, lifting))
qed


lemma new_hybrid_pq_1024_tpm2_enrolled:
  assumes "new_hybrid_pq_1024_tpm2 E suite mvk tk pq blob hs r = (Inr s, r')"
  shows "length blob \<le> 352 \<and> enrolled_as E suite hs HybridPqKem1024Tpm2 zero_params blob (replicate 32 0)
       (\<lambda>_. Inr (derive_hybrid_tpm2_kek E tk pq hs)) mvk s"
proof -
  from assms obtain s0 r1 where n: "new_hybrid_pq_tpm2 E suite mvk tk pq blob hs r = (Inr s0, r1)"
    and w: "rewrap_as E suite HybridPqKem1024Tpm2 s0 (derive_hybrid_tpm2_kek E tk pq hs) mvk hs r1 = (Inr s, r')"
    by (auto simp: new_hybrid_pq_1024_tpm2_def res_simps)
  show ?thesis
    using new_hybrid_pq_tpm2_enrolled [OF n] rewrap_enrolled [OF _ w] by blast
qed

lemma new_hybrid_pq_1024_tpm2_fido2_enrolled:
  assumes "new_hybrid_pq_1024_tpm2_fido2 E suite mvk tk h pq blob cred hsalt hs r = (Inr s, r')"
  shows "\<exists>c. combine_blob blob cred = Inr c \<and>
       enrolled_as E suite hs HybridPqKem1024Tpm2Fido2 zero_params c hsalt
         (\<lambda>_. Inr (derive_hybrid_tpm2_fido2_kek E tk h pq hs)) mvk s"
proof -
  from assms obtain s0 r1 where
    n: "new_hybrid_pq_tpm2_fido2 E suite mvk tk h pq blob cred hsalt hs r = (Inr s0, r1)"
    and w: "rewrap_as E suite HybridPqKem1024Tpm2Fido2 s0 (derive_hybrid_tpm2_fido2_kek E tk h pq hs) mvk hs r1
      = (Inr s, r')"
    by (auto simp: new_hybrid_pq_1024_tpm2_fido2_def res_simps)
  show ?thesis
    using new_hybrid_pq_tpm2_fido2_enrolled [OF n] rewrap_enrolled [OF _ w] by blast
qed

lemma new_sep_enrolled:
  assumes "new_sep E suite mvk k sh h pw params pq cred hsalt hs r = (Inr s, r')"
  shows "sep_factor_checks k sh h pw pq = Inr ()
    \<and> (is_sep_fido2 k \<longrightarrow> length cred \<le> 352)
    \<and> enrolled_as E suite hs k (if pw \<noteq> None then params else zero_params)
        (if is_sep_fido2 k then cred else []) (if is_sep_fido2 k then hsalt else replicate 32 0)
        (\<lambda>salt. bindE (passphrase_factor E pw salt params) (\<lambda>pk. Inr (derive_sep_kek E sh pk h pq hs))) mvk s"
  using assms
  by (fastforce simp: new_sep_def res_simps enrolled_as_def Let_def dest: fill_length split: if_splits)

section \<open>The schemes\<close>

interpretation pp: slot_scheme E suite hs "\<lambda>k. k = Passphrase" "is_sane_for_disk params" "\<lambda>s. derive_kek E pw (kdf_salt s) (kdf_params s)"
  "\<lambda>mvk. new_passphrase E suite mvk pw params hs" "\<lambda>s. unlock_passphrase E suite s pw hs"
  for E :: "'r env" and suite hs params pw
  by unfold_locales
    (rule enrolled_as_wraps [OF new_passphrase_enrolled], assumption,
     auto simp: unlock_passphrase_def kind_class_defs)

interpretation fido2: slot_scheme E suite hs "\<lambda>k. k = Fido2HmacSecret" "is_sane_for_disk params \<and> length hsalt = 32" "\<lambda>s. derive_kek_with_fido2 E (opt_bytes pw) h (kdf_salt s) (kdf_params s)"
  "\<lambda>mvk. new_fido2 E suite mvk pw h cred hsalt params hs" "\<lambda>s. unlock_fido2 E suite s pw h hs"
  for E :: "'r env" and suite hs params cred hsalt pw h
  by unfold_locales
    (rule enrolled_as_wraps [OF conjunct2 [OF new_fido2_enrolled]], assumption,
     auto simp: unlock_fido2_def kind_class_defs dest: new_fido2_enrolled)

interpretation hpp: slot_scheme E suite hs "is_hybrid_pq_passphrase" "is_sane_for_disk params" "\<lambda>s. derive_hybrid_kek E pw pq (kdf_salt s) (kdf_params s)"
  "\<lambda>mvk. new_hybrid_pq_passphrase E suite mvk pw pq params hs" "\<lambda>s. unlock_hybrid_pq_passphrase E suite s pw pq hs"
  for E :: "'r env" and suite hs params pw pq
  by unfold_locales
    (unfold new_hybrid_pq_passphrase_def, rule enrolled_as_wraps [OF build_hybrid_pq_passphrase_enrolled], assumption,
     auto simp: unlock_hybrid_pq_passphrase_def kind_class_defs)

interpretation hpp1024: slot_scheme E suite hs "is_hybrid_pq_passphrase" "is_sane_for_disk params" "\<lambda>s. derive_hybrid_kek E pw pq (kdf_salt s) (kdf_params s)"
  "\<lambda>mvk. new_hybrid_pq_1024_passphrase E suite mvk pw pq params hs" "\<lambda>s. unlock_hybrid_pq_passphrase E suite s pw pq hs"
  for E :: "'r env" and suite hs params pw pq
  by unfold_locales
    (unfold new_hybrid_pq_1024_passphrase_def, rule enrolled_as_wraps [OF build_hybrid_pq_passphrase_enrolled], assumption,
     auto simp: unlock_hybrid_pq_passphrase_def kind_class_defs)

interpretation hfido: slot_scheme E suite hs "is_hybrid_pq_fido2" "is_sane_for_disk params \<and> length hsalt = 32" "\<lambda>s. derive_hybrid_fido2_kek E (opt_bytes pw) h pq (kdf_salt s) (kdf_params s)"
  "\<lambda>mvk. new_hybrid_pq_fido2 E suite mvk pw h pq cred hsalt params hs" "\<lambda>s. unlock_hybrid_pq_fido2 E suite s pw h pq hs"
  for E :: "'r env" and suite hs params cred hsalt pw h pq
  by unfold_locales
    (unfold new_hybrid_pq_fido2_def, rule enrolled_as_wraps [OF conjunct2 [OF build_hybrid_pq_fido2_enrolled]], assumption,
     auto simp: unlock_hybrid_pq_fido2_def kind_class_defs dest: build_hybrid_pq_fido2_enrolled)

interpretation hfido1024: slot_scheme E suite hs "is_hybrid_pq_fido2" "is_sane_for_disk params \<and> length hsalt = 32" "\<lambda>s. derive_hybrid_fido2_kek E (opt_bytes pw) h pq (kdf_salt s) (kdf_params s)"
  "\<lambda>mvk. new_hybrid_pq_1024_fido2 E suite mvk pw h pq cred hsalt params hs" "\<lambda>s. unlock_hybrid_pq_fido2 E suite s pw h pq hs"
  for E :: "'r env" and suite hs params cred hsalt pw h pq
  by unfold_locales
    (unfold new_hybrid_pq_1024_fido2_def, rule enrolled_as_wraps [OF conjunct2 [OF build_hybrid_pq_fido2_enrolled]], assumption,
     auto simp: unlock_hybrid_pq_fido2_def kind_class_defs dest: build_hybrid_pq_fido2_enrolled)

interpretation tpm: slot_scheme E suite hs "\<lambda>k. k \<in> {Tpm2Sealed, Tpm2SealedPin}" "True" "\<lambda>s. Inr tk"
  "\<lambda>mvk. new_tpm2 E suite mvk tk blob hs" "\<lambda>s. unlock_tpm2 E suite s tk hs"
  for E :: "'r env" and suite hs blob tk
  by unfold_locales
    (rule enrolled_as_wraps [OF conjunct2 [OF new_tpm2_enrolled]], assumption,
     auto simp: unlock_tpm2_def kind_class_defs dest: new_tpm2_enrolled)

interpretation tpmpin: slot_scheme E suite hs "\<lambda>k. k \<in> {Tpm2Sealed, Tpm2SealedPin}" "True" "\<lambda>s. Inr tk"
  "\<lambda>mvk. new_tpm2_pin E suite mvk tk blob hs" "\<lambda>s. unlock_tpm2 E suite s tk hs"
  for E :: "'r env" and suite hs blob tk
  by unfold_locales
    (rule enrolled_as_wraps [OF conjunct2 [OF new_tpm2_pin_enrolled]], assumption,
     auto simp: unlock_tpm2_def kind_class_defs dest: new_tpm2_pin_enrolled)

interpretation htpm: slot_scheme E suite hs "\<lambda>k. k \<in> {HybridPqKemTpm2, HybridPqKem1024Tpm2}" "True" "\<lambda>s. Inr (derive_hybrid_tpm2_kek E tk pq hs)"
  "\<lambda>mvk. new_hybrid_pq_tpm2 E suite mvk tk pq blob hs" "\<lambda>s. unlock_hybrid_pq_tpm2 E suite s tk pq hs"
  for E :: "'r env" and suite hs blob tk pq
  by unfold_locales
    (rule enrolled_as_wraps [OF conjunct2 [OF new_hybrid_pq_tpm2_enrolled]], assumption,
     auto simp: unlock_hybrid_pq_tpm2_def kind_class_defs dest: new_hybrid_pq_tpm2_enrolled)

interpretation htpm1024: slot_scheme E suite hs "\<lambda>k. k \<in> {HybridPqKemTpm2, HybridPqKem1024Tpm2}" "True" "\<lambda>s. Inr (derive_hybrid_tpm2_kek E tk pq hs)"
  "\<lambda>mvk. new_hybrid_pq_1024_tpm2 E suite mvk tk pq blob hs" "\<lambda>s. unlock_hybrid_pq_tpm2 E suite s tk pq hs"
  for E :: "'r env" and suite hs blob tk pq
  by unfold_locales
    (rule enrolled_as_wraps [OF conjunct2 [OF new_hybrid_pq_1024_tpm2_enrolled]], assumption,
     auto simp: unlock_hybrid_pq_tpm2_def kind_class_defs dest: new_hybrid_pq_1024_tpm2_enrolled)

interpretation tpmfido: slot_scheme E suite hs "\<lambda>k. k = Tpm2Fido2" "length hsalt = 32" "\<lambda>s. Inr (derive_tpm2_fido2_kek E tk h hs)"
  "\<lambda>mvk. new_tpm2_fido2 E suite mvk tk h blob cred hsalt hs" "\<lambda>s. unlock_tpm2_fido2 E suite s tk h hs"
  for E :: "'r env" and suite hs blob cred hsalt tk h
proof (unfold_locales, goal_cases)
  case (1 mvk r s r')
  obtain c where "combine_blob blob cred = Inr c" and en: "enrolled_as E suite hs Tpm2Fido2 zero_params c hsalt (\<lambda>_. Inr (derive_tpm2_fido2_kek E tk h hs)) mvk s"
    using new_tpm2_fido2_enrolled [OF 1] by blast
  then show ?case
    by (intro enrolled_as_wraps [OF en]) (auto simp: kind_class_defs dest: combine_blob_length)
qed (auto simp: unlock_tpm2_fido2_def)

interpretation htpmfido: slot_scheme E suite hs "\<lambda>k. k \<in> {HybridPqKemTpm2Fido2, HybridPqKem1024Tpm2Fido2}" "length hsalt = 32" "\<lambda>s. Inr (derive_hybrid_tpm2_fido2_kek E tk h pq hs)"
  "\<lambda>mvk. new_hybrid_pq_tpm2_fido2 E suite mvk tk h pq blob cred hsalt hs" "\<lambda>s. unlock_hybrid_pq_tpm2_fido2 E suite s tk h pq hs"
  for E :: "'r env" and suite hs blob cred hsalt tk h pq
proof (unfold_locales, goal_cases)
  case (1 mvk r s r')
  obtain c where "combine_blob blob cred = Inr c" and en: "enrolled_as E suite hs HybridPqKemTpm2Fido2 zero_params c hsalt (\<lambda>_. Inr (derive_hybrid_tpm2_fido2_kek E tk h pq hs)) mvk s"
    using new_hybrid_pq_tpm2_fido2_enrolled [OF 1] by blast
  then show ?case
    by (intro enrolled_as_wraps [OF en]) (auto simp: kind_class_defs dest: combine_blob_length)
qed (auto simp: unlock_hybrid_pq_tpm2_fido2_def)

interpretation htpmfido1024: slot_scheme E suite hs "\<lambda>k. k \<in> {HybridPqKemTpm2Fido2, HybridPqKem1024Tpm2Fido2}" "length hsalt = 32" "\<lambda>s. Inr (derive_hybrid_tpm2_fido2_kek E tk h pq hs)"
  "\<lambda>mvk. new_hybrid_pq_1024_tpm2_fido2 E suite mvk tk h pq blob cred hsalt hs" "\<lambda>s. unlock_hybrid_pq_tpm2_fido2 E suite s tk h pq hs"
  for E :: "'r env" and suite hs blob cred hsalt tk h pq
proof (unfold_locales, goal_cases)
  case (1 mvk r s r')
  obtain c where "combine_blob blob cred = Inr c" and en: "enrolled_as E suite hs HybridPqKem1024Tpm2Fido2 zero_params c hsalt (\<lambda>_. Inr (derive_hybrid_tpm2_fido2_kek E tk h pq hs)) mvk s"
    using new_hybrid_pq_1024_tpm2_fido2_enrolled [OF 1] by blast
  then show ?case
    by (intro enrolled_as_wraps [OF en]) (auto simp: kind_class_defs dest: combine_blob_length)
qed (auto simp: unlock_hybrid_pq_tpm2_fido2_def)

text \<open>
  For the enclave kinds the factor checks are part of what the unlock path derives the key
  from, so the scheme accepts every kind and lets the derivation refuse.
\<close>

definition sep_derive ::
  "'r env \<Rightarrow> bytes \<Rightarrow> bytes \<Rightarrow> bytes option \<Rightarrow> bytes option \<Rightarrow> bytes option \<Rightarrow> Keyslot \<Rightarrow> bytes res" where
  "sep_derive E hs sh h pw pq s =
     bindE (sep_factor_checks (kind s) sh h pw pq) (\<lambda>_.
     bindE (passphrase_factor E pw (kdf_salt s) (kdf_params s)) (\<lambda>pk. Inr (derive_sep_kek E sh pk h pq hs)))"

lemma sep_checks_kind: "sep_factor_checks k sh h pw pq = Inr () \<Longrightarrow>
    is_sep k \<and> (is_sep_passphrase k \<longleftrightarrow> pw \<noteq> None) \<and> (is_sep_fido2 k \<longleftrightarrow> h \<noteq> None) \<and> (is_hybrid_pq k \<longleftrightarrow> pq \<noteq> None)"
  by (auto simp: sep_factor_checks_def check_sep_factors_def res_simps split: if_splits)

lemma sep_runs_argon2: "is_sep k \<Longrightarrow> kdf_runs_argon2 k \<longleftrightarrow> is_sep_passphrase k"
  by (auto simp: kind_class_defs)

interpretation sep: slot_scheme E suite hs "\<lambda>_. True"
  "length hsalt = 32 \<and> is_sane_for_disk params" "sep_derive E hs sh h pw pq"
  "\<lambda>mvk. new_sep E suite mvk k sh h pw params pq cred hsalt hs"
  "\<lambda>s. unlock_sep E suite s sh h pw pq hs"
  for E :: "'r env" and suite hs k params cred hsalt sh h pw pq
proof (unfold_locales, goal_cases)
  case (1 mvk r s r')
  note en = new_sep_enrolled [OF 1]
  have kd: "is_sep k" "is_sep_passphrase k \<longleftrightarrow> pw \<noteq> None"
    using sep_checks_kind [OF conjunct1 [OF en]] by blast+
  have d: "sep_derive E hs sh h pw pq (fresh_slot k u (if pw \<noteq> None then params else zero_params) salt nonce c hx)
      = bindE (passphrase_factor E pw salt params) (\<lambda>pk. Inr (derive_sep_kek E sh pk h pq hs))" for u salt nonce c hx
    using en by (auto simp: sep_derive_def passphrase_factor_def)
  show ?case
    by (rule enrolled_as_wraps [OF conjunct2 [OF conjunct2 [OF en]]])
       (use kd d en in \<open>auto simp: sep_runs_argon2 class_disjoint\<close>)
qed (auto simp: unlock_sep_def sep_derive_def bindE_def split: sum.splits)

section \<open>Slots without a wrapped key\<close>

lemma new_fido2_derived_mvk_wf:
  assumes "rng_fills E" and "length hsalt = 32"
    and "new_fido2_derived_mvk E cred hsalt r = (Inr s, r')"
  shows "slot_wf s \<and> kind s = Fido2DerivedMvk \<and> fido2_hmac_salt s = hsalt \<and> fido2_cred_id s = cred"
proof -
  from assms(3) obtain u salt nonce ct tag r1 r2 r3 r4 where
    d: "fill E 16 r = (Inr u, r1)" "fill E 32 r1 = (Inr salt, r2)" "fill E 12 r2 = (Inr nonce, r3)"
      "fill E 32 r3 = (Inr ct, r4)" "fill E 16 r4 = (Inr tag, r')" "length cred \<le> 352"
    and s: "s = (fresh_slot Fido2DerivedMvk u zero_params salt nonce cred hsalt)
               \<lparr>wrapped_ct := ct, wrapped_tag := tag\<rparr>"
    by (auto simp: new_fido2_derived_mvk_def res_simps split: if_splits)
  note len = d(1-5) [THEN fill_length [OF assms(1)]]
  have "slot_wf (fresh_slot Fido2DerivedMvk u zero_params salt nonce cred hsalt)"
    using d(6) len assms(2) by (intro fresh_slot_wf) (auto simp: kind_class_defs)
  with s len show ?thesis by (auto simp: slot_wf_def)
qed

section \<open>The fused variable region\<close>

lemma combine_blob_split:
  assumes "combine_blob blob cred = Inr c"
  shows "length blob \<le> U16_MAX" "c = u16_to_le (of_nat (length blob)) @ blob @ cred"
  using assms by (auto simp: combine_blob_def Let_def split: if_splits)

lemma combined_prefix:
  assumes "combine_blob blob cred = Inr c"
  shows "u16_from_le [c ! 0, c ! 1] = of_nat (length blob)"
proof -
  have "[c ! 0, c ! 1] = take 2 c"
    using combine_blob_split(2) [OF assms] by (intro first_two) simp
  also have "\<dots> = u16_to_le (of_nat (length blob))"
    using combine_blob_split(2) [OF assms] by simp
  finally show ?thesis by simp
qed

lemma combined_accessors:
  assumes "combine_blob blob cred = Inr c" and "fido2_cred_id s = c"
    and "kind s \<in> {Tpm2Fido2, HybridPqKemTpm2Fido2, HybridPqKem1024Tpm2Fido2}"
  shows "tpm2_fido2_sealed_blob s = Some blob" "tpm2_fido2_cred_id s = Some cred"
proof -
  note sp = combine_blob_split [OF assms(1)] and pre = combined_prefix [OF assms(1)]
  have len: "length c = 2 + length blob + length cred" using sp by simp
  have bl: "unat (u16_from_le [c ! 0, c ! 1]) = length blob"
    using pre sp(1) by simp
  have cut: "slice c 2 (length blob) = blob" "drop (2 + length blob) c = cred"
    using sp(2) by (simp_all add: slice_def)
  show "tpm2_fido2_sealed_blob s = Some blob" "tpm2_fido2_cred_id s = Some cred"
    using assms(2,3) len bl cut by (auto simp: tpm2_fido2_sealed_blob_def tpm2_fido2_cred_id_def Let_def)
qed

lemma enrolled_as_cred:
  "enrolled_as E suite hs k p cred hsalt kekf mvk s \<Longrightarrow> fido2_cred_id s = cred \<and> kind s = k"
  by (auto simp: enrolled_as_def elim!: wrap_mvk_cases)

section \<open>Inputs of the key derivations\<close>

lemma fido2_kdf_input_inject:
  assumes "length h = 32" "length h' = 32" "fido2_kdf_input p h = fido2_kdf_input p' h'"
  shows "p = p' \<and> h = h'"
  using assms by (auto simp: fido2_kdf_input_def append_eq_append_conv append_assoc [symmetric]
      simp del: append_assoc)

lemma sep_ikm_inject:
  assumes "length a = 32" "length a' = 32"
    and "\<And>x. p = Some x \<Longrightarrow> length x = 32" "\<And>x. p' = Some x \<Longrightarrow> length x = 32" "p = None \<longleftrightarrow> p' = None"
    and "\<And>x. h = Some x \<Longrightarrow> length x = 32" "\<And>x. h' = Some x \<Longrightarrow> length x = 32" "h = None \<longleftrightarrow> h' = None"
    and "\<And>x. q = Some x \<Longrightarrow> length x = 32" "\<And>x. q' = Some x \<Longrightarrow> length x = 32" "q = None \<longleftrightarrow> q' = None"
    and "sep_ikm a p h q = sep_ikm a' p' h' q'"
  shows "a = a' \<and> p = p' \<and> h = h' \<and> q = q'"
  using assms by (cases p; cases p'; cases h; cases h'; cases q; cases q')
    (simp_all add: sep_ikm_def opt_bytes_def append_eq_append_conv)

end
