(* ===== verification/Lbx_Header.thy ===== *)
theory Lbx_Header
  imports Lbx_Enroll
begin

text \<open>
  The 8192-byte container header of \<open>luksbox-core/src/header.rs\<close>: its record, the operations on
  the keyslot table and on the per-slot Secure Enclave blobs, serialisation with the HMAC
  trailer, the parser with its layout checks, and HMAC verification. \<open>header_wf\<close> is the
  invariant that \<open>try_new\<close> establishes, that the slot and blob operations keep and that the
  parser enforces. The lemmas show that parsing undoes serialising, including the packed
  enclave table, and that a serialised header verifies under its own volume key.
\<close>

unbundle bit_operations_syntax

section \<open>Constants\<close>

abbreviation (input) HEADER_SIZE :: nat where "HEADER_SIZE \<equiv> 8192"
abbreviation (input) MAX_KEYSLOTS :: nat where "MAX_KEYSLOTS \<equiv> 8"
abbreviation (input) HMAC_LEN :: nat where "HMAC_LEN \<equiv> 32"
abbreviation (input) HEADER_MAC_INFO :: bytes where "HEADER_MAC_INFO \<equiv> bstr ''lbx:header-mac/v1''"
abbreviation (input) MIN_CHUNK_SIZE :: u32 where "MIN_CHUNK_SIZE \<equiv> 512"
abbreviation (input) MAX_CHUNK_SIZE :: u32 where "MAX_CHUNK_SIZE \<equiv> 1048576"
abbreviation (input) MAX_METADATA_SIZE :: u64 where "MAX_METADATA_SIZE \<equiv> 67108864"
abbreviation (input) VERSION_MAJOR_V1 :: u16 where "VERSION_MAJOR_V1 \<equiv> 1"
abbreviation (input) VERSION_MAJOR_V2 :: u16 where "VERSION_MAJOR_V2 \<equiv> 2"
abbreviation (input) VERSION_MAJOR_V3 :: u16 where "VERSION_MAJOR_V3 \<equiv> 3"
abbreviation (input) VERSION_MINOR :: u16 where "VERSION_MINOR \<equiv> 0"

definition MAGIC_V1 :: bytes where "MAGIC_V1 = bstr ''LUKSBOX1''"
definition MAGIC_V2 :: bytes where "MAGIC_V2 = bstr ''LUKSBOX2''"
definition MAGIC_V3 :: bytes where "MAGIC_V3 = bstr ''LUKSBOX3''"

abbreviation (input) OFF_MAGIC :: nat where "OFF_MAGIC \<equiv> 0"
abbreviation (input) OFF_VER_MAJOR :: nat where "OFF_VER_MAJOR \<equiv> 8"
abbreviation (input) OFF_VER_MINOR :: nat where "OFF_VER_MINOR \<equiv> 10"
abbreviation (input) OFF_HEADER_SIZE :: nat where "OFF_HEADER_SIZE \<equiv> 12"
abbreviation (input) OFF_CIPHER :: nat where "OFF_CIPHER \<equiv> 16"
abbreviation (input) OFF_KDF :: nat where "OFF_KDF \<equiv> 18"
abbreviation (input) OFF_CHUNK_SIZE :: nat where "OFF_CHUNK_SIZE \<equiv> 20"
abbreviation (input) OFF_HEADER_SALT :: nat where "OFF_HEADER_SALT \<equiv> 24"
abbreviation (input) OFF_METADATA_OFFSET :: nat where "OFF_METADATA_OFFSET \<equiv> 56"
abbreviation (input) OFF_METADATA_SIZE :: nat where "OFF_METADATA_SIZE \<equiv> 64"
abbreviation (input) OFF_DATA_OFFSET :: nat where "OFF_DATA_OFFSET \<equiv> 72"
abbreviation (input) OFF_KEYSLOT_COUNT :: nat where "OFF_KEYSLOT_COUNT \<equiv> 80"
abbreviation (input) OFF_FLAGS :: nat where "OFF_FLAGS \<equiv> 84"
abbreviation (input) OFF_HEADER_GEN :: nat where "OFF_HEADER_GEN \<equiv> 88"
abbreviation (input) OFF_KEYSLOTS :: nat where "OFF_KEYSLOTS \<equiv> 96"
abbreviation (input) OFF_HMAC :: nat where "OFF_HMAC \<equiv> 8160"
abbreviation (input) OFF_SEP_REGION :: nat where "OFF_SEP_REGION \<equiv> 4192"
abbreviation (input) SEP_REGION_LEN :: nat where "SEP_REGION_LEN \<equiv> 3968"

abbreviation (input) FLAG_PAD_FILES_POW2 :: u32 where "FLAG_PAD_FILES_POW2 \<equiv> 1"
abbreviation (input) FLAG_HIDE_SIZE_HEADER :: u32 where "FLAG_HIDE_SIZE_HEADER \<equiv> 2"
abbreviation (input) FLAG_HAS_HEADER_MIRROR :: u32 where "FLAG_HAS_HEADER_MIRROR \<equiv> 4"
abbreviation (input) FLAG_HAS_METADATA_MIRROR :: u32 where "FLAG_HAS_METADATA_MIRROR \<equiv> 8"
abbreviation (input) FLAG_HAS_SEP_REGION :: u32 where "FLAG_HAS_SEP_REGION \<equiv> 16"
abbreviation (input) FLAG_MASKED_METADATA_LEN :: u32 where "FLAG_MASKED_METADATA_LEN \<equiv> 32"

section \<open>The header and its keyslot table\<close>

record Header =
  cipher_suite :: CipherSuite
  kdf :: KdfId
  chunk_size :: u32
  flags :: u32
  header_salt :: bytes
  metadata_offset :: u64
  metadata_size :: u64
  data_offset :: u64
  keyslots :: "Keyslot list"
  sep_blobs :: "bytes option list"
  version_major :: u16
  header_generation :: u64

definition try_new :: "'r env \<Rightarrow> CipherSuite \<Rightarrow> KdfId \<Rightarrow> u32 \<Rightarrow> u64 \<Rightarrow> ('r, Header) rnd" where
  "try_new E suite k csize doff =
     bindR (fill E 32) (\<lambda>salt.
       retR \<lparr>cipher_suite = suite, kdf = k, chunk_size = csize, flags = 0, header_salt = salt,
             metadata_offset = of_nat HEADER_SIZE, metadata_size = 0, data_offset = doff,
             keyslots = replicate MAX_KEYSLOTS empty_slot, sep_blobs = replicate MAX_KEYSLOTS None,
             version_major = VERSION_MAJOR_V1, header_generation = 0\<rparr>)"

definition pad_files_pow2 :: "Header \<Rightarrow> bool" where
  "pad_files_pow2 h \<longleftrightarrow> flags h AND FLAG_PAD_FILES_POW2 \<noteq> 0"

definition hide_size_header :: "Header \<Rightarrow> bool" where
  "hide_size_header h \<longleftrightarrow> flags h AND FLAG_HIDE_SIZE_HEADER \<noteq> 0"

definition has_header_mirror :: "Header \<Rightarrow> bool" where
  "has_header_mirror h \<longleftrightarrow> flags h AND FLAG_HAS_HEADER_MIRROR \<noteq> 0"

definition has_metadata_mirror :: "Header \<Rightarrow> bool" where
  "has_metadata_mirror h \<longleftrightarrow> flags h AND FLAG_HAS_METADATA_MIRROR \<noteq> 0"

definition has_sep_region :: "Header \<Rightarrow> bool" where
  "has_sep_region h \<longleftrightarrow> flags h AND FLAG_HAS_SEP_REGION \<noteq> 0"

definition has_header_generation :: "Header \<Rightarrow> bool" where
  "has_header_generation h \<longleftrightarrow> VERSION_MAJOR_V3 \<le> version_major h"

definition masked_metadata_len :: "Header \<Rightarrow> bool" where
  "masked_metadata_len h \<longleftrightarrow> flags h AND FLAG_MASKED_METADATA_LEN \<noteq> 0"

definition tpm2_blob_needs_pin :: "Header \<Rightarrow> bytes \<Rightarrow> bool" where
  "tpm2_blob_needs_pin h blob \<longleftrightarrow>
     list_ex (\<lambda>s. kind s = Tpm2SealedPin \<and> tpm2_sealed_blob s = Some blob) (keyslots h)"

definition sep_blob :: "Header \<Rightarrow> nat \<Rightarrow> bytes option" where
  "sep_blob h idx = (if idx < length (sep_blobs h) then sep_blobs h ! idx else None)"

definition sep_region_required_len :: "bytes option list \<Rightarrow> nat" where
  "sep_region_required_len blobs =
     1 + sum_list (map (\<lambda>b. 3 + length b) (List.map_filter id blobs))"

definition set_sep_blob :: "Header \<Rightarrow> nat \<Rightarrow> bytes \<Rightarrow> Header res" where
  "set_sep_blob h idx blob =
     (if MAX_KEYSLOTS \<le> idx then Inl (InvalidKeyslotIndex idx)
      else
        (let blobs = (sep_blobs h)[idx := Some blob] in
         if SEP_REGION_LEN < sep_region_required_len blobs then Inl SepRegionFull
         else Inr (h\<lparr>sep_blobs := blobs, flags := flags h OR FLAG_HAS_SEP_REGION\<rparr>)))"

definition clear_sep_blob :: "Header \<Rightarrow> nat \<Rightarrow> Header" where
  "clear_sep_blob h idx =
     (let h = (if idx < MAX_KEYSLOTS then h\<lparr>sep_blobs := (sep_blobs h)[idx := None]\<rparr> else h) in
      if list_all (\<lambda>b. b = None) (sep_blobs h)
      then h\<lparr>flags := flags h AND NOT FLAG_HAS_SEP_REGION\<rparr> else h)"

fun position :: "('a \<Rightarrow> bool) \<Rightarrow> 'a list \<Rightarrow> nat option" where
  "position p [] = None"
| "position p (x # xs) = (if p x then Some 0 else map_option Suc (position p xs))"

definition first_free_slot :: "Header \<Rightarrow> nat res" where
  "first_free_slot h = ok_or NoFreeKeyslot (position slot_is_empty (keyslots h))"

definition install_slot :: "Header \<Rightarrow> nat \<Rightarrow> Keyslot \<Rightarrow> Header res" where
  "install_slot h idx slot =
     (if MAX_KEYSLOTS \<le> idx then Inl (InvalidKeyslotIndex idx)
      else Inr (h\<lparr>keyslots := (keyslots h)[idx := slot]\<rparr>))"

definition revoke_slot :: "Header \<Rightarrow> nat \<Rightarrow> Header res" where
  "revoke_slot h idx =
     (if MAX_KEYSLOTS \<le> idx then Inl (InvalidKeyslotIndex idx)
      else Inr (clear_sep_blob (h\<lparr>keyslots := (keyslots h)[idx := empty_slot]\<rparr>) idx))"

section \<open>The enclave table\<close>

text \<open>
  The packed table \<open>[count: u8]\<close> then \<open>[slot_idx: u8][blob_len: u16 LE][blob]\<close> per populated
  slot. The writer keeps a cursor \<open>w\<close> into the header buffer and stops before the HMAC
  trailer; the parser reads \<open>count\<close> entries with a bounds check before every access.
\<close>

fun write_sep_entries :: "bytes \<Rightarrow> nat \<Rightarrow> nat \<Rightarrow> bytes option list \<Rightarrow> bytes" where
  "write_sep_entries buf w i [] = buf"
| "write_sep_entries buf w i (None # blobs) = write_sep_entries buf w (Suc i) blobs"
| "write_sep_entries buf w i (Some blob # blobs) =
     (if OFF_HMAC < w + (3 + length blob) then buf
      else
        (let buf = buf[w := of_nat i];
             buf = put buf (w + 1) (u16_to_le (of_nat (length blob)));
             buf = put buf (w + 3) blob
         in write_sep_entries buf (w + 3 + length blob) (Suc i) blobs))"

definition write_sep_region :: "Header \<Rightarrow> bytes \<Rightarrow> bytes" where
  "write_sep_region h buf =
     (if has_sep_region h
      then
        (let count = length (filter (\<lambda>b. b \<noteq> None) (sep_blobs h));
             buf = buf[OFF_SEP_REGION := of_nat count]
         in write_sep_entries buf (OFF_SEP_REGION + 1) 0 (sep_blobs h))
      else buf)"

fun parse_sep_entries :: "bytes \<Rightarrow> nat \<Rightarrow> nat \<Rightarrow> bytes option list \<Rightarrow> bytes option list res" where
  "parse_sep_entries region 0 p out = Inr out"
| "parse_sep_entries region (Suc n) p out =
     (if length region < p + 3 then Inl InvalidField
      else
        (let slot_idx = unat (region ! p);
             blob_len = unat (u16_from_le [region ! (p + 1), region ! (p + 2)]);
             p = p + 3
         in
         if MAX_KEYSLOTS \<le> slot_idx \<or> length region < p + blob_len then Inl InvalidField
         else if out ! slot_idx \<noteq> None then Inl InvalidField
         else parse_sep_entries region n (p + blob_len) (out[slot_idx := Some (slice region p blob_len)])))"

definition parse_sep_region :: "bytes \<Rightarrow> bytes option list res" where
  "parse_sep_region buf =
     (let region = slice buf OFF_SEP_REGION (OFF_HMAC - OFF_SEP_REGION);
          count = unat (region ! 0)
      in if MAX_KEYSLOTS < count then Inl InvalidField
         else parse_sep_entries region count 1 (replicate MAX_KEYSLOTS None))"

section \<open>Serialisation and parsing\<close>

definition magic_for :: "u16 \<Rightarrow> bytes" where
  "magic_for v = (if v = VERSION_MAJOR_V2 then MAGIC_V2
                  else if v = VERSION_MAJOR_V3 then MAGIC_V3 else MAGIC_V1)"

definition write_fixed_fields :: "Header \<Rightarrow> bytes \<Rightarrow> bytes" where
  "write_fixed_fields h buf =
     (let buf = put buf OFF_MAGIC (magic_for (version_major h));
          buf = put buf OFF_VER_MAJOR (u16_to_le (version_major h));
          buf = put buf OFF_VER_MINOR (u16_to_le VERSION_MINOR);
          buf = put buf OFF_HEADER_SIZE (u32_to_le (of_nat HEADER_SIZE));
          buf = put buf OFF_CIPHER (u16_to_le (suite_as_u16 (cipher_suite h)));
          buf = put buf OFF_KDF (u16_to_le (kdf_as_u16 (kdf h)));
          buf = put buf OFF_CHUNK_SIZE (u32_to_le (chunk_size h));
          buf = put buf OFF_HEADER_SALT (header_salt h);
          buf = put buf OFF_METADATA_OFFSET (u64_to_le (metadata_offset h));
          buf = put buf OFF_METADATA_SIZE (u64_to_le (metadata_size h));
          buf = put buf OFF_DATA_OFFSET (u64_to_le (data_offset h));
          buf = put buf OFF_KEYSLOT_COUNT (u32_to_le (of_nat MAX_KEYSLOTS));
          buf = put buf OFF_FLAGS (u32_to_le (flags h))
      in if has_header_generation h then put buf OFF_HEADER_GEN (u64_to_le (header_generation h))
         else buf)"

text \<open>The keyslots, each serialised with its own random padding, at 512-byte steps from 96.\<close>

fun write_slots :: "bytes \<Rightarrow> nat \<Rightarrow> bytes list \<Rightarrow> bytes" where
  "write_slots buf i [] = buf"
| "write_slots buf i (sb # sbs) = write_slots (put buf (OFF_KEYSLOTS + i * SLOT_SIZE) sb) (Suc i) sbs"

fun slots_to_bytes :: "'r env \<Rightarrow> Keyslot list \<Rightarrow> ('r, bytes list) rnd" where
  "slots_to_bytes E [] = retR []"
| "slots_to_bytes E (s # ss) =
     bindR (slot_to_bytes E s) (\<lambda>sb. bindR (slots_to_bytes E ss) (\<lambda>sbs. retR (sb # sbs)))"

definition header_layout_bytes :: "Header \<Rightarrow> bytes \<Rightarrow> bytes list \<Rightarrow> bytes" where
  "header_layout_bytes h reserved sbs =
     (let buf = put (replicate HEADER_SIZE 0) OFF_SEP_REGION reserved;
          buf = write_fixed_fields h buf;
          buf = write_slots buf 0 sbs
      in write_sep_region h buf)"

definition serialize_unauth :: "'r env \<Rightarrow> Header \<Rightarrow> ('r, bytes) rnd" where
  "serialize_unauth E h =
     bindR (fill_expect E ''OS RNG failure during header padding fill'' (OFF_HMAC - OFF_SEP_REGION)) (\<lambda>reserved.
     bindR (slots_to_bytes E (keyslots h)) (\<lambda>sbs.
       retR (header_layout_bytes h reserved sbs)))"

definition compute_hmac :: "'r env \<Rightarrow> bytes \<Rightarrow> bytes \<Rightarrow> bytes" where
  "compute_hmac E key data = hmac_sha256 E key data"

definition header_to_bytes :: "'r env \<Rightarrow> Header \<Rightarrow> bytes \<Rightarrow> ('r, bytes) rnd" where
  "header_to_bytes E h mvk =
     bindR (serialize_unauth E h) (\<lambda>buf.
       let mac_key = derive_subkey E mvk (header_salt h) HEADER_MAC_INFO;
           tag = compute_hmac E mac_key (take OFF_HMAC buf)
       in retR (put buf OFF_HMAC tag))"

definition version_of_magic :: "bytes \<Rightarrow> u16 res" where
  "version_of_magic magic =
     (if magic = MAGIC_V1 then Inr VERSION_MAJOR_V1
      else if magic = MAGIC_V2 then Inr VERSION_MAJOR_V2
      else if magic = MAGIC_V3 then Inr VERSION_MAJOR_V3
      else Inl InvalidMagic)"

text \<open>The checks on the three region fields: size cap, overflow, header overlap, data overlap.\<close>

definition layout_checks :: "u64 \<Rightarrow> u64 \<Rightarrow> u64 \<Rightarrow> unit res" where
  "layout_checks moff msize doff =
     (if MAX_METADATA_SIZE < msize then Inl InvalidField
      else
        (case checked_add_u64 moff msize of
           None \<Rightarrow> Inl InvalidField
         | Some metadata_end \<Rightarrow>
             if 0 < moff \<and> moff < of_nat HEADER_SIZE then Inl InvalidField
             else if doff < metadata_end then Inl InvalidField
             else Inr ()))"

fun parse_slots :: "bytes \<Rightarrow> nat \<Rightarrow> nat \<Rightarrow> Keyslot list res" where
  "parse_slots buf i 0 = Inr []"
| "parse_slots buf i (Suc n) =
     bindE (slot_from_bytes (slice buf (OFF_KEYSLOTS + i * SLOT_SIZE) SLOT_SIZE)) (\<lambda>s.
     bindE (parse_slots buf (Suc i) n) (\<lambda>ss. Inr (s # ss)))"

definition header_from_bytes :: "bytes \<Rightarrow> Header res" where
  "header_from_bytes buf =
     bindE (version_of_magic (slice buf OFF_MAGIC 8)) (\<lambda>version.
     let major = u16_from_le (slice buf OFF_VER_MAJOR 2);
         minor = u16_from_le (slice buf OFF_VER_MINOR 2) in
     if major \<noteq> version then Inl (UnsupportedVersion major minor)
     else if unat (u32_from_le (slice buf OFF_HEADER_SIZE 4)) \<noteq> HEADER_SIZE then Inl InvalidField
     else
       bindE (suite_from_u16 (u16_from_le (slice buf OFF_CIPHER 2))) (\<lambda>suite.
       bindE (kdf_from_u16 (u16_from_le (slice buf OFF_KDF 2))) (\<lambda>k.
       let csize = u32_from_le (slice buf OFF_CHUNK_SIZE 4) in
       if \<not> (MIN_CHUNK_SIZE \<le> csize \<and> csize \<le> MAX_CHUNK_SIZE) then Inl InvalidField
       else
         (let fl = u32_from_le (slice buf OFF_FLAGS 4);
              gen = (if VERSION_MAJOR_V3 \<le> version then u64_from_le (slice buf OFF_HEADER_GEN 8) else 0);
              moff = u64_from_le (slice buf OFF_METADATA_OFFSET 8);
              msize = u64_from_le (slice buf OFF_METADATA_SIZE 8);
              doff = u64_from_le (slice buf OFF_DATA_OFFSET 8)
          in
          bindE (layout_checks moff msize doff) (\<lambda>_.
          if unat (u32_from_le (slice buf OFF_KEYSLOT_COUNT 4)) \<noteq> MAX_KEYSLOTS then Inl InvalidField
          else
            bindE (parse_slots buf 0 MAX_KEYSLOTS) (\<lambda>slots.
            bindE (if fl AND FLAG_HAS_SEP_REGION \<noteq> 0 then parse_sep_region buf
                   else Inr (replicate MAX_KEYSLOTS None)) (\<lambda>blobs.
            Inr \<lparr>cipher_suite = suite, kdf = k, chunk_size = csize, flags = fl,
                 header_salt = slice buf OFF_HEADER_SALT 32, metadata_offset = moff,
                 metadata_size = msize, data_offset = doff, keyslots = slots, sep_blobs = blobs,
                 version_major = version, header_generation = gen\<rparr>)))))))"

definition verify_hmac :: "'r env \<Rightarrow> Header \<Rightarrow> bytes \<Rightarrow> bytes \<Rightarrow> unit res" where
  "verify_hmac E h raw mvk =
     (let mac_key = derive_subkey E mvk (header_salt h) HEADER_MAC_INFO;
          expected = compute_hmac E mac_key (take OFF_HMAC raw)
      in if expected = drop OFF_HMAC raw then Inr () else Inl HeaderAuthFailed)"

section \<open>The header invariant\<close>

definition header_wf :: "Header \<Rightarrow> bool" where
  "header_wf h \<longleftrightarrow>
     MIN_CHUNK_SIZE \<le> chunk_size h \<and> chunk_size h \<le> MAX_CHUNK_SIZE
     \<and> length (header_salt h) = 32
     \<and> layout_checks (metadata_offset h) (metadata_size h) (data_offset h) = Inr ()
     \<and> length (keyslots h) = MAX_KEYSLOTS \<and> list_all slot_wf (keyslots h)
     \<and> length (sep_blobs h) = MAX_KEYSLOTS
     \<and> sep_region_required_len (sep_blobs h) \<le> SEP_REGION_LEN
     \<and> (\<not> has_sep_region h \<longrightarrow> sep_blobs h = replicate MAX_KEYSLOTS None)
     \<and> version_major h \<in> {VERSION_MAJOR_V1, VERSION_MAJOR_V2, VERSION_MAJOR_V3}
     \<and> (\<not> has_header_generation h \<longrightarrow> header_generation h = 0)"

lemma required_len_simps [simp]:
  "sep_region_required_len [] = 1"
  "sep_region_required_len (None # bs) = sep_region_required_len bs"
  "sep_region_required_len (Some b # bs) = 3 + length b + sep_region_required_len bs"
  by (simp_all add: sep_region_required_len_def map_filter_simps)

lemma required_len_replicate [simp]: "sep_region_required_len (replicate n None) = 1"
  by (induction n) simp_all

lemma required_len_clear: "sep_region_required_len (bs[i := None]) \<le> sep_region_required_len bs"
proof (induction bs arbitrary: i)
  case (Cons b bs)
  then show ?case by (cases b; cases i) simp_all
qed simp

lemma required_len_set:
  "i < length bs \<Longrightarrow> bs ! i = None \<Longrightarrow>
    sep_region_required_len (bs[i := Some b]) = sep_region_required_len bs + 3 + length b"
proof (induction bs arbitrary: i)
  case (Cons a bs)
  then show ?case by (cases a; cases i) simp_all
qed simp

lemma header_wf_simps:
  assumes "header_wf h"
  shows "length (header_salt h) = 32" "length (keyslots h) = 8" "length (sep_blobs h) = 8"
    "list_all slot_wf (keyslots h)" "sep_region_required_len (sep_blobs h) \<le> 3968"
  using assms by (simp_all add: header_wf_def)

section \<open>The enclave table round-trips\<close>

fun sep_table :: "nat \<Rightarrow> bytes option list \<Rightarrow> bytes" where
  "sep_table i [] = []"
| "sep_table i (None # blobs) = sep_table (Suc i) blobs"
| "sep_table i (Some b # blobs) =
     [of_nat i] @ u16_to_le (of_nat (length b)) @ b @ sep_table (Suc i) blobs"

lemma length_sep_table: "length (sep_table i blobs) + 1 = sep_region_required_len blobs"
  by (induction i blobs rule: sep_table.induct) simp_all

lemma write_sep_entries_table:
  "length buf = 8192 \<Longrightarrow> w + sep_region_required_len blobs \<le> 8161 \<Longrightarrow>
    write_sep_entries buf w i blobs = put buf w (sep_table i blobs)"
proof (induction buf w i blobs rule: write_sep_entries.induct)
  case (3 buf w i blob blobs)
  have tl: "length (sep_table (Suc i) blobs) + 1 = sep_region_required_len blobs"
    by (rule length_sep_table)
  have fits: "w + 3 + length blob + sep_region_required_len blobs \<le> 8161"
    using "3.prems"(2) by simp
  let ?b1 = "buf[w := of_nat i]"
  let ?b2 = "put ?b1 (w + 1) (u16_to_le (of_nat (length blob)))"
  let ?b3 = "put ?b2 (w + 3) blob"
  have head: "?b3 = put buf w ([of_nat i] @ u16_to_le (of_nat (length blob)) @ blob)"
    using "3.prems" fits tl put_put_append [of w "[of_nat i]" "u16_to_le (of_nat (length blob))" buf]
      put_put_append [of w "[of_nat i] @ u16_to_le (of_nat (length blob))" blob buf]
    by (simp add: update_as_put numeral_3_eq_3)
  have "write_sep_entries ?b3 (w + 3 + length blob) (Suc i) blobs
      = put ?b3 (w + 3 + length blob) (sep_table (Suc i) blobs)"
    using "3.IH" [OF _ refl refl refl] "3.prems" fits tl by simp
  then show ?case
    using "3.prems" fits tl head
      put_put_append [of w "[of_nat i] @ u16_to_le (of_nat (length blob)) @ blob" "sep_table (Suc i) blobs" buf]
    by (simp add: Let_def numeral_3_eq_3 add.commute add.left_commute)
qed simp_all

lemma u16_le_pair: "[u16_to_le x ! 0, u16_to_le x ! Suc 0] = u16_to_le x"
  by (simp add: u16_to_le_def numeral_2_eq_2)

lemma parse_sep_entries_table:
  "region = pre @ sep_table (length done) blobs @ post \<Longrightarrow> length done + length blobs = 8 \<Longrightarrow>
   sep_region_required_len blobs \<le> 3968 \<Longrightarrow>
    parse_sep_entries region (length (filter (\<lambda>b. b \<noteq> None) blobs)) (length pre)
      (done @ replicate (length blobs) None) = Inr (done @ blobs)"
proof (induction blobs arbitrary: pre "done")
  case (Cons b blobs)
  show ?case
  proof (cases b)
    case None
    with Cons.prems Cons.IH [of pre "done @ [None]"] show ?thesis by simp
  next
    case (Some x)
    let ?hd = "[of_nat (length done)] @ u16_to_le (of_nat (length x)) :: bytes"
    let ?pre = "pre @ ?hd @ x"
    have reg: "region = pre @ ?hd @ x @ sep_table (Suc (length done)) blobs @ post"
      using Cons.prems(1) Some by simp
    have small: "length x \<le> 3968" using Cons.prems(3) Some by simp
    have idx: "unat (region ! length pre) = length done"
      using reg Cons.prems(2) by (simp add: nth_append unat_of_nat)
    have "region ! Suc (length pre) = u16_to_le (of_nat (length x)) ! 0"
      "region ! Suc (Suc (length pre)) = u16_to_le (of_nat (length x)) ! 1"
      using reg by (simp_all add: nth_append)
    then have len: "unat (u16_from_le [region ! Suc (length pre), region ! Suc (Suc (length pre))]) = length x"
      using small u16_le_pair [of "of_nat (length x)"] by simp
    have blob: "slice region (length pre + 3) (length x) = x"
      using reg by (simp add: slice_def)
    have bound: "length pre + 3 + length x \<le> length region" using reg by simp
    have "parse_sep_entries region (length (filter (\<lambda>b. b \<noteq> None) blobs)) (length ?pre)
        ((done @ [Some x]) @ replicate (length blobs) None) = Inr ((done @ [Some x]) @ blobs)"
      using Cons.prems reg Some by (intro Cons.IH) simp_all
    then show ?thesis
      using idx len blob bound Some Cons.prems(2)
      by (simp add: Let_def list_update_append numeral_3_eq_3 add.commute add.left_commute)
  qed
qed simp

lemma unat_of_nat_u8_small: "n < 256 \<Longrightarrow> unat (of_nat n :: u8) = n"
  by (simp add: unat_of_nat)

lemma write_sep_region_wf:
  assumes "header_wf h" "has_sep_region h" "length buf = 8192"
  shows "write_sep_region h buf =
    put buf 4192 (of_nat (length (filter (\<lambda>b. b \<noteq> None) (sep_blobs h))) # sep_table 0 (sep_blobs h))"
proof -
  let ?c = "of_nat (length (filter (\<lambda>b. b \<noteq> None) (sep_blobs h))) :: u8"
  have fits: "sep_region_required_len (sep_blobs h) \<le> 3968" using assms(1) by (simp add: header_wf_def)
  have tl: "length (sep_table 0 (sep_blobs h)) + 1 = sep_region_required_len (sep_blobs h)"
    by (rule length_sep_table)
  have "write_sep_region h buf = put (put buf 4192 [?c]) 4193 (sep_table 0 (sep_blobs h))"
    using assms fits by (simp add: write_sep_region_def Let_def write_sep_entries_table update_as_put)
  also have "\<dots> = put buf 4192 (?c # sep_table 0 (sep_blobs h))"
    using put_put_append [of 4192 "[?c]" "sep_table 0 (sep_blobs h)" buf] assms(3) fits tl by simp
  finally show ?thesis .
qed

lemma length_write_sep_region [simp]:
  assumes "header_wf h" "length buf = 8192"
  shows "length (write_sep_region h buf) = 8192"
proof (cases "has_sep_region h")
  case True
  have "length (sep_table 0 (sep_blobs h)) + 1 \<le> 3968"
    using length_sep_table [of 0 "sep_blobs h"] assms(1) by (simp add: header_wf_def)
  with True assms show ?thesis by (simp add: write_sep_region_wf)
qed (use assms in \<open>simp add: write_sep_region_def\<close>)

lemma parse_write_sep_region:
  assumes "header_wf h" "has_sep_region h" "length buf = 8192"
  shows "parse_sep_region (write_sep_region h buf) = Inr (sep_blobs h)"
proof -
  let ?n = "length (filter (\<lambda>b. b \<noteq> None) (sep_blobs h))"
  let ?t = "sep_table 0 (sep_blobs h)"
  have eight: "length (sep_blobs h) = 8" and fits: "sep_region_required_len (sep_blobs h) \<le> 3968"
    using assms(1) by (simp_all add: header_wf_def)
  have n: "?n \<le> 8" using length_filter_le [of "\<lambda>b. b \<noteq> None" "sep_blobs h"] eight by simp
  have tl: "length ?t + 1 \<le> 3968" using length_sep_table [of 0 "sep_blobs h"] fits by simp
  let ?region = "slice (write_sep_region h buf) 4192 3968"
  obtain post where region: "?region = [of_nat ?n] @ ?t @ post"
  proof -
    have "?region = take 3968 ((of_nat ?n # ?t) @ drop (4192 + length (of_nat ?n # ?t)) buf)"
      using assms by (simp add: write_sep_region_wf slice_def put_def)
    also have "\<dots> = [of_nat ?n] @ ?t @ take (3968 - (length ?t + 1)) (drop (4192 + length (of_nat ?n # ?t)) buf)"
      using tl by simp
    finally show thesis by (rule that)
  qed
  have "parse_sep_entries ?region ?n 1 (replicate 8 None) = Inr (sep_blobs h)"
    using parse_sep_entries_table [of ?region "[of_nat ?n]" "[]" "sep_blobs h" post] region eight fits
    by simp
  moreover have "unat (?region ! 0) = ?n" using region n by (simp add: unat_of_nat_u8_small)
  ultimately show ?thesis using n by (simp add: parse_sep_region_def)
qed

section \<open>The header round-trips\<close>

lemma length_magic_for [simp]: "length (magic_for v) = 8"
  by (simp add: magic_for_def MAGIC_V1_def MAGIC_V2_def MAGIC_V3_def bstr_def)

text \<open>The fixed fields are contiguous, so writing them is one write of their concatenation.\<close>

definition fixed_fields :: "Header \<Rightarrow> bytes" where
  "fixed_fields h =
     magic_for (version_major h) @ u16_to_le (version_major h) @ u16_to_le 0 @ u32_to_le 8192
     @ u16_to_le (suite_as_u16 (cipher_suite h)) @ u16_to_le (kdf_as_u16 (kdf h))
     @ u32_to_le (chunk_size h) @ header_salt h @ u64_to_le (metadata_offset h)
     @ u64_to_le (metadata_size h) @ u64_to_le (data_offset h) @ u32_to_le 8 @ u32_to_le (flags h)
     @ (if has_header_generation h then u64_to_le (header_generation h) else [])"

lemma put_0_append: "n = length xs \<Longrightarrow> put (put buf 0 xs) n ys = put buf 0 (xs @ ys)"
  by (simp add: put_def add.commute)

lemma write_fixed_fields_put:
  "length (header_salt h) = 32 \<Longrightarrow> write_fixed_fields h buf = put buf 0 (fixed_fields h)"
  by (simp add: write_fixed_fields_def fixed_fields_def Let_def put_0_append)

lemma length_fixed_fields:
  "length (header_salt h) = 32 \<Longrightarrow> length (fixed_fields h) = (if has_header_generation h then 96 else 88)"
  by (simp add: fixed_fields_def)

lemma length_write_fixed_fields [simp]:
  "length (header_salt h) = 32 \<Longrightarrow> length buf = 8192 \<Longrightarrow> length (write_fixed_fields h buf) = 8192"
  by (simp add: write_fixed_fields_put length_fixed_fields)

lemma slice_put_0:
  "off + n \<le> length xs \<Longrightarrow> slice (put buf 0 xs) off n = slice xs off n"
  by (simp add: slice_def put_def)

lemma fixed_fields_slices:
  assumes "length (header_salt h) = 32"
  shows "slice (fixed_fields h) 0 8 = magic_for (version_major h)"
    "slice (fixed_fields h) 8 2 = u16_to_le (version_major h)"
    "slice (fixed_fields h) 10 2 = u16_to_le 0"
    "slice (fixed_fields h) 12 4 = u32_to_le 8192"
    "slice (fixed_fields h) 16 2 = u16_to_le (suite_as_u16 (cipher_suite h))"
    "slice (fixed_fields h) 18 2 = u16_to_le (kdf_as_u16 (kdf h))"
    "slice (fixed_fields h) 20 4 = u32_to_le (chunk_size h)"
    "slice (fixed_fields h) 24 32 = header_salt h"
    "slice (fixed_fields h) 56 8 = u64_to_le (metadata_offset h)"
    "slice (fixed_fields h) 64 8 = u64_to_le (metadata_size h)"
    "slice (fixed_fields h) 72 8 = u64_to_le (data_offset h)"
    "slice (fixed_fields h) 80 4 = u32_to_le 8"
    "slice (fixed_fields h) 84 4 = u32_to_le (flags h)"
    "has_header_generation h \<Longrightarrow> slice (fixed_fields h) 88 8 = u64_to_le (header_generation h)"
  using assms by (simp_all add: fixed_fields_def slice_def)

lemma fixed_fields_reads:
  assumes "length (header_salt h) = 32" "length buf = 8192"
  shows "off + n \<le> 88 \<Longrightarrow> slice (write_fixed_fields h buf) off n = slice (fixed_fields h) off n"
    "has_header_generation h \<Longrightarrow> slice (write_fixed_fields h buf) 88 8 = u64_to_le (header_generation h)"
  using assms by (simp_all add: write_fixed_fields_put length_fixed_fields slice_put_0 fixed_fields_slices)

lemma write_slots_concat:
  "list_all (\<lambda>sb. length sb = 512) sbs \<Longrightarrow> 96 + (i + length sbs) * 512 \<le> length buf \<Longrightarrow>
    write_slots buf i sbs = put buf (96 + i * 512) (concat sbs)"
proof (induction sbs arbitrary: buf i)
  case (Cons sb sbs)
  have tot: "length (concat sbs) = length sbs * 512"
    using Cons.prems(1) by (induction sbs) auto
  have "write_slots buf i (sb # sbs) = put (put buf (96 + i * 512) sb) (96 + Suc i * 512) (concat sbs)"
    using Cons.prems by (simp add: Cons.IH)
  also have "\<dots> = put buf (96 + i * 512) (sb @ concat sbs)"
    using put_put_append [of "96 + i * 512" sb "concat sbs" buf] Cons.prems tot by (simp add: algebra_simps)
  finally show ?case by simp
qed simp

lemma slice_concat_512:
  "list_all (\<lambda>sb. length sb = 512) sbs \<Longrightarrow> i < length sbs \<Longrightarrow> slice (concat sbs) (i * 512) 512 = sbs ! i"
proof (induction sbs arbitrary: i)
  case (Cons sb sbs)
  show ?case
  proof (cases i)
    case 0
    with Cons.prems show ?thesis by (simp add: slice_def)
  next
    case (Suc k)
    with Cons show ?thesis by (simp add: buf_simps)
  qed
qed simp

lemma parse_slots_map:
  "(\<And>j. j < length ss \<Longrightarrow> slot_from_bytes (slice buf (96 + (i + j) * 512) 512) = Inr (ss ! j)) \<Longrightarrow>
    parse_slots buf i (length ss) = Inr ss"
proof (induction ss arbitrary: i)
  case (Cons s ss)
  have "slot_from_bytes (slice buf (96 + i * 512) 512) = Inr s"
    using Cons.prems [of 0] by simp
  moreover have "parse_slots buf (Suc i) (length ss) = Inr ss"
  proof (rule Cons.IH)
    fix j assume "j < length ss"
    then show "slot_from_bytes (slice buf (96 + (Suc i + j) * 512) 512) = Inr (ss ! j)"
      using Cons.prems [of "Suc j"] by simp
  qed
  ultimately show ?case by simp
qed simp

lemma header_eqI:
  "cipher_suite a = cipher_suite b \<Longrightarrow> kdf a = kdf b \<Longrightarrow> chunk_size a = chunk_size b \<Longrightarrow> flags a = flags b \<Longrightarrow>
   header_salt a = header_salt b \<Longrightarrow> metadata_offset a = metadata_offset b \<Longrightarrow>
   metadata_size a = metadata_size b \<Longrightarrow> data_offset a = data_offset b \<Longrightarrow> keyslots a = keyslots b \<Longrightarrow>
   sep_blobs a = sep_blobs b \<Longrightarrow> version_major a = version_major b \<Longrightarrow>
   header_generation a = header_generation b \<Longrightarrow> a = (b :: Header)"
  by (cases a; cases b) simp

text \<open>\<open>slots_encode ss sbs\<close>: the byte blocks \<open>sbs\<close> serialise the slots \<open>ss\<close> with some padding.\<close>

definition slots_encode :: "Keyslot list \<Rightarrow> bytes list \<Rightarrow> bool" where
  "slots_encode ss sbs \<longleftrightarrow>
     list_all2 (\<lambda>s sb. \<exists>p. length p = 512 \<and> sb = slot_layout_bytes p s) ss sbs"

lemma slots_encode_nth:
  assumes "slots_encode ss sbs" "list_all slot_wf ss"
  shows "length sbs = length ss" "list_all (\<lambda>sb. length sb = 512) sbs"
    "i < length ss \<Longrightarrow> slot_from_bytes (sbs ! i) = Inr (ss ! i)"
proof -
  have nth: "length (sbs ! i) = 512 \<and> slot_from_bytes (sbs ! i) = Inr (ss ! i)" if "i < length ss" for i
  proof -
    from assms(1) that obtain p where "length p = 512" "sbs ! i = slot_layout_bytes p (ss ! i)"
      unfolding slots_encode_def by (auto dest: list_all2_nthD)
    moreover have "slot_wf (ss ! i)" using assms(2) that by (simp add: list_all_length)
    ultimately show ?thesis by (simp add: slot_layout_roundtrip)
  qed
  show l: "length sbs = length ss" using assms(1) by (simp add: slots_encode_def list_all2_lengthD)
  show "list_all (\<lambda>sb. length sb = 512) sbs" using nth l by (simp add: list_all_length)
  show "i < length ss \<Longrightarrow> slot_from_bytes (sbs ! i) = Inr (ss ! i)" using nth by blast
qed

lemma length_concat_512: "list_all (\<lambda>sb. length sb = 512) sbs \<Longrightarrow> length (concat sbs) = length sbs * 512"
  by (induction sbs) auto

lemma write_sep_region_frame:
  assumes "header_wf h" "length buf = 8192" "off + n \<le> 4192"
  shows "slice (write_sep_region h buf) off n = slice buf off n"
proof (cases "has_sep_region h")
  case True
  have "length (sep_table 0 (sep_blobs h)) + 1 \<le> 3968"
    using length_sep_table [of 0 "sep_blobs h"] assms(1) by (simp add: header_wf_def)
  with True assms show ?thesis by (simp add: write_sep_region_wf slice_put_before)
qed (simp add: write_sep_region_def)

text \<open>The header buffer before the trailer, region by region.\<close>

lemma header_layout_reads:
  assumes wf: "header_wf h" and res: "length reserved = 3968" and enc: "slots_encode (keyslots h) sbs"
  defines "b \<equiv> header_layout_bytes h reserved sbs"
  shows "length b = 8192"
    and "off + n \<le> 96 \<Longrightarrow> slice b off n = slice (write_fixed_fields h (put (replicate 8192 0) 4192 reserved)) off n"
    and "i < 8 \<Longrightarrow> slot_from_bytes (slice b (96 + i * 512) 512) = Inr (keyslots h ! i)"
    and "has_sep_region h \<Longrightarrow> parse_sep_region b = Inr (sep_blobs h)"
proof -
  note hw = header_wf_simps [OF wf]
  note se = slots_encode_nth [OF enc hw(4)]
  let ?f = "write_fixed_fields h (put (replicate 8192 0) 4192 reserved)"
  let ?s = "put ?f 96 (concat sbs)"
  have f: "length ?f = 8192" using hw(1) res by simp
  have c: "length (concat sbs) = 4096" using se(1,2) hw(2) by (simp add: length_concat_512)
  have s: "length ?s = 8192" using f c by simp
  have b: "b = write_sep_region h ?s"
    using se(1,2) hw(2) f by (simp add: b_def header_layout_bytes_def Let_def write_slots_concat)
  then show "length b = 8192" using wf s by simp
  have low: "slice b off n = slice ?s off n" if "off + n \<le> 4192" for off n
    using write_sep_region_frame [OF wf s that] b by simp
  show "slice b off n = slice ?f off n" if "off + n \<le> 96"
    using low [of off n] that f c by (simp add: slice_put_before)
  show "slot_from_bytes (slice b (96 + i * 512) 512) = Inr (keyslots h ! i)" if "i < 8"
  proof -
    have "slice ?s (96 + i * 512) 512 = slice (slice ?s 96 4096) (i * 512) 512"
      using that by (simp add: slice_slice)
    also have "\<dots> = sbs ! i"
      using that f c se hw(2) by (simp add: slice_put_same slice_concat_512)
    finally show ?thesis using low [of "96 + i * 512" 512] that se(3) hw(2) by simp
  qed
  show "parse_sep_region b = Inr (sep_blobs h)" if "has_sep_region h"
    using parse_write_sep_region [OF wf that s] b by simp
qed

lemma parse_sep_region_put_trailer:
  "length b = 8192 \<Longrightarrow> length tag = 32 \<Longrightarrow> parse_sep_region (put b 8160 tag) = parse_sep_region b"
  by (simp add: parse_sep_region_def slice_put_before)

lemma version_magic:
  "v \<in> {1, 2, 3} \<Longrightarrow> version_of_magic (magic_for v) = Inr v"
  by (auto simp: version_of_magic_def magic_for_def MAGIC_V1_def MAGIC_V2_def MAGIC_V3_def bstr_def)

lemma header_layout_roundtrip:
  assumes wf: "header_wf h" and res: "length reserved = 3968" and enc: "slots_encode (keyslots h) sbs"
    and tag: "length tag = 32"
  shows "header_from_bytes (put (header_layout_bytes h reserved sbs) 8160 tag) = Inr h"
proof -
  let ?b = "header_layout_bytes h reserved sbs"
  let ?o = "put ?b 8160 tag"
  note hw = header_wf_simps [OF wf] and lr = header_layout_reads [OF wf res enc]
  have rd: "slice ?o off n = slice (write_fixed_fields h (put (replicate 8192 0) 4192 reserved)) off n"
    if "off + n \<le> 96" for off n
    using lr(1,2) tag that by (simp add: slice_put_before)
  have slots: "parse_slots ?o 0 8 = Inr (keyslots h)"
    using parse_slots_map [of "keyslots h" ?o 0] lr(1,3) tag hw(2)
    by (simp add: slice_put_before)
  have blobs: "(if flags h AND 16 \<noteq> 0 then parse_sep_region ?o else Inr (replicate 8 None)) = Inr (sep_blobs h)"
    using lr(1,4) tag wf by (simp add: parse_sep_region_put_trailer has_sep_region_def header_wf_def)
  have ver: "version_of_magic (magic_for (version_major h)) = Inr (version_major h)"
    using wf by (intro version_magic) (simp add: header_wf_def)
  have gen: "(if 3 \<le> version_major h then u64_from_le (slice ?o 88 8) else 0) = header_generation h"
    using wf res hw(1) by (simp add: rd fixed_fields_reads fixed_fields_slices has_header_generation_def header_wf_def)
  show ?thesis
    unfolding header_from_bytes_def
    using wf res hw(1) blobs gen
    by (simp add: rd fixed_fields_reads fixed_fields_slices ver slots Let_def header_wf_def)
qed

section \<open>The parser establishes the invariant\<close>

lemma parse_slots_wf:
  "parse_slots buf i n = Inr ss \<Longrightarrow> length buf = 8192 \<Longrightarrow> i + n \<le> 8 \<Longrightarrow>
    length ss = n \<and> list_all slot_wf ss"
proof (induction n arbitrary: i ss)
  case (Suc n)
  from Suc.prems(1) obtain s ss' where s: "slot_from_bytes (slice buf (96 + i * 512) 512) = Inr s"
    and ss': "parse_slots buf (Suc i) n = Inr ss'" and ss: "ss = s # ss'"
    by (auto simp: res_simps)
  have "slot_wf s" using slot_from_bytes_wf [OF _ s] Suc.prems(2,3) by simp
  with Suc.IH [OF ss'] Suc.prems ss show ?case by simp
qed simp

lemma parse_sep_entries_wf:
  "parse_sep_entries region n p out = Inr blobs \<Longrightarrow> length out = 8 \<Longrightarrow>
   p = sep_region_required_len out \<Longrightarrow> p \<le> length region \<Longrightarrow>
    length blobs = 8 \<and> sep_region_required_len blobs \<le> length region"
proof (induction region n p out rule: parse_sep_entries.induct)
  case (2 region n p out)
  let ?i = "unat (region ! p)"
  let ?l = "unat (u16_from_le [region ! (p + 1), region ! (p + 2)])"
  from "2.prems"(1) have c: "p + 3 \<le> length region" "?i < 8" "p + 3 + ?l \<le> length region" "out ! ?i = None"
    and rec: "parse_sep_entries region n (p + 3 + ?l) (out[?i := Some (slice region (p + 3) ?l)]) = Inr blobs"
    by (auto simp: Let_def split: if_splits)
  have "sep_region_required_len (out[?i := Some (slice region (p + 3) ?l)]) = p + 3 + ?l"
    using c "2.prems"(2,3) by (simp add: required_len_set)
  moreover have "\<not> length region < p + 3" "\<not> (8 \<le> ?i \<or> length region < p + 3 + ?l)" using c by auto
  ultimately show ?case
    using "2.IH" [OF _ refl refl refl _ _ rec] c "2.prems"(2) by (metis length_list_update)
qed simp

lemma parse_sep_region_wf:
  assumes "parse_sep_region buf = Inr blobs" "length buf = 8192"
  shows "length blobs = 8" "sep_region_required_len blobs \<le> 3968"
proof -
  have "parse_sep_entries (slice buf 4192 3968) (unat (slice buf 4192 3968 ! 0)) 1 (replicate 8 None) = Inr blobs"
    using assms(1) by (simp add: parse_sep_region_def Let_def split: if_splits)
  from parse_sep_entries_wf [OF this] assms(2)
  show "length blobs = 8" "sep_region_required_len blobs \<le> 3968" by simp_all
qed

lemma version_of_magic_range: "version_of_magic m = Inr v \<Longrightarrow> v \<in> {1, 2, 3}"
  by (auto simp: version_of_magic_def split: if_splits)

lemma header_from_bytes_wf:
  assumes ok: "header_from_bytes buf = Inr h" and len: "length buf = 8192"
  shows "header_wf h"
proof -
  from ok obtain v where v: "version_of_magic (slice buf 0 8) = Inr v"
    and cs: "512 \<le> chunk_size h" "chunk_size h \<le> 1048576"
    and lc: "layout_checks (metadata_offset h) (metadata_size h) (data_offset h) = Inr ()"
    and sl: "parse_slots buf 0 8 = Inr (keyslots h)"
    and bl: "(if flags h AND 16 \<noteq> 0 then parse_sep_region buf else Inr (replicate 8 None)) = Inr (sep_blobs h)"
    and fs: "version_major h = v" "header_salt h = slice buf 24 32"
      "header_generation h = (if 3 \<le> v then u64_from_le (slice buf 88 8) else 0)"
    unfolding header_from_bytes_def Let_def
    by (elim bindE_eq_Inr [THEN iffD1, elim_format] exE conjE) (auto simp: res_simps split: if_splits)
  have "length (sep_blobs h) = 8 \<and> sep_region_required_len (sep_blobs h) \<le> 3968"
  proof (cases "flags h AND 16 = 0")
    case True
    then have "sep_blobs h = replicate 8 None" using bl by simp
    then show ?thesis by simp
  next
    case False
    then have "parse_sep_region buf = Inr (sep_blobs h)" using bl by simp
    with parse_sep_region_wf [OF _ len] show ?thesis by blast
  qed
  moreover have "v \<in> {1, 2, 3}" using v by (rule version_of_magic_range)
  moreover have "flags h AND 16 = 0 \<Longrightarrow> sep_blobs h = replicate 8 None" using bl by simp
  ultimately show ?thesis
    using cs lc parse_slots_wf [OF sl len] fs len
    by (auto simp: header_wf_def has_sep_region_def has_header_generation_def)
qed

text \<open>What a parsed header guarantees of the three regions, over the integers.\<close>

lemma layout_checks_bounds:
  assumes "layout_checks moff msize doff = Inr ()"
  shows "unat msize \<le> 67108864" "unat moff + unat msize < 2 ^ 64"
    "moff = 0 \<or> 8192 \<le> unat moff" "unat moff + unat msize \<le> unat doff"
proof -
  from assms obtain e where e: "checked_add_u64 moff msize = Some e" "\<not> 67108864 < msize"
    "\<not> (0 < moff \<and> moff < 8192)" "\<not> doff < e"
    by (auto simp: layout_checks_def split: if_splits option.splits)
  then show "unat msize \<le> 67108864" "unat moff + unat msize < 2 ^ 64"
    "moff = 0 \<or> 8192 \<le> unat moff" "unat moff + unat msize \<le> unat doff"
    by (auto simp: checked_add_u64_Some word_less_nat_alt unat_eq_0 unat_gt_0)
qed

section \<open>Operations keep the invariant\<close>

lemma flag_or_16: "(x OR 16) AND 16 \<noteq> (0 :: u32)"
proof -
  have "bit ((x OR 16) AND 16) 4"
    by (simp add: bit_and_iff bit_or_iff bit_numeral_rec)
  then show ?thesis by auto
qed

lemma flag_andnot_16: "(x AND NOT 16) AND 16 = (0 :: u32)"
  by (simp add: and.assoc)

lemma header_wf_update:
  assumes "header_wf h" "length bs = 8" "sep_region_required_len bs \<le> 3968"
    "fl AND 16 = 0 \<Longrightarrow> bs = replicate 8 None"
  shows "header_wf (h\<lparr>sep_blobs := bs, flags := fl\<rparr>)"
  using assms by (auto simp: header_wf_def has_sep_region_def has_header_generation_def)

lemma set_sep_blob_wf:
  assumes "header_wf h" "set_sep_blob h i blob = Inr h'"
  shows "header_wf h'"
proof -
  let ?bs = "(sep_blobs h)[i := Some blob]"
  from assms(2) have fits: "sep_region_required_len ?bs \<le> 3968"
    and h': "h' = h\<lparr>sep_blobs := ?bs, flags := flags h OR 16\<rparr>"
    by (simp_all add: set_sep_blob_def Let_def not_less split: if_splits)
  have "length ?bs = 8" using header_wf_simps(3) [OF assms(1)] by simp
  then show ?thesis unfolding h' using assms(1) fits flag_or_16 by (intro header_wf_update) auto
qed

lemma clear_sep_blob_wf:
  assumes "header_wf h"
  shows "header_wf (clear_sep_blob h i)"
proof -
  let ?bs = "if i < 8 then (sep_blobs h)[i := None] else sep_blobs h"
  have bs: "length ?bs = 8" "sep_region_required_len ?bs \<le> 3968"
    using header_wf_simps(3,5) [OF assms] required_len_clear [of "sep_blobs h" i] by simp_all
  have all: "list_all (\<lambda>b. b = None) ?bs \<Longrightarrow> ?bs = replicate 8 None"
    using bs(1) unfolding list_all_iff by (intro replicate_eqI) blast+
  have keep: "?bs = replicate 8 None" if "flags h AND 16 = 0"
  proof -
    have "sep_blobs h = replicate 8 None" using assms that by (simp add: header_wf_def has_sep_region_def)
    then show ?thesis by (simp add: list_update_same_conv)
  qed
  have off: "header_wf (h\<lparr>sep_blobs := ?bs, flags := flags h AND NOT 16\<rparr>)" if "list_all (\<lambda>b. b = None) ?bs"
    using assms bs all [OF that] by (intro header_wf_update)
  have on: "header_wf (h\<lparr>sep_blobs := ?bs, flags := flags h\<rparr>)"
    using assms bs keep by (intro header_wf_update)
  have eq: "clear_sep_blob h i = (if list_all (\<lambda>b. b = None) ?bs
      then h\<lparr>sep_blobs := ?bs, flags := flags h AND NOT 16\<rparr> else h\<lparr>sep_blobs := ?bs, flags := flags h\<rparr>)"
    by (simp add: clear_sep_blob_def Let_def)
  show ?thesis unfolding eq using off on by (simp split: if_split)
qed

lemma install_slot_wf:
  assumes "header_wf h" "slot_wf s" "install_slot h i s = Inr h'"
  shows "header_wf h'"
proof -
  have "list_all slot_wf ((keyslots h)[i := s])"
    using assms(1,2) set_update_subset_insert [of "keyslots h" i s]
    by (auto simp: header_wf_def list_all_iff)
  with assms show ?thesis
    by (auto simp: install_slot_def header_wf_def has_sep_region_def has_header_generation_def split: if_splits)
qed

lemma empty_slot_wf [simp]: "slot_wf empty_slot"
  by (simp add: slot_wf_def empty_slot_def)

lemma revoke_slot_install:
  "revoke_slot h i = bindE (install_slot h i empty_slot) (\<lambda>h'. Inr (clear_sep_blob h' i))"
  by (simp add: revoke_slot_def install_slot_def)

lemma revoke_slot_wf: "header_wf h \<Longrightarrow> revoke_slot h i = Inr h' \<Longrightarrow> header_wf h'"
  using install_slot_wf [OF _ empty_slot_wf] clear_sep_blob_wf
  by (auto simp: revoke_slot_install res_simps)

lemma try_new_wf:
  assumes "rng_fills E" "try_new E suite k cs doff r = (Inr h, r')"
    "512 \<le> cs" "cs \<le> 1048576" "8192 \<le> doff"
  shows "header_wf h" "cipher_suite h = suite" "keyslots h = replicate 8 empty_slot"
proof -
  from assms(2) obtain salt where "fill E 32 r = (Inr salt, r')" and h: "h = \<lparr>cipher_suite = suite, kdf = k,
      chunk_size = cs, flags = 0, header_salt = salt, metadata_offset = 8192, metadata_size = 0,
      data_offset = doff, keyslots = replicate 8 empty_slot, sep_blobs = replicate 8 None,
      version_major = 1, header_generation = 0\<rparr>"
    by (auto simp: try_new_def res_simps)
  with assms(1) have "length salt = 32" by (auto dest: fill_length)
  moreover have "layout_checks 8192 0 doff = Inr ()"
    using assms(5) by (simp add: layout_checks_def checked_add_u64_def not_less)
  ultimately show "header_wf h" "cipher_suite h = suite" "keyslots h = replicate 8 empty_slot"
    using assms(3,4) h by (simp_all add: header_wf_def list_all_iff has_sep_region_def)
qed

section \<open>The header as a codec\<close>

text \<open>
  A serialised header is determined by the header, the reserved region's filler, the padding of
  each slot and the trailer.
\<close>

definition header_image :: "bytes \<times> bytes list \<times> bytes \<Rightarrow> Header \<Rightarrow> bytes" where
  "header_image p h =
     (case p of (reserved, pads, tag) \<Rightarrow>
        put (header_layout_bytes h reserved (map2 slot_layout_bytes pads (keyslots h))) OFF_HMAC tag)"

definition header_pad_ok :: "bytes \<times> bytes list \<times> bytes \<Rightarrow> bool" where
  "header_pad_ok p \<longleftrightarrow>
     (case p of (reserved, pads, tag) \<Rightarrow>
        length reserved = SEP_REGION_LEN \<and> length pads = MAX_KEYSLOTS
        \<and> list_all (\<lambda>b. length b = SLOT_SIZE) pads \<and> length tag = HMAC_LEN)"

lemma slots_encode_map2:
  "length pads = length ss \<Longrightarrow> list_all (\<lambda>b. length b = 512) pads \<Longrightarrow>
    slots_encode ss (map2 slot_layout_bytes pads ss)"
  by (auto simp: slots_encode_def list_all2_conv_all_nth list_all_length)

interpretation header_codec: codec header_image header_from_bytes header_pad_ok header_wf 8192
proof (unfold_locales, goal_cases)
  case (1 p x)
  then show ?case
    by (cases p) (simp add: header_image_def header_pad_ok_def header_layout_roundtrip slots_encode_map2
        header_wf_simps(2))
next
  case (2 p x)
  then show ?case
    by (cases p) (simp add: header_image_def header_pad_ok_def header_layout_reads(1) slots_encode_map2
        header_wf_simps(2))
next
  case (3 bs x)
  then show ?case using header_from_bytes_wf by blast
qed

lemma slots_to_bytes_encode:
  "rng_fills E \<Longrightarrow> slots_to_bytes E ss r = (Inr sbs, r') \<Longrightarrow>
    \<exists>pads. length pads = length ss \<and> list_all (\<lambda>b. length b = 512) pads \<and> sbs = map2 slot_layout_bytes pads ss"
proof (induction ss arbitrary: r sbs)
  case (Cons s ss)
  from Cons.prems(2) obtain sb r1 sbs' where sb: "slot_to_bytes E s r = (Inr sb, r1)"
    and sbs': "slots_to_bytes E ss r1 = (Inr sbs', r')" and sbs: "sbs = sb # sbs'"
    by (auto simp: res_simps)
  from slot_to_bytes_layout [OF Cons.prems(1) sb] obtain p where "length p = 512" "sb = slot_layout_bytes p s"
    by blast
  moreover from Cons.IH [OF Cons.prems(1) sbs'] obtain pads where "length pads = length ss"
    "list_all (\<lambda>b. length b = 512) pads" "sbs' = map2 slot_layout_bytes pads ss" by blast
  ultimately have "length (p # pads) = length (s # ss) \<and> list_all (\<lambda>b. length b = 512) (p # pads)
      \<and> sbs = map2 slot_layout_bytes (p # pads) (s # ss)"
    using sbs by simp
  then show ?case by blast
qed simp

lemma length_compute_hmac: "digest_lengths E \<Longrightarrow> length (compute_hmac E k d) = 32"
  unfolding compute_hmac_def digest_lengths_def by blast

text \<open>Every successful serialisation is an image, sealed by the tag over its first 8160 bytes.\<close>

lemma header_to_bytes_image:
  assumes "rng_fills E" "digest_lengths E" "header_wf h" "header_to_bytes E h mvk r = (Inr raw, r')"
  obtains p where "header_pad_ok p" "raw = header_image p h"
    "drop 8160 raw = compute_hmac E (derive_subkey E mvk (header_salt h) HEADER_MAC_INFO) (take 8160 raw)"
proof -
  let ?mac = "compute_hmac E (derive_subkey E mvk (header_salt h) HEADER_MAC_INFO)"
  from assms(4) obtain reserved r1 sbs where
    res: "fill_expect E ''OS RNG failure during header padding fill'' 3968 r = (Inr reserved, r1)"
    and sbs: "slots_to_bytes E (keyslots h) r1 = (Inr sbs, r')"
    and raw: "raw = put (header_layout_bytes h reserved sbs) 8160
                (?mac (take 8160 (header_layout_bytes h reserved sbs)))"
    by (auto simp: header_to_bytes_def serialize_unauth_def res_simps Let_def)
  let ?b = "header_layout_bytes h reserved sbs"
  from slots_to_bytes_encode [OF assms(1) sbs] obtain pads where pads: "length pads = length (keyslots h)"
    "list_all (\<lambda>b. length b = 512) pads" "sbs = map2 slot_layout_bytes pads (keyslots h)" by blast
  have tag: "length (?mac d) = 32" for d
    using assms(2) by (rule length_compute_hmac)
  have rl: "length reserved = 3968" using fill_expect_length [OF assms(1) res] .
  have bl: "length ?b = 8192"
    unfolding pads(3) by (rule header_layout_reads(1) [OF assms(3) rl slots_encode_map2 [OF pads(1,2)]])
  show thesis
  proof (rule that [of "(reserved, pads, ?mac (take 8160 ?b))"])
    show "header_pad_ok (reserved, pads, ?mac (take 8160 ?b))"
      using rl pads tag header_wf_simps(2) [OF assms(3)] by (simp add: header_pad_ok_def)
    show "raw = header_image (reserved, pads, ?mac (take 8160 ?b)) h"
      using raw pads(3) by (simp add: header_image_def)
    show "drop 8160 raw = ?mac (take 8160 raw)"
      using bl tag by (simp add: raw put_def)
  qed
qed

lemma verify_hmac_iff:
  "verify_hmac E h raw mvk = Inr () \<longleftrightarrow>
     drop 8160 raw = compute_hmac E (derive_subkey E mvk (header_salt h) HEADER_MAC_INFO) (take 8160 raw)"
  by (auto simp: verify_hmac_def Let_def)

lemma header_written_read:
  assumes "rng_fills E" "digest_lengths E" "header_wf h" "header_to_bytes E h mvk r = (Inr raw, r')"
  shows "length raw = 8192" "header_from_bytes raw = Inr h" "verify_hmac E h raw mvk = Inr ()"
  using assms by (rule header_to_bytes_image; simp add: assms(3) header_codec.decode_encode
      header_codec.encode_width verify_hmac_iff)+

section \<open>The slot table\<close>

lemma position_eq_Some:
  "position p xs = Some i \<longleftrightarrow> i < length xs \<and> p (xs ! i) \<and> (\<forall>j < i. \<not> p (xs ! j))"
proof (induction xs arbitrary: i)
  case (Cons x xs)
  then show ?case
    by (cases i) (auto simp: less_Suc_eq_0_disj)
qed simp

lemma position_eq_None: "position p xs = None \<longleftrightarrow> list_all (\<lambda>x. \<not> p x) xs"
  by (induction xs) auto

lemma sep_blob_set:
  assumes "header_wf h" "set_sep_blob h i blob = Inr h'"
  shows "sep_blob h' j = (if j = i then Some blob else sep_blob h j)" "has_sep_region h'" "keyslots h' = keyslots h"
  using assms header_wf_simps(3) [OF assms(1)]
  by (auto simp: set_sep_blob_def Let_def sep_blob_def has_sep_region_def flag_or_16 split: if_splits)

lemma sep_blob_clear:
  "sep_blob (clear_sep_blob h i) j = (if j = i \<and> i < 8 then None else sep_blob h j)"
  "keyslots (clear_sep_blob h i) = keyslots h"
  by (auto simp: clear_sep_blob_def Let_def sep_blob_def nth_list_update)

lemma revoke_slot_effect:
  assumes "header_wf h" "revoke_slot h i = Inr h'"
  shows "i < 8" "slot_is_empty (keyslots h' ! i)" "sep_blob h' i = None"
    "j \<noteq> i \<Longrightarrow> keyslots h' ! j = keyslots h ! j" "j \<noteq> i \<Longrightarrow> sep_blob h' j = sep_blob h j"
proof -
  have kl: "length (keyslots h) = 8" by (rule header_wf_simps(2) [OF assms(1)])
  from assms(2) have i: "i < 8" and h': "h' = clear_sep_blob (h\<lparr>keyslots := (keyslots h)[i := empty_slot]\<rparr>) i"
    by (auto simp: revoke_slot_def split: if_splits)
  have sb: "sep_blob (h\<lparr>keyslots := ks\<rparr>) j = sep_blob h j" for ks j by (simp add: sep_blob_def)
  show "i < 8" by (fact i)
  show "slot_is_empty (keyslots h' ! i)"
    using kl i h' by (simp add: sep_blob_clear slot_is_empty_def empty_slot_def)
  show "sep_blob h' i = None" "j \<noteq> i \<Longrightarrow> keyslots h' ! j = keyslots h ! j" "j \<noteq> i \<Longrightarrow> sep_blob h' j = sep_blob h j"
    using kl i h' by (simp_all add: sep_blob_clear sb)
qed

lemma slots_to_bytes_live [live_intros]: "env_live E \<Longrightarrow> succeeds (slots_to_bytes E ss)"
proof (induction ss)
  case Nil
  then show ?case by (simp add: live_intros)
next
  case (Cons s ss)
  then show ?case by (simp add: live_intros)
qed

lemma header_to_bytes_live: "env_live E \<Longrightarrow> succeeds (header_to_bytes E h mvk)"
  by (simp add: header_to_bytes_def serialize_unauth_def Let_def live_intros)

section \<open>Properties\<close>

text \<open>A version-3 header with one FIDO2 slot and two enclave blobs, for evaluating the model.\<close>

definition demo_header :: Header where
  "demo_header = \<lparr>cipher_suite = Aes256GcmSiv, kdf = Argon2id, chunk_size = 4096, flags = 17,
     header_salt = replicate 32 7, metadata_offset = 8192, metadata_size = 65536, data_offset = 131072,
     keyslots = empty_slot # demo_slot # replicate 6 empty_slot,
     sep_blobs = [None, Some [1, 2, 3], None, None, Some [], None, None, None],
     version_major = 3, header_generation = 42\<rparr>"

lemma demo_header_wf: "header_wf demo_header"
  by (simp add: header_wf_def demo_header_def layout_checks_def checked_add_u64_def demo_slot_wf list_all_iff
      has_sep_region_def has_header_generation_def)

text \<open>
  C21: a well-formed header survives the disk and authenticates. Serialising returns 8192 bytes;
  parsing them returns the same header (all fields, the eight slots and the packed enclave table),
  and its HMAC verifies under the volume key it was sealed with.
\<close>

theorem header_disk_roundtrip:
  assumes "rng_fills E" "digest_lengths E" "env_live E" "header_wf h"
  shows "\<exists>raw r'. header_to_bytes E h mvk r = (Inr raw, r') \<and> length raw = 8192
    \<and> header_from_bytes raw = Inr h \<and> verify_hmac E h raw mvk = Inr ()"
proof -
  obtain raw r' where raw: "header_to_bytes E h mvk r = (Inr raw, r')"
    using header_to_bytes_live [OF assms(3)] unfolding succeeds_def by blast
  with header_written_read [OF assms(1,2,4) raw] show ?thesis by blast
qed

theorem header_disk_roundtrip_witness:
  "\<exists>raw r'. header_to_bytes demo_env demo_header (replicate 32 5) 0 = (Inr raw, r') \<and> length raw = 8192
    \<and> header_from_bytes raw = Inr demo_header \<and> verify_hmac demo_env demo_header raw (replicate 32 5) = Inr ()"
  by (rule header_disk_roundtrip) (simp_all add: demo_env_ok demo_env_live demo_header_wf)

text \<open>What every accepted header satisfies, for the property of the opened vault.\<close>

lemma header_parse_bounds:
  assumes "length raw = 8192" "header_from_bytes raw = Inr h"
  shows "header_wf h" "512 \<le> unat (chunk_size h)" "unat (chunk_size h) \<le> 1024 * 1024"
    "unat (metadata_size h) \<le> 64 * 1024 * 1024" "metadata_offset h = 0 \<or> HEADER_SIZE \<le> unat (metadata_offset h)"
    "unat (metadata_offset h) + unat (metadata_size h) < 2 ^ 64"
    "unat (metadata_offset h) + unat (metadata_size h) \<le> unat (data_offset h)"
    "OFF_SEP_REGION + sep_region_required_len (sep_blobs h) \<le> OFF_HMAC"
proof -
  show wf: "header_wf h" by (rule header_codec.decode_wf [OF assms])
  then have "layout_checks (metadata_offset h) (metadata_size h) (data_offset h) = Inr ()"
    and cs: "512 \<le> chunk_size h" "chunk_size h \<le> 1048576" by (simp_all add: header_wf_def)
  note lb = layout_checks_bounds [OF this(1)]
  show "512 \<le> unat (chunk_size h)" "unat (chunk_size h) \<le> 1024 * 1024" using cs by (simp_all add: word_le_nat_alt)
  show "unat (metadata_size h) \<le> 64 * 1024 * 1024" "metadata_offset h = 0 \<or> HEADER_SIZE \<le> unat (metadata_offset h)"
    "unat (metadata_offset h) + unat (metadata_size h) < 2 ^ 64"
    "unat (metadata_offset h) + unat (metadata_size h) \<le> unat (data_offset h)" using lb by auto
  show "OFF_SEP_REGION + sep_region_required_len (sep_blobs h) \<le> OFF_HMAC" using header_wf_simps [OF wf] by simp
qed

lemma demo_header_parses: "\<exists>raw. length raw = 8192 \<and> header_from_bytes raw = Inr demo_header"
proof -
  define p where "p = (replicate 3968 (0 :: u8), replicate 8 (replicate 512 (0 :: u8)), replicate 32 (0 :: u8))"
  have ok: "header_pad_ok p" by (simp add: p_def header_pad_ok_def list_all_iff)
  show ?thesis using header_codec.encode_width [OF ok demo_header_wf] header_codec.decode_encode [OF ok demo_header_wf] by blast
qed

text \<open>
  C28: every operation on the slot table keeps the header well formed: a new header is, and
  installing a well-formed slot, revoking a slot and setting or clearing an enclave blob keep it so.
\<close>

theorem header_ops_keep_wf:
  assumes "header_wf h" "slot_wf s"
  shows "(install_slot h i s = Inr h1 \<longrightarrow> header_wf h1)
    \<and> (revoke_slot h i = Inr h2 \<longrightarrow> header_wf h2)
    \<and> (set_sep_blob h i blob = Inr h3 \<longrightarrow> header_wf h3)
    \<and> header_wf (clear_sep_blob h i)
    \<and> (rng_fills E \<and> 512 \<le> cs \<and> cs \<le> 1048576 \<and> 8192 \<le> doff \<and>
         try_new E suite k cs doff r = (Inr h4, r') \<longrightarrow> header_wf h4)"
proof (intro conjI impI)
  show "install_slot h i s = Inr h1 \<Longrightarrow> header_wf h1" using assms by (rule install_slot_wf)
  show "revoke_slot h i = Inr h2 \<Longrightarrow> header_wf h2" using assms(1) by (rule revoke_slot_wf)
  show "set_sep_blob h i blob = Inr h3 \<Longrightarrow> header_wf h3" using assms(1) by (rule set_sep_blob_wf)
  show "header_wf (clear_sep_blob h i)" using assms(1) by (rule clear_sep_blob_wf)
  show "header_wf h4" if "rng_fills E \<and> 512 \<le> cs \<and> cs \<le> 1048576 \<and> 8192 \<le> doff \<and>
         try_new E suite k cs doff r = (Inr h4, r')"
    using that try_new_wf(1) [of E suite k cs doff r h4 r'] by simp
qed

theorem header_ops_keep_wf_witness:
  "header_wf (clear_sep_blob demo_header 1)
   \<and> header_wf (demo_header\<lparr>keyslots := (keyslots demo_header)[1 := demo_slot]\<rparr>)"
proof -
  have installed: "install_slot demo_header 1 demo_slot
      = Inr (demo_header\<lparr>keyslots := (keyslots demo_header)[1 := demo_slot]\<rparr>)"
    by (simp add: install_slot_def)
  note kept = header_ops_keep_wf [OF demo_header_wf demo_slot_wf(1)]
  show ?thesis
    using kept [THEN conjunct1, rule_format, OF installed]
      kept [THEN conjunct2, THEN conjunct2, THEN conjunct2, THEN conjunct1, of 1] by simp
qed

text \<open>
  Revocation removes exactly one slot. It fails only for an index of 8 or more; otherwise the
  slot becomes empty (it writes as a zero kind byte and unlocks for nobody), its enclave blob is
  gone, and every other slot and blob is unchanged.
\<close>

theorem revoke_slot_exact:
  assumes "header_wf h"
  shows "(is_ok (revoke_slot h i) \<longleftrightarrow> i < MAX_KEYSLOTS)
    \<and> (\<forall>h'. revoke_slot h i = Inr h' \<longrightarrow>
         keyslots h' = (keyslots h)[i := empty_slot]
         \<and> (\<forall>j. sep_blob h' j = (if j = i then None else sep_blob h j))
         \<and> unlock_passphrase E suite (keyslots h' ! i) pw hs = Inl InvalidField)"
proof (intro conjI allI impI)
  show "is_ok (revoke_slot h i) \<longleftrightarrow> i < MAX_KEYSLOTS" by (simp add: revoke_slot_def)
  fix h' assume rv: "revoke_slot h i = Inr h'"
  note ef = revoke_slot_effect [OF assms rv]
  show "sep_blob h' j = (if j = i then None else sep_blob h j)" for j using ef(3,5) by auto
  show ks: "keyslots h' = (keyslots h)[i := empty_slot]"
    using rv by (auto simp: revoke_slot_def sep_blob_clear split: if_splits)
  show "unlock_passphrase E suite (keyslots h' ! i) pw hs = Inl InvalidField"
    using ks ef(1) header_wf_simps(2) [OF assms] by (simp add: unlock_passphrase_def empty_slot_def)
qed

theorem revoke_slot_exact_witness:
  "\<exists>h'. revoke_slot demo_header 1 = Inr h' \<and> keyslots h' = replicate 8 empty_slot \<and> sep_blob h' 4 = Some []"
proof -
  obtain h' where h': "revoke_slot demo_header 1 = Inr h'" by (simp add: revoke_slot_def)
  have "keyslots h' = (keyslots demo_header)[1 := empty_slot]
      \<and> (\<forall>j. sep_blob h' j = (if j = 1 then None else sep_blob demo_header j))"
    using revoke_slot_exact [OF demo_header_wf, of 1] h' by blast
  moreover have "(keyslots demo_header)[1 := empty_slot] = replicate 8 empty_slot"
    and "sep_blob demo_header 4 = Some []"
    by (simp_all add: demo_header_def sep_blob_def eval_nat_numeral)
  ultimately show ?thesis using h' by simp
qed

text \<open>
  \<open>first_free_slot\<close> returns the lowest empty slot, and reports that none is free exactly when
  every slot of the table is in use.
\<close>

theorem first_free_slot_correct:
  "(first_free_slot h = Inr i \<longleftrightarrow>
      i < length (keyslots h) \<and> slot_is_empty (keyslots h ! i) \<and> (\<forall>j<i. \<not> slot_is_empty (keyslots h ! j)))
   \<and> (first_free_slot h = Inl e \<longleftrightarrow> e = NoFreeKeyslot \<and> list_all (\<lambda>s. \<not> slot_is_empty s) (keyslots h))"
proof
  show "first_free_slot h = Inr i \<longleftrightarrow>
      i < length (keyslots h) \<and> slot_is_empty (keyslots h ! i) \<and> (\<forall>j<i. \<not> slot_is_empty (keyslots h ! j))"
    by (simp add: first_free_slot_def position_eq_Some)
  show "first_free_slot h = Inl e \<longleftrightarrow> e = NoFreeKeyslot \<and> list_all (\<lambda>s. \<not> slot_is_empty s) (keyslots h)"
    using position_eq_None [of slot_is_empty "keyslots h"]
    by (auto simp: first_free_slot_def ok_or_def split: option.splits)
qed

theorem first_free_slot_correct_witness:
  "first_free_slot (demo_header\<lparr>keyslots := [demo_slot, empty_slot, empty_slot]\<rparr>) = Inr 1"
proof -
  let ?h = "demo_header\<lparr>keyslots := [demo_slot, empty_slot, empty_slot]\<rparr>"
  have "\<forall>j<1. \<not> slot_is_empty (keyslots ?h ! j)"
    by (simp add: demo_slot_def slot_is_empty_def)
  then show ?thesis
    using first_free_slot_correct [of ?h 1] by (simp add: slot_is_empty_def empty_slot_def)
qed

text \<open>
  Storing an enclave blob is all or nothing. On a well-formed header it succeeds exactly when
  the index is below 8 and the packed table, with its count byte and a three-byte prefix per blob,
  still fits before the HMAC; then that slot has the blob, the others keep theirs, the region flag is
  set and the header still survives the disk with all its blobs.
\<close>

theorem set_sep_blob_exact:
  assumes "header_wf h"
  shows "(is_ok (set_sep_blob h i blob) \<longleftrightarrow>
      i < MAX_KEYSLOTS \<and> sep_region_required_len ((sep_blobs h)[i := Some blob]) \<le> SEP_REGION_LEN)
    \<and> (\<forall>h'. set_sep_blob h i blob = Inr h' \<longrightarrow>
        (\<forall>j. sep_blob h' j = (if j = i then Some blob else sep_blob h j)) \<and> has_sep_region h'
        \<and> (\<forall>p. header_pad_ok p \<longrightarrow> header_from_bytes (header_image p h') = Inr h'))"
proof (intro conjI allI impI)
  show "is_ok (set_sep_blob h i blob) \<longleftrightarrow>
      i < MAX_KEYSLOTS \<and> sep_region_required_len ((sep_blobs h)[i := Some blob]) \<le> SEP_REGION_LEN"
    by (auto simp: set_sep_blob_def Let_def)
  fix h' assume st: "set_sep_blob h i blob = Inr h'"
  show "sep_blob h' j = (if j = i then Some blob else sep_blob h j)" for j
    by (rule sep_blob_set(1) [OF assms st])
  show "has_sep_region h'" by (rule sep_blob_set(2) [OF assms st])
  show "header_from_bytes (header_image p h') = Inr h'" if "header_pad_ok p" for p
    using header_codec.decode_encode [OF that set_sep_blob_wf [OF assms st]] .
qed

theorem set_sep_blob_exact_witness:
  "\<exists>h'. set_sep_blob demo_header 0 [9, 9] = Inr h' \<and> sep_blob h' 0 = Some [9, 9] \<and> sep_blob h' 1 = Some [1, 2, 3]"
proof -
  have "is_ok (set_sep_blob demo_header 0 [9, 9])"
    using set_sep_blob_exact [OF demo_header_wf, of 0 "[9, 9]"] by (simp add: demo_header_def)
  then obtain h' where h': "set_sep_blob demo_header 0 [9, 9] = Inr h'" by (auto simp: is_ok_iff)
  then have "\<forall>j. sep_blob h' j = (if j = 0 then Some [9, 9] else sep_blob demo_header j)"
    using set_sep_blob_exact [OF demo_header_wf, of 0 "[9, 9]"] by blast
  moreover have "sep_blob demo_header 1 = Some [1, 2, 3]" by (simp add: demo_header_def sep_blob_def)
  ultimately show ?thesis using h' by simp
qed

end
