(* ===== verification/Lbx_Metadata.thy ===== *)
theory Lbx_Metadata
  imports Lbx_Header
begin

text \<open>
  The encrypted metadata region of \<open>luksbox-format/src/metadata.rs\<close>: its layout, the masked
  length field, the writer with its padding and the reader with its bounds checks, together with
  the error type of the format crate. The lemmas show that reading undoes writing for both length
  encodings, and exactly which regions a reader accepts.
\<close>

unbundle bit_operations_syntax

section \<open>Errors of the format crate\<close>

datatype fmt_error =
    Crypto error
  | Io string
  | UnlockFailed
  | OpaqueUnlockFailed
  | MetadataTooLarge
  | MetadataCorrupt
  | OffsetOverflow
  | Fido2CredNotFound
  | AnchorAuthFailed
  | AnchorCorrupt
  | HeaderRollbackDetected u64 u64
  | HeaderUpgradeUnsupported string
  | VaultLocked string
  | PathSubstituted string
  | SymlinkRefused string
  | DeniableRotationRequiresEmptyVault
  | DeniableSlotMutationUnsupported

type_synonym 'a fres = "fmt_error + 'a"

text \<open>A core computation inside a format one: its errors become \<open>Error::Crypto\<close>.\<close>

definition crypto :: "('r, error, 'a) rand \<Rightarrow> ('r, fmt_error, 'a) rand" where
  "crypto m = (\<lambda>r. case m r of (x, r') \<Rightarrow> (map_err Crypto x, r'))"

lemma crypto_eq_Inr [res_simps]: "crypto m r = (Inr x, r') \<longleftrightarrow> m r = (Inr x, r')"
  by (cases "m r") (auto simp: crypto_def)

lemma crypto_live [live_intros]: "succeeds m \<Longrightarrow> succeeds (crypto m)"
  by (auto simp: succeeds_def crypto_eq_Inr)

section \<open>The region\<close>

abbreviation (input) DEFAULT_METADATA_REGION_SIZE :: u64 where
  "DEFAULT_METADATA_REGION_SIZE \<equiv> 64 * 1024 * 1024"
abbreviation (input) NONCE_LEN :: nat where "NONCE_LEN \<equiv> 12"
abbreviation (input) LEN_FIELD_LEN :: nat where "LEN_FIELD_LEN \<equiv> 8"
abbreviation (input) TAG_LEN :: nat where "TAG_LEN \<equiv> 16"
abbreviation (input) METADATA_OVERHEAD :: nat where "METADATA_OVERHEAD \<equiv> 36"
abbreviation (input) METADATA_MAGIC_LEN :: nat where "METADATA_MAGIC_LEN \<equiv> 4"
abbreviation (input) METADATA_KEY_INFO :: bytes where "METADATA_KEY_INFO \<equiv> bstr ''lbx:metadata-key/v1''"
abbreviation (input) METADATA_LEN_MASK_INFO :: bytes where
  "METADATA_LEN_MASK_INFO \<equiv> bstr ''lbx:metadata-len-mask/v1''"

text \<open>Saturating subtraction is subtraction on \<open>nat\<close>.\<close>

definition payload_budget_for :: "u64 \<Rightarrow> nat" where
  "payload_budget_for region_size = unat region_size - METADATA_OVERHEAD - METADATA_MAGIC_LEN"

text \<open>The thread-local override of the region size is the argument.\<close>

definition resolved_create_metadata_region_size :: "u64 option \<Rightarrow> u64" where
  "resolved_create_metadata_region_size override =
     min (case override of None \<Rightarrow> DEFAULT_METADATA_REGION_SIZE | Some s \<Rightarrow> s) MAX_METADATA_SIZE"

definition metadata_key :: "'r env \<Rightarrow> bytes \<Rightarrow> bytes \<Rightarrow> bytes" where
  "metadata_key E mvk hs = derive_subkey E mvk hs METADATA_KEY_INFO"

definition len_mask :: "'r env \<Rightarrow> bytes \<Rightarrow> bytes \<Rightarrow> bytes \<Rightarrow> bytes" where
  "len_mask E mvk hs nonce = take 8 (hmac_sha256 E (derive_subkey E mvk hs METADATA_LEN_MASK_INFO) nonce)"

definition fill_padding :: "'r env \<Rightarrow> nat \<Rightarrow> ('r, bytes) rnd" where
  "fill_padding E n =
     bindR (fill_expect E ''OS RNG failure during metadata padding fill'' 32) (\<lambda>key.
       retR (chacha20_keystream E key n))"

definition metadata_aad :: "bytes \<Rightarrow> u64 \<Rightarrow> bytes" where
  "metadata_aad hs ct_len = hs @ u64_to_le ct_len"

definition stored_len_of :: "'r env \<Rightarrow> bytes \<Rightarrow> bytes \<Rightarrow> bytes \<Rightarrow> bool \<Rightarrow> u64 \<Rightarrow> u64" where
  "stored_len_of E mvk hs nonce mask_len ct_len =
     (if mask_len then ct_len XOR u64_from_le (len_mask E mvk hs nonce) else ct_len)"

text \<open>
  \<open>write_metadata_opts\<close> into a region of \<open>n\<close> bytes: the caller's buffer is overwritten
  entirely, so the result is the new region.
\<close>

definition write_metadata_opts ::
  "'r env \<Rightarrow> CipherSuite \<Rightarrow> bytes \<Rightarrow> bytes \<Rightarrow> bytes \<Rightarrow> nat \<Rightarrow> bool \<Rightarrow> ('r, fmt_error, bytes) rand" where
  "write_metadata_opts E suite mvk hs plaintext n mask_len =
     (if n < length plaintext + METADATA_OVERHEAD then failR MetadataTooLarge
      else
        bindR (crypto (fill E NONCE_LEN)) (\<lambda>nonce.
        let key = metadata_key E mvk hs;
            ct_len = of_nat (length plaintext + TAG_LEN) :: u64 in
        bindR (crypto (liftR (seal E suite key nonce (metadata_aad hs ct_len) plaintext))) (\<lambda>ct.
        bindR (crypto (fill_padding E n)) (\<lambda>region.
        let region = put region 0 nonce;
            region = put region NONCE_LEN (u64_to_le (stored_len_of E mvk hs nonce mask_len ct_len));
            region = put region (NONCE_LEN + LEN_FIELD_LEN) ct
        in retR region))))"

definition read_metadata_opts ::
  "'r env \<Rightarrow> CipherSuite \<Rightarrow> bytes \<Rightarrow> bytes \<Rightarrow> bytes \<Rightarrow> bool \<Rightarrow> bytes fres" where
  "read_metadata_opts E suite mvk hs region mask_len =
     (if length region < METADATA_OVERHEAD then Inl MetadataCorrupt
      else
        (let nonce = take NONCE_LEN region;
             stored_len = u64_from_le (slice region NONCE_LEN LEN_FIELD_LEN);
             ct_len = unat (stored_len_of E mvk hs nonce mask_len stored_len);
             body_start = NONCE_LEN + LEN_FIELD_LEN;
             body_end = body_start + ct_len
         in
         if USIZE_LIMIT \<le> body_end then Inl MetadataCorrupt
         else if ct_len < TAG_LEN \<or> length region < body_end then Inl MetadataCorrupt
         else map_err Crypto (aead_open E suite (metadata_key E mvk hs) nonce
                (metadata_aad hs (of_nat ct_len)) (slice region body_start ct_len))))"

definition write_metadata ::
  "'r env \<Rightarrow> CipherSuite \<Rightarrow> bytes \<Rightarrow> bytes \<Rightarrow> bytes \<Rightarrow> nat \<Rightarrow> ('r, fmt_error, bytes) rand" where
  "write_metadata E suite mvk hs plaintext n = write_metadata_opts E suite mvk hs plaintext n False"

definition read_metadata :: "'r env \<Rightarrow> CipherSuite \<Rightarrow> bytes \<Rightarrow> bytes \<Rightarrow> bytes \<Rightarrow> bytes fres" where
  "read_metadata E suite mvk hs region = read_metadata_opts E suite mvk hs region False"

section \<open>Round trip\<close>

lemma stored_len_involutive [simp]:
  "stored_len_of E mvk hs nonce m (stored_len_of E mvk hs nonce m l) = l"
  by (simp add: stored_len_of_def xor.assoc)

text \<open>The region after a successful write, field by field.\<close>

lemma write_metadata_region:
  assumes "rng_fills E" "digest_lengths E" "aead_correct E"
    and "write_metadata_opts E suite mvk hs pt n m r = (Inr region, r')"
  obtains nonce ct where "length region = n" "length pt + 36 \<le> n" "length nonce = 12"
    "take 12 region = nonce" "length ct = length pt + 16"
    "slice region 12 8 = u64_to_le (stored_len_of E mvk hs nonce m (of_nat (length ct)))"
    "slice region 20 (length ct) = ct"
    "seal E suite (metadata_key E mvk hs) nonce (metadata_aad hs (of_nat (length ct))) pt = Inr ct"
proof -
  from assms(4) obtain nonce r1 ct pad where fits: "length pt + 36 \<le> n"
    and nonce: "fill E 12 r = (Inr nonce, r1)"
    and ct: "seal E suite (metadata_key E mvk hs) nonce (metadata_aad hs (of_nat (length pt + 16))) pt = Inr ct"
    and pad: "fill_padding E n r1 = (Inr pad, r')"
    and region: "region = put (put (put pad 0 nonce) 12
        (u64_to_le (stored_len_of E mvk hs nonce m (of_nat (length pt + 16))))) 20 ct"
    by (auto simp: write_metadata_opts_def res_simps Let_def not_less split: if_splits)
  have nl: "length nonce = 12" by (rule fill_length [OF assms(1) nonce])
  have cl: "length ct = length pt + 16" by (rule seal_length [OF assms(3) ct])
  have pl: "length pad = n" using pad assms(2) by (auto simp: fill_padding_def res_simps)
  show thesis
  proof (rule that [of nonce ct])
    show "length region = n" using region nl cl pl fits by simp
    show "take 12 region = nonce"
      using region nl cl pl fits by (simp add: take_as_slice buf_simps)
    show "slice region 12 8 = u64_to_le (stored_len_of E mvk hs nonce m (of_nat (length ct)))"
      using region nl cl pl fits by (simp add: buf_simps)
    show "slice region 20 (length ct) = ct" using region nl cl pl fits by (simp add: buf_simps)
  qed (use nl cl ct fits in simp_all)
qed

lemma metadata_roundtrip:
  assumes "rng_fills E" "digest_lengths E" "aead_correct E" "n \<le> 2 ^ 63"
    and "write_metadata_opts E suite mvk hs pt n m r = (Inr region, r')"
  shows "length region = n" "read_metadata_opts E suite mvk hs region m = Inr pt"
proof -
  obtain nonce ct where r: "length region = n" "length pt + 36 \<le> n" "length nonce = 12"
    "take 12 region = nonce" "length ct = length pt + 16"
    "slice region 12 8 = u64_to_le (stored_len_of E mvk hs nonce m (of_nat (length ct)))"
    "slice region 20 (length ct) = ct"
    "seal E suite (metadata_key E mvk hs) nonce (metadata_aad hs (of_nat (length ct))) pt = Inr ct"
    by (rule write_metadata_region [OF assms(1-3,5)])
  show "length region = n" by (fact r(1))
  have "length ct < 2 ^ 64" using r(2,5) assms(4) by simp
  then have "unat (of_nat (length ct) :: u64) = length ct" by (rule unat_of_nat_u64)
  then show "read_metadata_opts E suite mvk hs region m = Inr pt"
    using r seal_open [OF assms(3) r(8)] assms(4) by (simp add: read_metadata_opts_def Let_def)
qed

lemma write_metadata_live:
  assumes "env_live E" "length pt + 36 \<le> n" "n \<le> 2 ^ 32"
  shows "succeeds (write_metadata_opts E suite mvk hs pt n m)"
proof -
  have "is_ok (seal E suite k nonce a pt)" for k nonce a
    using assms by (intro seal_live) simp_all
  then show ?thesis using assms
    by (auto simp: write_metadata_opts_def fill_padding_def Let_def intro!: live_intros)
qed

text \<open>A reader looks at the first \<open>20 + ct_len\<close> bytes only.\<close>

lemma read_metadata_prefix:
  assumes "read_metadata_opts E suite mvk hs region m = Inr pt" "aead_correct E"
    and "take (20 + k) region' = take (20 + k) region" "length region \<le> length region'"
    and "slice region 12 8 = u64_to_le (stored_len_of E mvk hs (take 12 region) m (of_nat k))"
    and "16 \<le> k" "20 + k \<le> length region" "20 + k < 2 ^ 64"
  shows "read_metadata_opts E suite mvk hs region' m = Inr pt"
proof -
  have sl: "slice region' off l = slice region off l" if "off + l \<le> 20 + k" for off l
    using assms(3) that by (metis slice_take)
  have "take 12 region' = take 12 region"
    using sl [of 0 12] by (simp add: take_as_slice)
  moreover have "slice region' 12 8 = slice region 12 8" using sl [of 12 8] assms(6) by simp
  moreover have "slice region' 20 k = slice region 20 k" using sl by simp
  moreover have "unat (of_nat k :: u64) = k" using assms(8) by (intro unat_of_nat_u64) simp
  ultimately show ?thesis
    using assms(1,4-8) by (simp add: read_metadata_opts_def Let_def split: if_splits)
qed

section \<open>Properties\<close>

text \<open>
  C34: the metadata region round-trips. A payload that fits is written into a region of exactly the
  size asked for and read back, with the length field masked or not, whatever bytes stand behind the
  ciphertext; a payload that does not fit is refused before any byte is drawn or written.
\<close>

theorem metadata_region_roundtrip:
  assumes "rng_fills E" "digest_lengths E" "aead_correct E" "env_live E" "n \<le> 2 ^ 32"
  shows "(if length pt + METADATA_OVERHEAD \<le> n
      then \<exists>region r'. write_metadata_opts E suite mvk hs pt n m r = (Inr region, r') \<and> length region = n
        \<and> (\<forall>padding. length padding = n - (length pt + METADATA_OVERHEAD) \<longrightarrow>
             read_metadata_opts E suite mvk hs (take (length pt + METADATA_OVERHEAD) region @ padding) m = Inr pt)
      else write_metadata_opts E suite mvk hs pt n m r = (Inl MetadataTooLarge, r))"
proof (cases "length pt + 36 \<le> n")
  case True
  obtain region r' where w: "write_metadata_opts E suite mvk hs pt n m r = (Inr region, r')"
    using write_metadata_live [OF assms(4) True assms(5)] unfolding succeeds_def by blast
  obtain nonce ct where "length region = n" "length pt + 36 \<le> n" "length nonce = 12"
    and f: "take 12 region = nonce" "length ct = length pt + 16"
    "slice region 12 8 = u64_to_le (stored_len_of E mvk hs nonce m (of_nat (length ct)))"
    and "slice region 20 (length ct) = ct"
    "seal E suite (metadata_key E mvk hs) nonce (metadata_aad hs (of_nat (length ct))) pt = Inr ct"
    by (rule write_metadata_region [OF assms(1-3) w])
  have n63: "n \<le> 2 ^ 63" using assms(5) by simp
  note rt = metadata_roundtrip [OF assms(1-3) n63 w]
  have "read_metadata_opts E suite mvk hs (take (length pt + 36) region @ padding) m = Inr pt"
    if "length padding = n - (length pt + 36)" for padding
  proof (rule read_metadata_prefix [OF rt(2) assms(3), where k = "length pt + 16"])
    show "slice region 12 8 = u64_to_le (stored_len_of E mvk hs (take 12 region) m (of_nat (length pt + 16)))"
      by (simp only: f(1) f(2) [symmetric] f(3))
    show "take (20 + (length pt + 16)) (take (length pt + 36) region @ padding) = take (20 + (length pt + 16)) region"
      using True rt(1) by (simp add: add.commute)
    show "length region \<le> length (take (length pt + 36) region @ padding)"
      using True rt(1) that by simp
    show "20 + (length pt + 16) \<le> length region" using True rt(1) by simp
    show "20 + (length pt + 16) < 2 ^ 64" using True assms(5) by simp
  qed simp
  with w rt(1) True show ?thesis by auto
next
  case False
  then show ?thesis by (simp add: write_metadata_opts_def)
qed

theorem metadata_region_roundtrip_witness:
  "\<exists>region r'. write_metadata_opts demo_env Aes256GcmSiv (replicate 32 7) (replicate 32 9) [1, 2, 3] 100 True 0 = (Inr region, r')
     \<and> length region = 100
     \<and> (\<forall>padding. length padding = 61 \<longrightarrow>
          read_metadata_opts demo_env Aes256GcmSiv (replicate 32 7) (replicate 32 9) (take 39 region @ padding) True = Inr [1, 2, 3])"
  using metadata_region_roundtrip [OF demo_env_ok(2,3,1) demo_env_live, of 100 "[1, 2, 3]" Aes256GcmSiv "replicate 32 7" "replicate 32 9" True 0]
  by simp

text \<open>
  The write budget is exact. For a region that can hold anything, the payload budget reported for
  its size is the largest payload that, behind the four-byte format magic, the writer accepts; and the
  region size chosen for a new vault never exceeds what the header parser accepts.
\<close>

theorem metadata_budget_exact:
  assumes "40 \<le> unat region_size" "length magic = METADATA_MAGIC_LEN"
  shows "(length payload \<le> payload_budget_for region_size \<longleftrightarrow>
           fst (write_metadata_opts E suite mvk hs (magic @ payload) (unat region_size) m r) \<noteq> Inl MetadataTooLarge)
    \<and> resolved_create_metadata_region_size override \<le> MAX_METADATA_SIZE"
proof
  have no_other: "fst (write_metadata_opts E suite mvk hs pt n m r) \<noteq> Inl MetadataTooLarge"
    if "length pt + 36 \<le> n" for pt n
    using that by (auto simp: write_metadata_opts_def bindR_def crypto_def retR_def liftR_def map_err_def Let_def
        split: prod.splits sum.splits)
  show "length payload \<le> payload_budget_for region_size \<longleftrightarrow>
      fst (write_metadata_opts E suite mvk hs (magic @ payload) (unat region_size) m r) \<noteq> Inl MetadataTooLarge"
  proof (cases "length payload \<le> payload_budget_for region_size")
    case True
    then have "length (magic @ payload) + 36 \<le> unat region_size"
      using assms by (simp add: payload_budget_for_def)
    with True no_other show ?thesis by blast
  next
    case False
    then have "unat region_size < length (magic @ payload) + 36"
      using assms by (simp add: payload_budget_for_def)
    with False show ?thesis by (simp add: write_metadata_opts_def failR_def)
  qed
  show "resolved_create_metadata_region_size override \<le> MAX_METADATA_SIZE"
    by (simp add: resolved_create_metadata_region_size_def)
qed

theorem metadata_budget_exact_witness:
  "fst (write_metadata_opts demo_env Aes256GcmSiv [] [] ([1, 1, 1, 1] @ [2, 2, 2]) 42 False 0) = Inl MetadataTooLarge"
  using metadata_budget_exact [of 42 "[1, 1, 1, 1]" "[2, 2, 2]" demo_env Aes256GcmSiv "[]" "[]" False 0]
  by (simp add: payload_budget_for_def)

end
