(* ===== verification/Lbx_Unlock.thy ===== *)
theory Lbx_Unlock
  imports Lbx_Enroll
begin

text \<open>
  What enrolling and unlocking promise together. The locale \<open>total_scheme\<close> extends
  \<open>slot_scheme\<close> with the law that the constructor returns a slot in a live environment, and
  concludes the whole path: enrol, write the slot to disk, read it back, unlock, and the same
  volume key comes out. It is interpreted for every constructor of \<open>keyslot.rs\<close> that wraps
  a key. The properties of the section on properties instantiate it.
\<close>

section \<open>Enrolment succeeds\<close>

lemma derive_hybrid_kek_live [live_intros]:
  "argon2_ready E params \<Longrightarrow> is_ok (derive_hybrid_kek E pw pq salt params)"
  by (auto simp: derive_hybrid_kek_def intro!: live_intros)

lemma derive_hybrid_fido2_kek_live [live_intros]:
  "argon2_ready E params \<Longrightarrow> 0xff \<notin> set pw \<Longrightarrow> is_ok (derive_hybrid_fido2_kek E pw h pq salt params)"
  by (auto simp: derive_hybrid_fido2_kek_def intro!: live_intros)

lemma combine_blob_live [live_intros]:
  "2 + length blob + length cred \<le> 352 \<Longrightarrow> is_ok (combine_blob blob cred)"
  by (simp add: combine_blob_def)

lemma passphrase_factor_live [live_intros]:
  "pw = None \<or> argon2_ready E params \<Longrightarrow> is_ok (passphrase_factor E pw salt params)"
  by (auto simp: passphrase_factor_def split: option.splits intro!: live_intros)

locale total_scheme = slot_scheme +
  fixes ready :: bool
  assumes enroll_total: "env_live E \<Longrightarrow> aead_correct E \<Longrightarrow> ready \<Longrightarrow> length mvk = 32 \<Longrightarrow> succeeds (enroll mvk)"
begin

lemma enroll_disk_unlock:
  assumes "aead_correct E" "rng_fills E" "env_live E" "pre" "ready" "length mvk = 32"
  shows "\<exists>s r1 buf r2. enroll mvk r = (Inr s, r1) \<and> slot_to_bytes E s r1 = (Inr buf, r2)
    \<and> slot_from_bytes buf = Inr s \<and> unlock s = Inr mvk"
proof -
  obtain s r1 where s: "enroll mvk r = (Inr s, r1)"
    using enroll_total assms unfolding succeeds_def by blast
  obtain buf r2 where buf: "slot_to_bytes E s r1 = (Inr buf, r2)"
    using slot_to_bytes_live [OF assms(3)] unfolding succeeds_def by blast
  show ?thesis using unlock_from_disk [OF assms(1,2,6,4) s buf] s buf by blast
qed

end

interpretation pp: total_scheme E suite hs "\<lambda>k. k = Passphrase" "is_sane_for_disk params"
  "\<lambda>s. derive_kek E pw (kdf_salt s) (kdf_params s)"
  "\<lambda>mvk. new_passphrase E suite mvk pw params hs" "\<lambda>s. unlock_passphrase E suite s pw hs"
  "argon2_ready E params"
  for E :: "'r env" and suite hs params pw
  by unfold_locales (simp add: new_passphrase_def Let_def live_intros wrap_mvk_live)

interpretation fido2: total_scheme E suite hs "\<lambda>k. k = Fido2HmacSecret" "is_sane_for_disk params \<and> length hsalt = 32" "\<lambda>s. derive_kek_with_fido2 E (opt_bytes pw) h (kdf_salt s) (kdf_params s)"
  "\<lambda>mvk. new_fido2 E suite mvk pw h cred hsalt params hs" "\<lambda>s. unlock_fido2 E suite s pw h hs"
  "argon2_ready E params \<and> 0xff \<notin> set (opt_bytes pw) \<and> length cred \<le> 352"
  for E :: "'r env" and suite hs params cred hsalt pw h
  by unfold_locales (simp add: new_fido2_def Let_def live_intros wrap_mvk_live)

interpretation hpp: total_scheme E suite hs "is_hybrid_pq_passphrase" "is_sane_for_disk params" "\<lambda>s. derive_hybrid_kek E pw pq (kdf_salt s) (kdf_params s)"
  "\<lambda>mvk. new_hybrid_pq_passphrase E suite mvk pw pq params hs" "\<lambda>s. unlock_hybrid_pq_passphrase E suite s pw pq hs"
  "argon2_ready E params"
  for E :: "'r env" and suite hs params pw pq
  by unfold_locales (simp add: new_hybrid_pq_passphrase_def build_hybrid_pq_passphrase_def Let_def live_intros wrap_mvk_live)

interpretation hpp1024: total_scheme E suite hs "is_hybrid_pq_passphrase" "is_sane_for_disk params" "\<lambda>s. derive_hybrid_kek E pw pq (kdf_salt s) (kdf_params s)"
  "\<lambda>mvk. new_hybrid_pq_1024_passphrase E suite mvk pw pq params hs" "\<lambda>s. unlock_hybrid_pq_passphrase E suite s pw pq hs"
  "argon2_ready E params"
  for E :: "'r env" and suite hs params pw pq
  by unfold_locales (simp add: new_hybrid_pq_1024_passphrase_def build_hybrid_pq_passphrase_def Let_def live_intros wrap_mvk_live)

interpretation hfido: total_scheme E suite hs "is_hybrid_pq_fido2" "is_sane_for_disk params \<and> length hsalt = 32" "\<lambda>s. derive_hybrid_fido2_kek E (opt_bytes pw) h pq (kdf_salt s) (kdf_params s)"
  "\<lambda>mvk. new_hybrid_pq_fido2 E suite mvk pw h pq cred hsalt params hs" "\<lambda>s. unlock_hybrid_pq_fido2 E suite s pw h pq hs"
  "argon2_ready E params \<and> 0xff \<notin> set (opt_bytes pw) \<and> length cred \<le> 352"
  for E :: "'r env" and suite hs params cred hsalt pw h pq
  by unfold_locales (simp add: new_hybrid_pq_fido2_def build_hybrid_pq_fido2_def Let_def live_intros wrap_mvk_live)

interpretation hfido1024: total_scheme E suite hs "is_hybrid_pq_fido2" "is_sane_for_disk params \<and> length hsalt = 32" "\<lambda>s. derive_hybrid_fido2_kek E (opt_bytes pw) h pq (kdf_salt s) (kdf_params s)"
  "\<lambda>mvk. new_hybrid_pq_1024_fido2 E suite mvk pw h pq cred hsalt params hs" "\<lambda>s. unlock_hybrid_pq_fido2 E suite s pw h pq hs"
  "argon2_ready E params \<and> 0xff \<notin> set (opt_bytes pw) \<and> length cred \<le> 352"
  for E :: "'r env" and suite hs params cred hsalt pw h pq
  by unfold_locales (simp add: new_hybrid_pq_1024_fido2_def build_hybrid_pq_fido2_def Let_def live_intros wrap_mvk_live)

interpretation tpm: total_scheme E suite hs "\<lambda>k. k \<in> {Tpm2Sealed, Tpm2SealedPin}" "True" "\<lambda>s. Inr tk"
  "\<lambda>mvk. new_tpm2 E suite mvk tk blob hs" "\<lambda>s. unlock_tpm2 E suite s tk hs"
  "length blob \<le> 352"
  for E :: "'r env" and suite hs blob tk
  by unfold_locales (simp add: new_tpm2_def Let_def live_intros wrap_mvk_live)

interpretation tpmpin: total_scheme E suite hs "\<lambda>k. k \<in> {Tpm2Sealed, Tpm2SealedPin}" "True" "\<lambda>s. Inr tk"
  "\<lambda>mvk. new_tpm2_pin E suite mvk tk blob hs" "\<lambda>s. unlock_tpm2 E suite s tk hs"
  "length blob \<le> 352"
  for E :: "'r env" and suite hs blob tk
  by unfold_locales (simp add: new_tpm2_pin_def Let_def live_intros wrap_mvk_live)

interpretation htpm: total_scheme E suite hs "\<lambda>k. k \<in> {HybridPqKemTpm2, HybridPqKem1024Tpm2}" "True" "\<lambda>s. Inr (derive_hybrid_tpm2_kek E tk pq hs)"
  "\<lambda>mvk. new_hybrid_pq_tpm2 E suite mvk tk pq blob hs" "\<lambda>s. unlock_hybrid_pq_tpm2 E suite s tk pq hs"
  "length blob \<le> 352"
  for E :: "'r env" and suite hs blob tk pq
  by unfold_locales (simp add: new_hybrid_pq_tpm2_def Let_def live_intros wrap_mvk_live)

interpretation htpm1024: total_scheme E suite hs "\<lambda>k. k \<in> {HybridPqKemTpm2, HybridPqKem1024Tpm2}" "True" "\<lambda>s. Inr (derive_hybrid_tpm2_kek E tk pq hs)"
  "\<lambda>mvk. new_hybrid_pq_1024_tpm2 E suite mvk tk pq blob hs" "\<lambda>s. unlock_hybrid_pq_tpm2 E suite s tk pq hs"
  "length blob \<le> 352"
  for E :: "'r env" and suite hs blob tk pq
  by unfold_locales (simp add: new_hybrid_pq_1024_tpm2_def new_hybrid_pq_tpm2_def rewrap_as_def Let_def live_intros wrap_mvk_live)

interpretation tpmfido: total_scheme E suite hs "\<lambda>k. k = Tpm2Fido2" "length hsalt = 32" "\<lambda>s. Inr (derive_tpm2_fido2_kek E tk h hs)"
  "\<lambda>mvk. new_tpm2_fido2 E suite mvk tk h blob cred hsalt hs" "\<lambda>s. unlock_tpm2_fido2 E suite s tk h hs"
  "2 + length blob + length cred \<le> 352"
  for E :: "'r env" and suite hs blob cred hsalt tk h
  by unfold_locales (simp add: new_tpm2_fido2_def Let_def live_intros wrap_mvk_live)

interpretation htpmfido: total_scheme E suite hs "\<lambda>k. k \<in> {HybridPqKemTpm2Fido2, HybridPqKem1024Tpm2Fido2}" "length hsalt = 32" "\<lambda>s. Inr (derive_hybrid_tpm2_fido2_kek E tk h pq hs)"
  "\<lambda>mvk. new_hybrid_pq_tpm2_fido2 E suite mvk tk h pq blob cred hsalt hs" "\<lambda>s. unlock_hybrid_pq_tpm2_fido2 E suite s tk h pq hs"
  "2 + length blob + length cred \<le> 352"
  for E :: "'r env" and suite hs blob cred hsalt tk h pq
  by unfold_locales (simp add: new_hybrid_pq_tpm2_fido2_def Let_def live_intros wrap_mvk_live)

interpretation htpmfido1024: total_scheme E suite hs "\<lambda>k. k \<in> {HybridPqKemTpm2Fido2, HybridPqKem1024Tpm2Fido2}" "length hsalt = 32" "\<lambda>s. Inr (derive_hybrid_tpm2_fido2_kek E tk h pq hs)"
  "\<lambda>mvk. new_hybrid_pq_1024_tpm2_fido2 E suite mvk tk h pq blob cred hsalt hs" "\<lambda>s. unlock_hybrid_pq_tpm2_fido2 E suite s tk h pq hs"
  "2 + length blob + length cred \<le> 352"
  for E :: "'r env" and suite hs blob cred hsalt tk h pq
  by unfold_locales (simp add: new_hybrid_pq_1024_tpm2_fido2_def new_hybrid_pq_tpm2_fido2_def rewrap_as_def Let_def live_intros wrap_mvk_live)

interpretation sep: total_scheme E suite hs "\<lambda>_. True"
  "length hsalt = 32 \<and> is_sane_for_disk params" "sep_derive E hs sh h pw pq"
  "\<lambda>mvk. new_sep E suite mvk k sh h pw params pq cred hsalt hs"
  "\<lambda>s. unlock_sep E suite s sh h pw pq hs"
  "sep_factor_checks k sh h pw pq = Inr () \<and> (pw = None \<or> argon2_ready E params) \<and> (if is_sep_fido2 k then cred \<noteq> [] \<and> length cred \<le> 352 else cred = [])"
  for E :: "'r env" and suite hs k params cred hsalt sh h pw pq
  by unfold_locales (auto simp: new_sep_def Let_def live_intros wrap_mvk_live split: if_splits)

section \<open>Properties\<close>

text \<open>
  C20: a passphrase slot round-trips through the disk. In a live environment, enrolling with any
  passphrase and costs that the parser accepts returns a slot; writing it and reading it back
  gives a slot that the same passphrase unlocks to the same volume key.
\<close>

theorem passphrase_enroll_disk_unlock:
  assumes "aead_correct E" "rng_fills E" "env_live E" "argon2_ready E params"
    and "is_sane_for_disk params" "length mvk = 32"
  shows "\<exists>s r1 buf r2. new_passphrase E suite mvk pw params hs r = (Inr s, r1)
    \<and> slot_to_bytes E s r1 = (Inr buf, r2) \<and> slot_from_bytes buf = Inr s
    \<and> unlock_passphrase E suite s pw hs = Inr mvk"
  using assms by (intro pp.enroll_disk_unlock conjI)

theorem passphrase_enroll_disk_unlock_witness:
  "\<exists>s r1 buf r2. new_passphrase demo_env Aes256GcmSiv (replicate 32 7) [1, 2, 3] INTERACTIVE (replicate 32 9) 0 = (Inr s, r1)
    \<and> slot_to_bytes demo_env s r1 = (Inr buf, r2) \<and> slot_from_bytes buf = Inr s
    \<and> unlock_passphrase demo_env Aes256GcmSiv s [1, 2, 3] (replicate 32 9) = Inr (replicate 32 7)"
  by (rule passphrase_enroll_disk_unlock) (simp_all add: demo_env_ok demo_env_live demo_argon2_ready presets_sane)

text \<open>
  A FIDO2 slot, with or without a passphrase factor, round-trips through the disk: with a
  credential id that fits, a 32-byte hmac salt and no 0xff byte in the passphrase, the same
  passphrase and authenticator secret recover the volume key from the re-read slot.
\<close>

theorem fido2_enroll_disk_unlock:
  assumes "aead_correct E" "rng_fills E" "env_live E" "argon2_ready E params"
    and "is_sane_for_disk params" "length mvk = 32" "length hsalt = 32" "length cred \<le> 352"
    and "0xff \<notin> set (opt_bytes pw)"
  shows "\<exists>s r1 buf r2. new_fido2 E suite mvk pw h cred hsalt params hs r = (Inr s, r1)
    \<and> slot_to_bytes E s r1 = (Inr buf, r2) \<and> slot_from_bytes buf = Inr s
    \<and> unlock_fido2 E suite s pw h hs = Inr mvk"
  using assms by (intro fido2.enroll_disk_unlock conjI)

theorem fido2_enroll_disk_unlock_witness:
  "\<exists>s r1 buf r2. new_fido2 demo_env Aes256Gcm (replicate 32 7) (Some [1, 2]) (replicate 32 5) [8, 8, 8]
        (replicate 32 6) MODERATE (replicate 32 9) 0 = (Inr s, r1)
    \<and> slot_to_bytes demo_env s r1 = (Inr buf, r2) \<and> slot_from_bytes buf = Inr s
    \<and> unlock_fido2 demo_env Aes256Gcm s (Some [1, 2]) (replicate 32 5) (replicate 32 9) = Inr (replicate 32 7)"
  by (rule fido2_enroll_disk_unlock)
     (simp_all add: demo_env_ok demo_env_live demo_argon2_ready presets_sane opt_bytes_def)

text \<open>
  Hybrid post-quantum passphrase slots, ML-KEM-768 and ML-KEM-1024, round-trip through the
  disk: passphrase and KEM shared secret together recover the volume key.
\<close>

theorem hybrid_passphrase_enroll_disk_unlock:
  assumes "aead_correct E" "rng_fills E" "env_live E" "argon2_ready E params"
    and "is_sane_for_disk params" "length mvk = 32"
  shows "(\<exists>s r1 buf r2. new_hybrid_pq_passphrase E suite mvk pw pq params hs r = (Inr s, r1)
      \<and> slot_to_bytes E s r1 = (Inr buf, r2) \<and> slot_from_bytes buf = Inr s
      \<and> unlock_hybrid_pq_passphrase E suite s pw pq hs = Inr mvk)
    \<and> (\<exists>s r1 buf r2. new_hybrid_pq_1024_passphrase E suite mvk pw pq params hs r = (Inr s, r1)
      \<and> slot_to_bytes E s r1 = (Inr buf, r2) \<and> slot_from_bytes buf = Inr s
      \<and> unlock_hybrid_pq_passphrase E suite s pw pq hs = Inr mvk)"
proof
  show "\<exists>s r1 buf r2. new_hybrid_pq_passphrase E suite mvk pw pq params hs r = (Inr s, r1)
      \<and> slot_to_bytes E s r1 = (Inr buf, r2) \<and> slot_from_bytes buf = Inr s
      \<and> unlock_hybrid_pq_passphrase E suite s pw pq hs = Inr mvk"
    using assms by (intro hpp.enroll_disk_unlock conjI)
  show "\<exists>s r1 buf r2. new_hybrid_pq_1024_passphrase E suite mvk pw pq params hs r = (Inr s, r1)
      \<and> slot_to_bytes E s r1 = (Inr buf, r2) \<and> slot_from_bytes buf = Inr s
      \<and> unlock_hybrid_pq_passphrase E suite s pw pq hs = Inr mvk"
    using assms by (intro hpp1024.enroll_disk_unlock conjI)
qed

theorem hybrid_passphrase_enroll_disk_unlock_witness:
  "\<exists>s r1 buf r2. new_hybrid_pq_1024_passphrase demo_env Aes256GcmSiv (replicate 32 7) [1, 2, 3] (replicate 32 4)
       INTERACTIVE (replicate 32 9) 0 = (Inr s, r1)
    \<and> slot_to_bytes demo_env s r1 = (Inr buf, r2) \<and> slot_from_bytes buf = Inr s
    \<and> unlock_hybrid_pq_passphrase demo_env Aes256GcmSiv s [1, 2, 3] (replicate 32 4) (replicate 32 9)
        = Inr (replicate 32 7)"
  by (rule hybrid_passphrase_enroll_disk_unlock [THEN conjunct2])
     (simp_all add: demo_env_ok demo_env_live demo_argon2_ready presets_sane)

text \<open>
  Hybrid post-quantum FIDO2 slots of both parameter sets round-trip through the disk:
  passphrase, authenticator secret and KEM shared secret recover the volume key.
\<close>

theorem hybrid_fido2_enroll_disk_unlock:
  assumes "aead_correct E" "rng_fills E" "env_live E" "argon2_ready E params"
    and "is_sane_for_disk params" "length mvk = 32" "length hsalt = 32" "length cred \<le> 352"
    and "0xff \<notin> set (opt_bytes pw)"
  shows "(\<exists>s r1 buf r2. new_hybrid_pq_fido2 E suite mvk pw h pq cred hsalt params hs r = (Inr s, r1)
      \<and> slot_to_bytes E s r1 = (Inr buf, r2) \<and> slot_from_bytes buf = Inr s
      \<and> unlock_hybrid_pq_fido2 E suite s pw h pq hs = Inr mvk)
    \<and> (\<exists>s r1 buf r2. new_hybrid_pq_1024_fido2 E suite mvk pw h pq cred hsalt params hs r = (Inr s, r1)
      \<and> slot_to_bytes E s r1 = (Inr buf, r2) \<and> slot_from_bytes buf = Inr s
      \<and> unlock_hybrid_pq_fido2 E suite s pw h pq hs = Inr mvk)"
proof
  show "\<exists>s r1 buf r2. new_hybrid_pq_fido2 E suite mvk pw h pq cred hsalt params hs r = (Inr s, r1)
      \<and> slot_to_bytes E s r1 = (Inr buf, r2) \<and> slot_from_bytes buf = Inr s
      \<and> unlock_hybrid_pq_fido2 E suite s pw h pq hs = Inr mvk"
    using assms by (intro hfido.enroll_disk_unlock conjI)
  show "\<exists>s r1 buf r2. new_hybrid_pq_1024_fido2 E suite mvk pw h pq cred hsalt params hs r = (Inr s, r1)
      \<and> slot_to_bytes E s r1 = (Inr buf, r2) \<and> slot_from_bytes buf = Inr s
      \<and> unlock_hybrid_pq_fido2 E suite s pw h pq hs = Inr mvk"
    using assms by (intro hfido1024.enroll_disk_unlock conjI)
qed

theorem hybrid_fido2_enroll_disk_unlock_witness:
  "\<exists>s r1 buf r2. new_hybrid_pq_fido2 demo_env Aes256GcmSiv (replicate 32 7) None (replicate 32 3) (replicate 32 4)
       [1, 2] (replicate 32 6) INTERACTIVE (replicate 32 9) 0 = (Inr s, r1)
    \<and> slot_to_bytes demo_env s r1 = (Inr buf, r2) \<and> slot_from_bytes buf = Inr s
    \<and> unlock_hybrid_pq_fido2 demo_env Aes256GcmSiv s None (replicate 32 3) (replicate 32 4) (replicate 32 9)
        = Inr (replicate 32 7)"
  by (rule hybrid_fido2_enroll_disk_unlock [THEN conjunct1])
     (simp_all add: demo_env_ok demo_env_live demo_argon2_ready presets_sane opt_bytes_def)

lemma tpm2_blob_kept:
  "enrolled_as E suite hs k p blob hsalt kekf mvk s \<Longrightarrow>
    k \<in> {Tpm2Sealed, Tpm2SealedPin, HybridPqKemTpm2, HybridPqKem1024Tpm2} \<Longrightarrow> tpm2_sealed_blob s = Some blob"
  using enrolled_as_cred [of E suite hs k p blob hsalt kekf mvk s] by (auto simp: tpm2_sealed_blob_def)

lemma new_tpm2_blob:
  "new_tpm2 E suite mvk tk blob hs r = (Inr s, r1) \<Longrightarrow> tpm2_sealed_blob s = Some blob"
  "new_tpm2_pin E suite mvk tk blob hs r = (Inr s, r1) \<Longrightarrow> tpm2_sealed_blob s = Some blob"
  "new_hybrid_pq_tpm2 E suite mvk tk pq blob hs r = (Inr s, r1) \<Longrightarrow> tpm2_sealed_blob s = Some blob"
  "new_hybrid_pq_1024_tpm2 E suite mvk tk pq blob hs r = (Inr s, r1) \<Longrightarrow> tpm2_sealed_blob s = Some blob"
  by ((drule new_tpm2_enrolled new_tpm2_pin_enrolled new_hybrid_pq_tpm2_enrolled new_hybrid_pq_1024_tpm2_enrolled,
       drule conjunct2, erule tpm2_blob_kept, simp)+)

lemma fused_kept:
  assumes "\<exists>c. combine_blob blob cred = Inr c \<and> enrolled_as E suite hs k p c hsalt kekf mvk s"
    and "k \<in> {Tpm2Fido2, HybridPqKemTpm2Fido2, HybridPqKem1024Tpm2Fido2}"
  shows "tpm2_fido2_sealed_blob s = Some blob \<and> tpm2_fido2_cred_id s = Some cred"
proof -
  from assms(1) obtain c where c: "combine_blob blob cred = Inr c"
    and "enrolled_as E suite hs k p c hsalt kekf mvk s" by blast
  then have "fido2_cred_id s = c" "kind s = k" using enrolled_as_cred by blast+
  with combined_accessors [OF c] assms(2) show ?thesis by blast
qed

lemmas new_fused_kept =
  fused_kept [OF new_tpm2_fido2_enrolled] fused_kept [OF new_hybrid_pq_tpm2_fido2_enrolled]
  fused_kept [OF new_hybrid_pq_1024_tpm2_fido2_enrolled]

text \<open>
  TPM slots, plain, with a PIN and hybrid with either KEM, round-trip through the disk, and
  the sealed blob read back from the slot is the one that was enrolled.
\<close>

theorem tpm2_enroll_disk_unlock:
  assumes "aead_correct E" "rng_fills E" "env_live E" "length mvk = 32" "length blob \<le> 352"
    and "(enroll, unlock) \<in>
      {(new_tpm2 E suite mvk tk blob hs, \<lambda>s. unlock_tpm2 E suite s tk hs),
       (new_tpm2_pin E suite mvk tk blob hs, \<lambda>s. unlock_tpm2 E suite s tk hs),
       (new_hybrid_pq_tpm2 E suite mvk tk pq blob hs, \<lambda>s. unlock_hybrid_pq_tpm2 E suite s tk pq hs),
       (new_hybrid_pq_1024_tpm2 E suite mvk tk pq blob hs, \<lambda>s. unlock_hybrid_pq_tpm2 E suite s tk pq hs)}"
  shows "\<exists>s r1 buf r2. enroll r = (Inr s, r1)
      \<and> slot_to_bytes E s r1 = (Inr buf, r2) \<and> slot_from_bytes buf = Inr s
      \<and> unlock s = Inr mvk \<and> tpm2_sealed_blob s = Some blob"
proof -
  have "\<exists>s r1 buf r2. enroll r = (Inr s, r1)
      \<and> slot_to_bytes E s r1 = (Inr buf, r2) \<and> slot_from_bytes buf = Inr s \<and> unlock s = Inr mvk"
    using assms(6)
      tpm.enroll_disk_unlock [OF assms(1-3) TrueI assms(5,4)] tpmpin.enroll_disk_unlock [OF assms(1-3) TrueI assms(5,4)]
      htpm.enroll_disk_unlock [OF assms(1-3) TrueI assms(5,4)] htpm1024.enroll_disk_unlock [OF assms(1-3) TrueI assms(5,4)]
    by (elim insertE emptyE) simp_all
  moreover have "enroll r = (Inr s, r1) \<Longrightarrow> tpm2_sealed_blob s = Some blob" for s r1
    using assms(6) by (elim insertE emptyE) (simp_all add: new_tpm2_blob)
  ultimately show ?thesis by blast
qed

theorem tpm2_enroll_disk_unlock_witness:
  "\<exists>s r1 buf r2. new_tpm2_pin demo_env Aes256GcmSiv (replicate 32 7) (replicate 32 5) [1, 2, 3] (replicate 32 9) 0 = (Inr s, r1)
    \<and> slot_to_bytes demo_env s r1 = (Inr buf, r2) \<and> slot_from_bytes buf = Inr s
    \<and> unlock_tpm2 demo_env Aes256GcmSiv s (replicate 32 5) (replicate 32 9) = Inr (replicate 32 7)
    \<and> tpm2_sealed_blob s = Some [1, 2, 3]"
  by (rule tpm2_enroll_disk_unlock [where tk = "replicate 32 5" and pq = "[]" and suite = Aes256GcmSiv and hs = "replicate 32 9"])
     (simp_all add: demo_env_ok demo_env_live)

text \<open>
  The fused TPM + FIDO2 slots (alone and with either KEM) round-trip through the disk: both
  device secrets recover the volume key, and the shared variable region splits back into the
  sealed blob and the credential id that were enrolled.
\<close>

theorem tpm2_fido2_enroll_disk_unlock:
  assumes "aead_correct E" "rng_fills E" "env_live E" "length mvk = 32" "length hsalt = 32"
    and "2 + length blob + length cred \<le> 352"
    and "(enroll, unlock) \<in>
      {(new_tpm2_fido2 E suite mvk tk h blob cred hsalt hs, \<lambda>s. unlock_tpm2_fido2 E suite s tk h hs),
       (new_hybrid_pq_tpm2_fido2 E suite mvk tk h pq blob cred hsalt hs,
          \<lambda>s. unlock_hybrid_pq_tpm2_fido2 E suite s tk h pq hs),
       (new_hybrid_pq_1024_tpm2_fido2 E suite mvk tk h pq blob cred hsalt hs,
          \<lambda>s. unlock_hybrid_pq_tpm2_fido2 E suite s tk h pq hs)}"
  shows "\<exists>s r1 buf r2. enroll r = (Inr s, r1)
      \<and> slot_to_bytes E s r1 = (Inr buf, r2) \<and> slot_from_bytes buf = Inr s
      \<and> unlock s = Inr mvk \<and> tpm2_fido2_sealed_blob s = Some blob \<and> tpm2_fido2_cred_id s = Some cred"
proof -
  have "\<exists>s r1 buf r2. enroll r = (Inr s, r1)
      \<and> slot_to_bytes E s r1 = (Inr buf, r2) \<and> slot_from_bytes buf = Inr s \<and> unlock s = Inr mvk"
    using assms(7) tpmfido.enroll_disk_unlock [OF assms(1-3,5,6,4)]
      htpmfido.enroll_disk_unlock [OF assms(1-3,5,6,4)] htpmfido1024.enroll_disk_unlock [OF assms(1-3,5,6,4)]
    by (elim insertE emptyE) simp_all
  moreover have "tpm2_fido2_sealed_blob s = Some blob \<and> tpm2_fido2_cred_id s = Some cred"
    if "enroll r = (Inr s, r1)" for s r1
    using assms(7) that by (elim insertE emptyE) (simp_all add: new_fused_kept)
  ultimately show ?thesis by blast
qed

theorem tpm2_fido2_enroll_disk_unlock_witness:
  "\<exists>s r1 buf r2. new_tpm2_fido2 demo_env Aes256GcmSiv (replicate 32 7) (replicate 32 5) (replicate 32 4)
       [1, 2, 3] [6, 6] (replicate 32 8) (replicate 32 9) 0 = (Inr s, r1)
    \<and> slot_to_bytes demo_env s r1 = (Inr buf, r2) \<and> slot_from_bytes buf = Inr s
    \<and> unlock_tpm2_fido2 demo_env Aes256GcmSiv s (replicate 32 5) (replicate 32 4) (replicate 32 9) = Inr (replicate 32 7)
    \<and> tpm2_fido2_sealed_blob s = Some [1, 2, 3] \<and> tpm2_fido2_cred_id s = Some [6, 6]"
  by (rule tpm2_fido2_enroll_disk_unlock [where tk = "replicate 32 5" and h = "replicate 32 4"
        and pq = "[]" and suite = Aes256GcmSiv and hs = "replicate 32 9" and hsalt = "replicate 32 8"])
     (simp_all add: demo_env_ok demo_env_live)

text \<open>
  C26: Secure Enclave slots of every kind round-trip through the disk: when the factors given are
  exactly those the kind asks for, none of them all zeros, and the credential id is present for
  the FIDO2 kinds only, the same factors recover the volume key.
\<close>

theorem sep_enroll_disk_unlock:
  assumes "aead_correct E" "rng_fills E" "env_live E" "is_sane_for_disk params" "length mvk = 32"
    and "length hsalt = 32" "sep_factor_checks k sh h pw pq = Inr ()"
    and "pw = None \<or> argon2_ready E params"
    and "if is_sep_fido2 k then cred \<noteq> [] \<and> length cred \<le> 352 else cred = []"
  shows "\<exists>s r1 buf r2. new_sep E suite mvk k sh h pw params pq cred hsalt hs r = (Inr s, r1)
      \<and> slot_to_bytes E s r1 = (Inr buf, r2) \<and> slot_from_bytes buf = Inr s
      \<and> unlock_sep E suite s sh h pw pq hs = Inr mvk"
  using assms by (intro sep.enroll_disk_unlock conjI)

theorem sep_enroll_disk_unlock_witness:
  "\<exists>s r1 buf r2. new_sep demo_env Aes256GcmSiv (replicate 32 7) HybridPqKemSepFido2Passphrase (replicate 32 1) (Some (replicate 32 2))
       (Some [4]) INTERACTIVE (Some (replicate 32 3)) [6, 6] (replicate 32 8) (replicate 32 9) 0 = (Inr s, r1)
    \<and> slot_to_bytes demo_env s r1 = (Inr buf, r2) \<and> slot_from_bytes buf = Inr s
    \<and> unlock_sep demo_env Aes256GcmSiv s (replicate 32 1) (Some (replicate 32 2)) (Some [4]) (Some (replicate 32 3)) (replicate 32 9)
        = Inr (replicate 32 7)"
  by (rule sep_enroll_disk_unlock)
     (simp_all add: demo_env_ok demo_env_live demo_argon2_ready presets_sane sep_factor_checks_def
       check_sep_factors_def reject_null_factor_def reject_null_opt_def kind_class_defs list_all_iff)

text \<open>
  C27: the factors of an enclave slot are separated before they are hashed. The kind of a slot decides
  which factors the code accepts for it; two sets of factors that are accepted for the same kind have
  the same HKDF input only if every factor is the same: the enclave secret, the key stretched from the
  passphrase, the authenticator secret and the post-quantum secret. Without the checks of the kind the
  concatenation would not tell a passphrase key from an authenticator secret; between slots of different
  kinds the associated data, which holds the kind, keeps them apart.
\<close>

theorem sep_factors_separated:
  assumes "digest_lengths E"
    and "sep_factor_checks k a oh pw q = Inr ()" "passphrase_factor E pw salt params = Inr pk"
    and "sep_factor_checks k a' oh' pw' q' = Inr ()" "passphrase_factor E pw' salt params = Inr pk'"
    and "\<forall>f \<in> {a, a'} \<union> set_option oh \<union> set_option oh' \<union> set_option q \<union> set_option q'. length f = 32"
  shows "sep_ikm a pk oh q = sep_ikm a' pk' oh' q' \<longleftrightarrow> a = a' \<and> pk = pk' \<and> oh = oh' \<and> q = q'"
proof
  have pk: "(pk = None) = (pw = None)" "(pk' = None) = (pw' = None)"
    "\<And>x. pk = Some x \<Longrightarrow> length x = 32" "\<And>x. pk' = Some x \<Longrightarrow> length x = 32"
    using assms(1,3,5) derive_kek_length
    by (auto simp: passphrase_factor_def bindE_eq_Inr split: option.splits)
  have same: "(pw = None) = (pw' = None)" "(oh = None) = (oh' = None)" "(q = None) = (q' = None)"
    using assms(2,4) by (auto simp: sep_factor_checks_def check_sep_factors_def bindE_eq_Inr split: if_splits)
  assume "sep_ikm a pk oh q = sep_ikm a' pk' oh' q'"
  then show "a = a' \<and> pk = pk' \<and> oh = oh' \<and> q = q'"
    by (intro sep_ikm_inject) (use assms(6) pk same in auto)
qed simp

theorem sep_factors_separated_witness:
  "sep_ikm (replicate 32 1) None (Some (replicate 32 2)) None \<noteq> sep_ikm (replicate 32 1) None (Some (replicate 32 3)) None"
  using sep_factors_separated [OF demo_env_ok(3), of SepFido2 "replicate 32 1" "Some (replicate 32 2)" None None "[]" INTERACTIVE None
      "replicate 32 1" "Some (replicate 32 3)" None None None]
  by (simp add: sep_factor_checks_def check_sep_factors_def reject_null_factor_def reject_null_opt_def kind_class_defs
      passphrase_factor_def list_all_iff)

text \<open>
  A slot whose volume key is derived from the authenticator stores no key. Its wrapped-key
  fields are random filler, the slot survives the disk, and unlocking the re-read slot returns the
  HKDF of the authenticator secret under the enrolled hmac salt, whatever the filler is.
\<close>

theorem fido2_derived_enroll_disk_unlock:
  assumes "rng_fills E" "env_live E" "length hsalt = 32" "length cred \<le> 352"
  shows "\<exists>s r1 buf r2. new_fido2_derived_mvk E cred hsalt r = (Inr s, r1)
      \<and> slot_to_bytes E s r1 = (Inr buf, r2) \<and> slot_from_bytes buf = Inr s
      \<and> unlock_fido2_derived_mvk E s h = Inr (derive_mvk_from_fido2 E hsalt h)
      \<and> fido2_cred_id s = cred"
proof -
  have "succeeds (new_fido2_derived_mvk E cred hsalt)"
    using assms(2,4) by (simp add: new_fido2_derived_mvk_def live_intros)
  then obtain s r1 where s: "new_fido2_derived_mvk E cred hsalt r = (Inr s, r1)"
    unfolding succeeds_def by blast
  obtain buf r2 where buf: "slot_to_bytes E s r1 = (Inr buf, r2)"
    using slot_to_bytes_live [OF assms(2)] unfolding succeeds_def by blast
  note wf = new_fido2_derived_mvk_wf [OF assms(1,3) s]
  obtain padding where "length padding = 512" "buf = slot_layout_bytes padding s"
    using slot_to_bytes_layout [OF assms(1) buf] by blast
  with wf have "slot_from_bytes buf = Inr s" by (simp add: slot_codec.decode_encode)
  with s buf wf show ?thesis by (auto simp: unlock_fido2_derived_mvk_def)
qed

theorem fido2_derived_enroll_disk_unlock_witness:
  "\<exists>s r1 buf r2. new_fido2_derived_mvk demo_env [1, 2] (replicate 32 3) 0 = (Inr s, r1)
      \<and> slot_to_bytes demo_env s r1 = (Inr buf, r2) \<and> slot_from_bytes buf = Inr s
      \<and> unlock_fido2_derived_mvk demo_env s (replicate 32 4)
          = Inr (derive_mvk_from_fido2 demo_env (replicate 32 3) (replicate 32 4))
      \<and> fido2_cred_id s = [1, 2]"
  by (rule fido2_derived_enroll_disk_unlock) (simp_all add: demo_env_ok demo_env_live)

end
