(* ===== verification/Lbx_Container.thy ===== *)
theory Lbx_Container
  imports Lbx_Metadata Lbx_Unlock "HOL-Library.Multiset"
begin

text \<open>
  The open container of \<open>luksbox-format/src/container.rs\<close>: its files, header and volume key,
  and every operation on its keyslot table, its header, its metadata region and its data area.
  Operations thread the container together with the generator state, so what an operation changed
  before it failed stays changed. Files are byte lists: reads past the end fail, writes past the end
  extend with zeros, and the sidecar mirrors that \<open>atomic_secure_write\<close> replaces are optional
  byte strings. Locking, path checks, fsync and faults of the storage device are outside the model,
  and so is the version-3 inner header of deniable vaults; an attached anchor is the subject of \<open>Lbx_Anchor\<close>.
\<close>

unbundle bit_operations_syntax

section \<open>The container\<close>

record Container =
  lbx_file :: bytes
  header_side :: "bytes option"
  header_bak :: "bytes option"
  meta_bak :: "bytes option"
  c_header :: Header
  c_mvk :: bytes
  header_dirty :: bool
  rotating :: bool
  deniable :: "bytes option"
  recovered_from_mirror :: bool

type_synonym ('r, 'a) cop = "(Container \<times> 'r, fmt_error, 'a) rand"

text \<open>Reading the container, with draws; changing it; running a header operation on its header.\<close>

definition withC :: "(Container \<Rightarrow> ('r, fmt_error, 'a) rand) \<Rightarrow> ('r, 'a) cop" where
  "withC f = (\<lambda>(c, r). case f c r of (x, r') \<Rightarrow> (x, (c, r')))"

definition updC :: "(Container \<Rightarrow> Container) \<Rightarrow> ('r, unit) cop" where
  "updC f = (\<lambda>(c, r). (Inr (), (f c, r)))"

definition headerC :: "(Header \<Rightarrow> Header res) \<Rightarrow> ('r, unit) cop" where
  "headerC f = (\<lambda>(c, r). case f (c_header c) of
      Inl e \<Rightarrow> (Inl (Crypto e), (c, r))
    | Inr h \<Rightarrow> (Inr (), (c\<lparr>c_header := h\<rparr>, r)))"

definition lbxC :: "(bytes \<Rightarrow> bytes fres) \<Rightarrow> ('r, unit) cop" where
  "lbxC f = (\<lambda>(c, r). case f (lbx_file c) of
      Inl e \<Rightarrow> (Inl e, (c, r))
    | Inr bs \<Rightarrow> (Inr (), (c\<lparr>lbx_file := bs\<rparr>, r)))"

lemma withC_eq [res_simps]: "withC f (c, r) = (x, (c', r')) \<longleftrightarrow> c' = c \<and> f c r = (x, r')"
  by (cases "f c r") (auto simp: withC_def)

lemma updC_eq [res_simps]: "updC f (c, r) = (x, (c', r')) \<longleftrightarrow> x = Inr () \<and> c' = f c \<and> r' = r"
  by (auto simp: updC_def)

lemma headerC_eq_Inr [res_simps]:
  "headerC f (c, r) = (Inr (), (c', r')) \<longleftrightarrow> (\<exists>h. f (c_header c) = Inr h \<and> c' = c\<lparr>c_header := h\<rparr> \<and> r' = r)"
  by (auto simp: headerC_def split: sum.splits)

lemma lbxC_eq_Inr [res_simps]:
  "lbxC f (c, r) = (Inr (), (c', r')) \<longleftrightarrow> (\<exists>bs. f (lbx_file c) = Inr bs \<and> c' = c\<lparr>lbx_file := bs\<rparr> \<and> r' = r)"
  by (auto simp: lbxC_def split: sum.splits)

section \<open>Files\<close>

text \<open>
  \<open>seek(SeekFrom::Start(off))\<close> refuses offsets that do not fit a signed 64-bit integer;
  \<open>read_exact\<close> and \<open>write_all\<close> follow it.
\<close>

definition read_exact :: "bytes \<Rightarrow> u64 \<Rightarrow> nat \<Rightarrow> bytes fres" where
  "read_exact f off n =
     (if 2 ^ 63 \<le> unat off then Inl (Io ''invalid seek'')
      else if length f < unat off + n then Inl (Io ''failed to fill whole buffer'')
      else Inr (slice f (unat off) n))"

definition write_all :: "bytes \<Rightarrow> u64 \<Rightarrow> bytes \<Rightarrow> bytes fres" where
  "write_all f off bs =
     (if 2 ^ 63 \<le> unat off then Inl (Io ''invalid seek'')
      else if bs = [] then Inr f
      else Inr (put (f @ replicate (unat off - length f) 0) (unat off) bs))"

definition set_len :: "bytes \<Rightarrow> nat \<Rightarrow> bytes" where
  "set_len f n = take n f @ replicate (n - length f) 0"

definition c_derive_subkey :: "'r env \<Rightarrow> Container \<Rightarrow> bytes \<Rightarrow> bytes" where
  "c_derive_subkey E c info = derive_subkey E (c_mvk c) (header_salt (c_header c)) info"

definition read_at :: "u64 \<Rightarrow> nat \<Rightarrow> ('r, bytes) cop" where
  "read_at off n = withC (\<lambda>c. liftR (read_exact (lbx_file c) off n))"

definition write_at :: "u64 \<Rightarrow> bytes \<Rightarrow> ('r, unit) cop" where
  "write_at off bs = lbxC (\<lambda>f. write_all f off bs)"

definition data_file_len :: "Container \<Rightarrow> nat" where
  "data_file_len c = length (lbx_file c)"

definition truncate_data_file :: "u64 \<Rightarrow> ('r, unit) cop" where
  "truncate_data_file len =
     bindR (withC (\<lambda>c. if len < data_offset (c_header c)
                       then failR (Io ''refusing to truncate the vault into its metadata region'')
                       else retR ())) (\<lambda>_.
     lbxC (\<lambda>f. Inr (set_len f (unat len))))"

section \<open>The keyslot table\<close>

definition is_deniable :: "Container \<Rightarrow> bool" where
  "is_deniable c \<longleftrightarrow> deniable c \<noteq> None"

definition guard_no_deniable_slot_mutation :: "('r, unit) cop" where
  "guard_no_deniable_slot_mutation =
     withC (\<lambda>c. if is_deniable c then failR DeniableSlotMutationUnsupported else retR ())"

definition mark_header_dirty :: "('r, unit) cop" where
  "mark_header_dirty = updC (\<lambda>c. c\<lparr>header_dirty := True\<rparr>)"

text \<open>
  The common body of the \<open>enroll_*\<close> methods: guard, first free slot, build the slot over the
  container's suite, volume key and header salt, install it, mark the header dirty.
\<close>

definition enroll_with :: "(Header \<Rightarrow> bytes \<Rightarrow> ('r, Keyslot) rnd) \<Rightarrow> ('r, nat) cop" where
  "enroll_with build =
     bindR guard_no_deniable_slot_mutation (\<lambda>_.
     bindR (withC (\<lambda>c. crypto (liftR (first_free_slot (c_header c))))) (\<lambda>idx.
     bindR (withC (\<lambda>c. crypto (build (c_header c) (c_mvk c)))) (\<lambda>slot.
     bindR (headerC (\<lambda>h. install_slot h idx slot)) (\<lambda>_.
     bindR mark_header_dirty (\<lambda>_. retR idx)))))"

definition update_with :: "nat \<Rightarrow> (Header \<Rightarrow> bytes \<Rightarrow> ('r, Keyslot) rnd) \<Rightarrow> ('r, unit) cop" where
  "update_with idx build =
     bindR guard_no_deniable_slot_mutation (\<lambda>_.
     bindR (withC (\<lambda>c. crypto (build (c_header c) (c_mvk c)))) (\<lambda>slot.
     bindR (headerC (\<lambda>h. install_slot h idx slot)) (\<lambda>_. mark_header_dirty)))"

definition enroll_passphrase :: "'r env \<Rightarrow> bytes \<Rightarrow> Argon2idParams \<Rightarrow> ('r, nat) cop" where
  "enroll_passphrase E passphrase params =
     enroll_with (\<lambda>h mvk. new_passphrase E (cipher_suite h) mvk passphrase params (header_salt h))"

definition enroll_fido2 ::
  "'r env \<Rightarrow> bytes option \<Rightarrow> bytes \<Rightarrow> bytes \<Rightarrow> bytes \<Rightarrow> Argon2idParams \<Rightarrow> ('r, nat) cop" where
  "enroll_fido2 E passphrase hmac_secret cred_id hmac_salt params =
     enroll_with (\<lambda>h mvk. new_fido2 E (cipher_suite h) mvk passphrase hmac_secret cred_id hmac_salt params
                            (header_salt h))"

definition enroll_tpm2 :: "'r env \<Rightarrow> bytes \<Rightarrow> bytes \<Rightarrow> ('r, nat) cop" where
  "enroll_tpm2 E kek_from_tpm sealed_blob =
     enroll_with (\<lambda>h mvk. new_tpm2 E (cipher_suite h) mvk kek_from_tpm sealed_blob (header_salt h))"

definition enroll_tpm2_pin :: "'r env \<Rightarrow> bytes \<Rightarrow> bytes \<Rightarrow> ('r, nat) cop" where
  "enroll_tpm2_pin E kek_from_tpm sealed_blob =
     enroll_with (\<lambda>h mvk. new_tpm2_pin E (cipher_suite h) mvk kek_from_tpm sealed_blob (header_salt h))"

definition enroll_hybrid_pq_tpm2 :: "'r env \<Rightarrow> bytes \<Rightarrow> bytes \<Rightarrow> bytes \<Rightarrow> ('r, nat) cop" where
  "enroll_hybrid_pq_tpm2 E kek_from_tpm pq_shared sealed_blob =
     enroll_with (\<lambda>h mvk. new_hybrid_pq_tpm2 E (cipher_suite h) mvk kek_from_tpm pq_shared sealed_blob
                            (header_salt h))"

definition enroll_hybrid_pq_1024_tpm2 :: "'r env \<Rightarrow> bytes \<Rightarrow> bytes \<Rightarrow> bytes \<Rightarrow> ('r, nat) cop" where
  "enroll_hybrid_pq_1024_tpm2 E kek_from_tpm pq_shared sealed_blob =
     enroll_with (\<lambda>h mvk. new_hybrid_pq_1024_tpm2 E (cipher_suite h) mvk kek_from_tpm pq_shared sealed_blob
                            (header_salt h))"

definition enroll_tpm2_fido2 :: "'r env \<Rightarrow> bytes \<Rightarrow> bytes \<Rightarrow> bytes \<Rightarrow> bytes \<Rightarrow> bytes \<Rightarrow> ('r, nat) cop" where
  "enroll_tpm2_fido2 E tpm_unsealed hmac_secret sealed_blob cred_id hmac_salt =
     enroll_with (\<lambda>h mvk. new_tpm2_fido2 E (cipher_suite h) mvk tpm_unsealed hmac_secret sealed_blob cred_id
                            hmac_salt (header_salt h))"

definition enroll_hybrid_pq_tpm2_fido2 ::
  "'r env \<Rightarrow> bytes \<Rightarrow> bytes \<Rightarrow> bytes \<Rightarrow> bytes \<Rightarrow> bytes \<Rightarrow> bytes \<Rightarrow> ('r, nat) cop" where
  "enroll_hybrid_pq_tpm2_fido2 E tpm_unsealed hmac_secret pq_shared sealed_blob cred_id hmac_salt =
     enroll_with (\<lambda>h mvk. new_hybrid_pq_tpm2_fido2 E (cipher_suite h) mvk tpm_unsealed hmac_secret pq_shared
                            sealed_blob cred_id hmac_salt (header_salt h))"

definition enroll_hybrid_pq_1024_tpm2_fido2 ::
  "'r env \<Rightarrow> bytes \<Rightarrow> bytes \<Rightarrow> bytes \<Rightarrow> bytes \<Rightarrow> bytes \<Rightarrow> bytes \<Rightarrow> ('r, nat) cop" where
  "enroll_hybrid_pq_1024_tpm2_fido2 E tpm_unsealed hmac_secret pq_shared sealed_blob cred_id hmac_salt =
     enroll_with (\<lambda>h mvk. new_hybrid_pq_1024_tpm2_fido2 E (cipher_suite h) mvk tpm_unsealed hmac_secret pq_shared
                            sealed_blob cred_id hmac_salt (header_salt h))"

definition enroll_hybrid_pq_passphrase :: "'r env \<Rightarrow> bytes \<Rightarrow> bytes \<Rightarrow> Argon2idParams \<Rightarrow> ('r, nat) cop" where
  "enroll_hybrid_pq_passphrase E passphrase pq_shared params =
     enroll_with (\<lambda>h mvk. new_hybrid_pq_passphrase E (cipher_suite h) mvk passphrase pq_shared params
                            (header_salt h))"

definition enroll_hybrid_pq_1024_passphrase :: "'r env \<Rightarrow> bytes \<Rightarrow> bytes \<Rightarrow> Argon2idParams \<Rightarrow> ('r, nat) cop" where
  "enroll_hybrid_pq_1024_passphrase E passphrase pq_shared params =
     enroll_with (\<lambda>h mvk. new_hybrid_pq_1024_passphrase E (cipher_suite h) mvk passphrase pq_shared params
                            (header_salt h))"

definition enroll_hybrid_pq_fido2 ::
  "'r env \<Rightarrow> bytes option \<Rightarrow> bytes \<Rightarrow> bytes \<Rightarrow> bytes \<Rightarrow> bytes \<Rightarrow> Argon2idParams \<Rightarrow> ('r, nat) cop" where
  "enroll_hybrid_pq_fido2 E passphrase hmac_secret pq_shared cred_id hmac_salt params =
     enroll_with (\<lambda>h mvk. new_hybrid_pq_fido2 E (cipher_suite h) mvk passphrase hmac_secret pq_shared cred_id
                            hmac_salt params (header_salt h))"

definition enroll_hybrid_pq_1024_fido2 ::
  "'r env \<Rightarrow> bytes option \<Rightarrow> bytes \<Rightarrow> bytes \<Rightarrow> bytes \<Rightarrow> bytes \<Rightarrow> Argon2idParams \<Rightarrow> ('r, nat) cop" where
  "enroll_hybrid_pq_1024_fido2 E passphrase hmac_secret pq_shared cred_id hmac_salt params =
     enroll_with (\<lambda>h mvk. new_hybrid_pq_1024_fido2 E (cipher_suite h) mvk passphrase hmac_secret pq_shared cred_id
                            hmac_salt params (header_salt h))"

text \<open>
  \<open>enroll_sep\<close> also stores the blob in the header's enclave region; when that does not fit it
  takes the slot out again before it returns the error.
\<close>

definition store_sep_blob :: "nat \<Rightarrow> bytes \<Rightarrow> ('r, unit) cop" where
  "store_sep_blob idx blob = (\<lambda>(c, r).
     case set_sep_blob (c_header c) idx blob of
       Inr h \<Rightarrow> (Inr (), (c\<lparr>c_header := h\<rparr>, r))
     | Inl e \<Rightarrow>
         (case revoke_slot (c_header c) idx of
            Inr h \<Rightarrow> (Inl (Crypto e), (c\<lparr>c_header := h\<rparr>, r))
          | Inl _ \<Rightarrow> (Inl (Crypto e), (c, r))))"

definition enroll_sep ::
  "'r env \<Rightarrow> SlotKind \<Rightarrow> bytes \<Rightarrow> bytes \<Rightarrow> bytes option \<Rightarrow> bytes option \<Rightarrow> Argon2idParams \<Rightarrow> bytes option
    \<Rightarrow> bytes \<Rightarrow> bytes \<Rightarrow> ('r, nat) cop" where
  "enroll_sep E k sep_shared blob hmac_secret passphrase params pq_shared cred_id hmac_salt =
     bindR guard_no_deniable_slot_mutation (\<lambda>_.
     bindR (withC (\<lambda>c. crypto (liftR (first_free_slot (c_header c))))) (\<lambda>idx.
     bindR (withC (\<lambda>c. crypto (new_sep E (cipher_suite (c_header c)) (c_mvk c) k sep_shared hmac_secret
              passphrase params pq_shared cred_id hmac_salt (header_salt (c_header c))))) (\<lambda>slot.
     bindR (headerC (\<lambda>h. install_slot h idx slot)) (\<lambda>_.
     bindR (store_sep_blob idx blob) (\<lambda>_.
     bindR mark_header_dirty (\<lambda>_. retR idx))))))"

definition update_passphrase_at :: "'r env \<Rightarrow> nat \<Rightarrow> bytes \<Rightarrow> Argon2idParams \<Rightarrow> ('r, unit) cop" where
  "update_passphrase_at E idx passphrase params =
     update_with idx (\<lambda>h mvk. new_passphrase E (cipher_suite h) mvk passphrase params (header_salt h))"

definition update_fido2_at ::
  "'r env \<Rightarrow> nat \<Rightarrow> bytes option \<Rightarrow> bytes \<Rightarrow> bytes \<Rightarrow> bytes \<Rightarrow> Argon2idParams \<Rightarrow> ('r, unit) cop" where
  "update_fido2_at E idx passphrase hmac_secret cred_id hmac_salt params =
     update_with idx (\<lambda>h mvk. new_fido2 E (cipher_suite h) mvk passphrase hmac_secret cred_id hmac_salt params
                                (header_salt h))"

definition update_tpm2_at :: "'r env \<Rightarrow> nat \<Rightarrow> bytes \<Rightarrow> bytes \<Rightarrow> ('r, unit) cop" where
  "update_tpm2_at E idx kek_from_tpm sealed_blob =
     update_with idx (\<lambda>h mvk. new_tpm2 E (cipher_suite h) mvk kek_from_tpm sealed_blob (header_salt h))"

definition c_revoke_slot :: "nat \<Rightarrow> ('r, unit) cop" where
  "c_revoke_slot idx =
     bindR guard_no_deniable_slot_mutation (\<lambda>_.
     bindR (headerC (\<lambda>h. revoke_slot h idx)) (\<lambda>_. mark_header_dirty))"

definition swap :: "'a list \<Rightarrow> nat \<Rightarrow> nat \<Rightarrow> 'a list" where
  "swap xs a b = xs[a := xs ! b, b := xs ! a]"

definition swap_slots :: "nat \<Rightarrow> nat \<Rightarrow> ('r, unit) cop" where
  "swap_slots a b =
     bindR guard_no_deniable_slot_mutation (\<lambda>_.
     bindR (withC (\<lambda>c. if length (keyslots (c_header c)) \<le> a \<or> length (keyslots (c_header c)) \<le> b
                       then failR (Io ''swap_slots: index out of range'') else retR ())) (\<lambda>_.
     if a \<noteq> b
     then updC (\<lambda>c. c\<lparr>c_header := (c_header c)\<lparr>keyslots := swap (keyslots (c_header c)) a b,
                                            sep_blobs := swap (sep_blobs (c_header c)) a b\<rparr>,
                     header_dirty := True\<rparr>)
     else retR ()))"

definition populated_slot_count :: "Container \<Rightarrow> nat" where
  "populated_slot_count c = length (filter (\<lambda>s. kind s \<noteq> Empty) (keyslots (c_header c)))"

fun unique_populated :: "nat \<Rightarrow> nat option \<Rightarrow> Keyslot list \<Rightarrow> nat option" where
  "unique_populated i idx [] = idx"
| "unique_populated i idx (s # ss) =
     (if kind s \<noteq> Empty then (if idx \<noteq> None then None else unique_populated (Suc i) (Some i) ss)
      else unique_populated (Suc i) idx ss)"

definition unique_populated_slot :: "Container \<Rightarrow> nat option" where
  "unique_populated_slot c = unique_populated 0 None (keyslots (c_header c))"

section \<open>Rotation of the volume key\<close>

fun revoke_all :: "nat list \<Rightarrow> Header \<Rightarrow> Header res" where
  "revoke_all [] h = Inr h"
| "revoke_all (i # is) h = bindE (revoke_slot h i) (revoke_all is)"

fun install_all :: "(nat \<times> Keyslot) list \<Rightarrow> Header \<Rightarrow> Header res" where
  "install_all [] h = Inr h"
| "install_all ((i, s) # ss) h = bindE (install_slot h i s) (install_all ss)"

definition install_rotated_mvk_passphrase ::
  "'r env \<Rightarrow> nat \<Rightarrow> bytes \<Rightarrow> bytes \<Rightarrow> Argon2idParams \<Rightarrow> ('r, unit) cop" where
  "install_rotated_mvk_passphrase E slot_idx new_mvk passphrase params =
     bindR guard_no_deniable_slot_mutation (\<lambda>_.
     if MAX_KEYSLOTS \<le> slot_idx then failR (Crypto (InvalidKeyslotIndex slot_idx))
     else
       bindR (withC (\<lambda>c. crypto (new_passphrase E (cipher_suite (c_header c)) new_mvk passphrase params
                (header_salt (c_header c))))) (\<lambda>new_slot.
       bindR (headerC (revoke_all (filter (\<lambda>i. i \<noteq> slot_idx) [0..<MAX_KEYSLOTS]))) (\<lambda>_.
       bindR (headerC (\<lambda>h. install_slot h slot_idx new_slot)) (\<lambda>_.
       updC (\<lambda>c. c\<lparr>c_mvk := new_mvk, header_dirty := True\<rparr>)))))"

definition install_rotated_mvk_multi :: "bytes \<Rightarrow> (nat \<times> Keyslot) list \<Rightarrow> ('r, unit) cop" where
  "install_rotated_mvk_multi new_mvk new_slots =
     (case find (\<lambda>p. MAX_KEYSLOTS \<le> fst p) new_slots of
        Some p \<Rightarrow> failR (Crypto (InvalidKeyslotIndex (fst p)))
      | None \<Rightarrow>
          bindR (headerC (revoke_all (filter (\<lambda>i. i \<notin> fst ` set new_slots) [0..<MAX_KEYSLOTS]))) (\<lambda>_.
          bindR (headerC (install_all new_slots)) (\<lambda>_.
          updC (\<lambda>c. c\<lparr>c_mvk := new_mvk, header_dirty := True\<rparr>))))"

section \<open>Metadata\<close>

definition is_v2_format :: "Container \<Rightarrow> bool" where
  "is_v2_format c \<longleftrightarrow>
     VERSION_MAJOR_V2 \<le> version_major (c_header c) \<and> deniable c = None \<and> \<not> rotating c"

definition write_metadata_mirror :: "bytes \<Rightarrow> ('r, unit) cop" where
  "write_metadata_mirror region = updC (\<lambda>c.
     let c = c\<lparr>meta_bak := Some region\<rparr> in
     if has_metadata_mirror (c_header c) then c
     else c\<lparr>c_header := (c_header c)\<lparr>flags := flags (c_header c) OR FLAG_HAS_METADATA_MIRROR\<rparr>,
            header_dirty := True\<rparr>)"

definition build_metadata_region :: "'r env \<Rightarrow> bytes \<Rightarrow> Container \<Rightarrow> ('r, fmt_error, bytes) rand" where
  "build_metadata_region E plaintext c =
     (let h = c_header c; region_size = unat (metadata_size h) in
      if region_size < length plaintext + METADATA_OVERHEAD then failR MetadataTooLarge
      else write_metadata_opts E (cipher_suite h) (c_mvk c) (header_salt h) plaintext region_size
             (masked_metadata_len h))"

definition mirror_metadata_if_v2 :: "bytes \<Rightarrow> ('r, unit) cop" where
  "mirror_metadata_if_v2 region =
     (\<lambda>(c, r). (if is_v2_format c then write_metadata_mirror region else retR ()) (c, r))"

definition overwrite_live_metadata :: "bytes \<Rightarrow> ('r, unit) cop" where
  "overwrite_live_metadata region =
     (\<lambda>(c, r). lbxC (\<lambda>f. write_all f (metadata_offset (c_header c)) region) (c, r))"

definition c_write_metadata :: "'r env \<Rightarrow> bytes \<Rightarrow> ('r, unit) cop" where
  "c_write_metadata E plaintext =
     bindR (withC (build_metadata_region E plaintext)) (\<lambda>region.
     bindR (mirror_metadata_if_v2 region) (\<lambda>_.
     overwrite_live_metadata region))"

definition c_read_metadata :: "'r env \<Rightarrow> ('r, bytes) cop" where
  "c_read_metadata E = (\<lambda>(c, r).
     let h = c_header c;
         region_size = unat (metadata_size h);
         parse = (\<lambda>region. read_metadata_opts E (cipher_suite h) (c_mvk c) (header_salt h) region
                             (masked_metadata_len h))
     in case read_exact (lbx_file c) (metadata_offset h) region_size of
          Inl e \<Rightarrow> (Inl e, (c, r))
        | Inr region \<Rightarrow>
            (case parse region of
               Inr pt \<Rightarrow> (Inr pt, (c, r))
             | Inl live_err \<Rightarrow>
                 (case meta_bak c of
                    None \<Rightarrow> (Inl live_err, (c, r))
                  | Some mirror \<Rightarrow>
                      if length mirror \<noteq> region_size then (Inl live_err, (c, r))
                      else (case parse mirror of
                              Inr pt \<Rightarrow> (Inr pt, (c\<lparr>recovered_from_mirror := True\<rparr>, r))
                            | Inl _ \<Rightarrow> (Inl live_err, (c, r))))))"

definition rekey_metadata :: "'r env \<Rightarrow> bytes \<Rightarrow> ('r, unit) cop" where
  "rekey_metadata E new_mvk =
     bindR (c_read_metadata E) (\<lambda>plaintext (c, r).
       case c_write_metadata E plaintext (c\<lparr>c_mvk := new_mvk\<rparr>, r) of
         (Inr _, s) \<Rightarrow> (Inr (), s)
       | (Inl e, (c', r')) \<Rightarrow> (Inl e, (c'\<lparr>c_mvk := c_mvk c\<rparr>, r')))"

text \<open>Re-encryption of one chunk slot under a new file key.\<close>

definition rekey_chunk_at :: "'r env \<Rightarrow> u64 \<Rightarrow> bytes \<Rightarrow> bytes \<Rightarrow> bytes \<Rightarrow> ('r, unit) cop" where
  "rekey_chunk_at E chunk_id old_file_key new_file_key aad =
     bindR (withC (\<lambda>c. liftR (ok_or OffsetOverflow
              (Option.bind (checked_mul_u64 chunk_id 4124) (\<lambda>rel. checked_add_u64 (data_offset (c_header c)) rel))))) (\<lambda>off.
     bindR (read_at off 4124) (\<lambda>buf.
     bindR (withC (\<lambda>c. crypto (liftR (aead_open E (cipher_suite (c_header c)) old_file_key (take 12 buf) aad (drop 12 buf))))) (\<lambda>pt.
     bindR (withC (\<lambda>c. crypto (fill E 12))) (\<lambda>new_nonce.
     bindR (withC (\<lambda>c. crypto (liftR (seal E (cipher_suite (c_header c)) new_file_key new_nonce aad pt)))) (\<lambda>new_ct.
     write_at off (new_nonce @ new_ct))))))"

section \<open>Writing the header\<close>

definition next_header_generation :: "u64 \<Rightarrow> u64 fres" where
  "next_header_generation current = ok_or (Crypto InvalidField) (checked_add_u64 current 1)"

definition write_live_header :: "bytes \<Rightarrow> ('r, unit) cop" where
  "write_live_header bs = (\<lambda>(c, r).
     case header_side c of
       None \<Rightarrow> lbxC (\<lambda>f. write_all f 0 bs) (c, r)
     | Some _ \<Rightarrow> (Inr (), (c\<lparr>header_side := Some bs\<rparr>, r)))"

definition write_header_mirror :: "bytes \<Rightarrow> ('r, unit) cop" where
  "write_header_mirror bs = updC (\<lambda>c. c\<lparr>header_bak := Some bs\<rparr>)"

definition write_standard_header :: "'r env \<Rightarrow> ('r, unit) cop" where
  "write_standard_header E =
     bindR (updC (\<lambda>c. if is_v2_format c \<and> \<not> has_header_mirror (c_header c)
                      then c\<lparr>c_header := (c_header c)\<lparr>flags := flags (c_header c) OR FLAG_HAS_HEADER_MIRROR\<rparr>\<rparr>
                      else c)) (\<lambda>_.
     bindR (withC (\<lambda>c. crypto (header_to_bytes E (c_header c) (c_mvk c)))) (\<lambda>bs.
     bindR (\<lambda>(c, r). (if is_v2_format c then write_header_mirror bs else retR ()) (c, r)) (\<lambda>_.
     write_live_header bs)))"

text \<open>
  \<open>persist_header\<close> without an attached anchor. A deniable vault writes its cached header
  bytes; a standard vault bumps its generation (header version 3), which is undone if the write
  fails.
\<close>

definition persist_header :: "'r env \<Rightarrow> ('r, unit) cop" where
  "persist_header E = (\<lambda>(c, r).
     if \<not> header_dirty c then (Inr (), (c, r))
     else
       (case deniable c of
          Some bs \<Rightarrow>
            bindR (lbxC (\<lambda>f. write_all f 0 bs)) (\<lambda>_. updC (\<lambda>c. c\<lparr>header_dirty := False\<rparr>)) (c, r)
        | None \<Rightarrow>
            (let prev = header_generation (c_header c) in
             case (if has_header_generation (c_header c) then next_header_generation prev else Inr prev) of
               Inl e \<Rightarrow> (Inl e, (c, r))
             | Inr g \<Rightarrow>
                 (case write_standard_header E (c\<lparr>c_header := (c_header c)\<lparr>header_generation := g\<rparr>\<rparr>, r) of
                    (Inl e, (c', r')) \<Rightarrow>
                      (Inl e, (c'\<lparr>c_header := (c_header c')\<lparr>header_generation := prev\<rparr>\<rparr>, r'))
                  | (Inr _, (c', r')) \<Rightarrow> (Inr (), (c'\<lparr>header_dirty := False\<rparr>, r'))))))"

definition c_header_generation :: "Container \<Rightarrow> u64 option" where
  "c_header_generation c =
     (if deniable c = None \<and> has_header_generation (c_header c)
      then Some (header_generation (c_header c)) else None)"

text \<open>The opt-in to header version 3 on a standard vault.\<close>

definition upgrade_standard_header_to_v3 :: "('r, bool) cop" where
  "upgrade_standard_header_to_v3 = (\<lambda>(c, r).
     if rotating c then (Inl (HeaderUpgradeUnsupported ''an MVK rotation is in flight''), (c, r))
     else if c_header_generation c \<noteq> None then (Inr False, (c, r))
     else if version_major (c_header c) < VERSION_MAJOR_V2
       then (Inl (HeaderUpgradeUnsupported ''LUKSBOX1 vault: upgrade it to LUKSBOX2 first''), (c, r))
     else (Inr True, (c\<lparr>c_header := (c_header c)\<lparr>version_major := VERSION_MAJOR_V3, header_generation := 0\<rparr>,
                      header_dirty := True\<rparr>, r)))"

definition restore_header_bytes :: "bytes \<Rightarrow> ('r, unit) cop" where
  "restore_header_bytes bs =
     bindR (write_live_header bs) (\<lambda>_. updC (\<lambda>c. c\<lparr>header_dirty := False\<rparr>))"

definition restore_header_as_new_state :: "'r env \<Rightarrow> Header \<Rightarrow> ('r, unit) cop" where
  "restore_header_as_new_state E h0 = (\<lambda>(c, r).
     if is_deniable c then (Inl (Crypto InvalidField), (c, r))
     else
       (case (if c_header_generation c \<noteq> None \<or> has_header_generation h0
              then
                (let h = (if version_major h0 < VERSION_MAJOR_V3 then h0\<lparr>version_major := VERSION_MAJOR_V3\<rparr> else h0);
                     floor = max (case c_header_generation c of None \<Rightarrow> 0 | Some g \<Rightarrow> g) (header_generation h)
                 in bindE (next_header_generation floor) (\<lambda>g. Inr (h\<lparr>header_generation := g\<rparr>)))
              else Inr h0) of
          Inl e \<Rightarrow> (Inl e, (c, r))
        | Inr h \<Rightarrow>
            bindR (withC (\<lambda>c. crypto (header_to_bytes E h (c_mvk c)))) (\<lambda>bs.
            bindR (restore_header_bytes bs) (\<lambda>_.
            updC (\<lambda>c. c\<lparr>c_header := h\<rparr>))) (c, r)))"

section \<open>Reading what was written\<close>

lemma write_all_length:
  "write_all f off bs = Inr f' \<Longrightarrow> bs \<noteq> [] \<Longrightarrow> length f' = max (length f) (unat off + length bs)"
  by (auto simp: write_all_def put_def split: if_splits)

lemma read_after_write:
  "write_all f off bs = Inr f' \<Longrightarrow> bs \<noteq> [] \<Longrightarrow> read_exact f' off (length bs) = Inr bs"
  by (auto simp: write_all_def read_exact_def put_def slice_def split: if_splits)

lemma read_after_write_other:
  assumes "write_all f off bs = Inr f'" "unat off' + n \<le> unat off \<or> unat off + length bs \<le> unat off'"
    and "unat off' + n \<le> length f"
  shows "read_exact f' off' n = read_exact f off' n"
proof (cases "bs = []")
  case True
  with assms(1) show ?thesis by (auto simp: write_all_def split: if_splits)
next
  case False
  let ?g = "f @ replicate (unat off - length f) 0"
  have f': "f' = put ?g (unat off) bs" using assms(1) False by (auto simp: write_all_def split: if_splits)
  have "slice f' (unat off') n = slice f (unat off') n"
    using assms(2,3) unfolding f' by (auto simp: put_def slice_def take_append drop_append min_def drop_take)
  moreover have "length f \<le> length f'" by (simp add: f' put_def)
  ultimately show ?thesis using assms(3) by (simp add: read_exact_def)
qed

section \<open>Enrolment\<close>

lemma guard_eq [res_simps]:
  "guard_no_deniable_slot_mutation (c, r) = (Inr (), (c', r')) \<longleftrightarrow> deniable c = None \<and> c' = c \<and> r' = r"
  by (auto simp: guard_no_deniable_slot_mutation_def withC_eq is_deniable_def)

lemma dirty_eq [res_simps]:
  "mark_header_dirty (c, r) = (x, (c', r')) \<longleftrightarrow> x = Inr () \<and> c' = c\<lparr>header_dirty := True\<rparr> \<and> r' = r"
  by (auto simp: mark_header_dirty_def updC_eq)

lemma crypto_lift [res_simps]: "crypto (liftR m) r = (Inr x, r') \<longleftrightarrow> m = Inr x \<and> r' = r"
  by (auto simp: crypto_eq_Inr)

lemma guard_eq_Inl [res_simps]:
  "guard_no_deniable_slot_mutation (c, r) = (Inl e, (c', r')) \<longleftrightarrow>
     deniable c \<noteq> None \<and> e = DeniableSlotMutationUnsupported \<and> c' = c \<and> r' = r"
  by (auto simp: guard_no_deniable_slot_mutation_def withC_eq is_deniable_def)

lemma headerC_eq_Inl [res_simps]:
  "headerC f (c, r) = (Inl e, (c', r')) \<longleftrightarrow> (\<exists>e'. f (c_header c) = Inl e' \<and> e = Crypto e' \<and> c' = c \<and> r' = r)"
  by (auto simp: headerC_def split: sum.splits)

text \<open>What a successful enrolment did.\<close>

lemma enroll_with_effect:
  assumes "enroll_with build (c, r) = (Inr idx, (c', r'))"
  obtains slot where "deniable c = None" "first_free_slot (c_header c) = Inr idx"
    "build (c_header c) (c_mvk c) r = (Inr slot, r')" "idx < 8"
    "c' = c\<lparr>c_header := (c_header c)\<lparr>keyslots := (keyslots (c_header c))[idx := slot]\<rparr>, header_dirty := True\<rparr>"
  using assms by (auto simp: enroll_with_def res_simps install_slot_def split: if_splits)

lemma update_with_effect:
  assumes "update_with idx build (c, r) = (Inr (), (c', r'))"
  obtains slot where "deniable c = None" "build (c_header c) (c_mvk c) r = (Inr slot, r')" "idx < 8"
    "c' = c\<lparr>c_header := (c_header c)\<lparr>keyslots := (keyslots (c_header c))[idx := slot]\<rparr>, header_dirty := True\<rparr>"
  using assms by (auto simp: update_with_def res_simps install_slot_def split: if_splits)

text \<open>When an enrolment cannot fail.\<close>

lemma enroll_with_live:
  assumes "deniable c = None" "header_wf (c_header c)" "\<exists>s \<in> set (keyslots (c_header c)). slot_is_empty s"
    and "succeeds (build (c_header c) (c_mvk c))"
  shows "\<exists>idx c' r'. enroll_with build (c, r) = (Inr idx, (c', r'))"
proof -
  have "position slot_is_empty (keyslots (c_header c)) \<noteq> None"
    using assms(3) by (auto simp: position_eq_None list_all_iff)
  then obtain idx where idx: "position slot_is_empty (keyslots (c_header c)) = Some idx" by blast
  then have i8: "idx < 8" using header_wf_simps(2) [OF assms(2)] by (simp add: position_eq_Some)
  obtain slot r1 where slot: "build (c_header c) (c_mvk c) r = (Inr slot, r1)"
    using assms(4) unfolding succeeds_def by blast
  have "enroll_with build (c, r) = (Inr idx, (c\<lparr>c_header := (c_header c)\<lparr>keyslots := (keyslots (c_header c))[idx := slot]\<rparr>,
      header_dirty := True\<rparr>, r1))"
    using assms(1) idx i8 slot
    by (simp add: enroll_with_def res_simps first_free_slot_def install_slot_def)
  then show ?thesis by blast
qed

lemma enroll_with_fails:
  assumes "enroll_with build (c, r) = (Inl e, (c', r'))"
  shows "c' = c"
  using assms
  by (auto simp: enroll_with_def res_simps)

section \<open>Metadata through the container\<close>

text \<open>The layout facts a container relies on; every opened or created container has them.\<close>

definition container_ok :: "Container \<Rightarrow> bool" where
  "container_ok c \<longleftrightarrow> header_wf (c_header c) \<and> unat (metadata_offset (c_header c)) < 2 ^ 63"

lemma is_v2_flags [simp]:
  "is_v2_format (c\<lparr>meta_bak := m\<rparr>) = is_v2_format c"
  "is_v2_format (c\<lparr>c_header := (c_header c)\<lparr>flags := fl\<rparr>\<rparr>) = is_v2_format c"
  by (simp_all add: is_v2_format_def)

lemma or_8_mask: "(x OR 8) AND 32 = (x AND 32 :: u32)"
proof -
  have "(8 :: u32) AND 32 = 0" by simp
  then show ?thesis by (simp add: bit.conj_disj_distrib2)
qed

text \<open>After a metadata write the live region and, on version 2 and later, the mirror hold the same region.\<close>

lemma c_write_metadata_effect:
  assumes "container_ok c" "c_write_metadata E pt (c, r) = (Inr (), (c', r'))"
  obtains region where
    "write_metadata_opts E (cipher_suite (c_header c)) (c_mvk c) (header_salt (c_header c)) pt
       (unat (metadata_size (c_header c))) (masked_metadata_len (c_header c)) r = (Inr region, r')"
    "write_all (lbx_file c) (metadata_offset (c_header c)) region = Inr (lbx_file c')"
    "c_mvk c' = c_mvk c" "meta_bak c' = (if is_v2_format c then Some region else meta_bak c)"
    "\<exists>fl. c_header c' = (c_header c)\<lparr>flags := fl\<rparr> \<and> (fl = flags (c_header c) \<or> fl = flags (c_header c) OR 8)"
proof -
  let ?h = "c_header c"
  from assms(2) obtain region r1 c1 r2 where
    w: "build_metadata_region E pt c r = (Inr region, r1)"
    and m: "mirror_metadata_if_v2 region (c, r1) = (Inr (), (c1, r2))"
    and l: "overwrite_live_metadata region (c1, r2) = (Inr (), (c', r'))"
    unfolding c_write_metadata_def bindR_eq_Inr by (auto simp: withC_eq)
  have rg: "write_metadata_opts E (cipher_suite ?h) (c_mvk c) (header_salt ?h) pt (unat (metadata_size ?h))
         (masked_metadata_len ?h) r = (Inr region, r1)"
    using w by (simp add: build_metadata_region_def Let_def split: if_splits)
  have c1: "r2 = r1" "lbx_file c1 = lbx_file c" "c_mvk c1 = c_mvk c"
    "meta_bak c1 = (if is_v2_format c then Some region else meta_bak c)"
    "\<exists>fl. c_header c1 = ?h\<lparr>flags := fl\<rparr> \<and> (fl = flags ?h \<or> fl = flags ?h OR 8)"
    using m by (auto simp: mirror_metadata_if_v2_def write_metadata_mirror_def updC_eq Let_def
        intro: exI [where x = "flags ?h"] split: if_splits)
  from c1(5) have "metadata_offset (c_header c1) = metadata_offset ?h" by auto
  with l c1(1,2) obtain bs where bs: "write_all (lbx_file c) (metadata_offset ?h) region = Inr bs"
    "c' = c1\<lparr>lbx_file := bs\<rparr>" "r' = r1"
    by (auto simp: overwrite_live_metadata_def lbxC_eq_Inr)
  show thesis
  proof (rule that [of region])
    show "\<exists>fl. c_header c' = ?h\<lparr>flags := fl\<rparr> \<and> (fl = flags ?h \<or> fl = flags ?h OR 8)"
      using c1(5) bs(2) by simp
  qed (use rg c1 bs in simp_all)
qed

lemma masked_len_flags:
  "fl = flags h \<or> fl = flags h OR 8 \<Longrightarrow> masked_metadata_len (h\<lparr>flags := fl\<rparr>) = masked_metadata_len h"
  by (auto simp: masked_metadata_len_def or_8_mask)

lemma c_read_after_write:
  assumes env: "rng_fills E" "digest_lengths E" "aead_correct E"
    and ok: "container_ok c" and w: "c_write_metadata E pt (c, r) = (Inr (), (c', r'))"
  shows "c_read_metadata E (c', r2) = (Inr pt, (c', r2))"
    and "is_v2_format c \<Longrightarrow> length f = length (lbx_file c') \<Longrightarrow>
      read_metadata_opts E (cipher_suite (c_header c)) (c_mvk c) (header_salt (c_header c))
        (slice f (unat (metadata_offset (c_header c))) (unat (metadata_size (c_header c))))
        (masked_metadata_len (c_header c)) = Inl e \<Longrightarrow>
      c_read_metadata E (c'\<lparr>lbx_file := f\<rparr>, r2) = (Inr pt, (c'\<lparr>lbx_file := f, recovered_from_mirror := True\<rparr>, r2))"
proof -
  let ?h = "c_header c"
  let ?n = "unat (metadata_size ?h)"
  obtain region where rg: "write_metadata_opts E (cipher_suite ?h) (c_mvk c) (header_salt ?h) pt ?n
       (masked_metadata_len ?h) r = (Inr region, r')"
    and live: "write_all (lbx_file c) (metadata_offset ?h) region = Inr (lbx_file c')"
    and mk: "c_mvk c' = c_mvk c" and bak: "meta_bak c' = (if is_v2_format c then Some region else meta_bak c)"
    and hd: "\<exists>fl. c_header c' = ?h\<lparr>flags := fl\<rparr> \<and> (fl = flags ?h \<or> fl = flags ?h OR 8)"
    by (rule c_write_metadata_effect [OF ok w])
  have small: "?n \<le> 2 ^ 63"
    using ok layout_checks_bounds(1) [of "metadata_offset ?h" "metadata_size ?h" "data_offset ?h"]
    by (simp add: container_ok_def header_wf_def)
  note rt = metadata_roundtrip [OF env small rg]
  have "36 \<le> ?n" using rg by (auto simp: write_metadata_opts_def split: if_splits)
  then have ne: "region \<noteq> []" using rt(1) by auto
  from hd obtain fl where h': "c_header c' = ?h\<lparr>flags := fl\<rparr>" and mm: "masked_metadata_len (c_header c') = masked_metadata_len ?h"
    using masked_len_flags by metis
  have rd: "read_exact (lbx_file c') (metadata_offset ?h) ?n = Inr region"
    using read_after_write [OF live ne] rt(1) by simp
  show "c_read_metadata E (c', r2) = (Inr pt, (c', r2))"
    using rd rt(2) mk h' mm by (simp add: c_read_metadata_def Let_def)
  show "c_read_metadata E (c'\<lparr>lbx_file := f\<rparr>, r2) = (Inr pt, (c'\<lparr>lbx_file := f, recovered_from_mirror := True\<rparr>, r2))"
    if v2: "is_v2_format c" and len: "length f = length (lbx_file c')"
      and bad: "read_metadata_opts E (cipher_suite ?h) (c_mvk c) (header_salt ?h)
        (slice f (unat (metadata_offset ?h)) ?n) (masked_metadata_len ?h) = Inl e"
  proof -
    have "read_exact f (metadata_offset ?h) ?n = Inr (slice f (unat (metadata_offset ?h)) ?n)"
      using rd len by (auto simp: read_exact_def split: if_splits)
    then show ?thesis
      using bad rt mk h' mm bak v2 by (simp add: c_read_metadata_def Let_def)
  qed
qed

section \<open>What a rotation leaves\<close>

lemma revoke_keyslots:
  "revoke_slot h i = Inr h' \<Longrightarrow> i < 8 \<and> keyslots h' = (keyslots h)[i := empty_slot]
     \<and> cipher_suite h' = cipher_suite h \<and> header_salt h' = header_salt h"
  by (auto simp: revoke_slot_def clear_sep_blob_def Let_def split: if_splits)

lemma revoke_all_effect:
  "revoke_all is h = Inr h' \<Longrightarrow> header_wf h \<Longrightarrow>
     header_wf h' \<and> cipher_suite h' = cipher_suite h \<and> header_salt h' = header_salt h
     \<and> (\<forall>j < 8. keyslots h' ! j = (if j \<in> set is then empty_slot else keyslots h ! j))
     \<and> (\<forall>j. sep_blob h' j = (if j \<in> set is then None else sep_blob h j))"
proof (induction "is" arbitrary: h)
  case (Cons i "is")
  from Cons.prems(1) obtain h1 where h1: "revoke_slot h i = Inr h1" and rest: "revoke_all is h1 = Inr h'"
    by (auto simp: res_simps)
  note rk = revoke_keyslots [OF h1] and ef = revoke_slot_effect [OF Cons.prems(2) h1]
  have wf1: "header_wf h1" using Cons.prems(2) h1 by (rule revoke_slot_wf)
  note IH = Cons.IH [OF rest wf1]
  have slots: "keyslots h' ! j = (if j \<in> set (i # is) then empty_slot else keyslots h ! j)" if "j < 8" for j
    using IH rk that header_wf_simps(2) [OF Cons.prems(2)] by (auto simp: nth_list_update)
  have "sep_blob h1 j = (if j = i then None else sep_blob h j)" for j using ef(3,5) by auto
  with IH have blobs: "sep_blob h' j = (if j \<in> set (i # is) then None else sep_blob h j)" for j by auto
  show ?case using IH rk slots blobs by simp
qed simp

lemma revoke_all_total: "list_all (\<lambda>i. i < 8) is \<Longrightarrow> is_ok (revoke_all is h)"
proof (induction "is" arbitrary: h)
  case (Cons i "is")
  then show ?case by (auto simp: revoke_slot_def)
qed simp

section \<open>Swapping slots\<close>

lemma length_swap [simp]: "length (swap xs a b) = length xs"
  by (simp add: swap_def)

lemma swap_nth:
  "a < length xs \<Longrightarrow> b < length xs \<Longrightarrow> i < length xs \<Longrightarrow>
    swap xs a b ! i = xs ! (if i = a then b else if i = b then a else i)"
  by (auto simp: swap_def nth_list_update)

lemma swap_zip: "length xs = length ys \<Longrightarrow> a < length xs \<Longrightarrow> b < length xs \<Longrightarrow>
    zip (swap xs a b) (swap ys a b) = swap (zip xs ys) a b"
  by (rule nth_equalityI) (simp_all add: swap_nth)

lemma mset_swap_idx: "a < length xs \<Longrightarrow> b < length xs \<Longrightarrow> mset (swap xs a b) = mset xs"
  unfolding swap_def by (metis mset_swap)

lemma swap_slots_effect:
  assumes "swap_slots a b (c, r) = (Inr (), (c', r'))" "header_wf (c_header c)"
  shows "deniable c = None" "a < 8" "b < 8"
    "keyslots (c_header c') = swap (keyslots (c_header c)) a b"
    "sep_blobs (c_header c') = swap (sep_blobs (c_header c)) a b"
    "header_salt (c_header c') = header_salt (c_header c)" "cipher_suite (c_header c') = cipher_suite (c_header c)"
proof -
  have l: "length (keyslots (c_header c)) = 8" by (rule header_wf_simps(2) [OF assms(2)])
  show "deniable c = None" "a < 8" "b < 8"
    "keyslots (c_header c') = swap (keyslots (c_header c)) a b"
    "sep_blobs (c_header c') = swap (sep_blobs (c_header c)) a b"
    "header_salt (c_header c') = header_salt (c_header c)" "cipher_suite (c_header c') = cipher_suite (c_header c)"
    using assms(1) l by (auto simp: swap_slots_def res_simps swap_def split: if_splits)
qed

section \<open>Persisting the header\<close>

lemma write_standard_header_effect:
  assumes "write_standard_header E (c, r) = (Inr (), (c', r'))"
  obtains bs fl where "c_header c' = (c_header c)\<lparr>flags := fl\<rparr>"
    "fl = (if is_v2_format c \<and> \<not> has_header_mirror (c_header c) then flags (c_header c) OR 4 else flags (c_header c))"
    "header_to_bytes E (c_header c') (c_mvk c) r = (Inr bs, r')" "c_mvk c' = c_mvk c"
    "header_bak c' = (if is_v2_format c then Some bs else header_bak c)"
    "case header_side c of None \<Rightarrow> write_all (lbx_file c) 0 bs = Inr (lbx_file c') \<and> header_side c' = None
       | Some _ \<Rightarrow> header_side c' = Some bs \<and> lbx_file c' = lbx_file c"
    "meta_bak c' = meta_bak c" "rotating c' = rotating c" "deniable c' = deniable c"
proof -
  define fl where "fl = (if is_v2_format c \<and> \<not> has_header_mirror (c_header c)
    then flags (c_header c) OR 4 else flags (c_header c))"
  define c1 where "c1 = c\<lparr>c_header := (c_header c)\<lparr>flags := fl\<rparr>\<rparr>"
  have first: "(if is_v2_format c \<and> \<not> has_header_mirror (c_header c)
      then c\<lparr>c_header := (c_header c)\<lparr>flags := flags (c_header c) OR 4\<rparr>\<rparr> else c) = c1"
    by (simp add: c1_def fl_def)
  have v2: "is_v2_format c1 = is_v2_format c" by (simp add: c1_def)
  from assms obtain bs r1 c2 r2 where
    bs: "header_to_bytes E (c_header c1) (c_mvk c1) r = (Inr bs, r1)"
    and m: "(if is_v2_format c1 then write_header_mirror bs else retR ()) (c1, r1) = (Inr (), (c2, r2))"
    and l: "write_live_header bs (c2, r2) = (Inr (), (c', r'))"
    unfolding write_standard_header_def bindR_eq_Inr by (auto simp: withC_eq updC_eq crypto_eq_Inr first)
  have c2: "c2 = (if is_v2_format c then c1\<lparr>header_bak := Some bs\<rparr> else c1)" "r2 = r1"
    using m v2 by (auto simp: write_header_mirror_def updC_eq split: if_splits)
  then have c21: "c_header c2 = (c_header c)\<lparr>flags := fl\<rparr>" "c_mvk c2 = c_mvk c" "lbx_file c2 = lbx_file c"
    "header_side c2 = header_side c" "meta_bak c2 = meta_bak c" "rotating c2 = rotating c" "deniable c2 = deniable c"
    "header_bak c2 = (if is_v2_format c then Some bs else header_bak c)"
    by (simp_all add: c1_def)
  have c': "r' = r1" "c_header c' = c_header c2" "c_mvk c' = c_mvk c2" "header_bak c' = header_bak c2"
    "meta_bak c' = meta_bak c2" "rotating c' = rotating c2" "deniable c' = deniable c2"
    "case header_side c2 of None \<Rightarrow> write_all (lbx_file c2) 0 bs = Inr (lbx_file c') \<and> header_side c' = None
       | Some _ \<Rightarrow> header_side c' = Some bs \<and> lbx_file c' = lbx_file c2"
    using l c2(2) by (auto simp: write_live_header_def lbxC_eq_Inr split: option.splits)
  show thesis
  proof (rule that [of fl bs])
    show "c_header c' = (c_header c)\<lparr>flags := fl\<rparr>" using c' c21 by simp
    show "header_to_bytes E (c_header c') (c_mvk c) r = (Inr bs, r')" using bs c' c21 by (simp add: c1_def)
    show "case header_side c of None \<Rightarrow> write_all (lbx_file c) 0 bs = Inr (lbx_file c') \<and> header_side c' = None
       | Some _ \<Rightarrow> header_side c' = Some bs \<and> lbx_file c' = lbx_file c"
      using c'(8) c21 by (cases "header_side c") simp_all
  qed (use c' c21 in \<open>simp_all add: fl_def\<close>)
qed

lemma header_wf_flags:
  "header_wf h \<Longrightarrow> fl AND 16 = flags h AND 16 \<Longrightarrow> header_wf (h\<lparr>flags := fl\<rparr>)"
  by (simp add: header_wf_def has_sep_region_def has_header_generation_def)

lemma or_4_mask: "(x OR 4) AND 16 = (x AND 16 :: u32)" "(x OR 8) AND 16 = (x AND 16 :: u32)"
proof -
  have "(4 :: u32) AND 16 = 0" "(8 :: u32) AND 16 = 0" by simp_all
  then show "(x OR 4) AND 16 = (x AND 16 :: u32)" "(x OR 8) AND 16 = (x AND 16 :: u32)"
    by (simp_all add: bit.conj_disj_distrib2)
qed

text \<open>The header bytes an opener would read.\<close>

definition stored_header :: "Container \<Rightarrow> bytes option" where
  "stored_header c =
     (case header_side c of
        Some bs \<Rightarrow> Some bs
      | None \<Rightarrow> (case read_exact (lbx_file c) 0 HEADER_SIZE of Inl _ \<Rightarrow> None | Inr bs \<Rightarrow> Some bs))"

lemma write_all_zero:
  "bs \<noteq> [] \<Longrightarrow> write_all f 0 bs = Inr (bs @ drop (length bs) f)"
  by (simp add: write_all_def put_def)

lemma write_standard_header_live:
  assumes "env_live E"
  shows "\<exists>c' r'. write_standard_header E (c, r) = (Inr (), (c', r'))"
proof -
  have "\<exists>x s'. write_standard_header E s = (Inr x, s')" for s
  proof -
    obtain c r where s: "s = (c, r)" by (cases s)
    let ?c1 = "fst (snd (updC (\<lambda>c. if is_v2_format c \<and> \<not> has_header_mirror (c_header c)
       then c\<lparr>c_header := (c_header c)\<lparr>flags := flags (c_header c) OR 4\<rparr>\<rparr> else c) (c, r)))"
    obtain bs r1 where bs: "header_to_bytes E (c_header ?c1) (c_mvk ?c1) r = (Inr bs, r1)"
      using header_to_bytes_live [OF assms] unfolding succeeds_def by blast
    have live: "\<exists>c' r'. write_live_header bs (c2, r2) = (Inr (), (c', r'))" for c2 :: Container and r2
      by (cases "header_side c2") (auto simp: write_live_header_def lbxC_def write_all_def)
    show ?thesis
      using bs live
      by (auto simp: s write_standard_header_def bindR_eq_Inr updC_def withC_def crypto_def write_header_mirror_def
          retR_def split: if_splits)
  qed
  then show ?thesis by force
qed

lemma persist_standard:
  assumes "deniable c = None" "header_dirty c" "env_live E"
    and "has_header_generation (c_header c) \<longrightarrow> unat (header_generation (c_header c)) + 1 < 2 ^ 64"
  obtains g c1 c' r' where
    "persist_header E (c, r) = (Inr (), (c', r'))" "c' = c1\<lparr>header_dirty := False\<rparr>"
    "write_standard_header E (c\<lparr>c_header := (c_header c)\<lparr>header_generation := g\<rparr>\<rparr>, r) = (Inr (), (c1, r'))"
    "if has_header_generation (c_header c) then unat g = unat (header_generation (c_header c)) + 1
     else g = header_generation (c_header c)"
proof -
  define g where "g = (if has_header_generation (c_header c) then header_generation (c_header c) + 1
    else header_generation (c_header c))"
  have one: "unat (1 :: u64) = 1" by simp
  have ng: "(if has_header_generation (c_header c) then next_header_generation (header_generation (c_header c))
      else Inr (header_generation (c_header c))) = Inr g"
    using assms(4) by (simp add: g_def next_header_generation_def checked_add_u64_def one)
  obtain c1 r' where w: "write_standard_header E (c\<lparr>c_header := (c_header c)\<lparr>header_generation := g\<rparr>\<rparr>, r) = (Inr (), (c1, r'))"
    using write_standard_header_live [OF assms(3)] by blast
  show thesis
  proof (rule that [of "c1\<lparr>header_dirty := False\<rparr>" r' c1 g])
    show "persist_header E (c, r) = (Inr (), (c1\<lparr>header_dirty := False\<rparr>, r'))"
      using assms(1,2) ng w by (simp add: persist_header_def Let_def)
    show "if has_header_generation (c_header c) then unat g = unat (header_generation (c_header c)) + 1
     else g = header_generation (c_header c)"
      using assms(4) by (auto simp: g_def unat_word_ariths)
  qed (use w in simp_all)
qed

lemma persist_header_effect:
  assumes env: "rng_fills E" "digest_lengths E" "env_live E"
    and c: "header_wf (c_header c)" "deniable c = None" "header_dirty c"
    and gen: "has_header_generation (c_header c) \<longrightarrow> unat (header_generation (c_header c)) + 1 < 2 ^ 64"
  shows "\<exists>c' r' bs. persist_header E (c, r) = (Inr (), (c', r')) \<and> \<not> header_dirty c'
    \<and> stored_header c' = Some bs \<and> length bs = HEADER_SIZE \<and> (is_v2_format c \<longrightarrow> header_bak c' = Some bs)
    \<and> header_from_bytes bs = Inr (c_header c') \<and> verify_hmac E (c_header c') bs (c_mvk c) = Inr ()
    \<and> c_mvk c' = c_mvk c
    \<and> (\<exists>fl g. c_header c' = (c_header c)\<lparr>flags := fl, header_generation := g\<rparr>
        \<and> (if has_header_generation (c_header c) then unat g = unat (header_generation (c_header c)) + 1
           else g = header_generation (c_header c)))
    \<and> drop HEADER_SIZE (lbx_file c') = drop HEADER_SIZE (lbx_file c)"
proof -
  let ?h = "c_header c"
  obtain g c1 c' r' where p: "persist_header E (c, r) = (Inr (), (c', r'))" and c': "c' = c1\<lparr>header_dirty := False\<rparr>"
    and w: "write_standard_header E (c\<lparr>c_header := ?h\<lparr>header_generation := g\<rparr>\<rparr>, r) = (Inr (), (c1, r'))"
    and g: "if has_header_generation ?h then unat g = unat (header_generation ?h) + 1 else g = header_generation ?h"
    by (rule persist_standard [OF c(2,3) env(3) gen])
  let ?c0 = "c\<lparr>c_header := ?h\<lparr>header_generation := g\<rparr>\<rparr>"
  have v2: "is_v2_format ?c0 = is_v2_format c" by (simp add: is_v2_format_def)
  from w obtain bs fl where h1: "c_header c1 = ?h\<lparr>header_generation := g, flags := fl\<rparr>"
    and fl: "fl = (if is_v2_format ?c0 \<and> \<not> has_header_mirror (c_header ?c0) then flags (c_header ?c0) OR 4
              else flags (c_header ?c0))"
    and bs: "header_to_bytes E (c_header c1) (c_mvk ?c0) r = (Inr bs, r')" and mk: "c_mvk c1 = c_mvk c"
    and bak: "header_bak c1 = (if is_v2_format ?c0 then Some bs else header_bak ?c0)"
    and live: "case header_side ?c0 of None \<Rightarrow> write_all (lbx_file ?c0) 0 bs = Inr (lbx_file c1) \<and> header_side c1 = None
       | Some _ \<Rightarrow> header_side c1 = Some bs \<and> lbx_file c1 = lbx_file ?c0"
    by (rule write_standard_header_effect) simp
  have "header_wf (?h\<lparr>header_generation := g\<rparr>)"
    using c(1) g by (auto simp: header_wf_def has_sep_region_def has_header_generation_def)
  moreover have "fl AND 16 = flags (?h\<lparr>header_generation := g\<rparr>) AND 16" using fl by (simp add: or_4_mask)
  ultimately have wf: "header_wf (c_header c1)" unfolding h1 by (rule header_wf_flags)
  have bs': "header_to_bytes E (c_header c1) (c_mvk c) r = (Inr bs, r')" using bs by simp
  note wr = header_written_read [OF env(1,2) wf bs']
  have ne: "bs \<noteq> []" using wr(1) by auto
  have st: "stored_header c1 = Some bs" "drop 8192 (lbx_file c1) = drop 8192 (lbx_file c)"
  proof (atomize (full), cases "header_side c")
    case None
    then have "lbx_file c1 = bs @ drop 8192 (lbx_file c)" "header_side c1 = None"
      using live write_all_zero [OF ne, of "lbx_file c"] wr(1) by simp_all
    then show "stored_header c1 = Some bs \<and> drop 8192 (lbx_file c1) = drop 8192 (lbx_file c)"
      using wr(1) by (simp add: stored_header_def read_exact_def slice_def)
  next
    case (Some x)
    then show "stored_header c1 = Some bs \<and> drop 8192 (lbx_file c1) = drop 8192 (lbx_file c)"
      using live by (simp add: stored_header_def)
  qed
  have "stored_header c' = Some bs" using st(1) by (cases "header_side c1") (simp_all add: c' stored_header_def)
  moreover have "\<exists>fl g. c_header c' = ?h\<lparr>flags := fl, header_generation := g\<rparr>
        \<and> (if has_header_generation ?h then unat g = unat (header_generation ?h) + 1 else g = header_generation ?h)"
    using g by (intro exI [of _ fl] exI [of _ g]) (simp add: c' h1)
  ultimately show ?thesis
    using p wr mk bak v2 st(2) by (intro exI [of _ c'] exI [of _ r'] exI [of _ bs]) (simp add: c')
qed

lemma enroll_passphrase_effect:
  assumes env: "aead_correct E" "rng_fills E" "env_live E" "argon2_ready E params" "is_sane_for_disk params"
    and c: "header_wf (c_header c)" "deniable c = None" "length (c_mvk c) = 32"
    and free: "list_ex slot_is_empty (keyslots (c_header c))"
  shows "\<exists>idx c' r'. enroll_passphrase E pw params (c, r) = (Inr idx, (c', r'))
    \<and> idx < MAX_KEYSLOTS \<and> slot_is_empty (keyslots (c_header c) ! idx)
    \<and> (\<forall>j < idx. \<not> slot_is_empty (keyslots (c_header c) ! j))
    \<and> (\<forall>j. j \<noteq> idx \<longrightarrow> keyslots (c_header c') ! j = keyslots (c_header c) ! j)
    \<and> sep_blobs (c_header c') = sep_blobs (c_header c)
    \<and> unlock_passphrase E (cipher_suite (c_header c)) (keyslots (c_header c') ! idx) pw (header_salt (c_header c))
        = Inr (c_mvk c)
    \<and> header_wf (c_header c') \<and> header_dirty c'"
proof -
  let ?h = "c_header c"
  let ?build = "\<lambda>h mvk. new_passphrase E (cipher_suite h) mvk pw params (header_salt h)"
  have "succeeds (?build ?h (c_mvk c))"
    by (rule pp.enroll_total [OF env(3,1,4) c(3)])
  then obtain idx c' r' where e: "enroll_passphrase E pw params (c, r) = (Inr idx, (c', r'))"
    using enroll_with_live [of c ?build r] c(1,2) free by (auto simp: enroll_passphrase_def list_ex_iff)
  from e [unfolded enroll_passphrase_def] obtain slot where
    ff: "first_free_slot ?h = Inr idx" and new: "?build ?h (c_mvk c) r = (Inr slot, r')" and i: "idx < 8"
    and c': "c' = c\<lparr>c_header := ?h\<lparr>keyslots := (keyslots ?h)[idx := slot]\<rparr>, header_dirty := True\<rparr>"
    by (rule enroll_with_effect)
  have wf: "header_wf (?h\<lparr>keyslots := (keyslots ?h)[idx := slot]\<rparr>)"
  proof (rule install_slot_wf [OF c(1)])
    show "slot_wf slot" using pp.enroll_wf [OF env(2,5) new] by blast
    show "install_slot ?h idx slot = Inr (?h\<lparr>keyslots := (keyslots ?h)[idx := slot]\<rparr>)"
      using i by (simp add: install_slot_def)
  qed
  have u: "unlock_passphrase E (cipher_suite ?h) slot pw (header_salt ?h) = Inr (c_mvk c)"
    by (rule pp.unlock_enrolled [OF env(1) c(3) new])
  have pos: "slot_is_empty (keyslots ?h ! idx)" "\<forall>j < idx. \<not> slot_is_empty (keyslots ?h ! j)"
    using ff by (auto simp: first_free_slot_def position_eq_Some)
  show ?thesis
    using e i pos u wf header_wf_simps(2) [OF c(1)] by (simp add: c')
qed

section \<open>Properties\<close>

definition demo_container :: Container where
  "demo_container = \<lparr>lbx_file = replicate 131072 0, header_side = None, header_bak = None, meta_bak = None,
     c_header = demo_header, c_mvk = replicate 32 5, header_dirty = True, rotating = False, deniable = None,
     recovered_from_mirror = False\<rparr>"

lemma demo_container_ok: "container_ok demo_container"
  using demo_header_wf by (simp add: container_ok_def demo_container_def demo_header_def)

lemma demo_container_sel [simp]:
  "c_header demo_container = demo_header" "c_mvk demo_container = replicate 32 5" "header_dirty demo_container"
  "deniable demo_container = None" "header_side demo_container = None" "is_v2_format demo_container"
  by (simp_all add: demo_container_def is_v2_format_def demo_header_def)

text \<open>
  C31: enrolling a passphrase adds exactly one way in. On a vault with a free slot it succeeds; the slot
  it fills is the lowest free one, every other slot and every enclave blob is unchanged, the header
  stays well formed and is marked for writing, and the passphrase now unlocks the container's own
  volume key.
\<close>

theorem enroll_passphrase_correct:
  assumes env: "aead_correct E" "rng_fills E" "env_live E" "argon2_ready E params" "is_sane_for_disk params"
    and c: "header_wf (c_header c)" "deniable c = None" "length (c_mvk c) = 32"
    and free: "list_ex slot_is_empty (keyslots (c_header c))"
  shows "\<exists>idx c' r'. enroll_passphrase E pw params (c, r) = (Inr idx, (c', r'))
    \<and> idx < MAX_KEYSLOTS \<and> slot_is_empty (keyslots (c_header c) ! idx)
    \<and> (\<forall>j < idx. \<not> slot_is_empty (keyslots (c_header c) ! j))
    \<and> (\<forall>j. j \<noteq> idx \<longrightarrow> keyslots (c_header c') ! j = keyslots (c_header c) ! j)
    \<and> sep_blobs (c_header c') = sep_blobs (c_header c)
    \<and> unlock_passphrase E (cipher_suite (c_header c)) (keyslots (c_header c') ! idx) pw (header_salt (c_header c))
        = Inr (c_mvk c)
    \<and> header_wf (c_header c') \<and> header_dirty c'"
  by (rule enroll_passphrase_effect [OF assms])

theorem enroll_passphrase_correct_witness:
  "\<exists>idx c' r'. enroll_passphrase demo_env [1, 2] INTERACTIVE (demo_container, 0) = (Inr idx, (c', r'))
     \<and> unlock_passphrase demo_env Aes256GcmSiv (keyslots (c_header c') ! idx) [1, 2] (replicate 32 7) = Inr (replicate 32 5)
     \<and> header_wf (c_header c')"
  using enroll_passphrase_correct [OF demo_env_ok(1,2) demo_env_live, of INTERACTIVE demo_container "[1, 2]" 0]
    demo_header_wf
  by (auto simp: demo_argon2_ready presets_sane demo_header_def slot_is_empty_def empty_slot_def)

text \<open>
  C30: metadata is not lost to a damaged live region. After a metadata write the container reads the same
  plaintext back; on a vault of header version 2 or later this still holds after the whole vault file is
  replaced by any bytes of the same length whose metadata region does not authenticate, because the
  mirror already holds the new region.
\<close>

theorem metadata_survives_damage:
  assumes "rng_fills E" "digest_lengths E" "aead_correct E" "container_ok c"
    and "c_write_metadata E pt (c, r) = (Inr (), (c', r'))"
  shows "fst (c_read_metadata E (c', r2)) = Inr pt
    \<and> (\<forall>f e. is_v2_format c \<and> length f = length (lbx_file c')
         \<and> read_metadata_opts E (cipher_suite (c_header c)) (c_mvk c) (header_salt (c_header c))
             (slice f (unat (metadata_offset (c_header c))) (unat (metadata_size (c_header c))))
             (masked_metadata_len (c_header c)) = Inl e
         \<longrightarrow> fst (c_read_metadata E (c'\<lparr>lbx_file := f\<rparr>, r2)) = Inr pt)"
  using c_read_after_write [OF assms] by auto

lemma zero_region_corrupt: "read_metadata_opts E suite mvk hs (replicate n 0) False = Inl MetadataCorrupt"
proof -
  have "u64_from_le (replicate m 0) = 0" for m
    by (induction m) (simp_all add: u64_from_le_def)
  then show ?thesis by (simp add: read_metadata_opts_def Let_def slice_def stored_len_of_def)
qed

theorem metadata_survives_damage_witness:
  "\<exists>c' r'. c_write_metadata demo_env [1, 2, 3] (demo_container, 0) = (Inr (), (c', r'))
     \<and> fst (c_read_metadata demo_env (c', r')) = Inr [1, 2, 3]
     \<and> fst (c_read_metadata demo_env (c'\<lparr>lbx_file := replicate (length (lbx_file c')) 0\<rparr>, r')) = Inr [1, 2, 3]"
proof -
  have "succeeds (write_metadata_opts demo_env Aes256GcmSiv (replicate 32 5) (replicate 32 7) [1, 2, 3] 65536 False)"
    by (rule write_metadata_live [OF demo_env_live]) simp_all
  then obtain region r1 where "write_metadata_opts demo_env Aes256GcmSiv (replicate 32 5) (replicate 32 7) [1, 2, 3] 65536 False 0
      = (Inr region, r1)"
    unfolding succeeds_def by blast
  then have "\<exists>c' r'. c_write_metadata demo_env [1, 2, 3] (demo_container, 0) = (Inr (), (c', r'))"
    by (auto simp: c_write_metadata_def bindR_eq_Inr withC_def build_metadata_region_def mirror_metadata_if_v2_def
        write_metadata_mirror_def overwrite_live_metadata_def updC_def lbxC_def write_all_def demo_header_def
        masked_metadata_len_def Let_def)
  then obtain c' r' where w: "c_write_metadata demo_env [1, 2, 3] (demo_container, 0) = (Inr (), (c', r'))" by blast
  have "masked_metadata_len demo_header = False" by (simp add: masked_metadata_len_def demo_header_def)
  then have "read_metadata_opts demo_env (cipher_suite (c_header demo_container)) (c_mvk demo_container) (header_salt (c_header demo_container))
      (slice (replicate (length (lbx_file c')) 0) (unat (metadata_offset (c_header demo_container))) (unat (metadata_size (c_header demo_container))))
      (masked_metadata_len (c_header demo_container)) = Inl MetadataCorrupt"
    by (simp add: slice_def zero_region_corrupt)
  then have "fst (c_read_metadata demo_env (c'\<lparr>lbx_file := replicate (length (lbx_file c')) 0\<rparr>, r')) = Inr [1, 2, 3]"
    using metadata_survives_damage [OF demo_env_ok(2,3,1) demo_container_ok w, of r', THEN conjunct2] by simp
  with w metadata_survives_damage [OF demo_env_ok(2,3,1) demo_container_ok w] show ?thesis by blast
qed



text \<open>
  C32: rotating the volume key to a single passphrase slot leaves no other way in. Afterwards the chosen slot
  unlocks to the new volume key, every other slot is empty and has no enclave blob, and the container
  uses the new key.
\<close>

theorem rotation_leaves_one_slot:
  assumes "aead_correct E" "length new_mvk = 32" "header_wf (c_header c)"
    and "install_rotated_mvk_passphrase E i new_mvk pw params (c, r) = (Inr (), (c', r'))"
  shows "i < MAX_KEYSLOTS \<and> c_mvk c' = new_mvk \<and> header_dirty c'
    \<and> unlock_passphrase E (cipher_suite (c_header c')) (keyslots (c_header c') ! i) pw (header_salt (c_header c'))
        = Inr new_mvk
    \<and> (\<forall>j < MAX_KEYSLOTS. j \<noteq> i \<longrightarrow> keyslots (c_header c') ! j = empty_slot \<and> sep_blob (c_header c') j = None)"
proof -
  let ?h = "c_header c"
  let ?is = "filter (\<lambda>j. j \<noteq> i) [0..<8]"
  from assms(4) obtain slot h1 where i: "i < 8"
    and new: "new_passphrase E (cipher_suite ?h) new_mvk pw params (header_salt ?h) r = (Inr slot, r')"
    and rv: "revoke_all ?is ?h = Inr h1"
    and c': "c' = c\<lparr>c_header := h1\<lparr>keyslots := (keyslots h1)[i := slot]\<rparr>, c_mvk := new_mvk, header_dirty := True\<rparr>"
    by (auto simp: install_rotated_mvk_passphrase_def res_simps updC_eq install_slot_def split: if_splits)
  note ra = revoke_all_effect [OF rv assms(3)]
  have l: "length (keyslots h1) = 8" using ra header_wf_simps(2) by blast
  have "unlock_passphrase E (cipher_suite ?h) slot pw (header_salt ?h) = Inr new_mvk"
    by (rule pp.unlock_enrolled [OF assms(1,2) new])
  moreover have "sep_blob (h1\<lparr>keyslots := ks\<rparr>) j = sep_blob h1 j" for ks j by (simp add: sep_blob_def)
  ultimately show ?thesis using ra i l by (simp add: c')
qed

theorem rotation_leaves_one_slot_witness:
  "\<exists>c' r'. install_rotated_mvk_passphrase demo_env 0 (replicate 32 8) [1] INTERACTIVE (demo_container, 0) = (Inr (), (c', r'))
     \<and> c_mvk c' = replicate 32 8 \<and> keyslots (c_header c') ! 1 = empty_slot"
proof -
  obtain slot r1 where "new_passphrase demo_env (cipher_suite demo_header) (replicate 32 8) [1] INTERACTIVE
      (header_salt demo_header) 0 = (Inr slot, r1)"
    using pp.enroll_total [OF demo_env_live demo_env_ok(1) demo_argon2_ready [OF presets_sane(1)]]
    unfolding succeeds_def by force
  moreover obtain h1 where "revoke_all (filter (\<lambda>j. j \<noteq> 0) [0..<8]) demo_header = Inr h1"
    using revoke_all_total [of "filter (\<lambda>j. j \<noteq> 0) [0..<8]" demo_header] by (auto simp: list_all_iff is_ok_iff)
  ultimately have "\<exists>c' r'. install_rotated_mvk_passphrase demo_env 0 (replicate 32 8) [1] INTERACTIVE (demo_container, 0)
      = (Inr (), (c', r'))"
    by (simp add: install_rotated_mvk_passphrase_def res_simps updC_eq install_slot_def)
  then obtain c' r' where rot: "install_rotated_mvk_passphrase demo_env 0 (replicate 32 8) [1] INTERACTIVE (demo_container, 0)
      = (Inr (), (c', r'))" by blast
  have "header_wf (c_header demo_container)" using demo_header_wf by simp
  from rotation_leaves_one_slot [OF demo_env_ok(1) _ this rot] rot show ?thesis by auto
qed

lemma required_len_sum:
  "sep_region_required_len bs = 1 + sum_list (map (\<lambda>b. case b of None \<Rightarrow> 0 | Some x \<Rightarrow> 3 + length x) bs)"
  by (induction bs) (auto split: option.splits)

lemma required_len_mset: "mset bs = mset bs' \<Longrightarrow> sep_region_required_len bs = sep_region_required_len bs'"
  by (metis required_len_sum sum_mset_sum_list mset_map)

lemma swap_slots_wf:
  assumes "header_wf (c_header c)" "swap_slots a b (c, r) = (Inr (), (c', r'))"
  shows "header_wf (c_header c')"
proof -
  let ?h = "c_header c"
  note ef = swap_slots_effect [OF assms(2,1)] and hw = header_wf_simps [OF assms(1)]
  have h': "c_header c' = ?h\<lparr>keyslots := swap (keyslots ?h) a b, sep_blobs := swap (sep_blobs ?h) a b\<rparr>"
    using assms(2) by (auto simp: swap_slots_def res_simps swap_def updC_eq split: if_splits)
  have "sep_region_required_len (swap (sep_blobs ?h) a b) = sep_region_required_len (sep_blobs ?h)"
    using ef(2,3) hw(3) by (intro required_len_mset mset_swap_idx) simp_all
  moreover have "set (swap (keyslots ?h) a b) = set (keyslots ?h)"
    using mset_swap_idx [of a "keyslots ?h" b] ef(2,3) hw(2) by (metis set_mset_mset)
  moreover have "sep_blobs ?h = replicate 8 None \<Longrightarrow> swap (sep_blobs ?h) a b = replicate 8 None"
    using ef(2,3) by (intro nth_equalityI) (simp_all add: swap_nth)
  ultimately show ?thesis
    using assms(1) by (auto simp: h' header_wf_def list_all_iff has_sep_region_def has_header_generation_def)
qed

text \<open>
  Swapping two slots moves each slot together with its enclave blob. It succeeds exactly when both
  indices exist (on a standard vault); the pairs of slot and blob are the same as a multiset, the
  header stays well formed, and swapping again restores the table.
\<close>

theorem swap_slots_moves_pairs:
  assumes "header_wf (c_header c)" "deniable c = None"
  shows "(is_ok (fst (swap_slots a b (c, r))) \<longleftrightarrow> a < MAX_KEYSLOTS \<and> b < MAX_KEYSLOTS)
    \<and> (\<forall>c' r'. swap_slots a b (c, r) = (Inr (), (c', r')) \<longrightarrow>
        mset (zip (keyslots (c_header c')) (sep_blobs (c_header c')))
          = mset (zip (keyslots (c_header c)) (sep_blobs (c_header c)))
        \<and> header_wf (c_header c')
        \<and> keyslots (c_header c') ! a = keyslots (c_header c) ! b
        \<and> sep_blob (c_header c') a = sep_blob (c_header c) b
        \<and> swap (keyslots (c_header c')) a b = keyslots (c_header c)
        \<and> swap (sep_blobs (c_header c')) a b = sep_blobs (c_header c))"
proof (intro conjI allI impI)
  note hw = header_wf_simps [OF assms(1)]
  show "is_ok (fst (swap_slots a b (c, r))) \<longleftrightarrow> a < MAX_KEYSLOTS \<and> b < MAX_KEYSLOTS"
    using assms(2) hw(2)
    by (auto simp: swap_slots_def bindR_def guard_no_deniable_slot_mutation_def withC_def updC_def is_deniable_def
        retR_def failR_def)
  fix c' r' assume sw: "swap_slots a b (c, r) = (Inr (), (c', r'))"
  note ef = swap_slots_effect [OF sw assms(1)]
  show "header_wf (c_header c')" by (rule swap_slots_wf [OF assms(1) sw])
  show "mset (zip (keyslots (c_header c')) (sep_blobs (c_header c')))
      = mset (zip (keyslots (c_header c)) (sep_blobs (c_header c)))"
    using ef(2-5) hw(2,3) by (simp add: swap_zip mset_swap_idx)
  show "keyslots (c_header c') ! a = keyslots (c_header c) ! b"
    "sep_blob (c_header c') a = sep_blob (c_header c) b"
    using ef(2-5) hw(2,3) by (simp_all add: swap_nth sep_blob_def)
  show "swap (keyslots (c_header c')) a b = keyslots (c_header c)"
    "swap (sep_blobs (c_header c')) a b = sep_blobs (c_header c)"
    using ef(2-5) hw(2,3) by (auto intro!: nth_equalityI simp: swap_nth)
qed

theorem swap_slots_moves_pairs_witness:
  "\<exists>c' r'. swap_slots 0 1 (demo_container, 0 :: nat) = (Inr (), (c', r')) \<and> keyslots (c_header c') ! 0 = demo_slot
     \<and> sep_blob (c_header c') 0 = Some [1, 2, 3]"
proof -
  have wf: "header_wf (c_header demo_container)" using demo_header_wf by simp
  note sw = swap_slots_moves_pairs [OF wf, of 0 1 "0 :: nat"]
  have "is_ok (fst (swap_slots 0 1 (demo_container, 0 :: nat)))" using sw by simp
  then obtain c' r' where s: "swap_slots 0 1 (demo_container, 0 :: nat) = (Inr (), (c', r'))"
    by (cases "swap_slots 0 1 (demo_container, 0 :: nat)") (auto simp: is_ok_iff)
  have d: "deniable demo_container = None" by simp
  have "keyslots (c_header c') ! 0 = keyslots demo_header ! 1" "sep_blob (c_header c') 0 = sep_blob demo_header 1"
    using sw [OF d, THEN conjunct2, rule_format, OF s] by simp_all
  moreover have "keyslots demo_header ! 1 = demo_slot" "sep_blob demo_header 1 = Some [1, 2, 3]"
    by (simp_all add: demo_header_def sep_blob_def)
  ultimately show ?thesis using s by metis
qed

text \<open>
  C33: an enrolment that fails changes no enrolled credential. Every enrolment but those of enclave slots
  has the body \<open>enroll_with\<close>; when it fails, at whatever step and with whatever way of building the slot, the
  container is as it was. A failed enclave enrolment leaves every slot, the volume key and the mark for
  writing as they were, even one that failed because the blob does not fit after the slot was already
  installed; it leaves every blob too, except that the free slot which was tried has none afterwards.
\<close>

theorem failed_enroll_keeps_table:
  assumes "header_wf (c_header c)"
  shows "(\<forall>build e c' r'. enroll_with build (c, r) = (Inl e, (c', r')) \<longrightarrow> c' = c)
    \<and> (\<forall>e c' r'. enroll_sep E k sh blob oh opw params opq cred hsalt (c, r) = (Inl e, (c', r')) \<longrightarrow>
        keyslots (c_header c') = keyslots (c_header c) \<and> c_mvk c' = c_mvk c \<and> header_dirty c' = header_dirty c
        \<and> (sep_blobs (c_header c') = sep_blobs (c_header c)
           \<or> (\<exists>idx. first_free_slot (c_header c) = Inr idx
                \<and> sep_blobs (c_header c') = (sep_blobs (c_header c))[idx := None])))"
proof (intro conjI [of "\<forall>build e c' r'. _ build e c' r'"] allI impI)
  show "c' = c" if "enroll_with build (c, r) = (Inl e, (c', r'))" for build e c' r'
    by (rule enroll_with_fails [OF that])
  fix e c' r'
  assume f: "enroll_sep E k sh blob oh opw params opq cred hsalt (c, r) = (Inl e, (c', r'))"
  show "keyslots (c_header c') = keyslots (c_header c) \<and> c_mvk c' = c_mvk c \<and> header_dirty c' = header_dirty c
        \<and> (sep_blobs (c_header c') = sep_blobs (c_header c)
           \<or> (\<exists>idx. first_free_slot (c_header c) = Inr idx \<and> sep_blobs (c_header c') = (sep_blobs (c_header c))[idx := None]))"
  proof (cases "c' = c")
    case False
    with f obtain idx slot r1 where ff: "first_free_slot (c_header c) = Inr idx" and i: "idx < 8"
      and st: "store_sep_blob idx blob (c\<lparr>c_header := (c_header c)\<lparr>keyslots := (keyslots (c_header c))[idx := slot]\<rparr>\<rparr>, r1)
        = (Inl e, (c', r'))"
      by (auto simp: enroll_sep_def res_simps install_slot_def split: if_splits)
    have el: "slot_is_empty (keyslots (c_header c) ! idx)" "idx < length (keyslots (c_header c))"
      using ff by (auto simp: first_free_slot_def position_eq_Some)
    have "slot_wf (keyslots (c_header c) ! idx)"
      using header_wf_simps(4) [OF assms] el(2) by (simp add: list_all_length)
    then have em: "keyslots (c_header c) ! idx = empty_slot"
      using el(1) by (simp add: slot_wf_def slot_is_empty_def)
    from st i ff show ?thesis
      using em header_wf_simps(2,3) [OF assms]
      by (auto simp: store_sep_blob_def revoke_slot_def clear_sep_blob_def Let_def list_update_same_conv
          split: sum.splits if_splits)
  qed simp
qed

text \<open>The enrolment of the witness builds its slot, installs it, and is undone because the blob does not fit.\<close>

theorem failed_enroll_keeps_table_witness:
  "\<exists>c' r'. enroll_sep demo_env SepSealed (replicate 32 1) (replicate 4000 2) None None INTERACTIVE None [] (replicate 32 8)
       (demo_container, 0) = (Inl (Crypto SepRegionFull), (c', r'))
     \<and> keyslots (c_header c') = keyslots demo_header \<and> header_dirty c'"
proof -
  have "\<exists>s r1 buf r2. new_sep demo_env Aes256GcmSiv (replicate 32 5) SepSealed (replicate 32 1) None None INTERACTIVE None [] (replicate 32 8)
      (replicate 32 7) 0 = (Inr s, r1) \<and> slot_to_bytes demo_env s r1 = (Inr buf, r2) \<and> slot_from_bytes buf = Inr s
      \<and> unlock_sep demo_env Aes256GcmSiv s (replicate 32 1) None None None (replicate 32 7) = Inr (replicate 32 5)"
    by (rule sep.enroll_disk_unlock) (simp_all add: demo_env_ok demo_env_live presets_sane sep_factor_checks_def
        check_sep_factors_def reject_null_factor_def reject_null_opt_def kind_class_defs list_all_iff)
  then obtain s r1 where s: "new_sep demo_env Aes256GcmSiv (replicate 32 5) SepSealed (replicate 32 1) None None INTERACTIVE None []
      (replicate 32 8) (replicate 32 7) 0 = (Inr s, r1)" by blast
  have ff: "first_free_slot demo_header = Inr 0"
    by (simp add: first_free_slot_def demo_header_def slot_is_empty_def empty_slot_def)
  have full: "set_sep_blob (demo_header\<lparr>keyslots := ks\<rparr>) 0 (replicate 4000 2) = Inl SepRegionFull" for ks
    by (simp add: set_sep_blob_def demo_header_def Let_def)
  have "\<exists>c' r'. enroll_sep demo_env SepSealed (replicate 32 1) (replicate 4000 2) None None INTERACTIVE None [] (replicate 32 8)
      (demo_container, 0) = (Inl (Crypto SepRegionFull), (c', r'))"
    using s ff full
    by (auto simp: enroll_sep_def guard_no_deniable_slot_mutation_def is_deniable_def withC_def headerC_def install_slot_def
        store_sep_blob_def crypto_def bindR_def liftR_def retR_def demo_header_def split: sum.splits)
  then obtain c' r' where e: "enroll_sep demo_env SepSealed (replicate 32 1) (replicate 4000 2) None None INTERACTIVE None [] (replicate 32 8)
      (demo_container, 0) = (Inl (Crypto SepRegionFull), (c', r'))" by blast
  have "header_wf (c_header demo_container)" by (simp add: demo_header_wf)
  from failed_enroll_keeps_table [OF this, THEN conjunct2, rule_format, OF e] e show ?thesis by auto
qed

end
