(* ===== verification/Lbx_Open.thy ===== *)
theory Lbx_Open
  imports Lbx_Container
begin

text \<open>
  Creating and opening a vault (\<open>create_*\<close>, \<open>try_unlock\<close>, \<open>open\<close> and \<open>open_with_mvk\<close> of
  \<open>luksbox-format/src/container.rs\<close>). The files of a vault are the record \<open>Disk\<close>: the vault
  file, the detached header if the caller names one, and the two mirror sidecars. Opening tries
  the unlock material against the keyslots of the live header, verifies the header's HMAC under the
  recovered key, and falls back to the header mirror only where the live header does not parse.

  Opening the files themselves (permissions, symbolic links, inode checks, advisory locks) is not
  modelled: the model starts from their contents. The unseal closures of the TPM and Secure Enclave
  arms are functions from a blob to a result.
\<close>

unbundle bit_operations_syntax

section \<open>Unlock material\<close>

type_synonym unsealer = "bytes \<Rightarrow> string + bytes"

datatype UnlockMaterial =
    M_Passphrase bytes
  | M_Fido2 "bytes option" bytes bytes
  | M_HybridPqPassphrase bytes bytes
  | M_HybridPqFido2 "bytes option" bytes bytes bytes
  | M_Tpm2 unsealer
  | M_Tpm2Fido2 unsealer bytes bytes
  | M_HybridPqTpm2 unsealer bytes
  | M_HybridPqTpm2Fido2 unsealer bytes bytes bytes
  | M_Sep unsealer "bytes option" "bytes option" "bytes option"

section \<open>Trying the keyslots\<close>

text \<open>
  Two loop shapes. The passphrase arms visit every slot and keep the first key found, so that the
  time does not tell which slot matched; the others leave the loop at the first slot whose attempt
  decides. An attempt is \<open>None\<close> where the source continues with the next slot.
\<close>

fun try_every :: "(Keyslot \<Rightarrow> bool) \<Rightarrow> (Keyslot \<Rightarrow> bytes res) \<Rightarrow> bytes option \<Rightarrow> Keyslot list \<Rightarrow> bytes option" where
  "try_every p unlock found [] = found"
| "try_every p unlock found (s # ss) =
     (if \<not> p s then try_every p unlock found ss
      else
        (case unlock s of
           Inr mvk \<Rightarrow> try_every p unlock (if found = None then Some mvk else found) ss
         | Inl _ \<Rightarrow> try_every p unlock found ss))"

fun try_until :: "(nat \<Rightarrow> Keyslot \<Rightarrow> bytes fres option) \<Rightarrow> fmt_error \<Rightarrow> nat \<Rightarrow> Keyslot list \<Rightarrow> bytes fres" where
  "try_until attempt err idx [] = Inl err"
| "try_until attempt err idx (s # ss) =
     (case attempt idx s of
        Some res \<Rightarrow> res
      | None \<Rightarrow> try_until attempt err (Suc idx) ss)"

text \<open>A slot that unlocks ends the loop, one that does not is skipped.\<close>

definition keep_ok :: "bytes res \<Rightarrow> bytes fres option" where
  "keep_ok x = (case x of Inr mvk \<Rightarrow> Some (Inr mvk) | Inl _ \<Rightarrow> None)"

definition try_fido2_slot ::
  "'r env \<Rightarrow> Header \<Rightarrow> bytes option \<Rightarrow> bytes \<Rightarrow> bytes \<Rightarrow> Keyslot \<Rightarrow> bytes fres option" where
  "try_fido2_slot E h passphrase cred_id hmac_secret s =
     (if fido2_cred_id s \<noteq> cred_id then None
      else if kind s = Fido2HmacSecret
        then Some (map_err Crypto (unlock_fido2 E (cipher_suite h) s passphrase hmac_secret (header_salt h)))
      else if kind s = Fido2DerivedMvk
        then Some (map_err Crypto (unlock_fido2_derived_mvk E s hmac_secret))
      else None)"

definition try_hybrid_fido2_slot ::
  "'r env \<Rightarrow> Header \<Rightarrow> bytes option \<Rightarrow> bytes \<Rightarrow> bytes \<Rightarrow> bytes \<Rightarrow> Keyslot \<Rightarrow> bytes fres option" where
  "try_hybrid_fido2_slot E h passphrase cred_id hmac_secret pq_shared s =
     (if \<not> is_hybrid_pq_fido2 (kind s) then None
      else if fido2_cred_id s \<noteq> cred_id then None
      else Some (map_err Crypto
             (unlock_hybrid_pq_fido2 E (cipher_suite h) s passphrase hmac_secret pq_shared (header_salt h))))"

text \<open>The fused TPM and FIDO2 arms differ in the kinds they accept and in the unlock call.\<close>

definition try_fused_slot ::
  "(SlotKind \<Rightarrow> bool) \<Rightarrow> unsealer \<Rightarrow> bytes \<Rightarrow> (Keyslot \<Rightarrow> bytes \<Rightarrow> bytes res) \<Rightarrow> Keyslot \<Rightarrow> bytes fres option" where
  "try_fused_slot p unseal cred_id unlock s =
     (if \<not> p (kind s) then None
      else
        (case tpm2_fido2_cred_id s of
           None \<Rightarrow> None
         | Some stored_cred \<Rightarrow>
             if stored_cred \<noteq> cred_id then None
             else
               (case tpm2_fido2_sealed_blob s of
                  None \<Rightarrow> None
                | Some blob \<Rightarrow>
                    (case unseal blob of
                       Inl _ \<Rightarrow> None
                     | Inr tpm_unsealed \<Rightarrow> keep_ok (unlock s tpm_unsealed)))))"

definition try_sealed_slot ::
  "(SlotKind \<Rightarrow> bool) \<Rightarrow> unsealer \<Rightarrow> (Keyslot \<Rightarrow> bytes \<Rightarrow> bytes res) \<Rightarrow> Keyslot \<Rightarrow> bytes fres option" where
  "try_sealed_slot p unseal unlock s =
     (if \<not> p (kind s) then None
      else
        (case tpm2_sealed_blob s of
           None \<Rightarrow> None
         | Some blob \<Rightarrow>
             (case unseal blob of
                Inl _ \<Rightarrow> None
              | Inr kek \<Rightarrow> keep_ok (unlock s kek))))"

definition try_sep_slot ::
  "'r env \<Rightarrow> Header \<Rightarrow> unsealer \<Rightarrow> bytes option \<Rightarrow> bytes option \<Rightarrow> bytes option \<Rightarrow> nat \<Rightarrow> Keyslot
     \<Rightarrow> bytes fres option" where
  "try_sep_slot E h unseal hmac_secret passphrase pq_shared idx s =
     (if \<not> is_sep (kind s) then None
      else if is_sep_fido2 (kind s) \<noteq> (hmac_secret \<noteq> None)
           \<or> is_sep_passphrase (kind s) \<noteq> (passphrase \<noteq> None)
           \<or> is_hybrid_pq (kind s) \<noteq> (pq_shared \<noteq> None) then None
      else
        (case sep_blob h idx of
           None \<Rightarrow> None
         | Some blob \<Rightarrow>
             (case unseal blob of
                Inl _ \<Rightarrow> None
              | Inr sep_shared \<Rightarrow>
                  keep_ok (unlock_sep E (cipher_suite h) s sep_shared hmac_secret passphrase pq_shared (header_salt h)))))"

definition try_unlock :: "'r env \<Rightarrow> Header \<Rightarrow> UnlockMaterial \<Rightarrow> bytes fres" where
  "try_unlock E h material =
     (let suite = cipher_suite h; hs = header_salt h in
      case material of
        M_Passphrase pw \<Rightarrow>
          ok_or UnlockFailed
            (try_every (\<lambda>s. kind s = Passphrase) (\<lambda>s. unlock_passphrase E suite s pw hs) None (keyslots h))
      | M_Fido2 passphrase cred_id hmac_secret \<Rightarrow>
          try_until (\<lambda>_. try_fido2_slot E h passphrase cred_id hmac_secret) Fido2CredNotFound 0 (keyslots h)
      | M_HybridPqPassphrase passphrase pq_shared \<Rightarrow>
          ok_or UnlockFailed
            (try_every (\<lambda>s. is_hybrid_pq_passphrase (kind s))
               (\<lambda>s. unlock_hybrid_pq_passphrase E suite s passphrase pq_shared hs) None (keyslots h))
      | M_HybridPqFido2 passphrase cred_id hmac_secret pq_shared \<Rightarrow>
          try_until (\<lambda>_. try_hybrid_fido2_slot E h passphrase cred_id hmac_secret pq_shared) Fido2CredNotFound 0
            (keyslots h)
      | M_Tpm2Fido2 unseal cred_id hmac_secret \<Rightarrow>
          try_until (\<lambda>_. try_fused_slot (\<lambda>k. k = Tpm2Fido2) unseal cred_id
              (\<lambda>s tpm. unlock_tpm2_fido2 E suite s tpm hmac_secret hs)) UnlockFailed 0 (keyslots h)
      | M_HybridPqTpm2 unseal pq_shared \<Rightarrow>
          try_until (\<lambda>_. try_sealed_slot (\<lambda>k. k \<in> {HybridPqKemTpm2, HybridPqKem1024Tpm2}) unseal
              (\<lambda>s kek. unlock_hybrid_pq_tpm2 E suite s kek pq_shared hs)) UnlockFailed 0 (keyslots h)
      | M_HybridPqTpm2Fido2 unseal cred_id hmac_secret pq_shared \<Rightarrow>
          try_until (\<lambda>_. try_fused_slot (\<lambda>k. k \<in> {HybridPqKemTpm2Fido2, HybridPqKem1024Tpm2Fido2}) unseal cred_id
              (\<lambda>s tpm. unlock_hybrid_pq_tpm2_fido2 E suite s tpm hmac_secret pq_shared hs)) UnlockFailed 0 (keyslots h)
      | M_Tpm2 unseal \<Rightarrow>
          try_until (\<lambda>_. try_sealed_slot (\<lambda>k. k \<in> {Tpm2Sealed, Tpm2SealedPin}) unseal
              (\<lambda>s kek. unlock_tpm2 E suite s kek hs)) UnlockFailed 0 (keyslots h)
      | M_Sep unseal hmac_secret passphrase pq_shared \<Rightarrow>
          try_until (try_sep_slot E h unseal hmac_secret passphrase pq_shared) UnlockFailed 0 (keyslots h))"

section \<open>Opening\<close>

record Disk =
  d_lbx :: bytes
  d_header :: "bytes option"
  d_header_bak :: "bytes option"
  d_meta_bak :: "bytes option"

definition load_locked_header :: "Disk \<Rightarrow> (bytes \<times> Header) fres" where
  "load_locked_header d =
     bindE (read_exact (case d_header d of None \<Rightarrow> d_lbx d | Some hf \<Rightarrow> hf) 0 HEADER_SIZE) (\<lambda>header_bytes.
     bindE (map_err Crypto (header_from_bytes header_bytes)) (\<lambda>h.
     if d_header d = None \<and> (metadata_offset h < of_nat HEADER_SIZE \<or> data_offset h < of_nat HEADER_SIZE)
     then Inl (Crypto InvalidField)
     else Inr (header_bytes, h)))"

text \<open>The unlock-and-verify closure of a caller: from a header and its bytes to the volume key.\<close>

type_synonym verifier = "Header \<Rightarrow> bytes \<Rightarrow> bytes fres"

definition try_unlock_via_mirror :: "bytes option \<Rightarrow> verifier \<Rightarrow> (bytes \<times> Header \<times> bytes) fres option" where
  "try_unlock_via_mirror mirror f =
     (case mirror of
        None \<Rightarrow> None
      | Some buf \<Rightarrow>
          Some (if length buf \<noteq> HEADER_SIZE then Inl (Io ''metadata mirror size mismatch'')
                else
                  bindE (map_err Crypto (header_from_bytes buf)) (\<lambda>h.
                  bindE (f h buf) (\<lambda>mvk. Inr (buf, h, mvk)))))"

definition open_locked_with_header_recovery :: "Disk \<Rightarrow> verifier \<Rightarrow> (bytes \<times> Header \<times> bytes \<times> bool) fres" where
  "open_locked_with_header_recovery d f =
     (case load_locked_header d of
        Inr (live_bytes, live_header) \<Rightarrow>
          bindE (f live_header live_bytes) (\<lambda>mvk. Inr (live_bytes, live_header, mvk, False))
      | Inl live_parse_err \<Rightarrow>
          (case try_unlock_via_mirror (d_header_bak d) f of
             Some (Inr (m_bytes, m_header, mvk)) \<Rightarrow> Inr (m_bytes, m_header, mvk, True)
           | _ \<Rightarrow> Inl live_parse_err))"

definition unlock_and_verify :: "'r env \<Rightarrow> UnlockMaterial \<Rightarrow> verifier" where
  "unlock_and_verify E material h b =
     bindE (try_unlock E h material) (\<lambda>mvk.
     bindE (map_err Crypto (verify_hmac E h b mvk)) (\<lambda>_. Inr mvk))"

definition opened :: "Disk \<Rightarrow> Header \<Rightarrow> bytes \<Rightarrow> bool \<Rightarrow> Container" where
  "opened d h mvk recovered =
     \<lparr>lbx_file = d_lbx d, header_side = d_header d, header_bak = d_header_bak d, meta_bak = d_meta_bak d,
      c_header = h, c_mvk = mvk, header_dirty = recovered, rotating = False, deniable = None,
      recovered_from_mirror = False\<rparr>"

definition open_vault :: "'r env \<Rightarrow> Disk \<Rightarrow> UnlockMaterial \<Rightarrow> Container fres" where
  "open_vault E d material =
     bindE (open_locked_with_header_recovery d (unlock_and_verify E material)) (\<lambda>(_, h, mvk, recovered).
     Inr (opened d h mvk recovered))"

definition open_with_mvk :: "'r env \<Rightarrow> Disk \<Rightarrow> bytes \<Rightarrow> Container fres" where
  "open_with_mvk E d mvk =
     bindE (open_locked_with_header_recovery d
              (\<lambda>h b. bindE (map_err Crypto (verify_hmac E h b mvk)) (\<lambda>_. Inr mvk))) (\<lambda>(_, h, _, recovered).
     Inr (opened d h mvk recovered))"

section \<open>Creating\<close>

text \<open>
  The tail of every constructor: serialise the header, write it in front of the metadata region or
  into the detached file, write an empty metadata region. \<open>hb\<close> and \<open>mb\<close> are the mirror sidecars
  that lie beside the new vault.
\<close>

definition write_new_vault ::
  "'r env \<Rightarrow> bool \<Rightarrow> bytes option \<Rightarrow> bytes option \<Rightarrow> Header \<Rightarrow> bytes \<Rightarrow> ('r, fmt_error, Container) rand" where
  "write_new_vault E detached hb mb h mvk =
     bindR (crypto (header_to_bytes E h mvk)) (\<lambda>header_bytes.
     bindR (write_metadata E (cipher_suite h) mvk (header_salt h) [] (unat (metadata_size h))) (\<lambda>region.
     retR \<lparr>lbx_file = (if detached then region else header_bytes @ region),
           header_side = (if detached then Some header_bytes else None), header_bak = hb, meta_bak = mb,
           c_header = h, c_mvk = mvk, header_dirty = False, rotating = False, deniable = None,
           recovered_from_mirror = False\<rparr>))"

definition create_internal ::
  "'r env \<Rightarrow> u64 option \<Rightarrow> bool \<Rightarrow> bytes option \<Rightarrow> bytes option \<Rightarrow> CipherSuite \<Rightarrow> u32
     \<Rightarrow> (bytes \<Rightarrow> Header \<Rightarrow> ('r, Keyslot) rnd) \<Rightarrow> ('r, fmt_error, Container) rand" where
  "create_internal E override detached hb mb cipher flgs build_slot =
     (let region_size = resolved_create_metadata_region_size override;
          moff = (if detached then 0 else of_nat HEADER_SIZE);
          doff = moff + region_size in
      bindR (crypto (fill E 32)) (\<lambda>mvk.
      bindR (crypto (try_new E cipher Argon2id 4096 doff)) (\<lambda>h0.
      let h = h0\<lparr>flags := flgs, metadata_offset := moff, metadata_size := region_size\<rparr> in
      bindR (crypto (build_slot mvk h)) (\<lambda>slot.
      bindR (crypto (liftR (install_slot h 0 slot))) (\<lambda>h.
      write_new_vault E detached hb mb h mvk)))))"

definition create_with_passphrase_flags ::
  "'r env \<Rightarrow> u64 option \<Rightarrow> bool \<Rightarrow> bytes option \<Rightarrow> bytes option \<Rightarrow> CipherSuite \<Rightarrow> Argon2idParams \<Rightarrow> u32 \<Rightarrow> bytes
     \<Rightarrow> ('r, fmt_error, Container) rand" where
  "create_with_passphrase_flags E ov det hb mb cipher params flgs passphrase =
     create_internal E ov det hb mb cipher flgs (\<lambda>mvk h. new_passphrase E cipher mvk passphrase params (header_salt h))"

definition create_with_passphrase ::
  "'r env \<Rightarrow> u64 option \<Rightarrow> bool \<Rightarrow> bytes option \<Rightarrow> bytes option \<Rightarrow> CipherSuite \<Rightarrow> Argon2idParams \<Rightarrow> bytes
     \<Rightarrow> ('r, fmt_error, Container) rand" where
  "create_with_passphrase E ov det hb mb cipher params passphrase =
     create_with_passphrase_flags E ov det hb mb cipher params 0 passphrase"

definition create_with_hybrid_pq_passphrase ::
  "'r env \<Rightarrow> u64 option \<Rightarrow> bool \<Rightarrow> bytes option \<Rightarrow> bytes option \<Rightarrow> CipherSuite \<Rightarrow> Argon2idParams \<Rightarrow> u32 \<Rightarrow> bytes
     \<Rightarrow> bytes \<Rightarrow> ('r, fmt_error, Container) rand" where
  "create_with_hybrid_pq_passphrase E ov det hb mb cipher params flgs passphrase pq_shared =
     create_internal E ov det hb mb cipher flgs
       (\<lambda>mvk h. new_hybrid_pq_passphrase E cipher mvk passphrase pq_shared params (header_salt h))"

definition create_with_hybrid_pq_1024_passphrase ::
  "'r env \<Rightarrow> u64 option \<Rightarrow> bool \<Rightarrow> bytes option \<Rightarrow> bytes option \<Rightarrow> CipherSuite \<Rightarrow> Argon2idParams \<Rightarrow> u32 \<Rightarrow> bytes
     \<Rightarrow> bytes \<Rightarrow> ('r, fmt_error, Container) rand" where
  "create_with_hybrid_pq_1024_passphrase E ov det hb mb cipher params flgs passphrase pq_shared =
     create_internal E ov det hb mb cipher flgs
       (\<lambda>mvk h. new_hybrid_pq_1024_passphrase E cipher mvk passphrase pq_shared params (header_salt h))"

definition create_with_hybrid_pq_fido2 ::
  "'r env \<Rightarrow> u64 option \<Rightarrow> bool \<Rightarrow> bytes option \<Rightarrow> bytes option \<Rightarrow> CipherSuite \<Rightarrow> Argon2idParams \<Rightarrow> u32 \<Rightarrow> bytes option \<Rightarrow> bytes \<Rightarrow> bytes \<Rightarrow> bytes \<Rightarrow> bytes
     \<Rightarrow> ('r, fmt_error, Container) rand" where
  "create_with_hybrid_pq_fido2 E ov det hb mb cipher params flgs passphrase hmac_secret pq_shared cred_id hmac_salt =
     create_internal E ov det hb mb cipher flgs
       (\<lambda>mvk h. new_hybrid_pq_fido2 E cipher mvk passphrase hmac_secret pq_shared cred_id hmac_salt params (header_salt h))"

definition create_with_hybrid_pq_1024_fido2 ::
  "'r env \<Rightarrow> u64 option \<Rightarrow> bool \<Rightarrow> bytes option \<Rightarrow> bytes option \<Rightarrow> CipherSuite \<Rightarrow> Argon2idParams \<Rightarrow> u32 \<Rightarrow> bytes option \<Rightarrow> bytes \<Rightarrow> bytes \<Rightarrow> bytes \<Rightarrow> bytes
     \<Rightarrow> ('r, fmt_error, Container) rand" where
  "create_with_hybrid_pq_1024_fido2 E ov det hb mb cipher params flgs passphrase hmac_secret pq_shared cred_id hmac_salt =
     create_internal E ov det hb mb cipher flgs
       (\<lambda>mvk h. new_hybrid_pq_1024_fido2 E cipher mvk passphrase hmac_secret pq_shared cred_id hmac_salt params (header_salt h))"

definition create_with_fido2_flags ::
  "'r env \<Rightarrow> u64 option \<Rightarrow> bool \<Rightarrow> bytes option \<Rightarrow> bytes option \<Rightarrow> CipherSuite \<Rightarrow> Argon2idParams \<Rightarrow> u32 \<Rightarrow> bytes option \<Rightarrow> bytes \<Rightarrow> bytes \<Rightarrow> bytes
     \<Rightarrow> ('r, fmt_error, Container) rand" where
  "create_with_fido2_flags E ov det hb mb cipher params flgs passphrase hmac_secret cred_id hmac_salt =
     create_internal E ov det hb mb cipher flgs
       (\<lambda>mvk h. new_fido2 E cipher mvk passphrase hmac_secret cred_id hmac_salt params (header_salt h))"

definition create_with_fido2 ::
  "'r env \<Rightarrow> u64 option \<Rightarrow> bool \<Rightarrow> bytes option \<Rightarrow> bytes option \<Rightarrow> CipherSuite \<Rightarrow> Argon2idParams \<Rightarrow> bytes option \<Rightarrow> bytes \<Rightarrow> bytes \<Rightarrow> bytes
     \<Rightarrow> ('r, fmt_error, Container) rand" where
  "create_with_fido2 E ov det hb mb cipher params passphrase hmac_secret cred_id hmac_salt =
     create_with_fido2_flags E ov det hb mb cipher params 0 passphrase hmac_secret cred_id hmac_salt"

definition create_with_tpm2 ::
  "'r env \<Rightarrow> u64 option \<Rightarrow> bool \<Rightarrow> bytes option \<Rightarrow> bytes option \<Rightarrow> CipherSuite \<Rightarrow> u32 \<Rightarrow> bytes \<Rightarrow> bytes
     \<Rightarrow> ('r, fmt_error, Container) rand" where
  "create_with_tpm2 E ov det hb mb cipher flgs kek_from_tpm sealed_blob =
     create_internal E ov det hb mb cipher flgs
       (\<lambda>mvk h. new_tpm2 E cipher mvk kek_from_tpm sealed_blob (header_salt h))"

definition create_with_tpm2_pin ::
  "'r env \<Rightarrow> u64 option \<Rightarrow> bool \<Rightarrow> bytes option \<Rightarrow> bytes option \<Rightarrow> CipherSuite \<Rightarrow> u32 \<Rightarrow> bytes \<Rightarrow> bytes
     \<Rightarrow> ('r, fmt_error, Container) rand" where
  "create_with_tpm2_pin E ov det hb mb cipher flgs kek_from_tpm sealed_blob =
     create_internal E ov det hb mb cipher flgs
       (\<lambda>mvk h. new_tpm2_pin E cipher mvk kek_from_tpm sealed_blob (header_salt h))"

definition create_with_tpm2_fido2 ::
  "'r env \<Rightarrow> u64 option \<Rightarrow> bool \<Rightarrow> bytes option \<Rightarrow> bytes option \<Rightarrow> CipherSuite \<Rightarrow> u32 \<Rightarrow> bytes \<Rightarrow> bytes \<Rightarrow> bytes \<Rightarrow> bytes \<Rightarrow> bytes
     \<Rightarrow> ('r, fmt_error, Container) rand" where
  "create_with_tpm2_fido2 E ov det hb mb cipher flgs tpm_unsealed hmac_secret sealed_blob cred_id hmac_salt =
     create_internal E ov det hb mb cipher flgs
       (\<lambda>mvk h. new_tpm2_fido2 E cipher mvk tpm_unsealed hmac_secret sealed_blob cred_id hmac_salt (header_salt h))"

definition create_with_hybrid_pq_tpm2 ::
  "'r env \<Rightarrow> u64 option \<Rightarrow> bool \<Rightarrow> bytes option \<Rightarrow> bytes option \<Rightarrow> CipherSuite \<Rightarrow> u32 \<Rightarrow> bytes \<Rightarrow> bytes \<Rightarrow> bytes
     \<Rightarrow> ('r, fmt_error, Container) rand" where
  "create_with_hybrid_pq_tpm2 E ov det hb mb cipher flgs kek_from_tpm pq_shared sealed_blob =
     create_internal E ov det hb mb cipher flgs
       (\<lambda>mvk h. new_hybrid_pq_tpm2 E cipher mvk kek_from_tpm pq_shared sealed_blob (header_salt h))"

definition create_with_hybrid_pq_1024_tpm2 ::
  "'r env \<Rightarrow> u64 option \<Rightarrow> bool \<Rightarrow> bytes option \<Rightarrow> bytes option \<Rightarrow> CipherSuite \<Rightarrow> u32 \<Rightarrow> bytes \<Rightarrow> bytes \<Rightarrow> bytes
     \<Rightarrow> ('r, fmt_error, Container) rand" where
  "create_with_hybrid_pq_1024_tpm2 E ov det hb mb cipher flgs kek_from_tpm pq_shared sealed_blob =
     create_internal E ov det hb mb cipher flgs
       (\<lambda>mvk h. new_hybrid_pq_1024_tpm2 E cipher mvk kek_from_tpm pq_shared sealed_blob (header_salt h))"

definition create_with_hybrid_pq_tpm2_fido2 ::
  "'r env \<Rightarrow> u64 option \<Rightarrow> bool \<Rightarrow> bytes option \<Rightarrow> bytes option \<Rightarrow> CipherSuite \<Rightarrow> u32 \<Rightarrow> bytes \<Rightarrow> bytes \<Rightarrow> bytes \<Rightarrow> bytes \<Rightarrow> bytes \<Rightarrow> bytes
     \<Rightarrow> ('r, fmt_error, Container) rand" where
  "create_with_hybrid_pq_tpm2_fido2 E ov det hb mb cipher flgs tpm_unsealed hmac_secret pq_shared sealed_blob cred_id hmac_salt =
     create_internal E ov det hb mb cipher flgs
       (\<lambda>mvk h. new_hybrid_pq_tpm2_fido2 E cipher mvk tpm_unsealed hmac_secret pq_shared sealed_blob cred_id hmac_salt (header_salt h))"

definition create_with_hybrid_pq_1024_tpm2_fido2 ::
  "'r env \<Rightarrow> u64 option \<Rightarrow> bool \<Rightarrow> bytes option \<Rightarrow> bytes option \<Rightarrow> CipherSuite \<Rightarrow> u32 \<Rightarrow> bytes \<Rightarrow> bytes \<Rightarrow> bytes \<Rightarrow> bytes \<Rightarrow> bytes \<Rightarrow> bytes
     \<Rightarrow> ('r, fmt_error, Container) rand" where
  "create_with_hybrid_pq_1024_tpm2_fido2 E ov det hb mb cipher flgs tpm_unsealed hmac_secret pq_shared sealed_blob cred_id hmac_salt =
     create_internal E ov det hb mb cipher flgs
       (\<lambda>mvk h. new_hybrid_pq_1024_tpm2_fido2 E cipher mvk tpm_unsealed hmac_secret pq_shared sealed_blob cred_id hmac_salt (header_salt h))"

text \<open>
  A Secure Enclave vault: the blob goes into the header after the creation, which rewrites the header.
\<close>

definition create_with_sep ::
  "'r env \<Rightarrow> u64 option \<Rightarrow> bool \<Rightarrow> bytes option \<Rightarrow> bytes option \<Rightarrow> CipherSuite \<Rightarrow> u32 \<Rightarrow> SlotKind \<Rightarrow> bytes \<Rightarrow> bytes
     \<Rightarrow> ('r, fmt_error, Container) rand" where
  "create_with_sep E ov det hb mb cipher flgs k sep_shared blob =
     bindR (create_internal E ov det hb mb cipher flgs
              (\<lambda>mvk h. new_sep E cipher mvk k sep_shared None None INTERACTIVE None [] (replicate 32 0) (header_salt h))) (\<lambda>c.
     bindR (crypto (liftR (set_sep_blob (c_header c) 0 blob))) (\<lambda>h r.
     case persist_header E (c\<lparr>c_header := h, header_dirty := True\<rparr>, r) of
       (Inl e, (_, r')) \<Rightarrow> (Inl e, r')
     | (Inr _, (c', r')) \<Rightarrow> (Inr c', r')))"

text \<open>A vault whose volume key is the HKDF of the authenticator's secret: no key is drawn.\<close>

definition create_with_fido2_derived_mvk ::
  "'r env \<Rightarrow> u64 option \<Rightarrow> bool \<Rightarrow> bytes option \<Rightarrow> bytes option \<Rightarrow> CipherSuite \<Rightarrow> bytes \<Rightarrow> bytes \<Rightarrow> bytes
     \<Rightarrow> ('r, fmt_error, Container) rand" where
  "create_with_fido2_derived_mvk E ov det hb mb cipher cred_id hmac_secret hmac_salt =
     (let region_size = resolved_create_metadata_region_size ov;
          moff = (if det then 0 else of_nat HEADER_SIZE);
          doff = moff + region_size;
          mvk = derive_mvk_from_fido2 E hmac_salt hmac_secret in
      bindR (crypto (try_new E cipher Argon2id 4096 doff)) (\<lambda>h0.
      let h = h0\<lparr>metadata_offset := moff, metadata_size := region_size\<rparr> in
      bindR (crypto (new_fido2_derived_mvk E cred_id hmac_salt)) (\<lambda>slot.
      bindR (crypto (liftR (install_slot h 0 slot))) (\<lambda>h.
      write_new_vault E det hb mb h mvk))))"

section \<open>What decides an unlock\<close>

text \<open>
  The specification of \<open>try_unlock\<close>: what a single slot says about the material. All nine arms are
  then one search for the lowest slot that decides.
\<close>

definition attempt :: "'r env \<Rightarrow> Header \<Rightarrow> UnlockMaterial \<Rightarrow> nat \<Rightarrow> Keyslot \<Rightarrow> bytes fres option" where
  "attempt E h material idx s =
     (let suite = cipher_suite h; hs = header_salt h in
      case material of
        M_Passphrase pw \<Rightarrow> if kind s = Passphrase then keep_ok (unlock_passphrase E suite s pw hs) else None
      | M_Fido2 pw cred hm \<Rightarrow> try_fido2_slot E h pw cred hm s
      | M_HybridPqPassphrase pw pq \<Rightarrow>
          if is_hybrid_pq_passphrase (kind s) then keep_ok (unlock_hybrid_pq_passphrase E suite s pw pq hs) else None
      | M_HybridPqFido2 pw cred hm pq \<Rightarrow> try_hybrid_fido2_slot E h pw cred hm pq s
      | M_Tpm2Fido2 unseal cred hm \<Rightarrow>
          try_fused_slot (\<lambda>k. k = Tpm2Fido2) unseal cred (\<lambda>s tpm. unlock_tpm2_fido2 E suite s tpm hm hs) s
      | M_HybridPqTpm2 unseal pq \<Rightarrow>
          try_sealed_slot (\<lambda>k. k \<in> {HybridPqKemTpm2, HybridPqKem1024Tpm2}) unseal
            (\<lambda>s kek. unlock_hybrid_pq_tpm2 E suite s kek pq hs) s
      | M_HybridPqTpm2Fido2 unseal cred hm pq \<Rightarrow>
          try_fused_slot (\<lambda>k. k \<in> {HybridPqKemTpm2Fido2, HybridPqKem1024Tpm2Fido2}) unseal cred
            (\<lambda>s tpm. unlock_hybrid_pq_tpm2_fido2 E suite s tpm hm pq hs) s
      | M_Tpm2 unseal \<Rightarrow>
          try_sealed_slot (\<lambda>k. k \<in> {Tpm2Sealed, Tpm2SealedPin}) unseal (\<lambda>s kek. unlock_tpm2 E suite s kek hs) s
      | M_Sep unseal hm pw pq \<Rightarrow> try_sep_slot E h unseal hm pw pq idx s)"

definition not_found :: "UnlockMaterial \<Rightarrow> fmt_error" where
  "not_found material =
     (case material of M_Fido2 _ _ _ \<Rightarrow> Fido2CredNotFound | M_HybridPqFido2 _ _ _ _ \<Rightarrow> Fido2CredNotFound
      | _ \<Rightarrow> UnlockFailed)"

lemma try_every_found: "try_every p u (Some m) ss = Some m"
  by (induction ss) (auto split: sum.splits)

text \<open>Visiting every slot finds what leaving at the first success would find.\<close>

lemma try_every_until:
  "ok_or e (try_every p u None ss) = try_until (\<lambda>_ s. if p s then keep_ok (u s) else None) e i ss"
  by (induction ss arbitrary: i) (auto simp: try_every_found keep_ok_def split: sum.splits)

lemma try_unlock_until: "try_unlock E h m = try_until (attempt E h m) (not_found m) 0 (keyslots h)"
  by (cases m) (simp_all add: try_unlock_def attempt_def [abs_def] not_found_def Let_def try_every_until)

lemma find_map: "List.find P (map f xs) = map_option f (List.find (P \<circ> f) xs)"
  by (induction xs) auto

lemma try_until_spec:
  "try_until f e i ss =
     (case List.find (\<lambda>j. f (i + j) (ss ! j) \<noteq> None) [0..<length ss] of
        None \<Rightarrow> Inl e | Some j \<Rightarrow> the (f (i + j) (ss ! j)))"
proof (induction ss arbitrary: i)
  case (Cons s ss)
  have "[0..<length (s # ss)] = 0 # map Suc [0..<length ss]" by (simp add: map_Suc_upt upt_conv_Cons del: upt_Suc)
  then show ?case
    using Cons [of "Suc i"]
    by (cases "f i s") (simp_all add: find_map comp_def del: upt_Suc split: option.splits)
qed simp

lemma try_until_Inr:
  assumes "try_until f e i ss = Inr m"
  shows "\<exists>j < length ss. f (i + j) (ss ! j) = Some (Inr m)"
  using assms
proof (induction ss arbitrary: i)
  case (Cons s ss)
  show ?case
  proof (cases "f i s")
    case None
    with Cons.prems Cons.IH [of "Suc i"] obtain j where "j < length ss" "f (Suc i + j) (ss ! j) = Some (Inr m)"
      by auto
    then show ?thesis by (intro exI [of _ "Suc j"]) simp
  next
    case (Some x)
    with Cons.prems show ?thesis by (intro exI [of _ 0]) simp
  qed
qed simp

lemma try_unlock_sound:
  "try_unlock E h m = Inr mvk \<Longrightarrow> \<exists>j < length (keyslots h). attempt E h m j (keyslots h ! j) = Some (Inr mvk)"
  using try_until_Inr [of "attempt E h m" "not_found m" 0] by (simp add: try_unlock_until)

text \<open>An empty slot never decides, and an attempt looks only at its own slot, blob, suite and salt.\<close>

lemma attempt_empty: "slot_is_empty s \<Longrightarrow> attempt E h m i s = None"
  by (cases m) (simp_all add: slot_is_empty_def attempt_def try_fido2_slot_def try_hybrid_fido2_slot_def try_fused_slot_def
      try_sealed_slot_def try_sep_slot_def kind_class_defs)

lemma attempt_cong:
  assumes "cipher_suite h' = cipher_suite h" "header_salt h' = header_salt h" "sep_blob h' i = sep_blob h i"
  shows "attempt E h' m i s = attempt E h m i s"
  unfolding attempt_def try_fido2_slot_def try_hybrid_fido2_slot_def try_sep_slot_def assms ..

section \<open>Opening what was written\<close>

definition disk_of :: "Container \<Rightarrow> Disk" where
  "disk_of c = \<lparr>d_lbx = lbx_file c, d_header = header_side c, d_header_bak = header_bak c, d_meta_bak = meta_bak c\<rparr>"

text \<open>The header bytes on a disk, as the opener reads them.\<close>

definition live_header :: "Disk \<Rightarrow> bytes fres" where
  "live_header d = read_exact (case d_header d of None \<Rightarrow> d_lbx d | Some hf \<Rightarrow> hf) 0 HEADER_SIZE"

lemma stored_live_header:
  "length bs = 8192 \<Longrightarrow> stored_header c = Some bs \<Longrightarrow> live_header (disk_of c) = Inr bs"
  by (cases "header_side c")
     (auto simp: stored_header_def live_header_def disk_of_def read_exact_def slice_def split: sum.splits if_splits)

text \<open>The inline layout rule: both regions start behind the header.\<close>

definition inline_ok :: "Disk \<Rightarrow> Header \<Rightarrow> bool" where
  "inline_ok d h \<longleftrightarrow> (d_header d = None \<longrightarrow> 8192 \<le> metadata_offset h \<and> 8192 \<le> data_offset h)"

lemma load_locked_header_iff:
  "load_locked_header d = Inr (b, h) \<longleftrightarrow> live_header d = Inr b \<and> header_from_bytes b = Inr h \<and> inline_ok d h"
  by (auto simp: load_locked_header_def live_header_def inline_ok_def res_simps not_less split: if_splits)

text \<open>A vault opens exactly through its live header or, where that does not load, through the mirror.\<close>

lemma open_vault_iff:
  "open_vault E d m = Inr c \<longleftrightarrow>
     (\<exists>b h mvk. header_from_bytes b = Inr h \<and> try_unlock E h m = Inr mvk \<and> verify_hmac E h b mvk = Inr ()
        \<and> (c = opened d h mvk False \<and> live_header d = Inr b \<and> inline_ok d h
           \<or> c = opened d h mvk True \<and> \<not> is_ok (load_locked_header d) \<and> d_header_bak d = Some b \<and> length b = 8192))"
proof (cases "load_locked_header d")
  case (Inl e)
  then have no: "\<not> (live_header d = Inr b \<and> header_from_bytes b = Inr h \<and> inline_ok d h)" for b h
    by (metis Inl load_locked_header_iff sum.distinct(1))
  show ?thesis
    using Inl no
    by (force simp: open_vault_def open_locked_with_header_recovery_def try_unlock_via_mirror_def unlock_and_verify_def
        bindE_eq_Inr bindE_eq_Inl split: option.splits sum.splits if_splits)
next
  case (Inr p)
  then obtain b h where bh: "load_locked_header d = Inr (b, h)" by (cases p) auto
  then have "live_header d = Inr b" "header_from_bytes b = Inr h" "inline_ok d h"
    by (simp_all add: load_locked_header_iff)
  with bh show ?thesis
    by (force simp: open_vault_def open_locked_with_header_recovery_def unlock_and_verify_def bindE_eq_Inr)
qed

lemma opened_sel [simp]:
  "c_mvk (opened d h k rec) = k" "c_header (opened d h k rec) = h" "header_dirty (opened d h k rec) = rec"
  by (simp_all add: opened_def)

text \<open>What a successful persist leaves on disk, for the opener.\<close>

lemma persist_gen:
  assumes "persist_header E (c, r) = (Inr (), (c', r'))" "deniable c = None" "header_dirty c"
  shows "has_header_generation (c_header c) \<longrightarrow> unat (header_generation (c_header c)) + 1 < 2 ^ 64"
  using assms
  by (auto simp: persist_header_def Let_def next_header_generation_def checked_add_u64_def ok_or_def split: if_splits)

lemma persisted:
  assumes env: "rng_fills E" "digest_lengths E" "env_live E"
    and c: "header_wf (c_header c)" "deniable c = None" "header_dirty c"
    and per: "persist_header E (c, r) = (Inr (), (c', r'))"
  obtains bs fl g where "live_header (disk_of c') = Inr bs" "is_v2_format c \<Longrightarrow> header_bak c' = Some bs"
    "length bs = 8192" "header_from_bytes bs = Inr (c_header c')" "verify_hmac E (c_header c') bs (c_mvk c) = Inr ()"
    "c_header c' = (c_header c)\<lparr>flags := fl, header_generation := g\<rparr>"
proof -
  from persist_header_effect [OF env c persist_gen [OF per c(2,3)], of r] per
  obtain bs fl g where st: "stored_header c' = Some bs" and bs: "is_v2_format c \<longrightarrow> header_bak c' = Some bs"
    "header_from_bytes bs = Inr (c_header c')" "verify_hmac E (c_header c') bs (c_mvk c) = Inr ()" "length bs = 8192"
    "c_header c' = (c_header c)\<lparr>flags := fl, header_generation := g\<rparr>"
    by auto
  show thesis
    by (rule that) (use bs stored_live_header [OF bs(4) st] in simp_all)
qed

lemma revoked_table:
  assumes "header_wf (c_header c)" "c_revoke_slot i (c, r) = (Inr (), (c', r'))"
  shows "header_wf (c_header c')" "deniable c' = None" "header_dirty c'" "is_v2_format c' = is_v2_format c"
    "slot_is_empty (keyslots (c_header c') ! i)" "cipher_suite (c_header c') = cipher_suite (c_header c)"
    "header_salt (c_header c') = header_salt (c_header c)"
    "j \<noteq> i \<Longrightarrow> keyslots (c_header c') ! j = keyslots (c_header c) ! j"
    "j \<noteq> i \<Longrightarrow> sep_blob (c_header c') j = sep_blob (c_header c) j"
proof -
  from assms(2) obtain h where rv: "revoke_slot (c_header c) i = Inr h" and dn: "deniable c = None"
    and c': "c' = c\<lparr>c_header := h, header_dirty := True\<rparr>"
    by (auto simp: c_revoke_slot_def res_simps split: if_splits)
  note ef = revoke_slot_effect [OF assms(1) rv]
  have eq: "cipher_suite h = cipher_suite (c_header c)" "header_salt h = header_salt (c_header c)"
    "version_major h = version_major (c_header c)"
    using rv by (auto simp: revoke_slot_def clear_sep_blob_def Let_def split: if_splits)
  show "header_wf (c_header c')" using revoke_slot_wf [OF assms(1) rv] by (simp add: c')
  show "is_v2_format c' = is_v2_format c" using eq by (simp add: c' is_v2_format_def)
  show "deniable c' = None" "header_dirty c'" "slot_is_empty (keyslots (c_header c') ! i)"
    "cipher_suite (c_header c') = cipher_suite (c_header c)" "header_salt (c_header c') = header_salt (c_header c)"
    "j \<noteq> i \<Longrightarrow> keyslots (c_header c') ! j = keyslots (c_header c) ! j"
    "j \<noteq> i \<Longrightarrow> sep_blob (c_header c') j = sep_blob (c_header c) j"
    using ef eq dn by (simp_all add: c')
qed

lemma try_until_at:
  "k < length ss \<Longrightarrow> f (i + k) (ss ! k) = Some x \<Longrightarrow> \<forall>j < k. f (i + j) (ss ! j) = None \<Longrightarrow> try_until f e i ss = x"
proof (induction ss arbitrary: i k)
  case (Cons s ss)
  show ?case
  proof (cases k)
    case (Suc k')
    with Cons.prems have "f i s = None" by auto
    moreover have "try_until f e (Suc i) ss = x"
      using Cons.prems Suc by (intro Cons.IH [of k']) auto
    ultimately show ?thesis by simp
  qed (use Cons.prems in auto)
qed simp

lemma try_unlock_at:
  "k < length (keyslots h) \<Longrightarrow> attempt E h m k (keyslots h ! k) = Some x
    \<Longrightarrow> \<forall>j < k. attempt E h m j (keyslots h ! j) = None \<Longrightarrow> try_unlock E h m = x"
  using try_until_at [of k "keyslots h" "attempt E h m" 0] by (simp add: try_unlock_until)

lemma try_unlock_flags [simp]:
  "try_unlock E (h\<lparr>flags := fl, header_generation := g\<rparr>) m = try_unlock E h m"
proof -
  have "attempt E (h\<lparr>flags := fl, header_generation := g\<rparr>) m = attempt E h m"
    by (intro ext attempt_cong) (simp_all add: sep_blob_def)
  then show ?thesis by (simp add: try_unlock_until)
qed

lemma persist_header_side:
  assumes "persist_header E (c, r) = (Inr (), (c', r'))" "deniable c = None"
  shows "header_side c' = None \<longleftrightarrow> header_side c = None"
proof (cases "header_dirty c")
  case True
  with assms obtain c0 c1 where w: "write_standard_header E (c0, r) = (Inr (), (c1, r'))"
    and c': "c' = c1\<lparr>header_dirty := False\<rparr>" and c0: "header_side c0 = header_side c"
    by (fastforce simp: persist_header_def Let_def split: if_splits sum.splits prod.splits)
  show ?thesis
    by (rule write_standard_header_effect [OF w], cases "header_side c") (simp_all add: c' c0)
qed (use assms in \<open>simp add: persist_header_def\<close>)

lemma open_after_persist:
  assumes env: "rng_fills E" "digest_lengths E" "env_live E"
    and c: "header_wf (c_header c)" "deniable c = None" "header_dirty c"
    and per: "persist_header E (c, r) = (Inr (), (c', r'))"
    and un: "try_unlock E (c_header c) m = Inr (c_mvk c)"
  shows "inline_ok (disk_of c') (c_header c) \<Longrightarrow>
      open_vault E (disk_of c') m = Inr (opened (disk_of c') (c_header c') (c_mvk c) False)"
    and "is_v2_format c \<Longrightarrow> \<not> is_ok (load_locked_header d) \<Longrightarrow> d_header_bak d = header_bak c' \<Longrightarrow>
      open_vault E d m = Inr (opened d (c_header c') (c_mvk c) True)"
proof -
  obtain bs fl g where bs: "live_header (disk_of c') = Inr bs" "is_v2_format c \<Longrightarrow> header_bak c' = Some bs"
    "length bs = 8192" "header_from_bytes bs = Inr (c_header c')" "verify_hmac E (c_header c') bs (c_mvk c) = Inr ()"
    and h': "c_header c' = (c_header c)\<lparr>flags := fl, header_generation := g\<rparr>"
    using persisted [OF env c per] by metis
  have un': "try_unlock E (c_header c') m = Inr (c_mvk c)" using un by (simp add: h')
  show "open_vault E (disk_of c') m = Inr (opened (disk_of c') (c_header c') (c_mvk c) False)"
    if "inline_ok (disk_of c') (c_header c)"
  proof -
    have "inline_ok (disk_of c') (c_header c')" using that by (simp add: inline_ok_def h')
    with bs un' show ?thesis unfolding open_vault_iff by blast
  qed
  show "open_vault E d m = Inr (opened d (c_header c') (c_mvk c) True)"
    if "is_v2_format c" "\<not> is_ok (load_locked_header d)" "d_header_bak d = header_bak c'"
    using that bs un' unfolding open_vault_iff by metis
qed

section \<open>Properties\<close>

text \<open>
  C14: unlocking is decided by the lowest slot that decides. For each of the nine kinds of unlock
  material, the loop over the keyslots, including the two loops that visit every slot so as not to
  reveal by their time which one matched, returns what the lowest slot whose attempt is not skipped
  returns, and the arm's own error where every slot is skipped.
\<close>

theorem try_unlock_decided_by_lowest:
  "try_unlock E h m =
     (case List.find (\<lambda>j. attempt E h m j (keyslots h ! j) \<noteq> None) [0..<length (keyslots h)] of
        None \<Rightarrow> Inl (not_found m)
      | Some j \<Rightarrow> the (attempt E h m j (keyslots h ! j)))"
  unfolding try_unlock_until try_until_spec add_0 ..

text \<open>
  C1: a revoked credential stays revoked. After a slot is revoked and the header persisted on a vault
  with mirrors, an opener succeeds only through another slot that accepted the material before the
  revocation. This holds when the header on disk is the one written, and also when an attacker or a
  crash damaged the live header in any way that forces the recovery from the mirror.
\<close>

theorem revoked_slot_stays_revoked:
  assumes env: "rng_fills E" "digest_lengths E" "env_live E"
    and c: "header_wf (c_header c)" "is_v2_format c"
    and rev: "c_revoke_slot i (c, r) = (Inr (), (c1, r1))"
    and per: "persist_header E (c1, r1) = (Inr (), (c2, r2))"
    and d: "d_header_bak d = header_bak c2"
      "live_header d = live_header (disk_of c2) \<or> \<not> is_ok (load_locked_header d)"
    and op: "open_vault E d m = Inr c3"
  shows "\<exists>j < MAX_KEYSLOTS. j \<noteq> i \<and> attempt E (c_header c) m j (keyslots (c_header c) ! j) = Some (Inr (c_mvk c3))"
proof -
  note rv = revoked_table [OF c(1) rev]
  obtain bs fl g where bs: "live_header (disk_of c2) = Inr bs" "header_bak c2 = Some bs"
    "header_from_bytes bs = Inr (c_header c2)" and h2: "c_header c2 = (c_header c1)\<lparr>flags := fl, header_generation := g\<rparr>"
    using persisted [OF env rv(1-3) per] c(2) rv(4) by metis
  from op obtain b h mvk where b: "header_from_bytes b = Inr h" "try_unlock E h m = Inr mvk" "c_mvk c3 = mvk"
    and src: "live_header d = Inr b \<and> load_locked_header d = Inr (b, h)
      \<or> \<not> is_ok (load_locked_header d) \<and> d_header_bak d = Some b"
    unfolding open_vault_iff load_locked_header_iff by (metis opened_sel(1))
  from src d bs have "b = bs" by auto
  with b bs have h: "h = c_header c2" by simp
  obtain j where j: "j < length (keyslots h)" "attempt E h m j (keyslots h ! j) = Some (Inr mvk)"
    using try_unlock_sound [OF b(2)] by blast
  have "j \<noteq> i" using j(2) rv(5) by (auto simp: h h2 attempt_empty)
  moreover have "sep_blob h j = sep_blob (c_header c1) j" by (simp add: h h2 sep_blob_def)
  with rv(9) [OF \<open>j \<noteq> i\<close>] have "attempt E h m j s = attempt E (c_header c) m j s" for s
    by (intro attempt_cong) (simp_all add: h h2 rv(6,7))
  moreover have "length (keyslots h) = 8" using header_wf_simps(2) [OF rv(1)] by (simp add: h h2)
  ultimately show ?thesis using j b(3) rv(8) by (auto simp: h h2)
qed


text \<open>
  C13: a persisted vault opens again, and a crash does not lock the owner out. Persisting a changed
  header of a vault with mirrors succeeds; afterwards the same material that the in-memory keyslot
  table accepts opens the vault from the files as written, with the persisted header and the same
  volume key; and it also opens any vault whose live header no longer loads but whose mirror survived,
  with the header marked for rewriting.
\<close>

theorem vault_opens_after_persist:
  assumes env: "rng_fills E" "digest_lengths E" "env_live E"
    and c: "header_wf (c_header c)" "is_v2_format c" "header_dirty c" "inline_ok (disk_of c) (c_header c)"
    and gen: "has_header_generation (c_header c) \<longrightarrow> unat (header_generation (c_header c)) + 1 < 2 ^ 64"
    and un: "try_unlock E (c_header c) m = Inr (c_mvk c)"
  shows "\<exists>c' r'. persist_header E (c, r) = (Inr (), (c', r'))
    \<and> open_vault E (disk_of c') m = Inr (opened (disk_of c') (c_header c') (c_mvk c) False)
    \<and> (\<forall>d. \<not> is_ok (load_locked_header d) \<and> d_header_bak d = header_bak c' \<longrightarrow>
         open_vault E d m = Inr (opened d (c_header c') (c_mvk c) True))"
proof -
  have dn: "deniable c = None" using c(2) by (simp add: is_v2_format_def)
  obtain c' r' where per: "persist_header E (c, r) = (Inr (), (c', r'))"
    using persist_header_effect [OF env c(1) dn c(3) gen] by blast
  have "header_side c' = None \<longleftrightarrow> header_side c = None"
    using persist_header_side [OF per dn] .
  then have "inline_ok (disk_of c') (c_header c)" using c(4) by (simp add: inline_ok_def disk_of_def)
  with per open_after_persist [OF env c(1) dn c(3) per un] c(2) show ?thesis by blast
qed

lemma write_new_vault_opens:
  assumes env: "rng_fills E" "digest_lengths E" "aead_correct E" "env_live E"
    and h: "header_wf h" "unat (metadata_offset h) = (if det then 0 else 8192)" "36 \<le> unat (metadata_size h)"
      "\<not> masked_metadata_len h"
    and un: "try_unlock E h m = Inr mvk"
  shows "\<exists>c r'. write_new_vault E det hb mb h mvk r = (Inr c, r') \<and> open_vault E (disk_of c) m = Inr c
    \<and> c_read_metadata E (c, r2) = (Inr [], (c, r2)) \<and> c_header c = h \<and> c_mvk c = mvk"
proof -
  have ms: "unat (metadata_size h) \<le> 67108864"
    using header_wf_simps [OF h(1)] h(1) by (auto simp: header_wf_def layout_checks_def not_less word_le_nat_alt split: if_splits)
  obtain hb' r1 where hbs: "header_to_bytes E h mvk r = (Inr hb', r1)"
    using header_to_bytes_live [OF env(4)] unfolding succeeds_def by blast
  obtain reg r2' where reg: "write_metadata_opts E (cipher_suite h) mvk (header_salt h) [] (unat (metadata_size h)) False r1 = (Inr reg, r2')"
    using write_metadata_live [OF env(4), of "[]" "unat (metadata_size h)"] h(3) ms unfolding succeeds_def by force
  note wr = header_written_read [OF env(1,2) h(1) hbs]
  note rt = metadata_roundtrip [OF env(1-3) _ reg]
  define c where "c = \<lparr>lbx_file = (if det then reg else hb' @ reg),
           header_side = (if det then Some hb' else None), header_bak = hb, meta_bak = mb,
           c_header = h, c_mvk = mvk, header_dirty = False, rotating = False, deniable = None,
           recovered_from_mirror = False\<rparr>"
  have w: "write_new_vault E det hb mb h mvk r = (Inr c, r2')"
    using hbs reg by (simp add: write_new_vault_def bindR_eq_Inr crypto_eq_Inr write_metadata_def c_def)
  have op: "c = opened (disk_of c) h mvk False" by (simp add: c_def opened_def disk_of_def)
  have live: "live_header (disk_of c) = Inr hb'"
    using wr(1) by (simp add: live_header_def disk_of_def c_def read_exact_def slice_def)
  have il: "inline_ok (disk_of c) h"
  proof -
    have "unat (metadata_offset h) \<le> unat (data_offset h)" using layout_checks_bounds h(1) unfolding header_wf_def by fastforce
    then show ?thesis using h(2) by (auto simp: inline_ok_def disk_of_def c_def word_le_nat_alt)
  qed
  have "open_vault E (disk_of c) m = Inr c"
    unfolding open_vault_iff using wr(2,3) un op live il by blast
  moreover have "c_read_metadata E (c, r2) = (Inr [], (c, r2))"
  proof -
    have n: "unat (metadata_size h) \<le> 2 ^ 63" using ms by simp
    have "read_exact (lbx_file c) (metadata_offset h) (unat (metadata_size h)) = Inr reg"
      using h(2) rt(1) [OF n] wr(1) by (simp add: read_exact_def c_def slice_def)
    then show ?thesis
      using rt(2) [OF n] h(4) by (simp add: c_read_metadata_def Let_def) (simp add: c_def)
  qed
  ultimately show ?thesis using w by (intro exI [of _ c] exI [of _ r2']) (simp add: c_def)
qed


lemma resolved_size_max: "unat (resolved_create_metadata_region_size ov) \<le> 67108864"
  by (auto simp: resolved_create_metadata_region_size_def min_def word_le_nat_alt split: option.splits)

lemma create_internal_opens:
  assumes env: "rng_fills E" "digest_lengths E" "aead_correct E" "env_live E"
    and size: "36 \<le> unat (resolved_create_metadata_region_size ov)" and fl: "fl AND 32 = 0"
    and build: "\<And>mvk h r. length mvk = 32 \<Longrightarrow> cipher_suite h = cipher \<Longrightarrow>
        \<exists>slot r'. build mvk h r = (Inr slot, r') \<and> slot_wf slot \<and> attempt E h m 0 slot = Some (Inr mvk)"
  shows "\<exists>c r'. create_internal E ov det hb mb cipher fl build r = (Inr c, r') \<and> open_vault E (disk_of c) m = Inr c
    \<and> c_read_metadata E (c, r2) = (Inr [], (c, r2)) \<and> header_wf (c_header c)"
proof -
  define size where "size = resolved_create_metadata_region_size ov"
  define moff :: u64 where "moff = (if det then 0 else 8192)"
  have sz: "unat size \<le> 67108864" "36 \<le> unat size" using resolved_size_max assms(5) by (simp_all add: size_def)
  have mo: "unat moff = (if det then 0 else 8192)" by (simp add: moff_def)
  have add: "unat (moff + size) = unat moff + unat size" using sz mo by (subst unat_add_lem [THEN iffD1]) (auto split: if_splits)
  obtain mvk r1 where mvk: "fill E 32 r = (Inr mvk, r1)" and ml: "length mvk = 32"
    using succeeds_fill [OF env(4), of 32] fill_length [OF env(1)] unfolding succeeds_def by blast
  obtain salt r3 where salt: "fill E 32 r1 = (Inr salt, r3)" and sl: "length salt = 32"
    using succeeds_fill [OF env(4), of 32] fill_length [OF env(1)] unfolding succeeds_def by blast
  define h where "h = \<lparr>cipher_suite = cipher, kdf = Argon2id, chunk_size = 4096, flags = fl, header_salt = salt,
      metadata_offset = moff, metadata_size = size, data_offset = moff + size, keyslots = replicate 8 empty_slot,
      sep_blobs = replicate 8 None, version_major = 1, header_generation = 0\<rparr>"
  have "layout_checks moff size (moff + size) = Inr ()"
    using sz mo add by (auto simp: layout_checks_def checked_add_u64_def word_less_nat_alt moff_def split: if_splits)
  then have wf: "header_wf h"
    using sl by (simp add: header_wf_def h_def list_all_iff has_header_generation_def)
  have new: "\<exists>h0. try_new E cipher Argon2id 4096 (moff + size) r1 = (Inr h0, r3)
      \<and> h0\<lparr>flags := fl, metadata_offset := moff, metadata_size := size\<rparr> = h"
    using salt by (auto simp: try_new_def bindR_eq_Inr h_def)
  have hc: "cipher_suite h = cipher" by (simp add: h_def)
  obtain slot r4 where slot: "build mvk h r3 = (Inr slot, r4)" "slot_wf slot" "attempt E h m 0 slot = Some (Inr mvk)"
    using build [OF ml hc, of r3] by blast
  define h1 where "h1 = h\<lparr>keyslots := (keyslots h)[0 := slot]\<rparr>"
  have in1: "install_slot h 0 slot = Inr h1" by (simp add: install_slot_def h1_def)
  have wf1: "header_wf h1" by (rule install_slot_wf [OF wf slot(2) in1])
  have un: "try_unlock E h1 m = Inr mvk"
  proof (rule try_unlock_at [of 0])
    have "keyslots h1 ! 0 = slot" by (simp add: h1_def h_def)
    moreover have "attempt E h1 m 0 slot = attempt E h m 0 slot"
      by (rule attempt_cong) (simp_all add: h1_def sep_blob_def)
    ultimately show "attempt E h1 m 0 (keyslots h1 ! 0) = Some (Inr mvk)" using slot(3) by simp
  qed (simp_all add: h1_def h_def)
  obtain c r5 where c: "write_new_vault E det hb mb h1 mvk r4 = (Inr c, r5)" "open_vault E (disk_of c) m = Inr c"
    "c_read_metadata E (c, r2) = (Inr [], (c, r2))" "c_header c = h1"
    using write_new_vault_opens [OF env wf1, of det m mvk hb mb r4 r2] un mo sz fl
    by (auto simp: h1_def h_def masked_metadata_len_def)
  have "create_internal E ov det hb mb cipher fl build r = (Inr c, r5)"
  proof -
    from new obtain h0 where n: "try_new E cipher Argon2id 4096 (moff + size) r1 = (Inr h0, r3)"
      "h0\<lparr>flags := fl, metadata_offset := moff, metadata_size := size\<rparr> = h" by blast
    have m8: "(if det then 0 else of_nat 8192) = moff" by (simp add: moff_def)
    show ?thesis
      unfolding create_internal_def Let_def size_def [symmetric] m8
      using mvk n slot(1) in1 c(1) by (simp add: bindR_eq_Inr crypto_eq_Inr)
  qed
  with c wf1 show ?thesis by auto
qed


lemma succeeds_slot:
  assumes "succeeds (build :: ('r, Keyslot) rnd)" "\<And>s r r'. build r = (Inr s, r') \<Longrightarrow> P s"
  shows "\<exists>s r'. build r = (Inr s, r') \<and> P s"
  using assms unfolding succeeds_def by metis

lemma new_fido2_cred: "new_fido2 E suite mvk pw h cred hsalt params hs r = (Inr s, r') \<Longrightarrow> fido2_cred_id s = cred"
  by (drule new_fido2_enrolled) (auto simp: enrolled_as_def fresh_slot_def elim!: wrap_mvk_cases)

lemma passphrase_slot_opens:
  assumes "rng_fills E" "aead_correct E" "env_live E" "argon2_ready E params" "is_sane_for_disk params" "length mvk = 32"
  shows "\<exists>s r'. new_passphrase E (cipher_suite h) mvk pw params (header_salt h) r = (Inr s, r')
      \<and> slot_wf s \<and> attempt E h (M_Passphrase pw) 0 s = Some (Inr mvk)"
proof (rule succeeds_slot [OF pp.enroll_total [OF assms(3,2,4,6)]])
  fix s r r' assume n: "new_passphrase E (cipher_suite h) mvk pw params (header_salt h) r = (Inr s, r')"
  show "slot_wf s \<and> attempt E h (M_Passphrase pw) 0 s = Some (Inr mvk)"
    using pp.enroll_wf [OF assms(1,5) n] pp.unlock_enrolled [OF assms(2,6) n] by (simp add: attempt_def keep_ok_def)
qed

lemma fido2_slot_opens:
  assumes "rng_fills E" "aead_correct E" "env_live E" "argon2_ready E params" "is_sane_for_disk params" "length mvk = 32"
    "length hsalt = 32" "length cred \<le> 352" "0xff \<notin> set (opt_bytes pw)"
  shows "\<exists>s r'. new_fido2 E (cipher_suite h) mvk pw hmac cred hsalt params (header_salt h) r = (Inr s, r')
      \<and> slot_wf s \<and> attempt E h (M_Fido2 pw cred hmac) 0 s = Some (Inr mvk)"
proof (rule succeeds_slot [OF fido2.enroll_total [OF assms(3,2) _ assms(6)]])
  show "argon2_ready E params \<and> 0xff \<notin> set (opt_bytes pw) \<and> length cred \<le> 352" using assms by simp
  fix s r r' assume n: "new_fido2 E (cipher_suite h) mvk pw hmac cred hsalt params (header_salt h) r = (Inr s, r')"
  show "slot_wf s \<and> attempt E h (M_Fido2 pw cred hmac) 0 s = Some (Inr mvk)"
    using fido2.enroll_wf [OF assms(1) _ n] assms(5,7) fido2.unlock_enrolled [OF assms(2,6) n] new_fido2_cred [OF n]
    by (simp add: attempt_def try_fido2_slot_def)
qed

lemma tpm2_slot_opens:
  assumes "rng_fills E" "aead_correct E" "env_live E" "length mvk = 32" "length blob \<le> 352" "unseal blob = Inr kek"
  shows "\<exists>s r'. new_tpm2 E (cipher_suite h) mvk kek blob (header_salt h) r = (Inr s, r')
      \<and> slot_wf s \<and> attempt E h (M_Tpm2 unseal) 0 s = Some (Inr mvk)"
proof (rule succeeds_slot [OF tpm.enroll_total [OF assms(3,2,5,4)]])
  fix s r r' assume n: "new_tpm2 E (cipher_suite h) mvk kek blob (header_salt h) r = (Inr s, r')"
  show "slot_wf s \<and> attempt E h (M_Tpm2 unseal) 0 s = Some (Inr mvk)"
    using tpm.enroll_wf [OF assms(1) TrueI n] tpm.unlock_enrolled [OF assms(2,4) n] new_tpm2_blob(1) [OF n] assms(6)
    by (auto simp: attempt_def try_sealed_slot_def keep_ok_def)
qed

text \<open>
  C2: a new vault opens with the credential it was created with. Creation with a passphrase, with a
  FIDO2 authenticator and with a TPM-sealed key succeeds in a live environment, inline or with a
  detached header; opening the files it wrote with the same credential returns the very same
  container, with a well-formed header, and its metadata reads back empty.
\<close>

theorem created_vault_opens:
  assumes env: "rng_fills E" "digest_lengths E" "aead_correct E" "env_live E"
    and size: "36 \<le> unat (resolved_create_metadata_region_size ov)" and fl: "flgs AND FLAG_MASKED_METADATA_LEN = 0"
    and params: "argon2_ready E params" "is_sane_for_disk params"
    and fido: "length hsalt = 32" "length cred \<le> 352" "0xff \<notin> set (opt_bytes opw)"
    and tpm: "length blob \<le> 352" "unseal blob = Inr kek"
    and create: "(create, m) \<in>
      {(create_with_passphrase_flags E ov det hb mb cipher params flgs pw, M_Passphrase pw),
       (create_with_fido2_flags E ov det hb mb cipher params flgs opw hmac cred hsalt, M_Fido2 opw cred hmac),
       (create_with_tpm2 E ov det hb mb cipher flgs kek blob, M_Tpm2 unseal)}"
  shows "\<exists>c r'. create r = (Inr c, r') \<and> open_vault E (disk_of c) m = Inr c
    \<and> c_read_metadata E (c, r2) = (Inr [], (c, r2)) \<and> header_wf (c_header c)"
proof -
  let ?opens = "\<lambda>create m. \<exists>c r'. create r = (Inr c, r') \<and> open_vault E (disk_of c) m = Inr c
    \<and> c_read_metadata E (c, r2) = (Inr [], (c, r2)) \<and> header_wf (c_header c)"
  have "?opens (create_with_passphrase_flags E ov det hb mb cipher params flgs pw) (M_Passphrase pw)"
    unfolding create_with_passphrase_flags_def
    using passphrase_slot_opens [OF env(1,3,4) params] by (intro create_internal_opens [OF env size fl]) blast
  moreover have "?opens (create_with_fido2_flags E ov det hb mb cipher params flgs opw hmac cred hsalt) (M_Fido2 opw cred hmac)"
    unfolding create_with_fido2_flags_def
    using fido2_slot_opens [OF env(1,3,4) params _ fido] by (intro create_internal_opens [OF env size fl]) blast
  moreover have "?opens (create_with_tpm2 E ov det hb mb cipher flgs kek blob) (M_Tpm2 unseal)"
    unfolding create_with_tpm2_def
    using tpm2_slot_opens [where unseal = unseal, OF env(1,3,4) _ tpm] by (intro create_internal_opens [OF env size fl]) blast
  ultimately show ?thesis using create by (elim insertE emptyE) simp_all
qed

theorem created_vault_opens_witness:
  "\<exists>c r'. create_with_passphrase_flags demo_env (Some 4096) False None None Aes256GcmSiv INTERACTIVE 0 [1, 2] 0 = (Inr c, r')
     \<and> open_vault demo_env (disk_of c) (M_Passphrase [1, 2]) = Inr c
     \<and> c_read_metadata demo_env (c, 0) = (Inr [], (c, 0)) \<and> header_wf (c_header c)"
  by (rule created_vault_opens [where params = INTERACTIVE and hsalt = "replicate 32 0" and cred = "[]" and opw = None
        and blob = "[]" and unseal = "\<lambda>_. Inr []" and kek = "[]" and ov = "Some 4096" and flgs = 0 and det = False
        and hb = None and mb = None and cipher = Aes256GcmSiv and pw = "[1, 2]" and hmac = "[]"])
     (simp_all add: demo_env_ok demo_env_live demo_argon2_ready presets_sane opt_bytes_def
       resolved_create_metadata_region_size_def)


text \<open>A vault with two ways in: the demonstration container with a passphrase enrolled into its free slot 0.\<close>

lemma demo_two_slots:
  obtains c r where "header_wf (c_header c)" "is_v2_format c" "header_dirty c" "c_mvk c = replicate 32 5"
    "header_side c = None" "metadata_offset (c_header c) = 8192" "data_offset (c_header c) = 131072"
    "unat (header_generation (c_header c)) = 42"
    "attempt demo_env (c_header c) (M_Passphrase [1, 2]) 0 (keyslots (c_header c) ! 0) = Some (Inr (replicate 32 5))"
    "try_unlock demo_env (c_header c) (M_Passphrase [1, 2]) = Inr (replicate 32 5)" "enroll_passphrase demo_env [1, 2] INTERACTIVE (demo_container, 0) = (Inr 0, (c, r))"
proof -
  have free: "list_ex slot_is_empty (keyslots demo_header)" "slot_is_empty (keyslots demo_header ! 0)"
    by (simp_all add: demo_header_def slot_is_empty_def empty_slot_def)
  have hs: "cipher_suite demo_header = Aes256GcmSiv" "header_salt demo_header = replicate 32 7"
    by (simp_all add: demo_header_def)
  obtain idx c r where e: "enroll_passphrase demo_env [1, 2] INTERACTIVE (demo_container, 0) = (Inr idx, (c, r))"
    "\<forall>j < idx. \<not> slot_is_empty (keyslots demo_header ! j)"
    and u: "unlock_passphrase demo_env Aes256GcmSiv (keyslots (c_header c) ! idx) [1, 2] (replicate 32 7) = Inr (replicate 32 5)"
    and wf: "header_wf (c_header c)"
    using enroll_passphrase_effect [OF demo_env_ok(1,2) demo_env_live, of INTERACTIVE demo_container "[1, 2]" 0]
      demo_header_wf free(1) hs by (auto simp: demo_argon2_ready presets_sane)
  have idx: "idx = 0" using e(2) free(2) by (metis neq0_conv)
  have "\<exists>slot. c = demo_container\<lparr>c_header := (c_header demo_container)\<lparr>keyslots := (keyslots (c_header demo_container))[idx := slot]\<rparr>,
      header_dirty := True\<rparr>"
    by (rule enroll_with_effect [OF e(1) [unfolded enroll_passphrase_def]]) blast
  then obtain slot where
    c: "c = demo_container\<lparr>c_header := demo_header\<lparr>keyslots := (keyslots demo_header)[idx := slot]\<rparr>, header_dirty := True\<rparr>"
    unfolding demo_container_sel(1) by blast
  have k: "kind (keyslots (c_header c) ! 0) = Passphrase"
    using u idx by (auto simp: unlock_passphrase_def split: if_splits)
  have at: "attempt demo_env (c_header c) (M_Passphrase [1, 2]) 0 (keyslots (c_header c) ! 0) = Some (Inr (replicate 32 5))"
    using u idx k hs by (simp add: attempt_def keep_ok_def c)
  show thesis
  proof (rule that [of c r])
    show "try_unlock demo_env (c_header c) (M_Passphrase [1, 2]) = Inr (replicate 32 5)"
      by (rule try_unlock_at [of 0]) (use at header_wf_simps(2) [OF wf] in simp_all)
    show "enroll_passphrase demo_env [1, 2] INTERACTIVE (demo_container, 0) = (Inr 0, (c, r))" using e(1) idx by simp
    show "is_v2_format c" by (simp add: c is_v2_format_def demo_container_def demo_header_def)
  qed (use wf at in \<open>simp_all add: c\<close>, simp_all add: demo_header_def demo_container_def)
qed

theorem vault_opens_after_persist_witness:
  "\<exists>c r c' r'. enroll_passphrase demo_env [1, 2] INTERACTIVE (demo_container, 0) = (Inr 0, (c, r))
     \<and> persist_header demo_env (c, r) = (Inr (), (c', r'))
     \<and> open_vault demo_env \<lparr>d_lbx = [], d_header = None, d_header_bak = header_bak c', d_meta_bak = None\<rparr> (M_Passphrase [1, 2])
         = Inr (opened \<lparr>d_lbx = [], d_header = None, d_header_bak = header_bak c', d_meta_bak = None\<rparr>
             (c_header c') (replicate 32 5) True)"
proof -
  obtain c r where c: "header_wf (c_header c)" "is_v2_format c" "header_dirty c" "c_mvk c = replicate 32 5"
    "header_side c = None" "metadata_offset (c_header c) = 8192" "data_offset (c_header c) = 131072"
    "unat (header_generation (c_header c)) = 42"
    "try_unlock demo_env (c_header c) (M_Passphrase [1, 2]) = Inr (replicate 32 5)"
    "enroll_passphrase demo_env [1, 2] INTERACTIVE (demo_container, 0) = (Inr 0, (c, r))"
    by (rule demo_two_slots)
  have il: "inline_ok (disk_of c) (c_header c)" using c by (simp add: inline_ok_def disk_of_def)
  have gen: "has_header_generation (c_header c) \<longrightarrow> unat (header_generation (c_header c)) + 1 < 2 ^ 64" using c(8) by simp
  have un: "try_unlock demo_env (c_header c) (M_Passphrase [1, 2]) = Inr (c_mvk c)" using c(4,9) by simp
  obtain c' r' where p: "persist_header demo_env (c, r) = (Inr (), (c', r'))"
    and d: "\<forall>d. \<not> is_ok (load_locked_header d) \<and> d_header_bak d = header_bak c' \<longrightarrow>
         open_vault demo_env d (M_Passphrase [1, 2]) = Inr (opened d (c_header c') (c_mvk c) True)"
    using vault_opens_after_persist [OF demo_env_ok(2,3) demo_env_live c(1-3) il gen un, of r] by blast
  let ?d = "\<lparr>d_lbx = [], d_header = None, d_header_bak = header_bak c', d_meta_bak = None\<rparr>"
  have "\<not> is_ok (load_locked_header ?d)" by (simp add: load_locked_header_def read_exact_def)
  then show ?thesis using c(4,10) p d [rule_format, of ?d] by auto
qed

theorem revoked_slot_stays_revoked_witness:
  "\<exists>c c1 r1 c2 r2 c3. c_revoke_slot 1 (c, 0 :: nat) = (Inr (), (c1, r1)) \<and> persist_header demo_env (c1, r1) = (Inr (), (c2, r2))
     \<and> open_vault demo_env \<lparr>d_lbx = [], d_header = None, d_header_bak = header_bak c2, d_meta_bak = None\<rparr> (M_Passphrase [1, 2])
         = Inr c3
     \<and> (\<exists>j < 8. j \<noteq> 1 \<and> attempt demo_env (c_header c) (M_Passphrase [1, 2]) j (keyslots (c_header c) ! j) = Some (Inr (c_mvk c3)))"
proof -
  obtain c r where c: "header_wf (c_header c)" "is_v2_format c" "header_dirty c" "c_mvk c = replicate 32 5"
    "unat (header_generation (c_header c)) = 42"
    "attempt demo_env (c_header c) (M_Passphrase [1, 2]) 0 (keyslots (c_header c) ! 0) = Some (Inr (replicate 32 5))"
    by (rule demo_two_slots)
  let ?h = "clear_sep_blob ((c_header c)\<lparr>keyslots := (keyslots (c_header c))[1 := empty_slot]\<rparr>) 1"
  define c1 where "c1 = c\<lparr>c_header := ?h, header_dirty := True\<rparr>"
  have rv: "c_revoke_slot 1 (c, 0 :: nat) = (Inr (), (c1, 0))"
    using c(2) by (simp add: c_revoke_slot_def bindR_eq_Inr guard_no_deniable_slot_mutation_def is_deniable_def withC_def
        is_v2_format_def headerC_def revoke_slot_def mark_header_dirty_def updC_def c1_def retR_def)
  note rt = revoked_table [OF c(1) rv]
  have gen: "has_header_generation (c_header c1) \<longrightarrow> unat (header_generation (c_header c1)) + 1 < 2 ^ 64"
    using c(5) by (simp add: c1_def clear_sep_blob_def Let_def)
  obtain c2 r2 where per: "persist_header demo_env (c1, 0) = (Inr (), (c2, r2))"
    using persist_header_effect [OF demo_env_ok(2,3) demo_env_live rt(1-3) gen] by blast
  have "attempt demo_env (c_header c1) (M_Passphrase [1, 2]) 0 (keyslots (c_header c1) ! 0) = Some (Inr (replicate 32 5))"
    using c(6) attempt_cong [where E = demo_env, OF rt(6,7) rt(9) [of 0]] rt(8) [of 0] by simp
  then have un: "try_unlock demo_env (c_header c1) (M_Passphrase [1, 2]) = Inr (c_mvk c1)"
    using header_wf_simps(2) [OF rt(1)] c(4) by (intro try_unlock_at [of 0]) (simp_all add: c1_def)
  let ?d = "\<lparr>d_lbx = [], d_header = None, d_header_bak = header_bak c2, d_meta_bak = None\<rparr>"
  have bad: "\<not> is_ok (load_locked_header ?d)" by (simp add: load_locked_header_def read_exact_def)
  have op: "open_vault demo_env ?d (M_Passphrase [1, 2]) = Inr (opened ?d (c_header c2) (c_mvk c1) True)"
    using open_after_persist(2) [OF demo_env_ok(2,3) demo_env_live rt(1-3) per un _ bad] rt(4) c(2) by simp
  have "\<exists>j < 8. j \<noteq> 1 \<and> attempt demo_env (c_header c) (M_Passphrase [1, 2]) j (keyslots (c_header c) ! j)
      = Some (Inr (c_mvk (opened ?d (c_header c2) (c_mvk c1) True)))"
    by (rule revoked_slot_stays_revoked [OF demo_env_ok(2,3) demo_env_live c(1,2) rv per _ _ op]) (use bad in simp_all)
  then show ?thesis using rv per op by blast
qed

text \<open>
  C22: what an untrusted header can describe. Whatever 8192 bytes are parsed, an accepted header is
  well formed and its regions are safe to use as offsets: the chunk size is between 512 bytes and
  1 MiB, the metadata is at most 64 MiB, its end does not overflow, and the data begins at or after
  it; all eight slots are well formed and the enclave blobs fit the region between the slots and the
  trailer. The metadata starts at 0, as behind a detached header, or past the header; where the live
  header lies in the vault file itself, loading it rules the first case out, so that header, metadata
  and data do not overlap.
\<close>

theorem header_parse_safe:
  assumes "length raw = 8192" "header_from_bytes raw = Inr h"
  shows "header_wf h
    \<and> 512 \<le> unat (chunk_size h) \<and> unat (chunk_size h) \<le> 1024 * 1024
    \<and> unat (metadata_size h) \<le> 64 * 1024 * 1024
    \<and> unat (metadata_offset h) + unat (metadata_size h) < 2 ^ 64
    \<and> unat (metadata_offset h) + unat (metadata_size h) \<le> unat (data_offset h)
    \<and> length (keyslots h) = MAX_KEYSLOTS \<and> list_all slot_wf (keyslots h)
    \<and> OFF_SEP_REGION + sep_region_required_len (sep_blobs h) \<le> OFF_HMAC
    \<and> (metadata_offset h = 0 \<or> HEADER_SIZE \<le> unat (metadata_offset h))
    \<and> (\<forall>d. load_locked_header d = Inr (raw, h) \<and> d_header d = None \<longrightarrow>
         HEADER_SIZE \<le> unat (metadata_offset h) \<and> HEADER_SIZE \<le> unat (data_offset h))"
proof -
  note b = header_parse_bounds [OF assms]
  have "HEADER_SIZE \<le> unat (metadata_offset h) \<and> HEADER_SIZE \<le> unat (data_offset h)"
    if "load_locked_header d = Inr (raw, h) \<and> d_header d = None" for d
    using that by (auto simp: load_locked_header_def bindE_eq_Inr word_less_nat_alt split: if_splits)
  then show ?thesis using b header_wf_simps(2,4) [OF b(1)] by blast
qed

theorem header_parse_safe_witness:
  "\<exists>raw d. load_locked_header d = Inr (raw, demo_header) \<and> d_header d = None \<and> length raw = 8192
     \<and> HEADER_SIZE \<le> unat (metadata_offset demo_header)
     \<and> unat (metadata_offset demo_header) + unat (metadata_size demo_header) \<le> unat (data_offset demo_header)"
proof -
  obtain raw where raw: "length raw = 8192" "header_from_bytes raw = Inr demo_header" using demo_header_parses by blast
  define d where "d = \<lparr>d_lbx = raw, d_header = None, d_header_bak = None, d_meta_bak = None\<rparr>"
  have "load_locked_header d = Inr (raw, demo_header)"
    using raw by (simp add: load_locked_header_def d_def read_exact_def slice_def demo_header_def)
  moreover have "d_header d = None" by (simp add: d_def)
  ultimately show ?thesis using header_parse_safe [OF raw] raw(1) by blast
qed

text \<open>
  C35: the inline layout check does not cover the mirror. Opening refuses an inline live header whose
  metadata region lies inside the first 8192 bytes, but a header recovered from the mirror is not
  subject to that check: there is a vault with an inline header that opens through its mirror with the
  metadata region at offset 0, over the header itself.
\<close>

theorem mirror_recovery_skips_inline_check:
  "\<exists>d c. d_header d = None \<and> open_vault demo_env d (M_Passphrase [1, 2]) = Inr c
     \<and> header_side c = None \<and> metadata_offset (c_header c) < of_nat HEADER_SIZE"
proof -
  obtain c r where c: "header_wf (c_header c)" "is_v2_format c" "header_dirty c" "c_mvk c = replicate 32 5"
    "data_offset (c_header c) = 131072" "unat (header_generation (c_header c)) = 42"
    "metadata_offset (c_header c) = 8192" "try_unlock demo_env (c_header c) (M_Passphrase [1, 2]) = Inr (replicate 32 5)"
    by (rule demo_two_slots)
  define c0 where "c0 = c\<lparr>c_header := (c_header c)\<lparr>metadata_offset := 0\<rparr>\<rparr>"
  have "layout_checks 8192 (metadata_size (c_header c)) 131072 = Inr ()"
    using c(1,5,7) by (simp add: header_wf_def)
  note lc = layout_checks_bounds [OF this]
  have "layout_checks 0 (metadata_size (c_header c)) 131072 = Inr ()"
    using lc by (simp add: layout_checks_def checked_add_u64_def word_less_nat_alt)
  then have wf: "header_wf (c_header c0)"
    using c(1,5) by (simp add: c0_def header_wf_def has_sep_region_def has_header_generation_def)
  have dn: "deniable c0 = None" "header_dirty c0" and v2: "is_v2_format c0"
    using c(2,3) by (simp_all add: c0_def is_v2_format_def)
  have at: "attempt demo_env (c_header c0) m = attempt demo_env (c_header c) m" for m
    by (intro ext attempt_cong) (simp_all add: c0_def sep_blob_def)
  have un: "try_unlock demo_env (c_header c0) (M_Passphrase [1, 2]) = Inr (c_mvk c0)"
    using c(4,8) by (simp add: try_unlock_until at) (simp add: c0_def)
  have gen: "has_header_generation (c_header c0) \<longrightarrow> unat (header_generation (c_header c0)) + 1 < 2 ^ 64"
    using c(6) by (simp add: c0_def)
  obtain c' r' fl g where per: "persist_header demo_env (c0, 0) = (Inr (), (c', r'))"
    and h': "c_header c' = (c_header c0)\<lparr>flags := fl, header_generation := g\<rparr>"
    using persist_header_effect [OF demo_env_ok(2,3) demo_env_live wf dn gen, of 0] by blast
  let ?d = "\<lparr>d_lbx = [], d_header = None, d_header_bak = header_bak c', d_meta_bak = None\<rparr>"
  have bad: "\<not> is_ok (load_locked_header ?d)" by (simp add: load_locked_header_def read_exact_def)
  have "open_vault demo_env ?d (M_Passphrase [1, 2]) = Inr (opened ?d (c_header c') (c_mvk c0) True)"
    using open_after_persist(2) [OF demo_env_ok(2,3) demo_env_live wf dn per un v2 bad] by simp
  then show ?thesis
    by (intro exI [of _ ?d] exI [of _ "opened ?d (c_header c') (c_mvk c0) True"]) (simp add: opened_def h' c0_def)
qed

text \<open>
  C15: opening is authenticated, and the mirror is only for headers that do not load. A vault opens
  exactly when some header bytes parse, the material unlocks a key from that header, and the header's
  HMAC verifies under that key; these bytes are the live ones, or the mirror's in the single case that
  the live header cannot be read, parsed or laid out, and only then is the header marked for rewriting.
\<close>

theorem open_vault_authenticated:
  "open_vault E d m = Inr c \<longleftrightarrow>
     (\<exists>b h mvk. header_from_bytes b = Inr h \<and> try_unlock E h m = Inr mvk \<and> verify_hmac E h b mvk = Inr ()
        \<and> (c = opened d h mvk False \<and> live_header d = Inr b \<and> inline_ok d h
           \<or> c = opened d h mvk True \<and> \<not> is_ok (load_locked_header d) \<and> d_header_bak d = Some b \<and> length b = HEADER_SIZE))"
  by (rule open_vault_iff)

end
