(* ===== verification/Lbx_BTree.thy ===== *)
theory Lbx_BTree
  imports Lbx_Prelude "HOL-Library.List_Lexorder" "HOL-Library.Multiset"
begin

text \<open>
  Ordered maps (\<open>std::collections::BTreeMap\<close>) as association lists sorted by key, so that
  iteration follows the order of the keys as it does in the source. The locale \<open>ordered_map\<close>
  states the laws the file system relies on: what a lookup returns after an insertion and a
  removal, and that iteration lists exactly the entries, in key order. It is interpreted on the
  operations below.
\<close>

type_synonym ('k, 'v) btree = "('k \<times> 'v) list"

fun bt_insert :: "'k :: linorder \<Rightarrow> 'v \<Rightarrow> ('k, 'v) btree \<Rightarrow> ('k, 'v) btree" where
  "bt_insert k v [] = [(k, v)]"
| "bt_insert k v ((k', v') # m) =
     (if k < k' then (k, v) # (k', v') # m
      else if k = k' then (k, v) # m
      else (k', v') # bt_insert k v m)"

definition bt_remove :: "'k \<Rightarrow> ('k, 'v) btree \<Rightarrow> ('k, 'v) btree" where
  "bt_remove k m = filter (\<lambda>p. fst p \<noteq> k) m"

definition bt_get :: "('k, 'v) btree \<Rightarrow> 'k \<Rightarrow> 'v option" where
  "bt_get m k = map_of m k"

definition bt_contains :: "('k, 'v) btree \<Rightarrow> 'k \<Rightarrow> bool" where
  "bt_contains m k \<longleftrightarrow> bt_get m k \<noteq> None"

definition bt_keys :: "('k, 'v) btree \<Rightarrow> 'k list" where
  "bt_keys m = map fst m"

definition bt_values :: "('k, 'v) btree \<Rightarrow> 'v list" where
  "bt_values m = map snd m"

text \<open>In-place change of the value of a present key (\<open>get_mut\<close>).\<close>

definition bt_modify :: "'k :: linorder \<Rightarrow> ('v \<Rightarrow> 'v) \<Rightarrow> ('k, 'v) btree \<Rightarrow> ('k, 'v) btree" where
  "bt_modify k f m = (case bt_get m k of None \<Rightarrow> m | Some v \<Rightarrow> bt_insert k (f v) m)"

definition bt_ok :: "('k :: linorder, 'v) btree \<Rightarrow> bool" where
  "bt_ok m \<longleftrightarrow> sorted (bt_keys m) \<and> distinct (bt_keys m)"

locale ordered_map =
  fixes ok :: "'m \<Rightarrow> bool" and get :: "'m \<Rightarrow> 'k :: linorder \<Rightarrow> 'v option" and empty :: 'm
    and insert :: "'k \<Rightarrow> 'v \<Rightarrow> 'm \<Rightarrow> 'm" and remove :: "'k \<Rightarrow> 'm \<Rightarrow> 'm" and entries :: "'m \<Rightarrow> ('k \<times> 'v) list"
  assumes ok_empty: "ok empty" and get_empty: "get empty k = None"
    and ok_insert: "ok m \<Longrightarrow> ok (insert k v m)" and get_insert: "get (insert k v m) k' = (if k' = k then Some v else get m k')"
    and ok_remove: "ok m \<Longrightarrow> ok (remove k m)" and get_remove: "get (remove k m) k' = (if k' = k then None else get m k')"
    and entries_iff: "ok m \<Longrightarrow> (k, v) \<in> set (entries m) \<longleftrightarrow> get m k = Some v"
    and entries_sorted: "ok m \<Longrightarrow> sorted (map fst (entries m)) \<and> distinct (map fst (entries m))"
begin

text \<open>A map is determined by its lookups: iteration shows the same entries in the same order.\<close>

lemma entries_determined:
  assumes "ok m" "ok m'" "get m = get m'"
  shows "entries m = entries m'"
proof (rule map_sorted_distinct_set_unique [where f = fst])
  show "inj_on fst (set (entries m) \<union> set (entries m'))"
    using assms by (auto simp: inj_on_def entries_iff)
  show "set (entries m) = set (entries m')" using assms by (auto simp: entries_iff)
qed (use assms entries_sorted in auto)

lemma remove_insert_get: "get (remove k (insert k v m)) = get (remove k m)"
  by (rule ext) (simp add: get_insert get_remove)

lemma insert_insert_get: "get (insert k v (insert k w m)) = get (insert k v m)"
  by (rule ext) (simp add: get_insert)

lemma finite_dom: "ok m \<Longrightarrow> finite {k. get m k \<noteq> None}"
  by (rule finite_subset [of _ "fst ` set (entries m)"]) (force simp flip: entries_iff)+

end

section \<open>The sorted association list is such a map\<close>

lemma bt_get_insert [simp]: "bt_get (bt_insert k v m) k' = (if k' = k then Some v else bt_get m k')"
  by (induction k v m rule: bt_insert.induct) (auto simp: bt_get_def)

lemma bt_get_remove [simp]: "bt_get (bt_remove k m) k' = (if k' = k then None else bt_get m k')"
  by (induction m) (auto simp: bt_remove_def bt_get_def)

lemma bt_get_Nil [simp]: "bt_get [] k = None"
  by (simp add: bt_get_def)

lemma bt_keys_insert: "set (bt_keys (bt_insert k v m)) = insert k (set (bt_keys m))"
  by (induction k v m rule: bt_insert.induct) (auto simp: bt_keys_def)

lemma bt_ok_insert [simp]: "bt_ok m \<Longrightarrow> bt_ok (bt_insert k v m)"
proof (induction k v m rule: bt_insert.induct)
  case (2 k v k' v' m)
  have "set (map fst (bt_insert k v m)) = insert k (set (map fst m))"
    using bt_keys_insert by (simp add: bt_keys_def)
  then show ?case using 2 by (auto simp: bt_ok_def bt_keys_def simp del: set_map)
qed (simp add: bt_ok_def bt_keys_def)

lemma bt_ok_remove [simp]: "bt_ok m \<Longrightarrow> bt_ok (bt_remove k m)"
  by (induction m) (auto simp: bt_ok_def bt_keys_def bt_remove_def)

lemma bt_ok_Nil [simp]: "bt_ok []"
  by (simp add: bt_ok_def bt_keys_def)

lemma bt_entries: "bt_ok m \<Longrightarrow> (k, v) \<in> set m \<longleftrightarrow> bt_get m k = Some v"
  by (simp add: bt_ok_def bt_keys_def bt_get_def)

interpretation bt: ordered_map bt_ok bt_get "[]" bt_insert bt_remove "\<lambda>m. m"
  by unfold_locales (auto simp: bt_entries, auto simp: bt_ok_def bt_keys_def)

lemma bt_get_modify [simp]:
  "bt_get (bt_modify k f m) k' = (if k' = k then map_option f (bt_get m k) else bt_get m k')"
  by (simp add: bt_modify_def split: option.splits)

lemma bt_ok_modify [simp]: "bt_ok m \<Longrightarrow> bt_ok (bt_modify k f m)"
  by (simp add: bt_modify_def split: option.splits)

lemma bt_get_contains: "bt_contains m k \<longleftrightarrow> (\<exists>v. bt_get m k = Some v)"
  by (simp add: bt_contains_def)

lemma bt_in_values: "bt_ok m \<Longrightarrow> v \<in> set (bt_values m) \<longleftrightarrow> (\<exists>k. bt_get m k = Some v)"
  by (force simp: bt_values_def simp flip: bt_entries)

lemma bt_in_keys: "bt_ok m \<Longrightarrow> k \<in> set (bt_keys m) \<longleftrightarrow> bt_contains m k"
  by (force simp: bt_keys_def bt_contains_def simp flip: bt_entries)

lemma bt_empty_iff: "m = [] \<longleftrightarrow> (\<forall>k. bt_get m k = None)"
  by (cases m) (auto simp: bt_get_def)

section \<open>Sums over a map\<close>

definition bt_total :: "('v \<Rightarrow> 'a multiset) \<Rightarrow> ('k, 'v) btree \<Rightarrow> 'a multiset" where
  "bt_total F m = sum_list (map F (bt_values m))"

lemma bt_total_simps [simp]: "bt_total F [] = {#}" "bt_total F (p # m) = F (snd p) + bt_total F m"
  by (simp_all add: bt_total_def bt_values_def)

lemma bt_ok_Cons: "bt_ok (p # m) \<longleftrightarrow> bt_ok m \<and> (\<forall>k. bt_get m k \<noteq> None \<longrightarrow> fst p < k)"
proof -
  have "(\<forall>k. bt_get m k \<noteq> None \<longrightarrow> fst p < k) \<longleftrightarrow> (\<forall>k \<in> set (bt_keys m). fst p < k)"
    by (auto simp: bt_get_def bt_keys_def map_of_eq_None_iff simp flip: not_None_eq)
  also have "bt_ok m \<and> \<dots> \<longleftrightarrow> bt_ok (p # m)"
    by (auto simp: bt_ok_def bt_keys_def less_le)
  finally show ?thesis by simp
qed

lemma bt_get_Cons: "bt_get (p # m) k = (if k = fst p then Some (snd p) else bt_get m k)"
  by (cases p) (simp add: bt_get_def)

lemma bt_total_insert:
  "bt_ok m \<Longrightarrow> bt_total F (bt_insert k v m) + (case bt_get m k of None \<Rightarrow> {#} | Some w \<Rightarrow> F w) = bt_total F m + F v"
proof (induction k v m rule: bt_insert.induct)
  case (2 k v k' v' m)
  show ?case
  proof (cases "k < k'")
    case True
    then have "bt_get ((k', v') # m) k = None" using 2(2) by (auto simp: bt_ok_Cons bt_get_Cons)
    then show ?thesis using True by simp
  next
    case False
    then show ?thesis using 2 by (auto simp: bt_ok_Cons bt_get_Cons ac_simps)
  qed
qed simp

lemma bt_total_fresh: "bt_ok m \<Longrightarrow> bt_get m k = None \<Longrightarrow> bt_total F (bt_insert k v m) = bt_total F m + F v"
  using bt_total_insert [of m F k v] by simp

lemma bt_total_modify:
  "bt_ok m \<Longrightarrow> bt_get m k = Some w \<Longrightarrow> bt_total F (bt_modify k f m) + F w = bt_total F m + F (f w)"
  using bt_total_insert [of m F k "f w"] by (simp add: bt_modify_def)

lemma bt_total_modify_same:
  assumes "bt_ok m" "\<And>w. bt_get m k = Some w \<Longrightarrow> F (f w) = F w"
  shows "bt_total F (bt_modify k f m) = bt_total F m"
proof (cases "bt_get m k")
  case (Some w)
  then show ?thesis using bt_total_modify [OF assms(1) Some, of F f] assms(2) by simp
qed (simp add: bt_modify_def)

lemma bt_total_remove:
  "bt_ok m \<Longrightarrow> bt_total F (bt_remove k m) + (case bt_get m k of None \<Rightarrow> {#} | Some w \<Rightarrow> F w) = bt_total F m"
proof (induction m)
  case (Cons p m)
  show ?case
  proof (cases "fst p = k")
    case True
    then have n: "bt_get m k = None" using Cons.prems by (auto simp: bt_ok_Cons)
    then have "bt_remove k m = m"
      using Cons.prems by (auto simp: bt_remove_def filter_id_conv bt_ok_Cons simp flip: bt_entries)
        (metis bt_entries option.distinct(1) prod.collapse)
    then show ?thesis using True by (simp add: bt_remove_def bt_get_Cons)
  next
    case False
    then have "bt_remove k (p # m) = p # bt_remove k m" by (simp add: bt_remove_def)
    then show ?thesis using Cons False by (auto simp: bt_ok_Cons bt_get_Cons ac_simps)
  qed
qed (simp add: bt_remove_def)

lemma bt_total_mem: "bt_ok m \<Longrightarrow> x \<in># bt_total F m \<longleftrightarrow> (\<exists>k v. bt_get m k = Some v \<and> x \<in># F v)"
proof -
  assume ok: "bt_ok m"
  have "x \<in># bt_total F m \<longleftrightarrow> (\<exists>v \<in> set (bt_values m). x \<in># F v)"
    by (induction m) (auto simp: bt_values_def)
  then show ?thesis using bt_in_values [OF ok] by blast
qed

lemma mset_bt_values: "mset (bt_values m) = bt_total (\<lambda>v. {#v#}) m"
  by (induction m) (simp_all add: bt_values_def)

lemma mset_values_fresh: "bt_ok m \<Longrightarrow> bt_get m k = None \<Longrightarrow> mset (bt_values (bt_insert k v m)) = add_mset v (mset (bt_values m))"
  by (simp add: mset_bt_values bt_total_fresh)

lemma mset_values_replace:
  "bt_ok m \<Longrightarrow> bt_get m k = Some w \<Longrightarrow> add_mset w (mset (bt_values (bt_insert k v m))) = add_mset v (mset (bt_values m))"
  using bt_total_insert [of m "\<lambda>v. {#v#}" k v] by (simp add: mset_bt_values)

lemma mset_values_remove:
  "bt_ok m \<Longrightarrow> bt_get m k = Some w \<Longrightarrow> add_mset w (mset (bt_values (bt_remove k m))) = mset (bt_values m)"
  using bt_total_remove [of m "\<lambda>v. {#v#}" k] by (simp add: mset_bt_values)

end
