(* ===== verification/Lbx_Tree.thy ===== *)
theory Lbx_Tree
  imports Lbx_BTree Lbx_Metadata
begin

text \<open>
  The in-memory directory tree (\<open>luksbox-vfs/src/tree.rs\<close>), the errors of the file system
  (\<open>error.rs\<close>) and the rules for names (\<open>validate_name\<close>, \<open>validate_new_name\<close>, \<open>names_eq_ci\<close>
  and \<open>is_safe_symlink_target\<close> of \<open>vfs.rs\<close>).

  A Rust string is the list of its code points; its length in bytes is that of its UTF-8 form, and
  the byte order of strings is the lexicographic order of code points. The Unicode upper-case
  table of the standard library is the parameter \<open>upcase\<close>.
\<close>

unbundle bit_operations_syntax

section \<open>Errors\<close>

datatype vfs_error =
    VCrypto error
  | Format fmt_error
  | NotFound
  | AlreadyExists
  | NotADirectory
  | IsADirectory
  | NotAFile
  | NotEmpty
  | MetadataSerialize
  | MetadataDeserialize
  | InvalidPath "nat list"
  | RenameCycle
  | VOffsetOverflow
  | IdSpaceExhausted
  | FileSizeExceedsCap
  | MetadataBudgetExhausted
  | ReadOnlyMount
  | VaultSizeLimit u64
  | MaxSizeBelowMinimum u64 u64
  | MaxSizeNeedsCurrentFormat
  | ShrinkDeniable

type_synonym 'a vres = "vfs_error + 'a"

section \<open>Names\<close>

type_synonym rstring = "nat list"

definition rstr :: "string \<Rightarrow> rstring" where
  "rstr s = map of_char s"

definition utf8_width :: "nat \<Rightarrow> nat" where
  "utf8_width c = (if c < 0x80 then 1 else if c < 0x800 then 2 else if c < 0x10000 then 3 else 4)"

definition utf8_len :: "rstring \<Rightarrow> nat" where
  "utf8_len s = sum_list (map utf8_width s)"

text \<open>\<open>char::is_control\<close>: the general category Cc.\<close>

definition is_control :: "nat \<Rightarrow> bool" where
  "is_control c \<longleftrightarrow> c < 0x20 \<or> 0x7f \<le> c \<and> c < 0xa0"

abbreviation (input) SLASH :: nat where "SLASH \<equiv> 47"
abbreviation (input) BACKSLASH :: nat where "BACKSLASH \<equiv> 92"
abbreviation (input) DOT :: nat where "DOT \<equiv> 46"
abbreviation (input) COLON :: nat where "COLON \<equiv> 58"
abbreviation (input) MAX_NAME_LEN_BYTES :: nat where "MAX_NAME_LEN_BYTES \<equiv> 255"
abbreviation (input) MAX_SYMLINK_TARGET_LEN :: nat where "MAX_SYMLINK_TARGET_LEN \<equiv> 4096"

definition validate_name :: "rstring \<Rightarrow> unit vres" where
  "validate_name name =
     (if name = [] \<or> name = [DOT] \<or> name = [DOT, DOT] \<or> MAX_NAME_LEN_BYTES < utf8_len name
         \<or> SLASH \<in> set name \<or> BACKSLASH \<in> set name \<or> 0 \<in> set name
      then Inl (InvalidPath name) else Inr ())"

definition validate_new_name :: "rstring \<Rightarrow> unit vres" where
  "validate_new_name name =
     bindE (validate_name name) (\<lambda>_.
     if list_ex is_control name then Inl (InvalidPath name) else Inr ())"

fun names_eq_ci :: "(nat \<Rightarrow> rstring) \<Rightarrow> rstring \<Rightarrow> rstring \<Rightarrow> bool" where
  "names_eq_ci upcase [] [] = True"
| "names_eq_ci upcase (x # a) (y # b) =
     (if x \<noteq> y \<and> upcase x \<noteq> upcase y then False else names_eq_ci upcase a b)"
| "names_eq_ci upcase a b = False"

text \<open>\<open>str::split\<close> on a set of separators: one component more than there are separators.\<close>

fun split_on :: "(nat \<Rightarrow> bool) \<Rightarrow> rstring \<Rightarrow> rstring list" where
  "split_on p [] = [[]]"
| "split_on p (c # s) =
     (if p c then [] # split_on p s
      else (case split_on p s of [] \<Rightarrow> [[c]] | w # ws \<Rightarrow> (c # w) # ws))"

definition is_ascii_alphabetic :: "nat \<Rightarrow> bool" where
  "is_ascii_alphabetic c \<longleftrightarrow> 65 \<le> c \<and> c \<le> 90 \<or> 97 \<le> c \<and> c \<le> 122"

definition is_safe_symlink_target :: "rstring \<Rightarrow> bool" where
  "is_safe_symlink_target target =
     (if target = [] then False
      else if MAX_SYMLINK_TARGET_LEN < utf8_len target then False
      else if 0 \<in> set target then False
      else if target ! 0 = SLASH \<or> target ! 0 = BACKSLASH then False
      else if 2 \<le> length target \<and> target ! 1 = COLON \<and> is_ascii_alphabetic (target ! 0) then False
      else list_all (\<lambda>comp. \<not> (comp = [DOT, DOT] \<or> comp = [DOT]))
             (split_on (\<lambda>c. c = SLASH \<or> c = BACKSLASH) target))"

section \<open>Inodes and the tree\<close>

record ChunkRef =
  cr_id :: u64
  cr_gen :: u64

datatype InodeKind = File | Directory | Symlink

record Inode =
  i_id :: u64
  i_parent :: u64
  i_kind :: InodeKind
  i_size :: u64
  i_mtime_ns :: u64
  i_chunks :: "ChunkRef list"
  i_children :: "(rstring, u64) btree"
  i_cached_real_size :: "u64 option"
  i_external_list_blocks :: "ChunkRef list"
  i_mode :: u32
  i_link_count :: u32
  i_symlink_target :: "rstring option"

abbreviation (input) ROOT_ID :: u64 where "ROOT_ID \<equiv> 1"
abbreviation (input) CHUNK_LIST_FILE_ID_BIT :: u64 where "CHUNK_LIST_FILE_ID_BIT \<equiv> 0x8000000000000000"
abbreviation (input) DEFAULT_FILE_MODE :: u32 where "DEFAULT_FILE_MODE \<equiv> 0x1a4"
abbreviation (input) DEFAULT_DIR_MODE :: u32 where "DEFAULT_DIR_MODE \<equiv> 0x1ed"

definition default_mode_for_kind :: "InodeKind \<Rightarrow> u32" where
  "default_mode_for_kind k =
     (case k of File \<Rightarrow> DEFAULT_FILE_MODE | Directory \<Rightarrow> DEFAULT_DIR_MODE | Symlink \<Rightarrow> 0x1ff)"

record DirectoryTree =
  t_root :: u64
  next_file_id :: u64
  next_chunk_id :: u64
  next_chunk_gen :: u64
  free_chunks :: "u64 list"
  inodes :: "(u64, Inode) btree"

definition tree_new :: DirectoryTree where
  "tree_new = \<lparr>t_root = ROOT_ID, next_file_id = ROOT_ID + 1, next_chunk_id = 0, next_chunk_gen = 1, free_chunks = [],
     inodes = bt_insert ROOT_ID
       \<lparr>i_id = ROOT_ID, i_parent = ROOT_ID, i_kind = Directory, i_size = 0, i_mtime_ns = 0, i_chunks = [],
        i_children = [], i_cached_real_size = None, i_external_list_blocks = [], i_mode = DEFAULT_DIR_MODE,
        i_link_count = 1, i_symlink_target = None\<rparr> []\<rparr>"

text \<open>
  The allocators of the source return \<open>None\<close> where a counter would wrap, and leave the tree as it
  was. The free list is a stack with its top at the end.
\<close>

definition alloc_chunk_gen :: "DirectoryTree \<Rightarrow> (u64 \<times> DirectoryTree) option" where
  "alloc_chunk_gen t =
     map_option (\<lambda>n. (next_chunk_gen t, t\<lparr>next_chunk_gen := n\<rparr>)) (checked_add_u64 (next_chunk_gen t) 1)"

definition alloc_file_id :: "DirectoryTree \<Rightarrow> (u64 \<times> DirectoryTree) option" where
  "alloc_file_id t =
     map_option (\<lambda>n. (next_file_id t, t\<lparr>next_file_id := n\<rparr>)) (checked_add_u64 (next_file_id t) 1)"

definition alloc_chunk_id :: "DirectoryTree \<Rightarrow> (u64 \<times> DirectoryTree) option" where
  "alloc_chunk_id t =
     (if free_chunks t \<noteq> [] then Some (last (free_chunks t), t\<lparr>free_chunks := butlast (free_chunks t)\<rparr>)
      else map_option (\<lambda>n. (next_chunk_id t, t\<lparr>next_chunk_id := n\<rparr>)) (checked_add_u64 (next_chunk_id t) 1))"

definition free_chunk_id :: "u64 \<Rightarrow> DirectoryTree \<Rightarrow> DirectoryTree" where
  "free_chunk_id cid t = t\<lparr>free_chunks := free_chunks t @ [cid]\<rparr>"

end
