(* ===== verification/Lbx_Chunk.thy ===== *)
theory Lbx_Chunk
  imports Lbx_Tree Lbx_Container
begin

text \<open>
  Encrypted chunk slots and chunk-list blocks (\<open>luksbox-vfs/src/chunk.rs\<close>). A chunk slot holds
  nonce, ciphertext and tag of 4096 plaintext bytes at \<open>data_offset + id * 4124\<close>; its associated
  data binds the file, the position in the file and the generation. The chunk references of a large
  file live in a chain of chunk-list blocks, themselves chunks under a synthetic file id.

  Reading does not change the container, so readers are functions of it; writers are computations
  on the container and the random source.
\<close>

unbundle bit_operations_syntax

type_synonym ('r, 'a) kop = "(Container \<times> 'r, vfs_error, 'a) rand"

definition fmt :: "('s, fmt_error, 'a) rand \<Rightarrow> ('s, vfs_error, 'a) rand" where
  "fmt m = (\<lambda>s. case m s of (x, s') \<Rightarrow> (map_err Format x, s'))"

definition vcrypto :: "('s, error, 'a) rand \<Rightarrow> ('s, vfs_error, 'a) rand" where
  "vcrypto m = (\<lambda>s. case m s of (x, s') \<Rightarrow> (map_err VCrypto x, s'))"

text \<open>A computation on the random source beside the container.\<close>

definition onR :: "('r, 'e, 'a) rand \<Rightarrow> ('c \<times> 'r, 'e, 'a) rand" where
  "onR m = (\<lambda>(c, r). case m r of (x, r') \<Rightarrow> (x, (c, r')))"

lemma fmt_eq_Inr [res_simps]: "fmt m s = (Inr x, s') \<longleftrightarrow> m s = (Inr x, s')"
  by (cases "m s") (auto simp: fmt_def)

lemma vcrypto_eq_Inr [res_simps]: "vcrypto m s = (Inr x, s') \<longleftrightarrow> m s = (Inr x, s')"
  by (cases "m s") (auto simp: vcrypto_def)

lemma onR_eq_Inr [res_simps]: "onR m (c, r) = (Inr x, (c', r')) \<longleftrightarrow> m r = (Inr x, r') \<and> c' = c"
  by (cases "m r") (auto simp: onR_def)

abbreviation (input) CHUNK_PLAINTEXT_SIZE :: nat where "CHUNK_PLAINTEXT_SIZE \<equiv> 4096"
abbreviation (input) CHUNK_NONCE_LEN :: nat where "CHUNK_NONCE_LEN \<equiv> 12"
abbreviation (input) CHUNK_TAG_LEN :: nat where "CHUNK_TAG_LEN \<equiv> 16"
abbreviation (input) CHUNK_SLOT_SIZE :: u64 where "CHUNK_SLOT_SIZE \<equiv> 4124"
abbreviation (input) FILE_KEY_INFO_PREFIX :: bytes where "FILE_KEY_INFO_PREFIX \<equiv> bstr ''lbx:file/v1:''"
abbreviation (input) CHUNK_LIST_ENTRIES_PER_BLOCK :: nat where "CHUNK_LIST_ENTRIES_PER_BLOCK \<equiv> 254"
abbreviation (input) CHUNK_LIST_ENTRIES_OFFSET :: nat where "CHUNK_LIST_ENTRIES_OFFSET \<equiv> 4"
abbreviation (input) CHUNK_LIST_NEXT_OFFSET :: nat where "CHUNK_LIST_NEXT_OFFSET \<equiv> 4068"
abbreviation (input) MAX_LEGITIMATE_CHUNK_COUNT :: u64 where "MAX_LEGITIMATE_CHUNK_COUNT \<equiv> 0x100000000"

section \<open>One chunk\<close>

definition slot_offset :: "u64 \<Rightarrow> u64 \<Rightarrow> u64 vres" where
  "slot_offset doff chunk_id =
     bindE (ok_or VOffsetOverflow (checked_mul_u64 chunk_id CHUNK_SLOT_SIZE)) (\<lambda>relative.
     ok_or VOffsetOverflow (checked_add_u64 doff relative))"

definition chunk_aad :: "u64 \<Rightarrow> u32 \<Rightarrow> u64 \<Rightarrow> bytes" where
  "chunk_aad file_id chunk_idx generation = u64_to_le file_id @ u32_to_le chunk_idx @ u64_to_le generation"

definition file_key :: "'r env \<Rightarrow> Container \<Rightarrow> u64 \<Rightarrow> bytes" where
  "file_key E c file_id = c_derive_subkey E c (FILE_KEY_INFO_PREFIX @ u64_to_le file_id)"

definition file_key_for_mvk :: "'r env \<Rightarrow> bytes \<Rightarrow> bytes \<Rightarrow> u64 \<Rightarrow> bytes" where
  "file_key_for_mvk E mvk hs file_id = derive_subkey E mvk hs (FILE_KEY_INFO_PREFIX @ u64_to_le file_id)"

definition read_chunk :: "'r env \<Rightarrow> Container \<Rightarrow> bytes \<Rightarrow> u64 \<Rightarrow> u32 \<Rightarrow> ChunkRef \<Rightarrow> bytes vres" where
  "read_chunk E c key file_id chunk_idx chunk =
     bindE (slot_offset (data_offset (c_header c)) (cr_id chunk)) (\<lambda>off.
     bindE (map_err Format (read_exact (lbx_file c) off (CHUNK_NONCE_LEN + CHUNK_PLAINTEXT_SIZE + CHUNK_TAG_LEN))) (\<lambda>buf.
     map_err VCrypto
       (aead_open E (cipher_suite (c_header c)) key (take CHUNK_NONCE_LEN buf)
          (chunk_aad file_id chunk_idx (cr_gen chunk)) (drop CHUNK_NONCE_LEN buf))))"

text \<open>
  \<open>write_chunk\<close> asserts that the plaintext has 4096 bytes; the model's callers keep to it, and a
  call that does not is the failed assertion.
\<close>

definition write_chunk :: "'r env \<Rightarrow> bytes \<Rightarrow> u64 \<Rightarrow> u32 \<Rightarrow> ChunkRef \<Rightarrow> bytes \<Rightarrow> ('r, unit) kop" where
  "write_chunk E key file_id chunk_idx chunk plaintext = (\<lambda>(c, r).
     if length plaintext \<noteq> CHUNK_PLAINTEXT_SIZE then (Inl (VCrypto (Panic ''plaintext length'')), (c, r))
     else
       bindR (liftR (slot_offset (data_offset (c_header c)) (cr_id chunk))) (\<lambda>off.
       bindR (vcrypto (onR (fill E CHUNK_NONCE_LEN))) (\<lambda>nonce.
       bindR (vcrypto (liftR (seal E (cipher_suite (c_header c)) key nonce
                (chunk_aad file_id chunk_idx (cr_gen chunk)) plaintext))) (\<lambda>ct.
       fmt (write_at off (nonce @ ct))))) (c, r))"

section \<open>Chunk-list blocks\<close>

definition list_file_id :: "u64 \<Rightarrow> u64" where
  "list_file_id file_id = file_id OR CHUNK_LIST_FILE_ID_BIT"

definition list_file_key :: "'r env \<Rightarrow> Container \<Rightarrow> u64 \<Rightarrow> bytes" where
  "list_file_key E c file_id = file_key E c (list_file_id file_id)"

definition list_file_key_for_mvk :: "'r env \<Rightarrow> bytes \<Rightarrow> bytes \<Rightarrow> u64 \<Rightarrow> bytes" where
  "list_file_key_for_mvk E mvk hs file_id = file_key_for_mvk E mvk hs (list_file_id file_id)"

definition encode_chunk_ref :: "ChunkRef \<Rightarrow> bytes" where
  "encode_chunk_ref cr = u64_to_le (cr_id cr) @ u64_to_le (cr_gen cr)"

definition decode_chunk_ref :: "bytes \<Rightarrow> ChunkRef" where
  "decode_chunk_ref b = \<lparr>cr_id = u64_from_le (take 8 b), cr_gen = u64_from_le (slice b 8 8)\<rparr>"

fun put_entries :: "bytes \<Rightarrow> nat \<Rightarrow> ChunkRef list \<Rightarrow> bytes" where
  "put_entries buf i [] = buf"
| "put_entries buf i (cr # crs) =
     put_entries (put buf (CHUNK_LIST_ENTRIES_OFFSET + i * 16) (encode_chunk_ref cr)) (Suc i) crs"

definition encode_chunk_list_block :: "'r env \<Rightarrow> ChunkRef list \<Rightarrow> ChunkRef option \<Rightarrow> ('r, vfs_error, bytes) rand" where
  "encode_chunk_list_block E entries next =
     (if CHUNK_LIST_ENTRIES_PER_BLOCK < length entries then failR (VCrypto InvalidField)
      else
        bindR (vcrypto (fill E CHUNK_PLAINTEXT_SIZE)) (\<lambda>buf.
        let buf = put buf 0 (u32_to_le (of_nat (length entries)));
            buf = put_entries buf 0 entries;
            next_bytes = (case next of Some cr \<Rightarrow> encode_chunk_ref cr | None \<Rightarrow> replicate 16 0)
        in retR (put buf CHUNK_LIST_NEXT_OFFSET next_bytes)))"

definition parse_chunk_list_block :: "bytes \<Rightarrow> (ChunkRef list \<times> ChunkRef option) vres" where
  "parse_chunk_list_block plaintext =
     (if length plaintext \<noteq> CHUNK_PLAINTEXT_SIZE then Inl (VCrypto InvalidField)
      else
        (let count = unat (u32_from_le (slice plaintext 0 4)) in
         if CHUNK_LIST_ENTRIES_PER_BLOCK < count then Inl (VCrypto InvalidField)
         else
           (let entries = map (\<lambda>i. decode_chunk_ref (slice plaintext (CHUNK_LIST_ENTRIES_OFFSET + i * 16) 16)) [0..<count];
                next_ref = decode_chunk_ref (slice plaintext CHUNK_LIST_NEXT_OFFSET 16)
            in Inr (entries, if cr_gen next_ref = 0 then None else Some next_ref))))"

definition write_chunk_list_block ::
  "'r env \<Rightarrow> u64 \<Rightarrow> u32 \<Rightarrow> ChunkRef \<Rightarrow> ChunkRef list \<Rightarrow> ChunkRef option \<Rightarrow> ('r, unit) kop" where
  "write_chunk_list_block E file_id block_idx chunk entries next =
     bindR (onR (encode_chunk_list_block E entries next)) (\<lambda>plaintext (c, r).
     write_chunk E (list_file_key E c file_id) (list_file_id file_id) block_idx chunk plaintext (c, r))"

definition checked_add_u32 :: "u32 \<Rightarrow> u32 \<Rightarrow> u32 option" where
  "checked_add_u32 a b = (if unat a + unat b < 2 ^ 32 then Some (a + b) else None)"

text \<open>The walk over the chain. Every turn takes one more block, of which there may be \<open>max_blocks\<close>.\<close>

function walk_blocks ::
  "'r env \<Rightarrow> Container \<Rightarrow> bytes \<Rightarrow> u64 \<Rightarrow> nat \<Rightarrow> nat \<Rightarrow> ChunkRef list \<Rightarrow> ChunkRef list \<Rightarrow> ChunkRef option \<Rightarrow> u32
     \<Rightarrow> (ChunkRef list \<times> ChunkRef list) vres" where
  "walk_blocks E c key synth_id max_entries max_blocks entries list_blocks current block_idx =
     (case current of
        None \<Rightarrow> Inr (entries, list_blocks)
      | Some cref \<Rightarrow>
          if max_blocks \<le> length list_blocks then Inl (VCrypto InvalidField)
          else
            (case read_chunk E c key synth_id block_idx cref of
               Inl e \<Rightarrow> Inl e
             | Inr pt \<Rightarrow>
                 (case parse_chunk_list_block pt of
                    Inl e \<Rightarrow> Inl e
                  | Inr (block_entries, next) \<Rightarrow>
                      if max max_entries 1 < length entries + length block_entries then Inl (VCrypto InvalidField)
                      else
                        (case checked_add_u32 block_idx 1 of
                           None \<Rightarrow> Inl VOffsetOverflow
                         | Some block_idx' \<Rightarrow>
                             walk_blocks E c key synth_id max_entries max_blocks (entries @ block_entries)
                               (list_blocks @ [cref]) next block_idx'))))"
  by pat_completeness auto
termination
  by (relation "measure (\<lambda>(E, c, key, synth_id, max_entries, max_blocks, entries, list_blocks, current, block_idx).
        max_blocks - length list_blocks)") auto

declare walk_blocks.simps [simp del]

definition div_ceil :: "nat \<Rightarrow> nat \<Rightarrow> nat" where
  "div_ceil a b = (if a mod b = 0 then a div b else a div b + 1)"

definition walk_chunk_list_chain ::
  "'r env \<Rightarrow> Container \<Rightarrow> u64 \<Rightarrow> ChunkRef \<Rightarrow> u64 \<Rightarrow> (ChunkRef list \<times> ChunkRef list) vres" where
  "walk_chunk_list_chain E c file_id head expected_count =
     (if MAX_LEGITIMATE_CHUNK_COUNT < expected_count then Inl (VCrypto InvalidField)
      else
        (let max_entries = unat expected_count;
             max_blocks = div_ceil max_entries CHUNK_LIST_ENTRIES_PER_BLOCK + 2
         in bindE (walk_blocks E c (list_file_key E c file_id) (list_file_id file_id) max_entries max_blocks [] []
                     (Some head) 0) (\<lambda>(entries, list_blocks).
            if length entries \<noteq> unat expected_count then Inl (VCrypto InvalidField)
            else Inr (entries, list_blocks))))"

text \<open>The loop of \<open>write_external_chain_for\<close>: one list block per 254 entries, each naming its successor.\<close>

fun write_chain_blocks :: "'r env \<Rightarrow> u64 \<Rightarrow> ChunkRef list \<Rightarrow> nat \<Rightarrow> ChunkRef list \<Rightarrow> ('r, unit) kop" where
  "write_chain_blocks E file_id entries idx [] = retR ()"
| "write_chain_blocks E file_id entries idx (b # bs) =
     bindR (write_chunk_list_block E file_id (of_nat idx) b
              (take CHUNK_LIST_ENTRIES_PER_BLOCK (drop (idx * CHUNK_LIST_ENTRIES_PER_BLOCK) entries))
              (case bs of [] \<Rightarrow> None | b' # _ \<Rightarrow> Some b')) (\<lambda>_.
     write_chain_blocks E file_id entries (Suc idx) bs)"

section \<open>Chunk slots as a store\<close>

text \<open>
  What the file system relies on: a slot that was written reads back under the same reference, and
  readable slots with another id are unaffected.
\<close>

locale slot_store =
  fixes rd :: "'s \<Rightarrow> 'ref \<Rightarrow> 'v option" and wr :: "'ref \<Rightarrow> 'v \<Rightarrow> 's \<Rightarrow> 's \<Rightarrow> bool" and slot :: "'ref \<Rightarrow> 'k"
  assumes wr_same: "wr ref v s s' \<Longrightarrow> rd s' ref = Some v"
    and wr_other: "wr ref v s s' \<Longrightarrow> slot ref' \<noteq> slot ref \<Longrightarrow> rd s ref' = Some w \<Longrightarrow> rd s' ref' = Some w"
begin

fun wr_all :: "('ref \<times> 'v) list \<Rightarrow> 's \<Rightarrow> 's \<Rightarrow> bool" where
  "wr_all [] s s' \<longleftrightarrow> s' = s"
| "wr_all ((ref, v) # ws) s s' \<longleftrightarrow> (\<exists>s1. wr ref v s s1 \<and> wr_all ws s1 s')"

lemma wr_all_other:
  "wr_all ws s s' \<Longrightarrow> slot ref' \<notin> (slot \<circ> fst) ` set ws \<Longrightarrow> rd s ref' = Some w \<Longrightarrow> rd s' ref' = Some w"
proof (induction ws arbitrary: s)
  case (Cons p ws)
  obtain ref v where p: "p = (ref, v)" by (cases p)
  with Cons.prems obtain s1 where s1: "wr ref v s s1" "wr_all ws s1 s'" by auto
  have "rd s1 ref' = Some w" using wr_other [OF s1(1) _ Cons.prems(3)] Cons.prems(2) p by simp
  with Cons.IH [OF s1(2)] Cons.prems(2) show ?case by auto
qed simp

lemma wr_all_reads:
  "wr_all ws s s' \<Longrightarrow> distinct (map (slot \<circ> fst) ws) \<Longrightarrow> (ref, v) \<in> set ws \<Longrightarrow> rd s' ref = Some v"
proof (induction ws arbitrary: s)
  case (Cons p ws)
  obtain r w where p: "p = (r, w)" by (cases p)
  with Cons.prems obtain s1 where s1: "wr r w s s1" "wr_all ws s1 s'" by auto
  show ?case
  proof (cases "(ref, v) \<in> set ws")
    case True
    then show ?thesis using Cons.IH [OF s1(2)] Cons.prems(2) by simp
  next
    case False
    with Cons.prems(3) p have eq: "ref = r" "v = w" by auto
    have "slot r \<notin> (slot \<circ> fst) ` set ws" using Cons.prems(2) p by simp
    then show ?thesis using wr_all_other [OF s1(2) _ wr_same [OF s1(1)]] eq by simp
  qed
qed simp

end

section \<open>The chunk slots of a container are such a store\<close>

lemma slot_offset_Inr:
  "slot_offset doff i = Inr off \<longleftrightarrow> unat doff + unat i * 4124 < 2 ^ 64 \<and> unat off = unat doff + unat i * 4124"
proof
  have n: "unat (4124 :: u64) = 4124" by simp
  show "unat doff + unat i * 4124 < 2 ^ 64 \<and> unat off = unat doff + unat i * 4124" if "slot_offset doff i = Inr off"
    using that by (auto simp: slot_offset_def bindE_eq_Inr checked_mul_u64_Some checked_add_u64_Some n)
  assume a: "unat doff + unat i * 4124 < 2 ^ 64 \<and> unat off = unat doff + unat i * 4124"
  then have "unat (of_nat (unat i * 4124) :: u64) = unat i * 4124" by (intro unat_of_nat_u64) simp
  with a have "checked_mul_u64 i 4124 = Some (of_nat (unat i * 4124))"
    "checked_add_u64 doff (of_nat (unat i * 4124)) = Some off"
    by (simp_all add: checked_mul_u64_Some checked_add_u64_Some n)
  then show "slot_offset doff i = Inr off" by (simp add: slot_offset_def)
qed

lemma write_chunk_effect:
  assumes "rng_fills E" "aead_correct E" "write_chunk E key f i ch pt (c, r) = (Inr (), (c', r'))"
  obtains off nonce ct where "length pt = 4096" "slot_offset (data_offset (c_header c)) (cr_id ch) = Inr off"
    "length nonce = 12" "length ct = 4112" "seal E (cipher_suite (c_header c)) key nonce (chunk_aad f i (cr_gen ch)) pt = Inr ct"
    "write_all (lbx_file c) off (nonce @ ct) = Inr (lbx_file c')" "c' = c\<lparr>lbx_file := lbx_file c'\<rparr>"
proof -
  from assms(3) obtain off nonce r1 ct where len: "length pt = 4096"
    and off: "slot_offset (data_offset (c_header c)) (cr_id ch) = Inr off" and nonce: "fill E 12 r = (Inr nonce, r1)"
    and ct: "seal E (cipher_suite (c_header c)) key nonce (chunk_aad f i (cr_gen ch)) pt = Inr ct"
    and w: "write_at off (nonce @ ct) (c, r1) = (Inr (), (c', r'))"
    by (auto simp: write_chunk_def bindR_eq_Inr onR_eq_Inr vcrypto_eq_Inr fmt_eq_Inr split: if_splits)
  from w have "write_all (lbx_file c) off (nonce @ ct) = Inr (lbx_file c')" "c' = c\<lparr>lbx_file := lbx_file c'\<rparr>"
    by (auto simp: write_at_def res_simps lbxC_def split: sum.splits)
  with that len off nonce ct show thesis
    using fill_length [OF assms(1) nonce] seal_length [OF assms(2) ct] by simp
qed

lemma read_write_chunk:
  assumes "rng_fills E" "aead_correct E" "write_chunk E key f i ch pt (c, r) = (Inr (), (c', r'))"
  shows "read_chunk E c' key f i ch = Inr pt"
proof -
  obtain off nonce ct where w: "slot_offset (data_offset (c_header c)) (cr_id ch) = Inr off" "length nonce = 12"
    "length ct = 4112" "seal E (cipher_suite (c_header c)) key nonce (chunk_aad f i (cr_gen ch)) pt = Inr ct"
    "write_all (lbx_file c) off (nonce @ ct) = Inr (lbx_file c')" "c' = c\<lparr>lbx_file := lbx_file c'\<rparr>"
    by (rule write_chunk_effect [OF assms])
  have h: "c_header c' = c_header c" using arg_cong [OF w(6), of c_header] by simp
  have "read_exact (lbx_file c') off 4124 = Inr (nonce @ ct)"
    using read_after_write [OF w(5)] w(2,3) by force
  then show ?thesis using w(1,2) seal_open [OF assms(2) w(4)] by (simp add: read_chunk_def h)
qed

text \<open>Slots of different ids do not overlap.\<close>

lemma read_write_disjoint:
  assumes "write_all f off bs = Inr f'" "read_exact f off' n = Inr x"
    and "unat off' + n \<le> unat off \<or> unat off + length bs \<le> unat off'"
  shows "read_exact f' off' n = Inr x"
proof -
  from assms(2) have r: "unat off' < 2 ^ 63" "unat off' + n \<le> length f" "x = slice f (unat off') n"
    by (auto simp: read_exact_def not_less split: if_splits)
  let ?g = "f @ replicate (unat off - length f) 0"
  have "slice (put ?g (unat off) bs) (unat off') n = x \<and> unat off' + n \<le> length (put ?g (unat off) bs)"
  proof (cases "unat off' + n \<le> unat off")
    case True
    then show ?thesis using r by (auto simp: put_def slice_def drop_take min_def)
  next
    case False
    with assms(3) have le: "unat off + length bs \<le> unat off'" by simp
    then show ?thesis using r by (simp add: put_def slice_def drop_append)
  qed
  with assms(1) r show ?thesis by (auto simp: write_all_def read_exact_def split: if_splits)
qed

lemma read_chunk_other:
  assumes "rng_fills E" "aead_correct E" "write_chunk E key f i ch pt (c, r) = (Inr (), (c', r'))"
    and "cr_id ch' \<noteq> cr_id ch" "read_chunk E c key' f' i' ch' = Inr pt'"
  shows "read_chunk E c' key' f' i' ch' = Inr pt'"
proof -
  obtain off nonce ct where w: "slot_offset (data_offset (c_header c)) (cr_id ch) = Inr off" "length nonce = 12"
    "length ct = 4112" "write_all (lbx_file c) off (nonce @ ct) = Inr (lbx_file c')" "c' = c\<lparr>lbx_file := lbx_file c'\<rparr>"
    by (rule write_chunk_effect [OF assms(1-3)])
  have h: "c_header c' = c_header c" using arg_cong [OF w(5), of c_header] by simp
  from assms(5) obtain off' buf where r: "slot_offset (data_offset (c_header c)) (cr_id ch') = Inr off'"
    "read_exact (lbx_file c) off' 4124 = Inr buf"
    and dec: "map_err VCrypto (aead_open E (cipher_suite (c_header c)) key' (take 12 buf)
          (chunk_aad f' i' (cr_gen ch')) (drop 12 buf)) = Inr pt'"
    by (auto simp: read_chunk_def bindE_eq_Inr)
  have "unat (cr_id ch') \<noteq> unat (cr_id ch)" using assms(4) by (simp add: word_unat_eq_iff)
  then have "unat off' + 4124 \<le> unat off \<or> unat off + length (nonce @ ct) \<le> unat off'"
    using w(1-3) r(1) by (auto simp: slot_offset_Inr)
  then have "read_exact (lbx_file c') off' 4124 = Inr buf"
    by (rule read_write_disjoint [OF w(4) r(2)])
  then show ?thesis using r(1) dec by (simp add: read_chunk_def h)
qed


text \<open>
  A reference into the store: the file the chunk belongs to, whether it is one of its list blocks, the
  position and the chunk reference. The key follows from the file, and a write keeps it.
\<close>

record ChunkAddr =
  a_file :: u64
  a_idx :: u32
  a_ref :: ChunkRef

definition rd_chunk :: "'r env \<Rightarrow> Container \<Rightarrow> ChunkAddr \<Rightarrow> bytes option" where
  "rd_chunk E c a =
     (case read_chunk E c (file_key E c (a_file a)) (a_file a) (a_idx a) (a_ref a) of Inl _ \<Rightarrow> None | Inr pt \<Rightarrow> Some pt)"

definition wr_chunk :: "'r env \<Rightarrow> ChunkAddr \<Rightarrow> bytes \<Rightarrow> Container \<Rightarrow> Container \<Rightarrow> bool" where
  "wr_chunk E a pt c c' \<longleftrightarrow>
     rng_fills E \<and> aead_correct E
     \<and> (\<exists>r r'. write_chunk E (file_key E c (a_file a)) (a_file a) (a_idx a) (a_ref a) pt (c, r) = (Inr (), (c', r')))"

lemma rd_chunk_Some:
  "rd_chunk E c a = Some pt \<longleftrightarrow> read_chunk E c (file_key E c (a_file a)) (a_file a) (a_idx a) (a_ref a) = Inr pt"
  by (auto simp: rd_chunk_def split: sum.splits)

lemma write_chunk_frame:
  assumes "write_chunk E key f i ch pt (c, r) = (x, (c', r'))"
  shows "c_header c' = c_header c" "c_mvk c' = c_mvk c" "file_key E' c' g = file_key E' c g"
    "list_file_key E' c' g = list_file_key E' c g" "header_side c' = header_side c" "deniable c' = deniable c"
    "rotating c' = rotating c" "meta_bak c' = meta_bak c" "header_bak c' = header_bak c"
proof -
  have "\<exists>g. c' = c\<lparr>lbx_file := g\<rparr>"
    using assms
    by (auto simp: write_chunk_def bindR_def liftR_def vcrypto_def onR_def fmt_def write_at_def lbxC_def
        split: if_splits prod.splits sum.splits) (metis Container.surjective Container.update_convs(1))+
  then obtain g where c': "c' = c\<lparr>lbx_file := g\<rparr>" by blast
  show "c_header c' = c_header c" "c_mvk c' = c_mvk c" "header_side c' = header_side c" "deniable c' = deniable c"
    "rotating c' = rotating c" "meta_bak c' = meta_bak c" "header_bak c' = header_bak c"
    by (simp_all add: c')
  then show "file_key E' c' g = file_key E' c g" "list_file_key E' c' g = list_file_key E' c g" for E' g
    by (simp_all add: list_file_key_def file_key_def c_derive_subkey_def)
qed

interpretation chunks: slot_store "rd_chunk E" "wr_chunk E" "\<lambda>a. cr_id (a_ref a)" for E :: "'r env"
proof
  fix a pt c c' assume w: "wr_chunk E a pt c c'"
  then obtain r r' where e: "rng_fills E" "aead_correct E"
    "write_chunk E (file_key E c (a_file a)) (a_file a) (a_idx a) (a_ref a) pt (c, r) = (Inr (), (c', r'))"
    by (auto simp: wr_chunk_def)
  note fr = write_chunk_frame(3) [OF e(3)]
  show "rd_chunk E c' a = Some pt" using read_write_chunk [OF e] by (simp add: rd_chunk_Some fr)
  fix b w assume "cr_id (a_ref b) \<noteq> cr_id (a_ref a)" "rd_chunk E c b = Some w"
  then show "rd_chunk E c' b = Some w" using read_chunk_other [OF e] by (simp add: rd_chunk_Some fr)
qed

section \<open>The codec of list blocks\<close>

lemma length_encode_chunk_ref [simp]: "length (encode_chunk_ref cr) = 16"
  by (simp add: encode_chunk_ref_def)

lemma decode_encode_chunk_ref [simp]: "decode_chunk_ref (encode_chunk_ref cr) = cr"
  by (simp add: decode_chunk_ref_def encode_chunk_ref_def slice_def)

lemma length_concat_refs [simp]: "length (concat (map encode_chunk_ref crs)) = length crs * 16"
  by (induction crs) simp_all

lemma put_entries_concat:
  "4 + (i + length crs) * 16 \<le> length buf \<Longrightarrow>
     put_entries buf i crs = put buf (4 + i * 16) (concat (map encode_chunk_ref crs))"
proof (induction crs arbitrary: i buf)
  case (Cons cr crs)
  let ?b = "put buf (4 + i * 16) (encode_chunk_ref cr)"
  have "length ?b = length buf" using Cons.prems by simp
  then have "put_entries ?b (Suc i) crs = put ?b (4 + Suc i * 16) (concat (map encode_chunk_ref crs))"
    using Cons.prems by (intro Cons.IH) simp
  also have "\<dots> = put buf (4 + i * 16) (encode_chunk_ref cr @ concat (map encode_chunk_ref crs))"
    using Cons.prems put_put_append [of "4 + i * 16" "encode_chunk_ref cr" "concat (map encode_chunk_ref crs)" buf]
    by (simp add: ac_simps)
  finally show ?case by simp
qed simp

lemma slice_concat_refs:
  "i < length crs \<Longrightarrow> slice (concat (map encode_chunk_ref crs)) (i * 16) 16 = encode_chunk_ref (crs ! i)"
proof (induction crs arbitrary: i)
  case (Cons cr crs)
  then show ?case by (cases i) (simp_all add: slice_def)
qed simp

lemma parse_encode_block:
  assumes "rng_fills E" "encode_chunk_list_block E entries next r = (Inr pt, r')" "next \<noteq> None \<longrightarrow> cr_gen (the next) \<noteq> 0"
  shows "length pt = 4096" "parse_chunk_list_block pt = Inr (entries, next)"
proof -
  from assms(2) obtain buf where le: "length entries \<le> 254" and buf: "fill E 4096 r = (Inr buf, r')"
    and pt: "pt = put (put_entries (put buf 0 (u32_to_le (of_nat (length entries)))) 0 entries) 4068
       (case next of Some cr \<Rightarrow> encode_chunk_ref cr | None \<Rightarrow> replicate 16 0)"
    by (auto simp: encode_chunk_list_block_def bindR_eq_Inr vcrypto_eq_Inr Let_def not_less split: if_splits)
  define nb where "nb = (case next of Some cr \<Rightarrow> encode_chunk_ref cr | None \<Rightarrow> replicate 16 (0 :: u8))"
  define b0 where "b0 = put buf 0 (u32_to_le (of_nat (length entries)))"
  define b1 where "b1 = put b0 4 (concat (map encode_chunk_ref entries))"
  have bl: "length buf = 4096" using fill_length [OF assms(1) buf] .
  have nl: "length nb = 16" by (simp add: nb_def split: option.splits)
  have l0: "length b0 = 4096" using bl by (simp add: b0_def)
  have l1: "length b1 = 4096" using l0 le by (simp add: b1_def)
  have pt': "pt = put b1 4068 nb"
    using le l0 by (simp add: pt nb_def b0_def b1_def put_entries_concat)
  show len: "length pt = 4096" using l1 nl by (simp add: pt')
  have "slice pt 0 4 = u32_to_le (of_nat (length entries))"
  proof -
    have "slice pt 0 4 = slice b1 0 4" using l1 nl by (simp add: pt' slice_put_before)
    also have "\<dots> = slice b0 0 4" using l0 le by (simp add: b1_def slice_put_before)
    finally show ?thesis using bl by (simp add: b0_def slice_put_same)
  qed
  moreover have "unat (of_nat (length entries) :: u32) = length entries"
    using le by (simp add: unat_of_nat take_bit_nat_eq_self)
  moreover have "slice pt 4068 16 = nb" using l1 nl by (simp add: pt' buf_simps)
  moreover have "slice pt (4 + i * 16) 16 = encode_chunk_ref (entries ! i)" if "i < length entries" for i
  proof -
    have "slice pt (4 + i * 16) 16 = slice b1 (4 + i * 16) 16" using that le l1 nl by (simp add: pt' buf_simps)
    also have "\<dots> = slice (slice b1 4 (length entries * 16)) (i * 16) 16" using that by (simp add: slice_slice)
    also have "slice b1 4 (length entries * 16) = concat (map encode_chunk_ref entries)"
      using le l0 by (simp add: b1_def buf_simps)
    finally show ?thesis using that by (simp add: slice_concat_refs)
  qed
  moreover have "decode_chunk_ref nb = (case next of Some cr \<Rightarrow> cr | None \<Rightarrow> \<lparr>cr_id = 0, cr_gen = 0\<rparr>)"
  proof (cases "next")
    case None
    have "u64_from_le (replicate 8 0) = 0" by (simp add: u64_from_le_def numeral_eq_Suc)
    then show ?thesis using None by (simp add: nb_def decode_chunk_ref_def slice_def)
  qed (simp add: nb_def)
  ultimately show "parse_chunk_list_block pt = Inr (entries, next)"
    using le len assms(3) by (auto simp: parse_chunk_list_block_def Let_def map_nth intro!: nth_equalityI split: option.splits)
qed

section \<open>Chains of list blocks\<close>

definition chain_addr :: "u64 \<Rightarrow> nat \<Rightarrow> ChunkRef \<Rightarrow> ChunkAddr" where
  "chain_addr fid idx b = \<lparr>a_file = list_file_id fid, a_idx = of_nat idx, a_ref = b\<rparr>"

text \<open>What a block at position \<open>idx\<close> of a chain with remaining blocks \<open>bs\<close> holds.\<close>

definition block_holds :: "ChunkRef list \<Rightarrow> nat \<Rightarrow> ChunkRef list \<Rightarrow> bytes \<Rightarrow> bool" where
  "block_holds entries idx bs pt \<longleftrightarrow>
     parse_chunk_list_block pt = Inr (take 254 (drop (idx * 254) entries), case bs of [] \<Rightarrow> None | b' # _ \<Rightarrow> Some b')"

lemma write_chunk_list_block_holds:
  assumes "rng_fills E" "aead_correct E" "bs \<noteq> [] \<longrightarrow> cr_gen (hd bs) \<noteq> 0"
    and "write_chunk_list_block E fid (of_nat idx) b (take 254 (drop (idx * 254) entries))
      (case bs of [] \<Rightarrow> None | b' # _ \<Rightarrow> Some b') (c, r) = (Inr (), (c', r'))"
  shows "\<exists>pt. wr_chunk E (chain_addr fid idx b) pt c c' \<and> block_holds entries idx bs pt"
proof -
  from assms(4) obtain pt r1 where e: "encode_chunk_list_block E (take 254 (drop (idx * 254) entries))
      (case bs of [] \<Rightarrow> None | b' # _ \<Rightarrow> Some b') r = (Inr pt, r1)"
    and w: "write_chunk E (list_file_key E c fid) (list_file_id fid) (of_nat idx) b pt (c, r1) = (Inr (), (c', r'))"
    by (auto simp: write_chunk_list_block_def bindR_eq_Inr onR_eq_Inr)
  have "block_holds entries idx bs pt"
    unfolding block_holds_def by (rule parse_encode_block(2) [OF assms(1) e]) (use assms(3) in \<open>auto split: list.splits\<close>)
  moreover have "wr_chunk E (chain_addr fid idx b) pt c c'"
    using assms(1,2) w by (auto simp: wr_chunk_def chain_addr_def list_file_key_def)
  ultimately show ?thesis by blast
qed

fun chain_ok :: "'r env \<Rightarrow> Container \<Rightarrow> u64 \<Rightarrow> ChunkRef list \<Rightarrow> nat \<Rightarrow> ChunkRef list \<Rightarrow> bool" where
  "chain_ok E c fid entries idx [] \<longleftrightarrow> True"
| "chain_ok E c fid entries idx (b # bs) \<longleftrightarrow>
     (\<exists>pt. rd_chunk E c (chain_addr fid idx b) = Some pt \<and> block_holds entries idx bs pt)
     \<and> chain_ok E c fid entries (Suc idx) bs"

lemma write_chain_frame:
  assumes "rng_fills E" "aead_correct E" "\<forall>b\<in>set bs. cr_gen b \<noteq> 0"
    and "write_chain_blocks E fid entries idx bs (c, r) = (Inr (), (c', r'))"
    and "cr_id (a_ref a) \<notin> cr_id ` set bs" "rd_chunk E c a = Some pt"
  shows "rd_chunk E c' a = Some pt"
  using assms(3-)
proof (induction bs arbitrary: idx c r)
  case (Cons b bs)
  from Cons.prems(2) obtain c1 r1 where w: "write_chunk_list_block E fid (of_nat idx) b (take 254 (drop (idx * 254) entries))
      (case bs of [] \<Rightarrow> None | b' # _ \<Rightarrow> Some b') (c, r) = (Inr (), (c1, r1))"
    and rest: "write_chain_blocks E fid entries (Suc idx) bs (c1, r1) = (Inr (), (c', r'))"
    by (auto simp: bindR_eq_Inr)
  obtain p where p: "wr_chunk E (chain_addr fid idx b) p c c1"
    using write_chunk_list_block_holds [OF assms(1,2) _ w] Cons.prems(1) by (cases bs) auto
  have "rd_chunk E c1 a = Some pt"
    by (rule chunks.wr_other [OF p _ Cons.prems(4)]) (use Cons.prems(3) in \<open>auto simp: chain_addr_def\<close>)
  then show ?case by (intro Cons.IH [OF _ rest]) (use Cons.prems in auto)
qed simp

lemma write_chain_blocks_ok:
  assumes "rng_fills E" "aead_correct E" "\<forall>b\<in>set bs. cr_gen b \<noteq> 0" "distinct (map cr_id bs)"
    and "write_chain_blocks E fid entries idx bs (c, r) = (Inr (), (c', r'))"
  shows "chain_ok E c' fid entries idx bs"
  using assms(3-)
proof (induction bs arbitrary: idx c r)
  case (Cons b bs)
  from Cons.prems(3) obtain c1 r1 where w: "write_chunk_list_block E fid (of_nat idx) b (take 254 (drop (idx * 254) entries))
      (case bs of [] \<Rightarrow> None | b' # _ \<Rightarrow> Some b') (c, r) = (Inr (), (c1, r1))"
    and rest: "write_chain_blocks E fid entries (Suc idx) bs (c1, r1) = (Inr (), (c', r'))"
    by (auto simp: bindR_eq_Inr)
  obtain p where p: "wr_chunk E (chain_addr fid idx b) p c c1" "block_holds entries idx bs p"
    using write_chunk_list_block_holds [OF assms(1,2) _ w] Cons.prems(1) by (cases bs) auto
  have "rd_chunk E c' (chain_addr fid idx b) = Some p"
    by (rule write_chain_frame [OF assms(1,2) _ rest _ chunks.wr_same [OF p(1)]]) (use Cons.prems in \<open>auto simp: chain_addr_def\<close>)
  with p(2) Cons.IH [OF _ _ rest] Cons.prems show ?case by auto
qed simp

lemma unat_of_nat_u32: "n < 2 ^ 32 \<Longrightarrow> unat (of_nat n :: u32) = n"
  by (simp add: unat_of_nat take_bit_nat_eq_self)

lemma checked_add_u32_Suc:
  assumes "Suc n < 2 ^ 32"
  shows "checked_add_u32 (of_nat n) 1 = Some (of_nat (Suc n))"
proof -
  have "unat (of_nat n :: u32) = n" using assms by (intro unat_of_nat_u32) simp
  then show ?thesis using assms by (simp add: checked_add_u32_def add.commute)
qed

lemma walk_chain_ok:
  assumes "chain_ok E c fid entries idx bs"
    and "length entries \<le> (idx + length bs) * 254" "bs \<noteq> [] \<longrightarrow> (idx + length bs - 1) * 254 < length entries"
    and "idx + length bs < 2 ^ 32"
    and "length entries \<le> max_entries" "length seen + length bs \<le> max_blocks"
    and "acc = take (idx * 254) entries"
  shows "walk_blocks E c (list_file_key E c fid) (list_file_id fid) max_entries max_blocks acc seen
      (case bs of [] \<Rightarrow> None | b # _ \<Rightarrow> Some b) (of_nat idx) = Inr (entries, seen @ bs)"
  using assms
proof (induction bs arbitrary: idx acc seen)
  case Nil
  then show ?case by (subst walk_blocks.simps) simp
next
  case (Cons b bs)
  from Cons.prems(1) obtain pt where rd: "rd_chunk E c (chain_addr fid idx b) = Some pt" and pt: "block_holds entries idx bs pt"
    and rest: "chain_ok E c fid entries (Suc idx) bs" by auto
  from rd have r: "read_chunk E c (list_file_key E c fid) (list_file_id fid) (of_nat idx) b = Inr pt"
    by (simp add: rd_chunk_Some chain_addr_def list_file_key_def)
  let ?blk = "take 254 (drop (idx * 254) entries)"
  have idx: "checked_add_u32 (of_nat idx) 1 = Some (of_nat (Suc idx))"
    using Cons.prems(4) by (intro checked_add_u32_Suc) simp
  have "Suc idx * 254 = idx * 254 + 254" by simp
  then have acc: "acc @ ?blk = take (Suc idx * 254) entries"
    using Cons.prems(7) take_add [of "idx * 254" 254 entries] by (simp only:)
  have "walk_blocks E c (list_file_key E c fid) (list_file_id fid) max_entries max_blocks (acc @ ?blk) (seen @ [b])
      (case bs of [] \<Rightarrow> None | b # _ \<Rightarrow> Some b) (of_nat (Suc idx)) = Inr (entries, (seen @ [b]) @ bs)"
    by (rule Cons.IH [OF rest _ _ _ _ _ acc]) (use Cons.prems in simp_all)
  moreover have "\<not> max max_entries 1 < length acc + length ?blk"
    using Cons.prems(5) arg_cong [OF acc, of length] by (simp only: length_append length_take)
  moreover have "\<not> max_blocks \<le> length seen" using Cons.prems(6) by simp
  ultimately show ?case
    using r pt idx by (subst walk_blocks.simps) (simp del: length_take length_drop max_less_iff_conj add: block_holds_def)
qed

lemma div_ceil_bounds:
  assumes "0 < b"
  shows "a \<le> div_ceil a b * b" "0 < a \<Longrightarrow> (div_ceil a b - 1) * b < a" "0 < a \<Longrightarrow> 0 < div_ceil a b"
proof -
  have m: "a mod b < b" using assms by simp
  have d: "a = a div b * b + a mod b" by simp
  show "a \<le> div_ceil a b * b"
  proof (cases "a mod b = 0")
    case False
    have "a div b * b + a mod b \<le> a div b * b + b" using m by linarith
    with False d show ?thesis by (simp add: div_ceil_def add.commute)
  qed (use d in \<open>simp add: div_ceil_def\<close>)
  show pos: "0 < div_ceil a b" if "0 < a"
    using that assms m by (auto simp: div_ceil_def div_eq_0_iff)
  show "(div_ceil a b - 1) * b < a" if "0 < a"
  proof (cases "a mod b = 0")
    case True
    with pos [OF that] have "(div_ceil a b - 1) * b < div_ceil a b * b" using assms by simp
    also have "\<dots> = a" using True d by (simp add: div_ceil_def)
    finally show ?thesis .
  next
    case False
    then have "a div b * b < a" using d by linarith
    then show ?thesis using False by (simp add: div_ceil_def)
  qed
qed

lemma walk_written_chain:
  assumes "rng_fills E" "aead_correct E"
    and "write_chain_blocks E fid entries 0 bs (c, r) = (Inr (), (c', r'))"
    and "entries \<noteq> []" "length entries \<le> 2 ^ 32" "length bs = div_ceil (length entries) 254"
    and "distinct (map cr_id bs)" "\<forall>b\<in>set bs. cr_gen b \<noteq> 0"
  shows "walk_chunk_list_chain E c' fid (hd bs) (of_nat (length entries)) = Inr (entries, bs)"
proof -
  note ceil = div_ceil_bounds [of 254 "length entries", simplified, folded assms(6)]
  have n: "unat (of_nat (length entries) :: u64) = length entries"
    using assms(5) by (intro unat_of_nat_u64) simp
  have "bs \<noteq> []" using ceil(3) assms(4) by auto
  then have hd: "Some (hd bs) = (case bs of [] \<Rightarrow> None | b # _ \<Rightarrow> Some b)" by (cases bs) auto
  have "length bs < 2 ^ 32" using ceil(2) assms(4,5) by simp
  with walk_chain_ok [OF write_chain_blocks_ok [OF assms(1,2,8,7,3)], of "length entries" "[]" "length bs + 2" "[]"]
    ceil assms(4)
  have "walk_blocks E c' (list_file_key E c' fid) (list_file_id fid) (length entries) (length bs + 2) [] []
      (Some (hd bs)) 0 = Inr (entries, bs)"
    unfolding hd by simp
  moreover have "\<not> (0x100000000 :: u64) < of_nat (length entries)"
    using assms(5) n by (simp add: word_less_nat_alt)
  ultimately show ?thesis
    by (simp add: walk_chunk_list_chain_def Let_def n assms(6))
qed

text \<open>
  C19: the chunk references of a large file survive the trip through its chain of list blocks. When
  the chain is written to distinct slots, one block per 254 references, walking it from its head
  returns exactly the references and the blocks, in order; the walk's bounds on entries and blocks
  never stop a chain that was written this way.
\<close>

theorem chunk_list_chain_roundtrip:
  assumes "rng_fills E" "aead_correct E"
    and "write_chain_blocks E fid entries 0 bs (c, r) = (Inr (), (c', r'))"
    and "entries \<noteq> []" "length entries \<le> 2 ^ 32" "length bs = div_ceil (length entries) 254"
    and "distinct (map cr_id bs)" "\<forall>b\<in>set bs. cr_gen b \<noteq> 0"
  shows "walk_chunk_list_chain E c' fid (hd bs) (of_nat (length entries)) = Inr (entries, bs)"
  using assms by (rule walk_written_chain)

section \<open>Liveness of chunk writes\<close>

lemma write_chunk_live:
  assumes "env_live E" "length pt = 4096" "slot_offset (data_offset (c_header c)) (cr_id ch) = Inr off" "unat off < 2 ^ 63"
  shows "\<exists>c' r'. write_chunk E key f i ch pt (c, r) = (Inr (), (c', r'))"
proof -
  obtain nonce r1 where n: "fill E 12 r = (Inr nonce, r1)"
    using succeeds_fill [OF assms(1), of 12] unfolding succeeds_def by blast
  obtain ct where ct: "seal E (cipher_suite (c_header c)) key nonce (chunk_aad f i (cr_gen ch)) pt = Inr ct"
    using seal_live [OF assms(1), of pt] assms(2) by (force simp: is_ok_iff)
  obtain g where g: "write_all (lbx_file c) off (nonce @ ct) = Inr g"
    using assms(4) by (cases "nonce @ ct = []") (simp_all add: write_all_def del: append_is_Nil_conv)
  have "write_at off (nonce @ ct) (c, r1) = (Inr (), (c\<lparr>lbx_file := g\<rparr>, r1))"
    using g by (simp add: write_at_def lbxC_def)
  then have "write_chunk E key f i ch pt (c, r) = (Inr (), (c\<lparr>lbx_file := g\<rparr>, r1))"
    using assms(2,3) n ct by (simp add: write_chunk_def bindR_eq_Inr onR_eq_Inr vcrypto_eq_Inr fmt_eq_Inr)
  then show ?thesis by blast
qed

text \<open>
  C37: a chunk slot is a cell of a store. Writing 4096 bytes to a slot whose offset the file can address
  succeeds; reading the same reference returns exactly those bytes, and every chunk with another slot
  id that was readable before still reads the same.
\<close>

theorem write_chunk_then_read:
  assumes "rng_fills E" "aead_correct E" "env_live E" "length pt = 4096"
    and "slot_offset (data_offset (c_header c)) (cr_id ch) = Inr off" "unat off < 2 ^ 63"
  shows "\<exists>c' r'. write_chunk E key f i ch pt (c, r) = (Inr (), (c', r')) \<and> read_chunk E c' key f i ch = Inr pt
      \<and> (\<forall>key' f' i' ch' pt'. cr_id ch' \<noteq> cr_id ch \<longrightarrow> read_chunk E c key' f' i' ch' = Inr pt'
            \<longrightarrow> read_chunk E c' key' f' i' ch' = Inr pt')"
proof -
  obtain c' r' where w: "write_chunk E key f i ch pt (c, r) = (Inr (), (c', r'))"
    using write_chunk_live [OF assms(3-6)] by blast
  with read_write_chunk [OF assms(1,2) w] read_chunk_other [OF assms(1,2) w] show ?thesis by blast
qed

theorem write_chunk_then_read_witness:
  "\<exists>c' r'. write_chunk demo_env [1] 1 0 \<lparr>cr_id = 3, cr_gen = 1\<rparr> (replicate 4096 9) (demo_container, 0) = (Inr (), (c', r'))
     \<and> read_chunk demo_env c' [1] 1 0 \<lparr>cr_id = 3, cr_gen = 1\<rparr> = Inr (replicate 4096 9)"
proof -
  have "slot_offset (data_offset (c_header demo_container)) (cr_id \<lparr>cr_id = 3, cr_gen = 1\<rparr>) = Inr 143444"
    by (simp add: slot_offset_Inr demo_header_def)
  from write_chunk_then_read [OF demo_env_ok(2,1) demo_env_live _ this, of "replicate 4096 9" "[1]" 1 0 0]
  show ?thesis by auto
qed

text \<open>
  C38: no two places share their associated data. The associated data of a chunk determines the file,
  the position in the file and the generation, so a chunk moved to another place does not
  authenticate there; and for real file ids, those below the reserved bit, no data chunk shares its
  data with a list block.
\<close>

theorem chunk_aad_binds_place:
  "(chunk_aad f i g = chunk_aad f' i' g' \<longleftrightarrow> f = f' \<and> i = i' \<and> g = g')
   \<and> (chunk_aad (list_file_id f) i g = chunk_aad f' i' g' \<longrightarrow> bit f' 63)"
proof -
  have inj: "chunk_aad f i g = chunk_aad f' i' g' \<longleftrightarrow> f = f' \<and> i = i' \<and> g = g'" for f i g
    using from_to_le(2) [of i] from_to_le(2) [of i'] from_to_le(3) [of f] from_to_le(3) [of f']
      from_to_le(3) [of g] from_to_le(3) [of g']
    by (auto simp: chunk_aad_def)
  have "bit (list_file_id f) 63" by (simp add: list_file_id_def bit_simps)
  then show ?thesis by (auto simp: inj)
qed

theorem chunk_aad_binds_place_witness:
  "chunk_aad (list_file_id 5) 0 1 = chunk_aad (list_file_id 5) 0 1 \<and> bit (list_file_id 5) 63 \<and> chunk_aad 5 0 1 \<noteq> chunk_aad 5 0 2"
  using chunk_aad_binds_place [of 5 0 1 "list_file_id 5" 0 1] chunk_aad_binds_place [of 5 0 1 5 0 2] by simp

lemma walk_blocks_bounds:
  "walk_blocks E c key synth max_entries max_blocks entries blocks cur idx = Inr (es, bs) \<Longrightarrow>
     length blocks \<le> max_blocks \<Longrightarrow> length bs \<le> max_blocks"
proof (induction E c key synth max_entries max_blocks entries blocks cur idx rule: walk_blocks.induct)
  case (1 E c key synth max_entries max_blocks entries blocks cur idx)
  then show ?case
    by (subst (asm) (2) walk_blocks.simps)
      (auto split: option.splits if_splits sum.splits prod.splits)
qed

text \<open>
  C39: walking a chain read from an untrusted vault ends and is bounded. Whatever the slots hold, a
  walk that succeeds returns exactly the number of references the inode announced, at most $2^{32}$ of
  them, after reading at most two blocks more than these references need.
\<close>

theorem chain_walk_bounded:
  assumes "walk_chunk_list_chain E c fid head n = Inr (es, bs)"
  shows "length es = unat n \<and> unat n \<le> 2 ^ 32 \<and> length bs \<le> div_ceil (unat n) 254 + 2"
  using assms walk_blocks_bounds [of E c _ _ "unat n" "div_ceil (unat n) 254 + 2" "[]" "[]"]
  by (auto simp: walk_chunk_list_chain_def Let_def bindE_eq_Inr word_less_nat_alt not_less split: if_splits)

lemma demo_chain_write:
  obtains c' r' where "write_chain_blocks demo_env 1 [\<lparr>cr_id = 9, cr_gen = 4\<rparr>] 0 [\<lparr>cr_id = 3, cr_gen = 5\<rparr>] (demo_container, 0)
       = (Inr (), (c', r'))"
proof -
  let ?b = "\<lparr>cr_id = 3, cr_gen = 5\<rparr>" and ?e = "\<lparr>cr_id = 9, cr_gen = 4\<rparr>"
  obtain pt r1 where e: "encode_chunk_list_block demo_env [?e] None 0 = (Inr pt, r1)"
    by (simp add: encode_chunk_list_block_def bindR_eq_Inr vcrypto_eq_Inr fill_def demo_env_def Let_def)
  have "slot_offset (data_offset (c_header demo_container)) (cr_id ?b) = Inr 143444"
    by (simp add: slot_offset_Inr demo_header_def)
  from write_chunk_live [OF demo_env_live parse_encode_block(1) [OF demo_env_ok(2) e] this]
  obtain c' r' where "write_chunk demo_env (list_file_key demo_env demo_container 1) (list_file_id 1) 0 ?b pt (demo_container, r1)
      = (Inr (), (c', r'))" by force
  with e have w: "write_chain_blocks demo_env 1 [?e] 0 [?b] (demo_container, 0) = (Inr (), (c', r'))"
    by (simp add: write_chunk_list_block_def bindR_eq_Inr onR_eq_Inr retR_def)
  then show thesis by (rule that)
qed

theorem chunk_list_chain_roundtrip_witness:
  "\<exists>c' r'. write_chain_blocks demo_env 1 [\<lparr>cr_id = 9, cr_gen = 4\<rparr>] 0 [\<lparr>cr_id = 3, cr_gen = 5\<rparr>] (demo_container, 0)
       = (Inr (), (c', r'))
     \<and> walk_chunk_list_chain demo_env c' 1 \<lparr>cr_id = 3, cr_gen = 5\<rparr> 1 = Inr ([\<lparr>cr_id = 9, cr_gen = 4\<rparr>], [\<lparr>cr_id = 3, cr_gen = 5\<rparr>])"
proof -
  obtain c' r' where w: "write_chain_blocks demo_env 1 [\<lparr>cr_id = 9, cr_gen = 4\<rparr>] 0 [\<lparr>cr_id = 3, cr_gen = 5\<rparr>]
      (demo_container, 0) = (Inr (), (c', r'))" by (rule demo_chain_write)
  with chunk_list_chain_roundtrip [OF demo_env_ok(2,1) w] show ?thesis by (auto simp: div_ceil_def)
qed

theorem chain_walk_bounded_witness:
  "\<exists>c' bs. walk_chunk_list_chain demo_env c' 1 \<lparr>cr_id = 3, cr_gen = 5\<rparr> 1 = Inr ([\<lparr>cr_id = 9, cr_gen = 4\<rparr>], bs) \<and> length bs \<le> 3"
proof -
  obtain c' r' where w: "write_chain_blocks demo_env 1 [\<lparr>cr_id = 9, cr_gen = 4\<rparr>] 0 [\<lparr>cr_id = 3, cr_gen = 5\<rparr>]
      (demo_container, 0) = (Inr (), (c', r'))" by (rule demo_chain_write)
  have wk: "walk_chunk_list_chain demo_env c' 1 \<lparr>cr_id = 3, cr_gen = 5\<rparr> 1 = Inr ([\<lparr>cr_id = 9, cr_gen = 4\<rparr>], [\<lparr>cr_id = 3, cr_gen = 5\<rparr>])"
    using walk_written_chain [OF demo_env_ok(2,1) w] by (simp add: div_ceil_def)
  have "length [\<lparr>cr_id = 3, cr_gen = 5\<rparr>] \<le> 3" using chain_walk_bounded [OF wk] by (simp add: div_ceil_def)
  then show ?thesis using wk by blast
qed

end
