(* ===== verification/Lbx_Validate.thy ===== *)
theory Lbx_Validate
  imports Lbx_Chunk
begin

text \<open>
  Validation of the directory tree (\<open>validate_metadata_tree\<close> of \<open>luksbox-vfs/src/vfs.rs\<close>), which
  runs on every tree read from a vault and before every save, and the searches through the tree it
  and \<open>rename\<close> use. The loops of the source are modelled with their accumulators: the tally of
  directory entries per inode, the set of slots in use, the stack and visited set of the searches.
  \<open>tree_ok\<close> states validity without them, and the validator is shown to decide it.
\<close>

section \<open>The edges of the tree\<close>

definition child_ids :: "(u64, Inode) btree \<Rightarrow> u64 \<Rightarrow> u64 list" where
  "child_ids m d = (case bt_get m d of None \<Rightarrow> [] | Some i \<Rightarrow> bt_values (i_children i))"

definition child_rel :: "(u64, Inode) btree \<Rightarrow> (u64 \<times> u64) set" where
  "child_rel m = {(d, c). c \<in> set (child_ids m d)}"

lemma bt_get_None_keys: "bt_get m k = None \<longleftrightarrow> k \<notin> set (bt_keys m)"
  by (simp add: bt_get_def bt_keys_def map_of_eq_None_iff)

section \<open>Searching below a directory\<close>

text \<open>
  The loop of \<open>is_descendant_of\<close>. The stack has its top first, so pushing the children one by one
  puts them on it in reverse.
\<close>

function descend :: "(u64, Inode) btree \<Rightarrow> u64 \<Rightarrow> u64 list \<Rightarrow> u64 set \<Rightarrow> bool" where
  "descend m candidate [] visited = False"
| "descend m candidate (cur # stack) visited =
     (if cur \<in> visited then descend m candidate stack visited
      else
        (case bt_get m cur of
           None \<Rightarrow> descend m candidate stack (insert cur visited)
         | Some inode \<Rightarrow>
             if candidate \<in> set (bt_values (i_children inode)) then True
             else descend m candidate (rev (bt_values (i_children inode)) @ stack) (insert cur visited)))"
  by pat_completeness auto
termination
proof (relation "measures [\<lambda>(m, candidate, stack, visited). card (set (bt_keys m) - visited),
    \<lambda>(m, candidate, stack, visited). length stack]", goal_cases)
  case (3 m candidate cur stack visited)
  then have "set (bt_keys m) - insert cur visited = set (bt_keys m) - visited" by (auto simp: bt_get_None_keys)
  then show ?case by simp
next
  case (4 m candidate cur stack visited inode)
  then have "cur \<in> set (bt_keys m) - visited" by (metis DiffI bt_get_None_keys option.distinct(1))
  then have "card (set (bt_keys m) - insert cur visited) < card (set (bt_keys m) - visited)"
    by (intro psubset_card_mono) auto
  then show ?case by simp
qed simp_all

definition is_descendant_of :: "DirectoryTree \<Rightarrow> u64 \<Rightarrow> u64 \<Rightarrow> bool" where
  "is_descendant_of t root candidate = descend (inodes t) candidate [root] {}"

lemma descend_sound: "descend m cand stack vis \<Longrightarrow> \<exists>s \<in> set stack. (s, cand) \<in> (child_rel m)\<^sup>+"
proof (induction m cand stack vis rule: descend.induct)
  case (2 m cand cur stack vis)
  show ?case
  proof (cases "cur \<in> vis \<or> bt_get m cur = None")
    case False
    then obtain i where i: "cur \<notin> vis" "bt_get m cur = Some i" by auto
    then have edge: "(cur, c) \<in> child_rel m \<longleftrightarrow> c \<in> set (bt_values (i_children i))" for c
      by (simp add: child_rel_def child_ids_def)
    show ?thesis
    proof (cases "cand \<in> set (bt_values (i_children i))")
      case True
      with edge show ?thesis by auto
    next
      case no: False
      with 2 i obtain s where "s \<in> set (rev (bt_values (i_children i)) @ stack)" "(s, cand) \<in> (child_rel m)\<^sup>+" by auto
      with edge show ?thesis by (auto intro: trancl_into_trancl2)
    qed
  next
    case True
    with 2 have "\<exists>s \<in> set stack. (s, cand) \<in> (child_rel m)\<^sup>+" by (cases "cur \<in> vis") auto
    then show ?thesis by auto
  qed
qed simp

text \<open>What the loop keeps of its visited set: none of them has the candidate as a child, and their children are visited or on the stack.\<close>

definition descend_inv :: "(u64, Inode) btree \<Rightarrow> u64 \<Rightarrow> u64 list \<Rightarrow> u64 set \<Rightarrow> bool" where
  "descend_inv m cand stack vis \<longleftrightarrow>
     (\<forall>v \<in> vis. \<forall>c. (v, c) \<in> child_rel m \<longrightarrow> c \<noteq> cand \<and> (c \<in> vis \<or> c \<in> set stack))"

lemma descend_complete:
  "\<not> descend m cand stack vis \<Longrightarrow> descend_inv m cand stack vis \<Longrightarrow> s \<in> set stack \<union> vis \<Longrightarrow> (s, cand) \<notin> (child_rel m)\<^sup>+"
proof (induction m cand stack vis arbitrary: s rule: descend.induct)
  case (1 m cand vis)
  then have closed: "\<And>v c. v \<in> vis \<Longrightarrow> (v, c) \<in> child_rel m \<Longrightarrow> c \<noteq> cand \<and> c \<in> vis" by (auto simp: descend_inv_def)
  have "c \<noteq> cand \<and> c \<in> vis" if "(s, c) \<in> (child_rel m)\<^sup>+" for c
    using that by (induction rule: trancl_induct) (use 1 closed in auto)
  then show ?case by blast
next
  case (2 m cand cur stack vis)
  show ?case
  proof (cases "cur \<in> vis")
    case True
    then show ?thesis using 2 by (auto simp: descend_inv_def)
  next
    case new: False
    show ?thesis
    proof (cases "bt_get m cur")
      case None
      then have "\<And>c. (cur, c) \<notin> child_rel m" by (simp add: child_rel_def child_ids_def)
      then have "descend_inv m cand stack (insert cur vis)" using 2(5) by (auto simp: descend_inv_def)
      then show ?thesis using 2(2) [OF new None, of s] 2(4,6) new None by simp
    next
      case (Some i)
      have edge: "(cur, c) \<in> child_rel m \<longleftrightarrow> c \<in> set (bt_values (i_children i))" for c
        using Some by (simp add: child_rel_def child_ids_def)
      from 2(4) new Some have no: "cand \<notin> set (bt_values (i_children i))"
        and d: "\<not> descend m cand (rev (bt_values (i_children i)) @ stack) (insert cur vis)"
        by (auto split: if_splits)
      have "descend_inv m cand (rev (bt_values (i_children i)) @ stack) (insert cur vis)"
        using 2(5) edge no by (auto simp: descend_inv_def)
      then show ?thesis using 2(3) [OF new Some no d, of s] 2(6) by auto
    qed
  qed
qed

lemma is_descendant_of_iff: "is_descendant_of t root cand \<longleftrightarrow> (root, cand) \<in> (child_rel (inodes t))\<^sup>+"
  using descend_sound [of "inodes t" cand "[root]" "{}"] descend_complete [of "inodes t" cand "[root]" "{}" root]
  unfolding is_descendant_of_def descend_inv_def by (simp del: descend.simps) blast

section \<open>Reaching everything from the root\<close>

fun push_new :: "u64 list \<Rightarrow> u64 list \<Rightarrow> u64 set \<Rightarrow> u64 list \<times> u64 set" where
  "push_new [] stack reachable = (stack, reachable)"
| "push_new (c # cs) stack reachable =
     (if c \<in> reachable then push_new cs stack reachable else push_new cs (c # stack) (insert c reachable))"

lemma push_new_spec:
  "push_new cs stack r = (stack', r') \<Longrightarrow>
     r' = r \<union> set cs \<and> set stack' = set stack \<union> (set cs - r) \<and> (set cs \<subseteq> r \<longrightarrow> stack' = stack)"
  by (induction cs stack r rule: push_new.induct) (auto split: if_splits)

definition all_children :: "(u64, Inode) btree \<Rightarrow> u64 set" where
  "all_children m = (\<Union>i \<in> set (bt_values m). set (bt_values (i_children i)))"

lemma child_ids_subset: "bt_get m d = Some i \<Longrightarrow> set (bt_values (i_children i)) \<subseteq> all_children m"
  by (force simp: all_children_def bt_get_def bt_values_def dest: map_of_SomeD)

function reach_loop :: "(u64, Inode) btree \<Rightarrow> u64 list \<Rightarrow> u64 set \<Rightarrow> u64 set vres" where
  "reach_loop m [] reachable = Inr reachable"
| "reach_loop m (cur # stack) reachable =
     (case bt_get m cur of
        None \<Rightarrow> Inl MetadataDeserialize
      | Some inode \<Rightarrow>
          (case push_new (bt_values (i_children inode)) stack reachable of
             (stack', reachable') \<Rightarrow> reach_loop m stack' reachable'))"
  by pat_completeness auto
termination
proof (relation "measures [\<lambda>(m, stack, reachable). card (all_children m - reachable), \<lambda>(m, stack, reachable). length stack]", goal_cases)
  case (2 m cur stack reachable inode stack' reachable')
  let ?cs = "set (bt_values (i_children inode))"
  from 2(2) [symmetric] have p: "reachable' = reachable \<union> ?cs" "?cs \<subseteq> reachable \<longrightarrow> stack' = stack"
    using push_new_spec by blast+
  have fin: "finite (all_children m)" by (simp add: all_children_def)
  show ?case
  proof (cases "?cs \<subseteq> reachable")
    case False
    then have "all_children m - reachable' \<subset> all_children m - reachable"
      using child_ids_subset [OF 2(1)] p(1) by auto
    then show ?thesis using fin by (simp add: psubset_card_mono)
  qed (use p in \<open>auto simp: sup.absorb1\<close>)
qed simp

definition reach_inv :: "(u64, Inode) btree \<Rightarrow> u64 list \<Rightarrow> u64 set \<Rightarrow> bool" where
  "reach_inv m stack r \<longleftrightarrow>
     1 \<in> r \<and> set stack \<subseteq> r \<and> r \<subseteq> (child_rel m)\<^sup>* `` {1} \<and> (\<forall>v \<in> r - set stack. \<forall>c. (v, c) \<in> child_rel m \<longrightarrow> c \<in> r)"

lemma reach_loop_result:
  "reach_inv m stack r \<Longrightarrow> reach_loop m stack r = Inr r' \<Longrightarrow> r' = (child_rel m)\<^sup>* `` {1}"
proof (induction m stack r rule: reach_loop.induct)
  case (1 m r)
  have "x \<in> r" if "(1, x) \<in> (child_rel m)\<^sup>*" for x
    using that by (induction rule: rtrancl_induct) (use 1(1) in \<open>auto simp: reach_inv_def\<close>)
  then show ?case using 1 by (auto simp: reach_inv_def)
next
  case (2 m cur stack r)
  from 2(3) obtain i where i: "bt_get m cur = Some i" by (auto split: option.splits)
  obtain st r1 where p: "push_new (bt_values (i_children i)) stack r = (st, r1)" by (cases "push_new (bt_values (i_children i)) stack r")
  note sp = push_new_spec [OF p]
  have edge: "(cur, c) \<in> child_rel m \<longleftrightarrow> c \<in> set (bt_values (i_children i))" for c
    using i by (simp add: child_rel_def child_ids_def)
  have "cur \<in> (child_rel m)\<^sup>* `` {1}" using 2(2) by (auto simp: reach_inv_def)
  then have "set (bt_values (i_children i)) \<subseteq> (child_rel m)\<^sup>* `` {1}" using edge by (auto intro: rtrancl_into_rtrancl)
  moreover have "c \<in> r1" if "v \<in> r1 - set st" "(v, c) \<in> child_rel m" for v c
  proof (cases "v = cur")
    case True
    then show ?thesis using that edge sp by auto
  next
    case False
    with that sp have "v \<in> r - set (cur # stack)" by auto
    then show ?thesis using 2(2) that(2) sp unfolding reach_inv_def by blast
  qed
  moreover have "1 \<in> r1" "set st \<subseteq> r1" using 2(2) sp unfolding reach_inv_def by auto
  moreover have "r \<subseteq> (child_rel m)\<^sup>* `` {1}" using 2(2) unfolding reach_inv_def by simp
  moreover have "r1 = r \<union> set (bt_values (i_children i))" using sp by simp
  ultimately have "reach_inv m st r1" unfolding reach_inv_def by blast
  then show ?case using 2(1) [OF i p [symmetric]] 2(3) i p by simp
qed

lemma reach_loop_total:
  "\<forall>c \<in> all_children m. bt_get m c \<noteq> None \<Longrightarrow> \<forall>s \<in> set stack. bt_get m s \<noteq> None \<Longrightarrow> is_ok (reach_loop m stack r)"
proof (induction m stack r rule: reach_loop.induct)
  case (2 m cur stack r)
  from 2(3) obtain i where i: "bt_get m cur = Some i" by auto
  obtain st r1 where p: "push_new (bt_values (i_children i)) stack r = (st, r1)" by (cases "push_new (bt_values (i_children i)) stack r")
  have "\<forall>s \<in> set st. bt_get m s \<noteq> None"
    using push_new_spec [OF p] 2(2,3) child_ids_subset [OF i] by auto
  then show ?case using 2(1) [OF i p [symmetric] 2(2)] i p by simp
qed simp

section \<open>Geometry of files\<close>

abbreviation (input) SIZE_HEADER_LEN :: nat where "SIZE_HEADER_LEN \<equiv> 8"
abbreviation (input) MAX_FILE_SIZE :: u64 where "MAX_FILE_SIZE \<equiv> 0x100000000000"

definition saturating_add_u64 :: "u64 \<Rightarrow> u64 \<Rightarrow> u64" where
  "saturating_add_u64 a b = (if unat a + unat b < 2 ^ 64 then a + b else -1)"

definition required_chunks :: "u64 \<Rightarrow> bool \<Rightarrow> nat" where
  "required_chunks real_size hide_size =
     (if real_size = 0 then 0
      else
        (let with_header = (if hide_size then saturating_add_u64 real_size 8 else real_size)
         in unat ((with_header - 1) div 4096 + 1)))"

section \<open>Validating the metadata tree\<close>

definition saturating_add_u32 :: "u32 \<Rightarrow> u32 \<Rightarrow> u32" where
  "saturating_add_u32 a b = (if unat a + unat b < 2 ^ 32 then a + b else -1)"

text \<open>The directory entries of one directory, counted towards the inodes they name.\<close>

fun tally_children ::
  "(u64, Inode) btree \<Rightarrow> (u64, u32) btree \<Rightarrow> (rstring \<times> u64) list \<Rightarrow> (u64, u32) btree vres" where
  "tally_children m counts [] = Inr counts"
| "tally_children m counts ((name, child_id) # cs) =
     (if \<not> is_ok (validate_name name) \<or> child_id = ROOT_ID then Inl MetadataDeserialize
      else
        (case bt_get m child_id of
           None \<Rightarrow> Inl MetadataDeserialize
         | Some child \<Rightarrow>
             (let count = saturating_add_u32 (case bt_get counts child_id of None \<Rightarrow> 0 | Some n \<Rightarrow> n) 1
              in if i_kind child = Directory \<and> 1 < count then Inl MetadataDeserialize
                 else tally_children m (bt_insert child_id count counts) cs)))"

text \<open>The slots of one file's chunks or list blocks, added to those in use.\<close>

fun claim_slots :: "u64 \<Rightarrow> u64 \<Rightarrow> u64 \<Rightarrow> u64 set \<Rightarrow> ChunkRef list \<Rightarrow> u64 set vres" where
  "claim_slots doff next_id next_gen live [] = Inr live"
| "claim_slots doff next_id next_gen live (cr # crs) =
     (if next_id \<le> cr_id cr \<or> cr_gen cr = 0 \<or> next_gen \<le> cr_gen cr \<or> \<not> is_ok (slot_offset doff (cr_id cr))
         \<or> cr_id cr \<in> live
      then Inl MetadataDeserialize
      else claim_slots doff next_id next_gen (insert (cr_id cr) live) crs)"

definition validate_parent :: "(u64, Inode) btree \<Rightarrow> Inode \<Rightarrow> unit vres" where
  "validate_parent m inode =
     bindE (ok_or MetadataDeserialize (bt_get m (i_parent inode))) (\<lambda>parent.
     if i_kind parent \<noteq> Directory then Inl MetadataDeserialize else Inr ())"

definition validate_capacity :: "bool \<Rightarrow> Inode \<Rightarrow> unit vres" where
  "validate_capacity hide_size inode =
     (if hide_size then
        bindE (ok_or MetadataDeserialize (checked_mul_u64 (of_nat (length (i_chunks inode))) 4096)) (\<lambda>expected.
        if i_size inode \<noteq> expected then Inl MetadataDeserialize else Inr ())
      else if length (i_chunks inode) < required_chunks (i_size inode) False then Inl MetadataDeserialize
      else Inr ())"

text \<open>The checks by kind of inode, and those every inode is subject to.\<close>

definition validate_kind ::
  "DirectoryTree \<Rightarrow> u64 \<Rightarrow> bool \<Rightarrow> Inode \<Rightarrow> (u64, u32) btree \<Rightarrow> u64 set \<Rightarrow> ((u64, u32) btree \<times> u64 set) vres" where
  "validate_kind t doff hide_size inode counts live =
     (case i_kind inode of
        Directory \<Rightarrow>
          if i_size inode \<noteq> 0 \<or> i_chunks inode \<noteq> [] \<or> i_external_list_blocks inode \<noteq> [] then Inl MetadataDeserialize
          else if i_symlink_target inode \<noteq> None then Inl MetadataDeserialize
          else if i_link_count inode \<noteq> 1 then Inl MetadataDeserialize
          else bindE (tally_children (inodes t) counts (i_children inode)) (\<lambda>counts'. Inr (counts', live))
      | Symlink \<Rightarrow>
          if i_children inode \<noteq> [] \<or> i_chunks inode \<noteq> [] \<or> i_external_list_blocks inode \<noteq> [] \<or> i_link_count inode \<noteq> 1
          then Inl MetadataDeserialize
          else (case i_symlink_target inode of
                  Some target \<Rightarrow> if is_safe_symlink_target target then Inr (counts, live) else Inl MetadataDeserialize
                | None \<Rightarrow> Inl MetadataDeserialize)
      | File \<Rightarrow>
          if i_children inode \<noteq> [] then Inl MetadataDeserialize
          else if i_symlink_target inode \<noteq> None then Inl MetadataDeserialize
          else if i_link_count inode = 0 then Inl MetadataDeserialize
          else
            bindE (validate_capacity hide_size inode) (\<lambda>_.
            bindE (claim_slots doff (next_chunk_id t) (next_chunk_gen t) live (i_chunks inode)) (\<lambda>live1.
            bindE (claim_slots doff (next_chunk_id t) (next_chunk_gen t) live1 (i_external_list_blocks inode)) (\<lambda>live2.
            Inr (counts, live2)))))"

definition validate_inode ::
  "DirectoryTree \<Rightarrow> u64 \<Rightarrow> bool \<Rightarrow> u64 \<Rightarrow> Inode \<Rightarrow> (u64, u32) btree \<Rightarrow> u64 set \<Rightarrow> ((u64, u32) btree \<times> u64 set) vres" where
  "validate_inode t doff hide_size fid inode counts live =
     (if i_id inode \<noteq> fid \<or> next_file_id t \<le> fid then Inl MetadataDeserialize
      else
        bindE (if fid \<noteq> ROOT_ID then validate_parent (inodes t) inode else Inr ()) (\<lambda>_.
        validate_kind t doff hide_size inode counts live))"

fun validate_inodes ::
  "DirectoryTree \<Rightarrow> u64 \<Rightarrow> bool \<Rightarrow> (u64 \<times> Inode) list \<Rightarrow> (u64, u32) btree \<Rightarrow> u64 set
     \<Rightarrow> ((u64, u32) btree \<times> u64 set) vres" where
  "validate_inodes t doff hide_size [] counts live = Inr (counts, live)"
| "validate_inodes t doff hide_size ((fid, inode) # rest) counts live =
     bindE (validate_inode t doff hide_size fid inode counts live) (\<lambda>(counts', live').
     validate_inodes t doff hide_size rest counts' live')"

fun validate_counts :: "(u64, u32) btree \<Rightarrow> (u64 \<times> Inode) list \<Rightarrow> unit vres" where
  "validate_counts counts [] = Inr ()"
| "validate_counts counts ((fid, inode) # rest) =
     (if fid = ROOT_ID then validate_counts counts rest
      else
        (let count = (case bt_get counts fid of None \<Rightarrow> 0 | Some n \<Rightarrow> n)
         in if count = 0 then Inl MetadataDeserialize
            else if i_kind inode = File \<and> count \<noteq> i_link_count inode then Inl MetadataDeserialize
            else if i_kind inode = Symlink \<and> count \<noteq> 1 then Inl MetadataDeserialize
            else validate_counts counts rest))"

fun validate_free :: "u64 \<Rightarrow> u64 \<Rightarrow> u64 set \<Rightarrow> u64 set \<Rightarrow> u64 list \<Rightarrow> unit vres" where
  "validate_free doff next_id live seen [] = Inr ()"
| "validate_free doff next_id live seen (x # xs) =
     (if next_id \<le> x \<or> x \<in> live \<or> \<not> is_ok (slot_offset doff x) \<or> x \<in> seen then Inl MetadataDeserialize
      else validate_free doff next_id live (insert x seen) xs)"

definition validate_metadata_tree :: "DirectoryTree \<Rightarrow> u64 \<Rightarrow> bool \<Rightarrow> unit vres" where
  "validate_metadata_tree t doff hide_size =
     (if t_root t \<noteq> ROOT_ID \<or> next_file_id t \<le> ROOT_ID \<or> next_file_id t = -1 \<or> CHUNK_LIST_FILE_ID_BIT \<le> next_file_id t
         \<or> next_chunk_gen t = 0 \<or> next_chunk_gen t = -1 \<or> \<not> is_ok (slot_offset doff (next_chunk_id t))
      then Inl MetadataDeserialize
      else
        bindE (ok_or MetadataDeserialize (bt_get (inodes t) ROOT_ID)) (\<lambda>root.
        if i_id root \<noteq> ROOT_ID \<or> i_parent root \<noteq> ROOT_ID \<or> i_kind root \<noteq> Directory then Inl MetadataDeserialize
        else
          bindE (validate_inodes t doff hide_size (inodes t) [] {}) (\<lambda>(counts, live).
          bindE (validate_counts counts (inodes t)) (\<lambda>_.
          bindE (reach_loop (inodes t) [ROOT_ID] {ROOT_ID}) (\<lambda>reachable.
          if card reachable \<noteq> length (inodes t) then Inl MetadataDeserialize
          else validate_free doff (next_chunk_id t) live {} (free_chunks t))))))"

section \<open>What a valid tree is\<close>

definition inode_refs :: "Inode \<Rightarrow> ChunkRef list" where
  "inode_refs i = i_chunks i @ i_external_list_blocks i"

text \<open>The directory entries that name each inode, and the slots in use, with their multiplicity.\<close>

definition refs :: "(u64, Inode) btree \<Rightarrow> u64 multiset" where
  "refs m = bt_total (\<lambda>i. mset (bt_values (i_children i))) m"

definition slots :: "(u64, Inode) btree \<Rightarrow> u64 multiset" where
  "slots m = bt_total (\<lambda>i. mset (map cr_id (inode_refs i))) m"

definition dir_at :: "(u64, Inode) btree \<Rightarrow> u64 \<Rightarrow> bool" where
  "dir_at m d \<longleftrightarrow> (\<exists>i. bt_get m d = Some i \<and> i_kind i = Directory)"

definition ref_ok :: "u64 \<Rightarrow> u64 \<Rightarrow> u64 \<Rightarrow> ChunkRef \<Rightarrow> bool" where
  "ref_ok doff next_id next_gen cr \<longleftrightarrow>
     cr_id cr < next_id \<and> cr_gen cr \<noteq> 0 \<and> cr_gen cr < next_gen \<and> is_ok (slot_offset doff (cr_id cr))"

definition inode_ok :: "bool \<Rightarrow> Inode \<Rightarrow> bool" where
  "inode_ok hide_size i \<longleftrightarrow>
     (case i_kind i of
        Directory \<Rightarrow> i_size i = 0 \<and> inode_refs i = [] \<and> i_symlink_target i = None \<and> i_link_count i = 1
          \<and> (\<forall>n c. (n, c) \<in> set (i_children i) \<longrightarrow> is_ok (validate_name n))
      | Symlink \<Rightarrow> i_children i = [] \<and> inode_refs i = [] \<and> i_link_count i = 1
          \<and> (\<exists>target. i_symlink_target i = Some target \<and> is_safe_symlink_target target)
      | File \<Rightarrow> i_children i = [] \<and> i_symlink_target i = None \<and> i_link_count i \<noteq> 0 \<and> is_ok (validate_capacity hide_size i))"

text \<open>
  A valid tree: the counters are in range and the root is its own parent; every inode is stored
  under its id, is well formed for its kind, names an existing directory as its parent and has
  references within the counters; every entry names an inode other than the root, every inode is
  named by as many entries as its link count says, and all can be reached from the root; and no slot
  is in use twice, or both in use and free.
\<close>

definition tree_ok :: "u64 \<Rightarrow> bool \<Rightarrow> DirectoryTree \<Rightarrow> bool" where
  "tree_ok doff hide_size t \<longleftrightarrow>
     t_root t = ROOT_ID \<and> ROOT_ID < next_file_id t \<and> next_file_id t < CHUNK_LIST_FILE_ID_BIT
     \<and> next_chunk_gen t \<noteq> 0 \<and> next_chunk_gen t \<noteq> -1 \<and> is_ok (slot_offset doff (next_chunk_id t))
     \<and> (\<exists>r. bt_get (inodes t) ROOT_ID = Some r \<and> i_parent r = ROOT_ID \<and> i_kind r = Directory)
     \<and> (\<forall>fid i. bt_get (inodes t) fid = Some i \<longrightarrow>
          i_id i = fid \<and> fid < next_file_id t \<and> inode_ok hide_size i \<and> dir_at (inodes t) (i_parent i)
          \<and> (\<forall>cr \<in> set (inode_refs i). ref_ok doff (next_chunk_id t) (next_chunk_gen t) cr)
          \<and> (fid \<noteq> ROOT_ID \<longrightarrow> count (refs (inodes t)) fid = unat (i_link_count i))
          \<and> (ROOT_ID, fid) \<in> (child_rel (inodes t))\<^sup>*)
     \<and> (\<forall>c. c \<in># refs (inodes t) \<longrightarrow> c \<noteq> ROOT_ID \<and> bt_contains (inodes t) c)
     \<and> (\<forall>x. count (slots (inodes t)) x \<le> 1)
     \<and> distinct (free_chunks t)
     \<and> (\<forall>x \<in> set (free_chunks t). x < next_chunk_id t \<and> x \<notin># slots (inodes t) \<and> is_ok (slot_offset doff x))"

text \<open>What the maps keep by themselves.\<close>

definition maps_ok :: "DirectoryTree \<Rightarrow> bool" where
  "maps_ok t \<longleftrightarrow> bt_ok (inodes t) \<and> (\<forall>fid i. bt_get (inodes t) fid = Some i \<longrightarrow> bt_ok (i_children i))"

section \<open>The loops of the validator\<close>

definition tallied :: "(u64, u32) btree \<Rightarrow> u64 \<Rightarrow> nat" where
  "tallied counts c = (case bt_get counts c of None \<Rightarrow> 0 | Some n \<Rightarrow> unat n)"

lemma unat_tally:
  assumes "Suc (tallied counts c) < 2 ^ 32"
  shows "unat (saturating_add_u32 (case bt_get counts c of None \<Rightarrow> 0 | Some n \<Rightarrow> n) 1) = Suc (tallied counts c)"
proof -
  let ?n = "case bt_get counts c of None \<Rightarrow> 0 | Some n \<Rightarrow> (n :: u32)"
  have n: "unat ?n = tallied counts c" by (simp add: tallied_def split: option.splits)
  then have "unat (?n + 1) = Suc (tallied counts c)" using assms by (simp add: unat_word_ariths)
  then show ?thesis using n assms by (simp add: saturating_add_u32_def)
qed

lemma tallied_insert: "tallied (bt_insert c n counts) c' = (if c' = c then unat n else tallied counts c')"
  by (simp add: tallied_def)

definition entry_ok :: "(u64, Inode) btree \<Rightarrow> rstring \<times> u64 \<Rightarrow> bool" where
  "entry_ok m p \<longleftrightarrow> is_ok (validate_name (fst p)) \<and> snd p \<noteq> ROOT_ID \<and> bt_contains m (snd p)"

lemma tally_step:
  assumes "\<And>c. tallied counts c + count_list (cid # cs) c < 2 ^ 32"
  defines "n \<equiv> saturating_add_u32 (case bt_get counts cid of None \<Rightarrow> 0 | Some n \<Rightarrow> n) 1"
  shows "tallied (bt_insert cid n counts) c = tallied counts c + (if c = cid then 1 else 0)"
    "tallied (bt_insert cid n counts) c + count_list cs c < 2 ^ 32" "1 < n \<longleftrightarrow> 0 < tallied counts cid"
proof -
  have n: "unat n = Suc (tallied counts cid)" using assms(1) [of cid] unfolding n_def by (intro unat_tally) simp
  show t: "tallied (bt_insert cid n counts) c = tallied counts c + (if c = cid then 1 else 0)" for c
    by (simp add: tallied_insert n)
  show "tallied (bt_insert cid n counts) c + count_list cs c < 2 ^ 32"
    using assms(1) [of c] t [of c] by (auto split: if_splits)
  show "1 < n \<longleftrightarrow> 0 < tallied counts cid" using n by (simp add: word_less_nat_alt)
qed

lemma tally_children_result:
  "tally_children m counts cs = Inr counts' \<Longrightarrow> (\<And>c. tallied counts c + count_list (map snd cs) c < 2 ^ 32) \<Longrightarrow>
     tallied counts' c = tallied counts c + count_list (map snd cs) c"
proof (induction m counts cs rule: tally_children.induct)
  case (2 m counts name cid cs)
  let ?n = "saturating_add_u32 (case bt_get counts cid of None \<Rightarrow> 0 | Some n \<Rightarrow> n) 1"
  from 2(2) obtain child where ch: "bt_get m cid = Some child" "tally_children m (bt_insert cid ?n counts) cs = Inr counts'"
    "\<not> (\<not> is_ok (validate_name name) \<or> cid = ROOT_ID)" "\<not> (i_kind child = Directory \<and> 1 < ?n)"
    by (auto simp: Let_def split: if_splits option.splits)
  note st = tally_step [of counts cid "map snd cs"]
  have "tallied counts' c = tallied (bt_insert cid ?n counts) c + count_list (map snd cs) c"
    by (rule 2(1) [OF ch(3,1) refl ch(4,2)]) (use st(2) 2(3) in simp)
  then show ?case using st(1) 2(3) by simp
qed simp

lemma tally_children_spec:
  "(\<And>c. tallied counts c + count_list (map snd cs) c < 2 ^ 32) \<Longrightarrow>
     is_ok (tally_children m counts cs) \<longleftrightarrow>
       (\<forall>p \<in> set cs. entry_ok m p) \<and> (\<forall>c \<in> snd ` set cs. dir_at m c \<longrightarrow> tallied counts c + count_list (map snd cs) c \<le> 1)"
proof (induction m counts cs rule: tally_children.induct)
  case (2 m counts name cid cs)
  let ?n = "saturating_add_u32 (case bt_get counts cid of None \<Rightarrow> 0 | Some n \<Rightarrow> n) 1"
  note st = tally_step [of counts cid "map snd cs"]
  have st: "tallied (bt_insert cid ?n counts) c = tallied counts c + (if c = cid then 1 else 0)"
    "tallied (bt_insert cid ?n counts) c + count_list (map snd cs) c < 2 ^ 32" "1 < ?n \<longleftrightarrow> 0 < tallied counts cid" for c
    using st 2(2) by simp_all
  show ?case
  proof (cases "entry_ok m (name, cid)")
    case True
    then obtain child where ch: "bt_get m cid = Some child" "is_ok (validate_name name)" "cid \<noteq> 1"
      by (auto simp: entry_ok_def bt_contains_def)
    have d: "i_kind child = Directory \<longleftrightarrow> dir_at m cid" using ch by (auto simp: dir_at_def)
    show ?thesis
    proof (cases "dir_at m cid \<and> 0 < tallied counts cid")
      case True
      then show ?thesis using ch d st(3) by (auto simp: Let_def)
    next
      case False
      have IH: "is_ok (tally_children m (bt_insert cid ?n counts) cs) \<longleftrightarrow>
         (\<forall>p \<in> set cs. entry_ok m p)
         \<and> (\<forall>c \<in> snd ` set cs. dir_at m c \<longrightarrow> tallied (bt_insert cid ?n counts) c + count_list (map snd cs) c \<le> 1)"
        by (rule 2(1) [OF _ ch(1) refl _ st(2)]) (use ch d st(3) False in auto)
      have "is_ok (tally_children m counts ((name, cid) # cs)) \<longleftrightarrow> is_ok (tally_children m (bt_insert cid ?n counts) cs)"
        using ch d st(3) False by (auto simp: Let_def)
      moreover have "(\<forall>c \<in> snd ` set cs. dir_at m c \<longrightarrow> tallied (bt_insert cid ?n counts) c + count_list (map snd cs) c \<le> 1)
        \<longleftrightarrow> (\<forall>c \<in> insert cid (snd ` set cs). dir_at m c \<longrightarrow> tallied counts c + count_list (cid # map snd cs) c \<le> 1)"
      proof -
        have z: "count_list (map snd cs) cid = 0" if "cid \<notin> snd ` set cs" using that by (metis count_list_0_iff set_map)
        have "tallied (bt_insert cid ?n counts) c + count_list (map snd cs) c = tallied counts c + count_list (cid # map snd cs) c" for c
          using st(1) [of c] by simp
        then show ?thesis using False z by (cases "cid \<in> snd ` set cs") auto
      qed
      ultimately show ?thesis using IH True by simp
    qed
  next
    case False
    then have "\<not> is_ok (tally_children m counts ((name, cid) # cs))"
      by (auto simp: entry_ok_def bt_contains_def)
    then show ?thesis using False by auto
  qed
qed simp

lemma claim_slots_spec:
  "is_ok (claim_slots doff nid ngen live crs) \<longleftrightarrow>
     (\<forall>cr \<in> set crs. ref_ok doff nid ngen cr) \<and> distinct (map cr_id crs) \<and> cr_id ` set crs \<inter> live = {}"
  "claim_slots doff nid ngen live crs = Inr live' \<Longrightarrow> live' = live \<union> cr_id ` set crs"
proof (induction doff nid ngen live crs rule: claim_slots.induct)
  case (2 doff nid ngen live cr crs)
  {
    case 1
    show ?case using 2(1) by (cases "ref_ok doff nid ngen cr \<and> cr_id cr \<notin> live") (auto simp: ref_ok_def not_le not_less)
  next
    case 2
    then show ?case using "2.IH"(2) by (auto split: if_splits)
  }
qed auto

lemma validate_free_spec:
  "is_ok (validate_free doff nid live seen xs) \<longleftrightarrow>
     distinct xs \<and> (\<forall>x \<in> set xs. x < nid \<and> x \<notin> live \<and> is_ok (slot_offset doff x) \<and> x \<notin> seen)"
  by (induction doff nid live seen xs rule: validate_free.induct) (auto simp: not_le not_less)

lemma validate_counts_spec:
  "is_ok (validate_counts counts xs) \<longleftrightarrow>
     (\<forall>(fid, i) \<in> set xs. fid \<noteq> ROOT_ID \<longrightarrow> tallied counts fid \<noteq> 0
        \<and> (i_kind i = File \<longrightarrow> tallied counts fid = unat (i_link_count i)) \<and> (i_kind i = Symlink \<longrightarrow> tallied counts fid = 1))"
proof (induction xs)
  case (Cons p rest)
  obtain fid i where p: "p = (fid, i)" by (cases p)
  define cnt where "cnt = (case bt_get counts fid of None \<Rightarrow> 0 | Some n \<Rightarrow> (n :: u32))"
  have n: "tallied counts fid = unat cnt" by (simp add: tallied_def cnt_def split: option.splits)
  have zero: "unat cnt = 0 \<longleftrightarrow> cnt = 0" by (simp add: unat_eq_0)
  have eq: "unat cnt = unat (i_link_count i) \<longleftrightarrow> cnt = i_link_count i" by (simp add: word_unat_eq_iff)
  have one: "unat cnt = 1 \<longleftrightarrow> cnt = 1" by (simp add: word_unat_eq_iff)
  have "validate_counts counts ((fid, i) # rest) =
     (if fid = 1 then validate_counts counts rest else if cnt = 0 then Inl MetadataDeserialize
      else if i_kind i = File \<and> cnt \<noteq> i_link_count i then Inl MetadataDeserialize
      else if i_kind i = Symlink \<and> cnt \<noteq> 1 then Inl MetadataDeserialize else validate_counts counts rest)"
    by (simp add: Let_def cnt_def)
  then have "is_ok (validate_counts counts ((fid, i) # rest)) \<longleftrightarrow>
      (fid = 1 \<or> cnt \<noteq> 0 \<and> (i_kind i = File \<longrightarrow> cnt = i_link_count i) \<and> (i_kind i = Symlink \<longrightarrow> cnt = 1))
      \<and> is_ok (validate_counts counts rest)"
    by simp
  also have "\<dots> \<longleftrightarrow> (fid = 1 \<or> tallied counts fid \<noteq> 0 \<and> (i_kind i = File \<longrightarrow> tallied counts fid = unat (i_link_count i))
        \<and> (i_kind i = Symlink \<longrightarrow> tallied counts fid = 1)) \<and> is_ok (validate_counts counts rest)"
    by (simp only: n zero one eq)
  also have "is_ok (validate_counts counts rest) \<longleftrightarrow> (\<forall>(fid, i) \<in> set rest. fid \<noteq> ROOT_ID \<longrightarrow> tallied counts fid \<noteq> 0
        \<and> (i_kind i = File \<longrightarrow> tallied counts fid = unat (i_link_count i)) \<and> (i_kind i = Symlink \<longrightarrow> tallied counts fid = 1))"
    by (rule Cons.IH)
  finally show ?case unfolding p by (simp only: set_simps ball_simps prod.case) blast
qed simp

definition inode_local :: "u64 \<Rightarrow> bool \<Rightarrow> DirectoryTree \<Rightarrow> u64 \<Rightarrow> Inode \<Rightarrow> bool" where
  "inode_local doff hide_size t fid i \<longleftrightarrow>
     i_id i = fid \<and> fid < next_file_id t \<and> (fid \<noteq> ROOT_ID \<longrightarrow> dir_at (inodes t) (i_parent i)) \<and> inode_ok hide_size i
     \<and> (\<forall>cr \<in> set (inode_refs i). ref_ok doff (next_chunk_id t) (next_chunk_gen t) cr)
     \<and> (\<forall>p \<in> set (i_children i). entry_ok (inodes t) p)"

lemma validate_parent_ok: "is_ok (validate_parent m i) \<longleftrightarrow> dir_at m (i_parent i)"
  by (cases "bt_get m (i_parent i)") (auto simp: validate_parent_def dir_at_def ok_or_def)

lemma is_ok_bindE_iff: "is_ok (bindE m f) \<longleftrightarrow> (\<exists>x. m = Inr x \<and> is_ok (f x))"
  by (cases m) auto

lemma is_ok_Inr: "is_ok m \<longleftrightarrow> (\<exists>x. m = Inr x)"
  by (cases m) auto

definition kids :: "Inode \<Rightarrow> u64 list" where
  "kids i = bt_values (i_children i)"

lemma claim_two:
  "is_ok (bindE (claim_slots doff nid ngen live xs) (\<lambda>l1. bindE (claim_slots doff nid ngen l1 ys) (\<lambda>l2. Inr (c, l2)))) \<longleftrightarrow>
     (\<forall>cr \<in> set (xs @ ys). ref_ok doff nid ngen cr) \<and> distinct (map cr_id (xs @ ys)) \<and> cr_id ` set (xs @ ys) \<inter> live = {}"
proof (cases "claim_slots doff nid ngen live xs")
  case (Inl e)
  then have "\<not> is_ok (claim_slots doff nid ngen live xs)" by simp
  then have "\<not> ((\<forall>cr \<in> set xs. ref_ok doff nid ngen cr) \<and> distinct (map cr_id xs) \<and> cr_id ` set xs \<inter> live = {})"
    by (simp only: claim_slots_spec not_False_eq_True simp_thms)
  then show ?thesis using Inl by auto
next
  case (Inr l1)
  then have ok: "is_ok (claim_slots doff nid ngen live xs)" and l1: "l1 = live \<union> cr_id ` set xs"
    using claim_slots_spec(2) by auto
  have "is_ok (bindE (claim_slots doff nid ngen l1 ys) (\<lambda>l2. Inr (c, l2))) \<longleftrightarrow> is_ok (claim_slots doff nid ngen l1 ys)"
    by (cases "claim_slots doff nid ngen l1 ys") auto
  then show ?thesis using Inr ok [unfolded claim_slots_spec] l1 by (auto simp: claim_slots_spec)
qed

definition fits :: "(u64, Inode) btree \<Rightarrow> (u64, u32) btree \<Rightarrow> u64 set \<Rightarrow> u64 list \<Rightarrow> u64 list \<Rightarrow> bool" where
  "fits m counts live cs ids \<longleftrightarrow>
     distinct ids \<and> set ids \<inter> live = {} \<and> (\<forall>c \<in> set cs. dir_at m c \<longrightarrow> tallied counts c + count_list cs c \<le> 1)"

lemma kids_eq: "map snd (i_children i) = kids i" "snd ` set (i_children i) = set (kids i)"
  by (simp_all add: kids_def bt_values_def)

lemma validate_kind_spec:
  assumes b: "\<And>c. tallied counts c + count_list (kids i) c < 2 ^ 32"
  shows "is_ok (validate_kind t doff hide i counts live) \<longleftrightarrow>
      inode_ok hide i \<and> (\<forall>cr \<in> set (inode_refs i). ref_ok doff (next_chunk_id t) (next_chunk_gen t) cr)
      \<and> (\<forall>p \<in> set (i_children i). entry_ok (inodes t) p) \<and> fits (inodes t) counts live (kids i) (map cr_id (inode_refs i))"
proof (cases "i_kind i")
  case Directory
  have tally: "is_ok (bindE (tally_children (inodes t) counts (i_children i)) (\<lambda>c. Inr (c, live))) \<longleftrightarrow>
      (\<forall>p \<in> set (i_children i). entry_ok (inodes t) p)
      \<and> (\<forall>c \<in> set (kids i). dir_at (inodes t) c \<longrightarrow> tallied counts c + count_list (kids i) c \<le> 1)"
    using tally_children_spec [of counts "i_children i" "inodes t"] b
    by (cases "tally_children (inodes t) counts (i_children i)") (auto simp: kids_eq)
  have names: "(\<forall>p \<in> set (i_children i). entry_ok (inodes t) p) \<Longrightarrow> (n, c) \<in> set (i_children i) \<Longrightarrow> is_ok (validate_name n)" for n c
    by (auto simp: entry_ok_def)
  show ?thesis using Directory unfolding validate_kind_def fits_def
    by (simp add: tally inode_ok_def inode_refs_def) (use names in blast)
next
  case Symlink
  then show ?thesis unfolding validate_kind_def fits_def
    by (auto simp: inode_ok_def inode_refs_def kids_def bt_values_def split: option.splits)
next
  case File
  have claim: "is_ok (bindE (validate_capacity hide i) (\<lambda>_.
        bindE (claim_slots doff (next_chunk_id t) (next_chunk_gen t) live (i_chunks i)) (\<lambda>l1.
        bindE (claim_slots doff (next_chunk_id t) (next_chunk_gen t) l1 (i_external_list_blocks i)) (\<lambda>l2. Inr (counts, l2)))))
      \<longleftrightarrow> is_ok (validate_capacity hide i) \<and> (\<forall>cr \<in> set (inode_refs i). ref_ok doff (next_chunk_id t) (next_chunk_gen t) cr)
        \<and> distinct (map cr_id (inode_refs i)) \<and> cr_id ` set (inode_refs i) \<inter> live = {}"
    by (cases "validate_capacity hide i") (simp_all only: claim_two bindE_simps inode_refs_def is_ok_simps simp_thms)
  show ?thesis using File unfolding validate_kind_def fits_def
    by (auto simp: claim inode_ok_def kids_def bt_values_def)
qed

lemma validate_inode_spec:
  assumes b: "\<And>c. tallied counts c + count_list (kids i) c < 2 ^ 32"
  shows "is_ok (validate_inode t doff hide fid i counts live) \<longleftrightarrow>
      inode_local doff hide t fid i \<and> fits (inodes t) counts live (kids i) (map cr_id (inode_refs i))"
proof -
  have "is_ok (validate_inode t doff hide fid i counts live) \<longleftrightarrow>
     i_id i = fid \<and> fid < next_file_id t \<and> is_ok (if fid \<noteq> 1 then validate_parent (inodes t) i else Inr ())
     \<and> is_ok (validate_kind t doff hide i counts live)"
    by (cases "if fid \<noteq> 1 then validate_parent (inodes t) i else Inr ()") (auto simp: validate_inode_def not_le)
  then show ?thesis
    by (auto simp: validate_kind_spec [OF b] inode_local_def validate_parent_ok)
qed

lemma validate_inode_result:
  assumes b: "\<And>c. tallied counts c + count_list (kids i) c < 2 ^ 32"
    and v: "validate_inode t doff hide fid i counts live = Inr (counts', live')"
  shows "live' = live \<union> set (map cr_id (inode_refs i))" "tallied counts' c = tallied counts c + count_list (kids i) c"
proof -
  from v have k: "validate_kind t doff hide i counts live = Inr (counts', live')"
    by (auto simp: validate_inode_def bindE_eq_Inr split: if_splits)
  have "live' = live \<union> set (map cr_id (inode_refs i)) \<and> tallied counts' c = tallied counts c + count_list (kids i) c"
  proof (cases "i_kind i")
    case Directory
    with k have "tally_children (inodes t) counts (i_children i) = Inr counts'" "live' = live" "inode_refs i = []"
      by (auto simp: validate_kind_def bindE_eq_Inr inode_refs_def split: if_splits)
    then show ?thesis using tally_children_result [of "inodes t" counts "i_children i" counts'] b by (simp add: kids_eq)
  next
    case Symlink
    with k show ?thesis by (auto simp: validate_kind_def inode_refs_def kids_def bt_values_def split: if_splits option.splits)
  next
    case File
    with k obtain l1 where "claim_slots doff (next_chunk_id t) (next_chunk_gen t) live (i_chunks i) = Inr l1"
      "claim_slots doff (next_chunk_id t) (next_chunk_gen t) l1 (i_external_list_blocks i) = Inr live'"
      "counts' = counts" "i_children i = []"
      by (auto simp: validate_kind_def bindE_eq_Inr split: if_splits)
    then have "l1 = live \<union> cr_id ` set (i_chunks i)" "live' = l1 \<union> cr_id ` set (i_external_list_blocks i)"
      "counts' = counts" "kids i = []"
      using claim_slots_spec(2) by (simp_all add: kids_def bt_values_def)
    then show ?thesis by (auto simp: inode_refs_def)
  qed
  then show "live' = live \<union> set (map cr_id (inode_refs i))" "tallied counts' c = tallied counts c + count_list (kids i) c"
    by blast+
qed

section \<open>The loop over the inodes\<close>

definition all_kids :: "(u64 \<times> Inode) list \<Rightarrow> u64 list" where
  "all_kids xs = concat (map (\<lambda>p. kids (snd p)) xs)"

definition all_slots :: "(u64 \<times> Inode) list \<Rightarrow> u64 list" where
  "all_slots xs = concat (map (\<lambda>p. map cr_id (inode_refs (snd p))) xs)"

lemma all_kids_simps [simp]: "all_kids [] = []" "all_kids (p # xs) = kids (snd p) @ all_kids xs"
  by (simp_all add: all_kids_def)

lemma all_slots_simps [simp]: "all_slots [] = []" "all_slots (p # xs) = map cr_id (inode_refs (snd p)) @ all_slots xs"
  by (simp_all add: all_slots_def)

lemma fits_append:
  assumes "\<And>c. tallied counts' c = tallied counts c + count_list cs c" "live' = live \<union> set ids"
  shows "fits m counts live (cs @ cs') (ids @ ids') \<longleftrightarrow> fits m counts live cs ids \<and> fits m counts' live' cs' ids'"
proof -
  have "(\<forall>c \<in> set (cs @ cs'). dir_at m c \<longrightarrow> tallied counts c + count_list (cs @ cs') c \<le> 1) \<longleftrightarrow>
     (\<forall>c \<in> set cs. dir_at m c \<longrightarrow> tallied counts c + count_list cs c \<le> 1)
     \<and> (\<forall>c \<in> set cs'. dir_at m c \<longrightarrow> tallied counts' c + count_list cs' c \<le> 1)" (is "?L \<longleftrightarrow> ?R")
  proof
    show ?R if ?L
      using that by (fastforce simp: assms)
    show ?L if r: ?R
    proof (intro ballI impI)
      fix c assume c: "c \<in> set (cs @ cs')" "dir_at m c"
      show "tallied counts c + count_list (cs @ cs') c \<le> 1"
      proof (cases "c \<in> set cs'")
        case True
        then have "tallied counts' c + count_list cs' c \<le> 1" using r c by blast
        then show ?thesis by (simp add: assms)
      next
        case False
        then have "count_list cs' c = 0" by (simp add: count_list_0_iff)
        moreover have "tallied counts c + count_list cs c \<le> 1" using r c False by auto
        ultimately show ?thesis by simp
      qed
    qed
  qed
  then show ?thesis unfolding fits_def assms(2) by auto
qed

lemma validate_inodes_spec:
  "(\<And>c. tallied counts c + count_list (all_kids xs) c < 2 ^ 32) \<Longrightarrow>
     is_ok (validate_inodes t doff hide xs counts live) \<longleftrightarrow>
       (\<forall>p \<in> set xs. inode_local doff hide t (fst p) (snd p)) \<and> fits (inodes t) counts live (all_kids xs) (all_slots xs)"
proof (induction xs arbitrary: counts live)
  case (Cons p xs)
  obtain fid i where p: "p = (fid, i)" by (cases p)
  have b: "tallied counts c + count_list (kids i) c < 2 ^ 32" for c
    using Cons.prems [of c] by (simp add: p)
  show ?case
  proof (cases "validate_inode t doff hide fid i counts live")
    case (Inl e)
    then have "\<not> (inode_local doff hide t fid i \<and> fits (inodes t) counts live (kids i) (map cr_id (inode_refs i)))"
      using validate_inode_spec [OF b] by (metis is_ok_simps(2))
    then show ?thesis
      using Inl fits_append [of _ counts "kids i" _ live "map cr_id (inode_refs i)"] by (auto simp: p fits_def)
  next
    case (Inr r)
    obtain counts' live' where r: "r = (counts', live')" by (cases r)
    note res = validate_inode_result [OF b Inr [unfolded r]]
    have ok: "inode_local doff hide t fid i" "fits (inodes t) counts live (kids i) (map cr_id (inode_refs i))"
      using validate_inode_spec [OF b] Inr by (metis is_ok_simps(1))+
    have "tallied counts' c + count_list (all_kids xs) c < 2 ^ 32" for c
      using Cons.prems [of c] res(2) by (simp add: p)
    from Cons.IH [OF this, of live'] show ?thesis
      using Inr r ok fits_append [OF res(2,1)] by (simp add: p)
  qed
qed (simp add: fits_def)

lemma validate_inodes_result:
  "validate_inodes t doff hide xs counts live = Inr (counts', live') \<Longrightarrow>
     (\<And>c. tallied counts c + count_list (all_kids xs) c < 2 ^ 32) \<Longrightarrow>
     live' = live \<union> set (all_slots xs) \<and> tallied counts' c = tallied counts c + count_list (all_kids xs) c"
proof (induction xs arbitrary: counts live)
  case (Cons p xs)
  obtain fid i where p: "p = (fid, i)" by (cases p)
  have b: "tallied counts c + count_list (kids i) c < 2 ^ 32" for c
    using Cons.prems(2) [of c] by (simp add: p)
  from Cons.prems(1) obtain counts1 live1 where v: "validate_inode t doff hide fid i counts live = Inr (counts1, live1)"
    and rest: "validate_inodes t doff hide xs counts1 live1 = Inr (counts', live')"
    by (auto simp: p bindE_eq_Inr)
  note res = validate_inode_result [OF b v]
  have "tallied counts1 c + count_list (all_kids xs) c < 2 ^ 32" for c
    using Cons.prems(2) [of c] res(2) by (simp add: p)
  from Cons.IH [OF rest this] res show ?case by (simp add: p) blast
qed simp

section \<open>The validator decides validity\<close>

lemma refs_all_kids: "refs m = mset (all_kids m)"
  by (induction m) (simp_all add: refs_def kids_def)

lemma slots_all_slots: "slots m = mset (all_slots m)"
  by (induction m) (simp_all add: slots_def)

lemma slots_unique_iff: "(\<forall>x. count (slots m) x \<le> 1) \<longleftrightarrow> distinct (all_slots m)"
  unfolding slots_all_slots distinct_count_atmost_1 by (auto simp: le_Suc_eq count_eq_zero_iff)

lemma all_children_refs: "all_children m = set_mset (refs m)"
  by (induction m) (simp_all add: all_children_def refs_def bt_values_def)

lemma child_rel_iff: "(d, c) \<in> child_rel m \<longleftrightarrow> (\<exists>i. bt_get m d = Some i \<and> c \<in> set (bt_values (i_children i)))"
  by (cases "bt_get m d") (simp_all add: child_rel_def child_ids_def)

lemma child_rel_refs: "bt_ok m \<Longrightarrow> c \<in># refs m \<longleftrightarrow> (\<exists>d. (d, c) \<in> child_rel m)"
  by (simp add: refs_def bt_total_mem child_rel_iff)

lemma reachable_keys:
  assumes "bt_ok m" "bt_contains m 1" "\<And>c. c \<in># refs m \<Longrightarrow> bt_contains m c" "(1, x) \<in> (child_rel m)\<^sup>*"
  shows "bt_contains m x"
  using assms(4) by (cases rule: rtranclE) (use assms(1-3) child_rel_refs in blast)+

lemma reach_check:
  assumes "bt_ok m" "bt_contains m 1" "\<And>c. c \<in># refs m \<Longrightarrow> bt_contains m c"
  shows "\<exists>r. reach_loop m [1] {1} = Inr r \<and> (card r = length m \<longleftrightarrow> (\<forall>x. bt_contains m x \<longrightarrow> (1, x) \<in> (child_rel m)\<^sup>*))"
proof -
  have "is_ok (reach_loop m [1] {1})"
    by (rule reach_loop_total) (use assms in \<open>auto simp: all_children_refs bt_contains_def\<close>)
  then obtain r where r: "reach_loop m [1] {1} = Inr r" by (auto simp: is_ok_Inr)
  have "reach_inv m [1] {1}" by (simp add: reach_inv_def)
  from reach_loop_result [OF this r] have rr: "r = (child_rel m)\<^sup>* `` {1}" .
  have sub: "r \<subseteq> set (bt_keys m)"
    using reachable_keys [OF assms] bt_in_keys [OF assms(1)] by (auto simp: rr)
  have len: "length m = card (set (bt_keys m))"
    using assms(1) by (simp add: bt_ok_def distinct_card bt_keys_def flip: set_map)
  have "card r = length m \<longleftrightarrow> r = set (bt_keys m)"
    unfolding len using sub by (metis List.finite_set card_subset_eq)
  also have "\<dots> \<longleftrightarrow> (\<forall>x. bt_contains m x \<longrightarrow> (1, x) \<in> (child_rel m)\<^sup>*)"
    using sub bt_in_keys [OF assms(1)] by (auto simp: rr)
  finally show ?thesis using r by blast
qed

lemma entries_ok_iff:
  assumes "bt_ok m" "\<And>fid i. bt_get m fid = Some i \<Longrightarrow> inode_ok hide i"
  shows "(\<forall>fid i. bt_get m fid = Some i \<longrightarrow> (\<forall>p \<in> set (i_children i). entry_ok m p)) \<longleftrightarrow>
     (\<forall>c. c \<in># refs m \<longrightarrow> c \<noteq> 1 \<and> bt_contains m c)"
proof -
  have name: "is_ok (validate_name n)" if "bt_get m fid = Some i" "(n, c) \<in> set (i_children i)" for fid i n c
    using assms(2) [OF that(1)] that(2) by (auto simp: inode_ok_def split: InodeKind.splits)
  have ref: "c \<in># refs m \<longleftrightarrow> (\<exists>fid i n. bt_get m fid = Some i \<and> (n, c) \<in> set (i_children i))" for c
    by (force simp: refs_def bt_total_mem [OF assms(1)] bt_values_def)
  have "(\<forall>fid i. bt_get m fid = Some i \<longrightarrow> (\<forall>p \<in> set (i_children i). entry_ok m p)) \<longleftrightarrow>
      (\<forall>fid i n c. bt_get m fid = Some i \<longrightarrow> (n, c) \<in> set (i_children i) \<longrightarrow> entry_ok m (n, c))" by fast
  also have "\<dots> \<longleftrightarrow> (\<forall>fid i n c. bt_get m fid = Some i \<longrightarrow> (n, c) \<in> set (i_children i) \<longrightarrow> c \<noteq> 1 \<and> bt_contains m c)"
    using name unfolding entry_ok_def fst_conv snd_conv by blast
  finally show ?thesis unfolding ref by blast
qed

lemma counts_iff:
  assumes "bt_ok m" "bt_contains m 1" "\<And>fid i. bt_get m fid = Some i \<Longrightarrow> inode_ok hide i"
    "\<And>c. c \<in># refs m \<Longrightarrow> c \<noteq> 1 \<and> bt_contains m c" "\<And>c. tallied counts c = count (refs m) c"
  shows "is_ok (validate_counts counts m) \<and> (\<forall>c \<in> set (all_kids m). dir_at m c \<longrightarrow> count_list (all_kids m) c \<le> 1) \<longleftrightarrow>
     (\<forall>fid i. bt_get m fid = Some i \<longrightarrow> fid \<noteq> 1 \<longrightarrow> count (refs m) fid = unat (i_link_count i))" (is "?L \<longleftrightarrow> ?R")
proof -
  have vc: "is_ok (validate_counts counts m) \<longleftrightarrow> (\<forall>fid i. bt_get m fid = Some i \<longrightarrow> fid \<noteq> 1 \<longrightarrow> count (refs m) fid \<noteq> 0
        \<and> (i_kind i = File \<longrightarrow> count (refs m) fid = unat (i_link_count i)) \<and> (i_kind i = Symlink \<longrightarrow> count (refs m) fid = 1))"
    by (auto simp: validate_counts_spec assms(5) bt_entries [OF assms(1)])
  have dirs: "(\<forall>c \<in> set (all_kids m). dir_at m c \<longrightarrow> count_list (all_kids m) c \<le> 1) \<longleftrightarrow>
     (\<forall>fid i. bt_get m fid = Some i \<longrightarrow> fid \<noteq> 1 \<longrightarrow> i_kind i = Directory \<longrightarrow> count (refs m) fid \<le> 1)" (is "?A \<longleftrightarrow> ?B")
  proof
    assume A: ?A
    show ?B
    proof (intro allI impI)
      fix fid i assume i: "bt_get m fid = Some i" "i_kind i = Directory"
      show "count (refs m) fid \<le> 1"
      proof (cases "fid \<in># refs m")
        case True
        then show ?thesis using A i by (auto simp: refs_all_kids count_mset dir_at_def)
      next
        case False
        then show ?thesis by (simp add: not_in_iff)
      qed
    qed
  next
    assume B: ?B
    show ?A
    proof (intro ballI impI)
      fix c assume "c \<in> set (all_kids m)" "dir_at m c"
      moreover from this have "c \<noteq> 1" using assms(4) [of c] by (simp add: refs_all_kids)
      ultimately show "count_list (all_kids m) c \<le> 1" using B by (auto simp: refs_all_kids count_mset dir_at_def)
    qed
  qed
  have lc: "unat (i_link_count i) = 1" if "bt_get m fid = Some i" "i_kind i \<noteq> File" for fid i
    using assms(3) [OF that(1)] that(2) by (auto simp: inode_ok_def split: InodeKind.splits)
  have nz: "unat (i_link_count i) \<noteq> 0" if "bt_get m fid = Some i" for fid i
    using assms(3) [OF that] by (auto simp: inode_ok_def unat_eq_0 split: InodeKind.splits)
  show ?thesis
  proof
    assume L: ?L
    show ?R
    proof (intro allI impI)
      fix fid i assume i: "bt_get m fid = Some i" "fid \<noteq> 1"
      with L vc have n: "count (refs m) fid \<noteq> 0" "i_kind i = File \<longrightarrow> count (refs m) fid = unat (i_link_count i)"
        "i_kind i = Symlink \<longrightarrow> count (refs m) fid = 1" by blast+
      moreover have "i_kind i = Directory \<longrightarrow> count (refs m) fid \<le> 1" using L dirs i by blast
      ultimately show "count (refs m) fid = unat (i_link_count i)"
        using lc [OF i(1)] by (cases "i_kind i") (simp_all del: count_greater_zero_iff count_eq_zero_iff)
    qed
  next
    assume R: ?R
    have "is_ok (validate_counts counts m)"
      unfolding vc using R lc nz by (metis InodeKind.distinct(3))
    moreover have "\<forall>fid i. bt_get m fid = Some i \<longrightarrow> fid \<noteq> 1 \<longrightarrow> i_kind i = Directory \<longrightarrow> count (refs m) fid \<le> 1"
      using R lc by (metis InodeKind.distinct(1) order_refl)
    ultimately show ?L using dirs by blast
  qed
qed

lemma validate_tree_inodes:
  assumes ok: "bt_ok m" and m: "inodes t = m" and r: "bt_get m 1 = Some r" "i_parent r = 1" "i_kind r = Directory"
  shows "(\<forall>p \<in> set m. inode_local doff hide t (fst p) (snd p)) \<longleftrightarrow>
     (\<forall>fid i. bt_get m fid = Some i \<longrightarrow> i_id i = fid \<and> fid < next_file_id t \<and> inode_ok hide i \<and> dir_at m (i_parent i)
        \<and> (\<forall>cr \<in> set (inode_refs i). ref_ok doff (next_chunk_id t) (next_chunk_gen t) cr))
     \<and> (\<forall>c. c \<in># refs m \<longrightarrow> c \<noteq> 1 \<and> bt_contains m c)" (is "?L \<longleftrightarrow> ?A \<and> ?B")
proof -
  have "?L \<longleftrightarrow> (\<forall>fid i. bt_get m fid = Some i \<longrightarrow> inode_local doff hide t fid i)"
    using bt_entries [OF ok] by (metis fst_conv prod.collapse snd_conv)
  also have "\<dots> \<longleftrightarrow> (\<forall>fid i. bt_get m fid = Some i \<longrightarrow>
      (i_id i = fid \<and> fid < next_file_id t \<and> inode_ok hide i \<and> dir_at m (i_parent i)
        \<and> (\<forall>cr \<in> set (inode_refs i). ref_ok doff (next_chunk_id t) (next_chunk_gen t) cr))
      \<and> (\<forall>p \<in> set (i_children i). entry_ok m p))"
  proof (intro all_cong1 imp_cong refl)
    fix fid i assume i: "bt_get m fid = Some i"
    have "fid = 1 \<Longrightarrow> dir_at m (i_parent i)" using r i by (simp add: dir_at_def)
    then show "inode_local doff hide t fid i \<longleftrightarrow>
      (i_id i = fid \<and> fid < next_file_id t \<and> inode_ok hide i \<and> dir_at m (i_parent i)
        \<and> (\<forall>cr \<in> set (inode_refs i). ref_ok doff (next_chunk_id t) (next_chunk_gen t) cr))
      \<and> (\<forall>p \<in> set (i_children i). entry_ok m p)"
      unfolding inode_local_def m by argo
  qed
  also have "\<dots> \<longleftrightarrow> ?A \<and> (\<forall>fid i. bt_get m fid = Some i \<longrightarrow> (\<forall>p \<in> set (i_children i). entry_ok m p))"
    by (simp only: imp_conjR all_conj_distrib)
  also have "\<dots> \<longleftrightarrow> ?A \<and> ?B"
    using entries_ok_iff [OF ok, of hide] by blast
  finally show ?thesis .
qed

lemma validate_inodes_tree:
  assumes "bt_ok m" "inodes t = m" "size (refs m) < 2 ^ 32"
  shows "is_ok (validate_inodes t doff hide m [] {}) \<longleftrightarrow>
      (\<forall>p \<in> set m. inode_local doff hide t (fst p) (snd p)) \<and> distinct (all_slots m)
      \<and> (\<forall>c \<in> set (all_kids m). dir_at m c \<longrightarrow> count_list (all_kids m) c \<le> 1)"
    and "validate_inodes t doff hide m [] {} = Inr (counts, live) \<Longrightarrow> live = set (all_slots m) \<and> tallied counts c = count (refs m) c"
proof -
  have "count_list (all_kids m) c \<le> length (all_kids m)" for c by (rule count_le_length)
  moreover have "length (all_kids m) < 2 ^ 32" using assms(3) by (simp add: refs_all_kids)
  ultimately have b: "tallied [] c + count_list (all_kids m) c < 2 ^ 32" for c
    by (simp add: tallied_def) (meson le_less_trans)
  show "is_ok (validate_inodes t doff hide m [] {}) \<longleftrightarrow>
      (\<forall>p \<in> set m. inode_local doff hide t (fst p) (snd p)) \<and> distinct (all_slots m)
      \<and> (\<forall>c \<in> set (all_kids m). dir_at m c \<longrightarrow> count_list (all_kids m) c \<le> 1)"
    using validate_inodes_spec [OF b, of t doff hide "{}"] assms(2) by (simp add: fits_def tallied_def)
  show "live = set (all_slots m) \<and> tallied counts c = count (refs m) c"
    if "validate_inodes t doff hide m [] {} = Inr (counts, live)"
    using validate_inodes_result [OF that b] by (simp add: tallied_def refs_all_kids count_mset)
qed

lemma validate_body:
  fixes doff :: u64 and hide :: bool
  assumes ok: "bt_ok m" and m: "inodes t = m" and size: "size (refs m) < 2 ^ 32"
    and r: "bt_get m 1 = Some r" "i_parent r = 1" "i_kind r = Directory"
  defines "body \<equiv> bindE (validate_inodes t doff hide m [] {}) (\<lambda>(counts, live).
          bindE (validate_counts counts m) (\<lambda>_.
          bindE (reach_loop m [ROOT_ID] {ROOT_ID}) (\<lambda>reachable.
          if card reachable \<noteq> length m then Inl MetadataDeserialize
          else validate_free doff (next_chunk_id t) live {} (free_chunks t))))"
  shows "is_ok body \<longleftrightarrow>
     (\<forall>p \<in> set m. inode_local doff hide t (fst p) (snd p)) \<and> distinct (all_slots m)
     \<and> (\<forall>fid i. bt_get m fid = Some i \<longrightarrow> fid \<noteq> 1 \<longrightarrow> count (refs m) fid = unat (i_link_count i))
     \<and> (\<forall>x. bt_contains m x \<longrightarrow> (1, x) \<in> (child_rel m)\<^sup>*)
     \<and> distinct (free_chunks t) \<and> (\<forall>x \<in> set (free_chunks t). x < next_chunk_id t \<and> x \<notin># slots m \<and> is_ok (slot_offset doff x))"
proof (cases "validate_inodes t doff hide m [] {}")
  case (Inl e)
  have "\<not> ((\<forall>p \<in> set m. inode_local doff hide t (fst p) (snd p)) \<and> distinct (all_slots m)
      \<and> (\<forall>fid i. bt_get m fid = Some i \<longrightarrow> fid \<noteq> 1 \<longrightarrow> count (refs m) fid = unat (i_link_count i)))"
  proof
    assume a: "(\<forall>p \<in> set m. inode_local doff hide t (fst p) (snd p)) \<and> distinct (all_slots m)
      \<and> (\<forall>fid i. bt_get m fid = Some i \<longrightarrow> fid \<noteq> 1 \<longrightarrow> count (refs m) fid = unat (i_link_count i))"
    then have i: "bt_get m fid = Some i \<Longrightarrow> inode_ok hide i" and c: "c \<in># refs m \<Longrightarrow> c \<noteq> 1 \<and> bt_contains m c" for fid i c
      using validate_tree_inodes [OF ok m r, of doff hide] by blast+
    have "\<forall>c \<in> set (all_kids m). dir_at m c \<longrightarrow> count_list (all_kids m) c \<le> 1"
    proof (intro ballI impI)
      fix c assume "c \<in> set (all_kids m)" "dir_at m c"
      moreover from this have "c \<noteq> 1" using c [of c] by (simp add: refs_all_kids)
      ultimately obtain d where d: "bt_get m c = Some d" "i_kind d = Directory" "count (refs m) c = unat (i_link_count d)"
        using a by (auto simp: dir_at_def)
      then have "count (refs m) c = 1" using i [OF d(1)] by (simp add: inode_ok_def)
      then show "count_list (all_kids m) c \<le> 1" by (simp add: refs_all_kids count_mset)
    qed
    with a validate_inodes_tree(1) [OF ok m size, of doff hide] Inl show False by auto
  qed
  then show ?thesis unfolding body_def using Inl by auto
next
  case (Inr p)
  obtain counts live where p: "p = (counts, live)" by (cases p)
  have v: "(\<forall>p \<in> set m. inode_local doff hide t (fst p) (snd p))" "distinct (all_slots m)"
    "\<forall>c \<in> set (all_kids m). dir_at m c \<longrightarrow> count_list (all_kids m) c \<le> 1"
    using validate_inodes_tree(1) [OF ok m size, of doff hide] Inr by simp_all
  have i: "bt_get m fid = Some i \<Longrightarrow> inode_ok hide i" and c: "c \<in># refs m \<Longrightarrow> c \<noteq> 1 \<and> bt_contains m c" for fid i c
    using validate_tree_inodes [OF ok m r, of doff hide] v(1) by blast+
  have one: "bt_contains m 1" using r by (simp add: bt_contains_def)
  have res: "live = set (all_slots m)" "\<And>c. tallied counts c = count (refs m) c"
    using validate_inodes_tree(2) [OF ok m size Inr [unfolded p]] by blast+
  obtain reach where reach: "reach_loop m [1] {1} = Inr reach"
    "card reach = length m \<longleftrightarrow> (\<forall>x. bt_contains m x \<longrightarrow> (1, x) \<in> (child_rel m)\<^sup>*)"
    using reach_check [OF ok one] c by blast
  note cnt = counts_iff [OF ok one i c res(2)]
  have "is_ok body \<longleftrightarrow> is_ok (validate_counts counts m) \<and> card reach = length m
      \<and> is_ok (validate_free doff (next_chunk_id t) live {} (free_chunks t))"
    unfolding body_def using Inr p reach(1) by (cases "validate_counts counts m") auto
  then show ?thesis using v cnt reach(2)
    by (auto simp: validate_free_spec res(1) slots_all_slots)
qed

lemma validate_metadata_tree_iff:
  assumes "maps_ok t" "size (refs (inodes t)) < 2 ^ 32"
  shows "validate_metadata_tree t doff hide = Inr () \<longleftrightarrow> tree_ok doff hide t"
proof -
  let ?m = "inodes t"
  let ?G = "t_root t = 1 \<and> 1 < next_file_id t \<and> next_file_id t < 0x8000000000000000 \<and> next_chunk_gen t \<noteq> 0
    \<and> next_chunk_gen t \<noteq> -1 \<and> is_ok (slot_offset doff (next_chunk_id t))"
  have ok: "bt_ok ?m" using assms(1) by (simp add: maps_ok_def)
  have u: "validate_metadata_tree t doff hide = Inr () \<longleftrightarrow> is_ok (validate_metadata_tree t doff hide)"
    by (cases "validate_metadata_tree t doff hide") auto
  have g: "\<not> (t_root t \<noteq> 1 \<or> next_file_id t \<le> 1 \<or> next_file_id t = -1 \<or> 0x8000000000000000 \<le> next_file_id t
         \<or> next_chunk_gen t = 0 \<or> next_chunk_gen t = -1 \<or> \<not> is_ok (slot_offset doff (next_chunk_id t))) \<longleftrightarrow> ?G"
    by (auto simp: not_le)
  show ?thesis
  proof (cases "?G \<and> (\<exists>r. bt_get ?m 1 = Some r \<and> i_id r = 1 \<and> i_parent r = 1 \<and> i_kind r = Directory)")
    case False
    then have "\<not> is_ok (validate_metadata_tree t doff hide)"
      unfolding validate_metadata_tree_def using g by (cases "bt_get ?m 1") (auto simp: ok_or_def)
    moreover have "\<not> tree_ok doff hide t"
      using False unfolding tree_ok_def by blast
    ultimately show ?thesis unfolding u by blast
  next
    case True
    then obtain r where G: ?G and r: "bt_get ?m 1 = Some r" "i_id r = 1" "i_parent r = 1" "i_kind r = Directory" by blast
    have "is_ok (validate_metadata_tree t doff hide) \<longleftrightarrow>
      is_ok (bindE (validate_inodes t doff hide ?m [] {}) (\<lambda>(counts, live).
          bindE (validate_counts counts ?m) (\<lambda>_.
          bindE (reach_loop ?m [ROOT_ID] {ROOT_ID}) (\<lambda>reachable.
          if card reachable \<noteq> length ?m then Inl MetadataDeserialize
          else validate_free doff (next_chunk_id t) live {} (free_chunks t)))))"
      unfolding validate_metadata_tree_def using g G r by (simp add: ok_or_def)
    also note validate_body [OF ok refl assms(2) r(1,3,4), of doff hide]
    also note validate_tree_inodes [OF ok refl r(1,3,4), of doff hide]
    finally show ?thesis
      unfolding u tree_ok_def slots_unique_iff using G r by (simp add: bt_contains_def) blast
  qed
qed

lemma tree_new_maps: "maps_ok tree_new" "refs (inodes tree_new) = {#}"
  by (auto simp: maps_ok_def tree_new_def refs_def bt_values_def bt_ok_def bt_keys_def bt_get_def)

lemma tree_new_valid: "validate_metadata_tree tree_new 131072 hide = Inr ()"
  by (simp add: validate_metadata_tree_def tree_new_def validate_inode_def validate_kind_def slot_offset_def checked_mul_u64_def
      checked_add_u64_def ok_or_def bt_get_def bt_values_def) (simp add: word_le_nat_alt)

text \<open>
  C16: the validator decides validity. On every tree, however it came about, with fewer than $2^{32}$
  directory entries, the passes of the validator with their tallies and searches accept exactly the
  trees that are valid: counters in range, every inode well formed for its kind and stored under its
  id, every entry naming an existing inode, link counts equal to the number of entries, everything
  reachable from the root, and no slot in use twice or both in use and free.
\<close>

theorem validator_decides_validity:
  assumes "maps_ok t" "size (refs (inodes t)) < 2 ^ 32"
  shows "validate_metadata_tree t doff hide = Inr () \<longleftrightarrow> tree_ok doff hide t"
  using assms by (rule validate_metadata_tree_iff)

theorem validator_decides_validity_witness:
  "validate_metadata_tree tree_new 131072 False = Inr () \<and> tree_ok 131072 False tree_new
   \<and> \<not> tree_ok 131072 False (tree_new\<lparr>free_chunks := [0]\<rparr>)"
proof -
  have "validate_metadata_tree (tree_new\<lparr>free_chunks := [0]\<rparr>) 131072 False \<noteq> Inr ()"
    by (simp add: validate_metadata_tree_def tree_new_def validate_inode_def validate_kind_def slot_offset_def checked_mul_u64_def
      checked_add_u64_def ok_or_def bt_get_def bt_values_def)
  moreover have "maps_ok (tree_new\<lparr>free_chunks := [0]\<rparr>)" using tree_new_maps(1) by (simp add: maps_ok_def)
  ultimately show ?thesis
    using validator_decides_validity [of tree_new 131072 False] validator_decides_validity [of "tree_new\<lparr>free_chunks := [0]\<rparr>" 131072 False]
      tree_new_maps tree_new_valid by simp
qed

text \<open>
  C36: the search below a directory always ends, on cyclic and dangling trees too, and answers exactly
  whether the candidate can be reached from the directory by one or more entries.
\<close>

theorem descendant_search_exact:
  "is_descendant_of t root candidate \<longleftrightarrow> (root, candidate) \<in> (child_rel (inodes t))\<^sup>+"
  by (rule is_descendant_of_iff)

end
