(* ===== verification/Lbx_Namespace.thy ===== *)
theory Lbx_Namespace
  imports Lbx_Validate
begin

text \<open>
  The directory operations of the file system (luksbox-vfs/src/vfs.rs): the state \<open>Vfs\<close> of an open
  file system, the operations that read the tree (lookups, listings, link targets) and the ones that
  change it (\<open>mkdir\<close>, \<open>create\<close>, \<open>symlink\<close>, \<open>link\<close>, \<open>unlink\<close>, \<open>rmdir\<close>, \<open>rename\<close>, \<open>chmod\<close>,
  \<open>set_mtime\<close>), and the pass of \<open>open\<close> that repairs stale parents. An operation is a computation
  \<open>'a vop\<close> that threads the state and may fail. The two latches for advisory messages and the shrink
  preference of the struct are left out of the record; no operation here reads them.
\<close>

unbundle bit_operations_syntax

section \<open>State\<close>

datatype MetadataFormat = V2 | V3 | V4 | V5

text \<open>The report of a tolerant open; its display texts (path and reason) are left out.\<close>

record ToleratedInode =
  ti_id :: u64
  ti_kind :: InodeKind
  ti_original_size :: u64

record Vfs =
  v_container :: Container
  v_tree :: DirectoryTree
  v_dirty :: bool
  v_format :: MetadataFormat
  v_tolerated_inodes :: "ToleratedInode list"
  v_chunks_dirty :: "u64 set"
  v_pending_free :: "u64 list"
  v_cow_floor_gen :: u64
  v_max_vault_size :: u64

type_synonym 'a vop = "(Vfs, vfs_error, 'a) rand"

definition readV :: "(Vfs \<Rightarrow> 'a vres) \<Rightarrow> 'a vop" where
  "readV f = (\<lambda>v. (f v, v))"

definition modV :: "(Vfs \<Rightarrow> Vfs) \<Rightarrow> unit vop" where
  "modV f = (\<lambda>v. (Inr (), f v))"

abbreviation v_inodes :: "Vfs \<Rightarrow> (u64, Inode) btree" where
  "v_inodes v \<equiv> inodes (v_tree v)"

definition on_inodes :: "((u64, Inode) btree \<Rightarrow> (u64, Inode) btree) \<Rightarrow> Vfs \<Rightarrow> Vfs" where
  "on_inodes f v = v\<lparr>v_tree := (v_tree v)\<lparr>inodes := f (v_inodes v)\<rparr>\<rparr>"

text \<open>An \<open>unwrap\<close> of a missing inode is the panic of the source.\<close>

definition unwrap_inode :: "Vfs \<Rightarrow> u64 \<Rightarrow> Inode vres" where
  "unwrap_inode v fid = ok_or (VCrypto (Panic ''called Option::unwrap() on a None value'')) (bt_get (v_inodes v) fid)"

definition ensure_writable :: "Vfs \<Rightarrow> unit vres" where
  "ensure_writable v = (if v_tolerated_inodes v \<noteq> [] then Inl ReadOnlyMount else Inr ())"

definition require_dir :: "Vfs \<Rightarrow> u64 \<Rightarrow> Inode vres" where
  "require_dir v fid =
     bindE (ok_or NotFound (bt_get (v_inodes v) fid)) (\<lambda>inode.
     if i_kind inode \<noteq> Directory then Inl NotADirectory else Inr inode)"

section \<open>Reading the tree\<close>

record DirEntry =
  de_name :: rstring
  de_id :: u64
  de_kind :: InodeKind

definition root_id :: "Vfs \<Rightarrow> u64" where
  "root_id v = t_root (v_tree v)"

definition parent_of :: "Vfs \<Rightarrow> u64 \<Rightarrow> u64 vres" where
  "parent_of v fid = bindE (ok_or NotFound (bt_get (v_inodes v) fid)) (\<lambda>i. Inr (i_parent i))"

definition inode_kind :: "Vfs \<Rightarrow> u64 \<Rightarrow> InodeKind vres" where
  "inode_kind v fid = bindE (ok_or NotFound (bt_get (v_inodes v) fid)) (\<lambda>i. Inr (i_kind i))"

definition inode_size_raw :: "Vfs \<Rightarrow> u64 \<Rightarrow> u64 vres" where
  "inode_size_raw v fid = bindE (ok_or NotFound (bt_get (v_inodes v) fid)) (\<lambda>i. Inr (i_size i))"

definition file_chunks :: "Vfs \<Rightarrow> u64 \<Rightarrow> ChunkRef list vres" where
  "file_chunks v fid =
     bindE (ok_or NotFound (bt_get (v_inodes v) fid)) (\<lambda>i.
     if i_kind i \<noteq> File then Inl NotAFile else Inr (i_chunks i))"

definition all_file_ids :: "Vfs \<Rightarrow> u64 list" where
  "all_file_ids v = bt_keys (v_inodes v)"

definition readdir :: "Vfs \<Rightarrow> u64 \<Rightarrow> DirEntry list vres" where
  "readdir v fid =
     bindE (require_dir v fid) (\<lambda>inode.
     Inr (map (\<lambda>(name, child_id).
            \<lparr>de_name = name, de_id = child_id,
             de_kind = (case bt_get (v_inodes v) child_id of Some i \<Rightarrow> i_kind i | None \<Rightarrow> File)\<rparr>) (i_children inode)))"

definition lookup :: "Vfs \<Rightarrow> u64 \<Rightarrow> rstring \<Rightarrow> u64 vres" where
  "lookup v parent name =
     bindE (require_dir v parent) (\<lambda>inode. ok_or NotFound (bt_get (i_children inode) name))"

definition path_segments :: "rstring \<Rightarrow> rstring list" where
  "path_segments path = filter (\<lambda>s. s \<noteq> []) (split_on (\<lambda>c. c = SLASH) path)"

fun lookup_segments :: "Vfs \<Rightarrow> u64 \<Rightarrow> rstring list \<Rightarrow> u64 vres" where
  "lookup_segments v cur [] = Inr cur"
| "lookup_segments v cur (seg # segs) = bindE (lookup v cur seg) (\<lambda>next. lookup_segments v next segs)"

definition lookup_path :: "Vfs \<Rightarrow> rstring \<Rightarrow> u64 vres" where
  "lookup_path v path = lookup_segments v (root_id v) (path_segments path)"

definition lookup_ci :: "(nat \<Rightarrow> rstring) \<Rightarrow> Vfs \<Rightarrow> u64 \<Rightarrow> rstring \<Rightarrow> (u64 \<times> rstring) vres" where
  "lookup_ci upcase v parent name =
     bindE (require_dir v parent) (\<lambda>inode.
     case bt_get (i_children inode) name of
       Some child \<Rightarrow> Inr (child, name)
     | None \<Rightarrow>
         ok_or NotFound (map_option (\<lambda>(stored, child). (child, stored))
           (find (\<lambda>(stored, child). names_eq_ci upcase stored name) (i_children inode))))"

fun lookup_segments_ci :: "(nat \<Rightarrow> rstring) \<Rightarrow> Vfs \<Rightarrow> u64 \<Rightarrow> rstring list \<Rightarrow> u64 vres" where
  "lookup_segments_ci upcase v cur [] = Inr cur"
| "lookup_segments_ci upcase v cur (seg # segs) =
     bindE (lookup_ci upcase v cur seg) (\<lambda>next. lookup_segments_ci upcase v (fst next) segs)"

definition lookup_path_ci :: "(nat \<Rightarrow> rstring) \<Rightarrow> Vfs \<Rightarrow> rstring \<Rightarrow> u64 vres" where
  "lookup_path_ci upcase v path = lookup_segments_ci upcase v (root_id v) (path_segments path)"

definition readlink :: "Vfs \<Rightarrow> u64 \<Rightarrow> rstring vres" where
  "readlink v fid =
     bindE (ok_or NotFound (bt_get (v_inodes v) fid)) (\<lambda>inode.
     if i_kind inode \<noteq> Symlink then Inl NotAFile
     else ok_or (VCrypto (Panic ''invariant: Symlink kind always carries a target'')) (i_symlink_target inode))"

section \<open>Changing the tree\<close>

definition add_child :: "rstring \<Rightarrow> u64 \<Rightarrow> Inode \<Rightarrow> Inode" where
  "add_child name child_id dir = dir\<lparr>i_children := bt_insert name child_id (i_children dir)\<rparr>"

definition del_child :: "rstring \<Rightarrow> Inode \<Rightarrow> Inode" where
  "del_child name dir = dir\<lparr>i_children := bt_remove name (i_children dir)\<rparr>"

definition alloc_fid :: "u64 vop" where
  "alloc_fid = (\<lambda>v. case alloc_file_id (v_tree v) of
       None \<Rightarrow> (Inl IdSpaceExhausted, v)
     | Some (fid, t) \<Rightarrow> (Inr fid, v\<lparr>v_tree := t\<rparr>))"

definition fresh_inode :: "u64 \<Rightarrow> u64 \<Rightarrow> u64 \<Rightarrow> InodeKind \<Rightarrow> u64 \<Rightarrow> u32 \<Rightarrow> rstring option \<Rightarrow> Inode" where
  "fresh_inode now fid parent knd sz mode target =
     \<lparr>i_id = fid, i_parent = parent, i_kind = knd, i_size = sz, i_mtime_ns = now, i_chunks = [], i_children = [],
      i_cached_real_size = None, i_external_list_blocks = [], i_mode = mode, i_link_count = 1, i_symlink_target = target\<rparr>"

text \<open>
  The part \<open>mkdir\<close>, \<open>create_with_mode\<close> and \<open>symlink\<close> have in common: the parent is a directory
  without that name, an id is allocated, the inode stored and its entry added. \<open>now\<close> is the clock.
\<close>

definition add_inode :: "u64 \<Rightarrow> u64 \<Rightarrow> rstring \<Rightarrow> InodeKind \<Rightarrow> u64 \<Rightarrow> u32 \<Rightarrow> rstring option \<Rightarrow> u64 vop" where
  "add_inode now parent name knd sz mode target =
     bindR (readV (\<lambda>v. require_dir v parent)) (\<lambda>dir.
     if bt_contains (i_children dir) name then failR AlreadyExists
     else
       bindR alloc_fid (\<lambda>fid.
       bindR (modV (on_inodes (bt_insert fid (fresh_inode now fid parent knd sz mode target)))) (\<lambda>_.
       bindR (modV (on_inodes (bt_modify parent (add_child name fid)))) (\<lambda>_.
       bindR (modV (\<lambda>v. v\<lparr>v_dirty := True\<rparr>)) (\<lambda>_.
       retR fid)))))"

definition mkdir :: "u64 \<Rightarrow> u64 \<Rightarrow> rstring \<Rightarrow> u64 vop" where
  "mkdir now parent name =
     bindR (readV ensure_writable) (\<lambda>_.
     bindR (liftR (validate_new_name name)) (\<lambda>_.
     add_inode now parent name Directory 0 DEFAULT_DIR_MODE None))"

definition create_with_mode :: "u64 \<Rightarrow> u64 \<Rightarrow> rstring \<Rightarrow> u32 \<Rightarrow> u64 vop" where
  "create_with_mode now parent name mode =
     bindR (readV ensure_writable) (\<lambda>_.
     bindR (liftR (validate_new_name name)) (\<lambda>_.
     bindR (add_inode now parent name File 0 (mode AND 0xfff) None) (\<lambda>fid.
     bindR (modV (\<lambda>v. v\<lparr>v_chunks_dirty := insert fid (v_chunks_dirty v)\<rparr>)) (\<lambda>_.
     retR fid))))"

definition create :: "u64 \<Rightarrow> u64 \<Rightarrow> rstring \<Rightarrow> u64 vop" where
  "create now parent name = create_with_mode now parent name DEFAULT_FILE_MODE"

definition symlink :: "u64 \<Rightarrow> u64 \<Rightarrow> rstring \<Rightarrow> rstring \<Rightarrow> u64 vop" where
  "symlink now parent name target =
     bindR (readV ensure_writable) (\<lambda>_.
     bindR (liftR (validate_new_name name)) (\<lambda>_.
     if \<not> is_safe_symlink_target target then failR (InvalidPath target)
     else add_inode now parent name Symlink (of_nat (utf8_len target)) 0x1ff (Some target)))"

definition chmod :: "u64 \<Rightarrow> u32 \<Rightarrow> unit vop" where
  "chmod fid mode =
     bindR (readV ensure_writable) (\<lambda>_.
     bindR (readV (\<lambda>v. ok_or NotFound (bt_get (v_inodes v) fid))) (\<lambda>_.
     bindR (modV (on_inodes (bt_modify fid (\<lambda>i. i\<lparr>i_mode := mode AND 0xfff\<rparr>)))) (\<lambda>_.
     modV (\<lambda>v. v\<lparr>v_dirty := True\<rparr>))))"

definition set_mtime :: "u64 \<Rightarrow> u64 \<Rightarrow> unit vop" where
  "set_mtime fid mtime_ns =
     bindR (readV ensure_writable) (\<lambda>_.
     bindR (readV (\<lambda>v. ok_or NotFound (bt_get (v_inodes v) fid))) (\<lambda>_.
     bindR (modV (on_inodes (bt_modify fid (\<lambda>i. i\<lparr>i_mtime_ns := mtime_ns\<rparr>)))) (\<lambda>_.
     modV (\<lambda>v. v\<lparr>v_dirty := True\<rparr>))))"

definition saturating_sub_u32 :: "u32 \<Rightarrow> u32 \<Rightarrow> u32" where
  "saturating_sub_u32 a b = (if a < b then 0 else a - b)"

definition link :: "u64 \<Rightarrow> u64 \<Rightarrow> rstring \<Rightarrow> unit vop" where
  "link target_id new_parent new_name =
     bindR (readV ensure_writable) (\<lambda>_.
     bindR (liftR (validate_new_name new_name)) (\<lambda>_.
     bindR (readV (\<lambda>v. ok_or NotFound (bt_get (v_inodes v) target_id))) (\<lambda>target.
     case i_kind target of
       Directory \<Rightarrow> failR IsADirectory
     | Symlink \<Rightarrow> failR NotAFile
     | File \<Rightarrow>
         if i_link_count target = -1 then failR AlreadyExists
         else
           bindR (readV (\<lambda>v. require_dir v new_parent)) (\<lambda>new_dir.
           if bt_contains (i_children new_dir) new_name then failR AlreadyExists
           else
             bindR (modV (on_inodes (bt_modify new_parent (add_child new_name target_id)))) (\<lambda>_.
             bindR (modV (on_inodes (bt_modify target_id (\<lambda>i. i\<lparr>i_link_count := saturating_add_u32 (i_link_count i) 1\<rparr>)))) (\<lambda>_.
             modV (\<lambda>v. v\<lparr>v_dirty := True\<rparr>)))))))"

text \<open>
  What \<open>unlink\<close> and the second phase of \<open>rename\<close> do to the inode an entry was removed from: one
  link less, and with the last one its slots are queued for release and the inode goes.
\<close>

definition release_link :: "u64 \<Rightarrow> Vfs \<Rightarrow> Vfs" where
  "release_link fid v =
     (let v1 = on_inodes (bt_modify fid (\<lambda>i. i\<lparr>i_link_count := saturating_sub_u32 (i_link_count i) 1\<rparr>)) v
      in case bt_get (v_inodes v1) fid of
           None \<Rightarrow> v1
         | Some i \<Rightarrow>
             if i_link_count i = 0
             then on_inodes (bt_remove fid)
                    (v1\<lparr>v_pending_free := v_pending_free v1 @ map cr_id (i_chunks i) @ map cr_id (i_external_list_blocks i),
                        v_chunks_dirty := v_chunks_dirty v1 - {fid}\<rparr>)
             else v1)"

definition directory_holding :: "Vfs \<Rightarrow> u64 \<Rightarrow> u64 option" where
  "directory_holding v fid =
     map_option i_id (find (\<lambda>d. i_kind d = Directory \<and> fid \<in> set (bt_values (i_children d))) (bt_values (v_inodes v)))"

definition adopt_parent :: "u64 \<Rightarrow> u64 \<Rightarrow> Vfs \<Rightarrow> Vfs" where
  "adopt_parent fid parent v =
     (case bt_get (v_inodes v) fid of
        Some i \<Rightarrow>
          if i_parent i = parent
          then (case directory_holding v fid of
                  Some survivor \<Rightarrow> on_inodes (bt_modify fid (\<lambda>i. i\<lparr>i_parent := survivor\<rparr>)) v
                | None \<Rightarrow> v)
          else v
      | None \<Rightarrow> v)"

definition unlink :: "u64 \<Rightarrow> rstring \<Rightarrow> unit vop" where
  "unlink parent name =
     bindR (readV ensure_writable) (\<lambda>_.
     bindR (readV (\<lambda>v. require_dir v parent)) (\<lambda>parent_inode.
     bindR (liftR (ok_or NotFound (bt_get (i_children parent_inode) name))) (\<lambda>target_id.
     bindR (readV (\<lambda>v. unwrap_inode v target_id)) (\<lambda>target.
     if i_kind target = Directory then failR IsADirectory
     else
       bindR (modV (on_inodes (bt_modify parent (del_child name)))) (\<lambda>_.
       bindR (modV (release_link target_id)) (\<lambda>_.
       bindR (modV (adopt_parent target_id parent)) (\<lambda>_.
       modV (\<lambda>v. v\<lparr>v_dirty := True\<rparr>))))))))"

definition rmdir :: "u64 \<Rightarrow> rstring \<Rightarrow> unit vop" where
  "rmdir parent name =
     bindR (readV ensure_writable) (\<lambda>_.
     bindR (readV (\<lambda>v. require_dir v parent)) (\<lambda>parent_inode.
     bindR (liftR (ok_or NotFound (bt_get (i_children parent_inode) name))) (\<lambda>target_id.
     bindR (readV (\<lambda>v. unwrap_inode v target_id)) (\<lambda>target.
     if i_kind target \<noteq> Directory then failR NotADirectory
     else if i_children target \<noteq> [] then failR NotEmpty
     else
       bindR (modV (on_inodes (bt_remove target_id))) (\<lambda>_.
       bindR (modV (on_inodes (bt_modify parent (del_child name)))) (\<lambda>_.
       modV (\<lambda>v. v\<lparr>v_dirty := True\<rparr>)))))))"

text \<open>
  The first phase of \<open>rename\<close> changes nothing: it finds the moved inode and the one displaced by
  it, if any, or that there is nothing to do (\<open>None\<close>) because both names are links to one inode.
\<close>

definition displaced_by :: "Vfs \<Rightarrow> u64 \<Rightarrow> InodeKind \<Rightarrow> Inode \<Rightarrow> rstring \<Rightarrow> u64 option option vres" where
  "displaced_by v src_id src_kind new_dir new_name =
     (case bt_get (i_children new_dir) new_name of
        None \<Rightarrow> Inr (Some None)
      | Some dst_id \<Rightarrow>
          if src_id = dst_id then Inr None
          else
            bindE (unwrap_inode v dst_id) (\<lambda>dst.
            if src_kind = Directory \<and> i_kind dst = Directory then
              (if i_children dst \<noteq> [] then Inl NotEmpty else Inr (Some (Some dst_id)))
            else if src_kind = Directory then Inl NotADirectory
            else if i_kind dst = Directory then Inl IsADirectory
            else Inr (Some (Some dst_id))))"

definition rename_plan ::
  "u64 \<Rightarrow> rstring \<Rightarrow> u64 \<Rightarrow> rstring \<Rightarrow> Vfs \<Rightarrow> (u64 \<times> u64 option) option vres" where
  "rename_plan old_parent old_name new_parent new_name v =
     bindE (require_dir v old_parent) (\<lambda>old_dir.
     bindE (ok_or NotFound (bt_get (i_children old_dir) old_name)) (\<lambda>src_id.
     bindE (require_dir v new_parent) (\<lambda>new_dir.
     bindE (unwrap_inode v src_id) (\<lambda>src.
     if i_kind src = Directory \<and> (new_parent = src_id \<or> is_descendant_of (v_tree v) src_id new_parent) then Inl RenameCycle
     else
       bindE (displaced_by v src_id (i_kind src) new_dir new_name) (\<lambda>displaced.
       Inr (map_option (\<lambda>d. (src_id, d)) displaced))))))"

text \<open>The third phase: the entry moves, and with it the canonical parent when the directory changes.\<close>

definition move_entry :: "u64 \<Rightarrow> rstring \<Rightarrow> u64 \<Rightarrow> rstring \<Rightarrow> u64 \<Rightarrow> Vfs \<Rightarrow> Vfs" where
  "move_entry old_parent old_name new_parent new_name fid v =
     (if old_parent = new_parent
      then on_inodes (bt_modify old_parent (\<lambda>d. add_child new_name fid (del_child old_name d))) v
      else on_inodes (bt_modify fid (\<lambda>i. i\<lparr>i_parent := new_parent\<rparr>))
             (on_inodes (bt_modify new_parent (add_child new_name fid))
                (on_inodes (bt_modify old_parent (del_child old_name)) v)))"

definition rename :: "u64 \<Rightarrow> rstring \<Rightarrow> u64 \<Rightarrow> rstring \<Rightarrow> unit vop" where
  "rename old_parent old_name new_parent new_name =
     bindR (readV ensure_writable) (\<lambda>_.
     bindR (liftR (validate_name old_name)) (\<lambda>_.
     bindR (liftR (validate_new_name new_name)) (\<lambda>_.
     if old_parent = new_parent \<and> old_name = new_name then
       bindR (readV (\<lambda>v. require_dir v old_parent)) (\<lambda>dir.
       if \<not> bt_contains (i_children dir) old_name then failR NotFound else retR ())
     else
       bindR (readV (rename_plan old_parent old_name new_parent new_name)) (\<lambda>plan.
       case plan of
         None \<Rightarrow> retR ()
       | Some (src_id, displaced) \<Rightarrow>
           bindR (modV (case displaced of None \<Rightarrow> (\<lambda>v. v) | Some dst_id \<Rightarrow> release_link dst_id)) (\<lambda>_.
           bindR (modV (move_entry old_parent old_name new_parent new_name src_id)) (\<lambda>_.
           modV (\<lambda>v. v\<lparr>v_dirty := True\<rparr>)))))))"

section \<open>Repairing stale parents\<close>

fun note_holder :: "u64 \<Rightarrow> u64 list \<Rightarrow> (u64, u64) btree \<Rightarrow> (u64, u64) btree" where
  "note_holder dir_id [] holder = holder"
| "note_holder dir_id (child # cs) holder =
     note_holder dir_id cs (if bt_contains holder child then holder else bt_insert child dir_id holder)"

fun holders :: "(u64 \<times> Inode) list \<Rightarrow> (u64, u64) btree \<Rightarrow> (u64, u64) btree" where
  "holders [] holder = holder"
| "holders ((dir_id, dir) # rest) holder =
     holders rest (if i_kind dir \<noteq> Directory then holder else note_holder dir_id (bt_values (i_children dir)) holder)"

definition parent_stale :: "(u64, Inode) btree \<Rightarrow> u64 \<Rightarrow> Inode \<Rightarrow> bool" where
  "parent_stale m fid inode \<longleftrightarrow>
     \<not> (case bt_get m (i_parent inode) of
          Some p \<Rightarrow> i_kind p = Directory \<and> fid \<in> set (bt_values (i_children p))
        | None \<Rightarrow> False)"

fun repair_ids :: "(u64, u64) btree \<Rightarrow> u64 list \<Rightarrow> (u64, Inode) btree \<times> nat \<Rightarrow> (u64, Inode) btree \<times> nat" where
  "repair_ids holder [] (m, fixed) = (m, fixed)"
| "repair_ids holder (fid # fids) (m, fixed) =
     repair_ids holder fids
       (if fid = ROOT_ID then (m, fixed)
        else
          (case bt_get m fid of
             None \<Rightarrow> (m, fixed)
           | Some inode \<Rightarrow>
               if parent_stale m fid inode
               then (case bt_get holder fid of
                       Some h \<Rightarrow> (bt_modify fid (\<lambda>i. i\<lparr>i_parent := h\<rparr>) m, fixed + 1)
                     | None \<Rightarrow> (m, fixed))
               else (m, fixed)))"

definition repair_stale_parents :: "DirectoryTree \<Rightarrow> DirectoryTree \<times> nat" where
  "repair_stale_parents t =
     (case repair_ids (holders (inodes t) []) (bt_keys (inodes t)) (inodes t, 0) of
        (m, fixed) \<Rightarrow> (t\<lparr>inodes := m\<rparr>, fixed))"

end
