(* ===== verification/Lbx_NsInv.thy ===== *)
theory Lbx_NsInv
  imports Lbx_Namespace
begin

text \<open>
  The invariant of the directory tree between saves, and that each elementary change of the inode map
  keeps it: adding an inode with its entry, changing attributes, adding a link, dropping the last link
  or one of several, setting a canonical parent, moving an entry. \<open>ns_core\<close> is what every operation
  keeps; \<open>parents_held\<close>, that each canonical parent holds an entry for its child, is kept by all but
  one path of \<open>rename\<close>. Together with the counters they give the declarative notion of a valid tree.
\<close>

section \<open>Entries\<close>

definition entry :: "(u64, Inode) btree \<Rightarrow> u64 \<Rightarrow> rstring \<Rightarrow> u64 option" where
  "entry m d n = (case bt_get m d of None \<Rightarrow> None | Some i \<Rightarrow> bt_get (i_children i) n)"

text \<open>The part of validity that concerns names, kinds, links and parents.\<close>

definition kids_ok :: "(u64, Inode) btree \<Rightarrow> bool" where
  "kids_ok m \<longleftrightarrow> bt_ok m \<and> (\<forall>fid i. bt_get m fid = Some i \<longrightarrow> bt_ok (i_children i))"

lemma kids_okD: "kids_ok m \<Longrightarrow> bt_ok m" "kids_ok m \<Longrightarrow> bt_get m fid = Some i \<Longrightarrow> bt_ok (i_children i)"
  by (auto simp: kids_ok_def)

lemma maps_ok_kids: "maps_ok t \<longleftrightarrow> kids_ok (inodes t)"
  by (simp add: maps_ok_def kids_ok_def)

lemma child_rel_entry: "kids_ok m \<Longrightarrow> (d, c) \<in> child_rel m \<longleftrightarrow> (\<exists>n. entry m d n = Some c)"
  by (cases "bt_get m d") (auto simp: child_rel_iff entry_def kids_ok_def bt_in_values)

lemma entry_refs: "kids_ok m \<Longrightarrow> entry m d n = Some c \<Longrightarrow> c \<in># refs m"
  using child_rel_entry child_rel_refs kids_okD(1) by blast

text \<open>Changes of one inode that keep its entries, and changes of its entries.\<close>

lemma entry_modify:
  "entry (bt_modify p f m) d n = (if d = p then (case bt_get m p of None \<Rightarrow> None | Some i \<Rightarrow> bt_get (i_children (f i)) n) else entry m d n)"
  by (auto simp: entry_def split: option.splits)

lemma entry_modify_same: "(\<And>i. i_children (f i) = i_children i) \<Longrightarrow> entry (bt_modify p f m) = entry m"
  by (intro ext) (auto simp: entry_def split: option.splits)

lemma entry_add_child: "bt_contains m p \<Longrightarrow> entry (bt_modify p (add_child n c) m) = (entry m)(p := (entry m p)(n \<mapsto> c))"
  by (intro ext) (auto simp: entry_def add_child_def bt_contains_def split: option.splits)

lemma entry_del_child: "entry (bt_modify p (del_child n) m) = (entry m)(p := (entry m p)(n := None))"
  by (intro ext) (auto simp: entry_def del_child_def split: option.splits)

lemma entry_remove: "entry (bt_remove k m) = (entry m)(k := Map.empty)"
  by (intro ext) (simp add: entry_def)

lemma entry_insert: "i_children i = [] \<Longrightarrow> bt_get m k = None \<Longrightarrow> entry (bt_insert k i m) = entry m"
  by (intro ext) (auto simp: entry_def)

lemma kids_ok_modify: "kids_ok m \<Longrightarrow> (\<And>i. bt_get m p = Some i \<Longrightarrow> bt_ok (i_children i) \<Longrightarrow> bt_ok (i_children (f i))) \<Longrightarrow> kids_ok (bt_modify p f m)"
  by (auto simp: kids_ok_def)

lemma kids_ok_changes [simp]:
  "kids_ok m \<Longrightarrow> kids_ok (bt_modify p (add_child n c) m)"
  "kids_ok m \<Longrightarrow> kids_ok (bt_modify p (del_child n) m)"
  "kids_ok m \<Longrightarrow> kids_ok (bt_remove k m)"
  "kids_ok m \<Longrightarrow> i_children i = [] \<Longrightarrow> kids_ok (bt_insert k i m)"
  "kids_ok m \<Longrightarrow> (\<And>i. i_children (f i) = i_children i) \<Longrightarrow> kids_ok (bt_modify p f m)"
  by (auto simp: kids_ok_def add_child_def del_child_def split: if_splits)

lemma refs_modify_same: "kids_ok m \<Longrightarrow> (\<And>i. i_children (f i) = i_children i) \<Longrightarrow> refs (bt_modify p f m) = refs m"
  by (simp add: refs_def kids_ok_def bt_total_modify_same)

lemma slots_modify_same: "kids_ok m \<Longrightarrow> (\<And>i. inode_refs (f i) = inode_refs i) \<Longrightarrow> slots (bt_modify p f m) = slots m"
  by (simp add: slots_def kids_ok_def bt_total_modify_same)

lemma refs_add_child:
  assumes "kids_ok m" "bt_get m p = Some i" "bt_get (i_children i) n = None"
  shows "refs (bt_modify p (add_child n c) m) = add_mset c (refs m)"
proof -
  let ?F = "\<lambda>i. mset (bt_values (i_children i))"
  have "?F (add_child n c i) = add_mset c (?F i)"
    using assms by (simp add: add_child_def mset_values_fresh kids_okD)
  then show ?thesis using bt_total_modify [OF kids_okD(1) [OF assms(1)] assms(2), of ?F "add_child n c"] by (simp add: refs_def)
qed

lemma refs_del_child:
  assumes "kids_ok m" "entry m p n = Some c"
  shows "add_mset c (refs (bt_modify p (del_child n) m)) = refs m"
proof -
  let ?F = "\<lambda>i. mset (bt_values (i_children i))"
  from assms(2) obtain i where i: "bt_get m p = Some i" "bt_get (i_children i) n = Some c"
    by (auto simp: entry_def split: option.splits)
  have f: "add_mset c (?F (del_child n i)) = ?F i"
    using assms i by (simp add: del_child_def mset_values_remove kids_okD)
  have "refs (bt_modify p (del_child n) m) + ?F i = refs m + ?F (del_child n i)"
    using bt_total_modify [OF kids_okD(1) [OF assms(1)] i(1), of ?F "del_child n"] by (simp add: refs_def)
  then have "refs (bt_modify p (del_child n) m) + {#c#} + ?F (del_child n i) = refs m + ?F (del_child n i)"
    by (simp flip: f)
  then show ?thesis by (simp only: add_right_cancel) simp
qed

lemma refs_insert: "kids_ok m \<Longrightarrow> bt_get m k = None \<Longrightarrow> i_children i = [] \<Longrightarrow> refs (bt_insert k i m) = refs m"
  by (simp add: refs_def kids_ok_def bt_total_fresh bt_values_def)

lemma refs_remove: "kids_ok m \<Longrightarrow> bt_get m k = Some i \<Longrightarrow> i_children i = [] \<Longrightarrow> refs (bt_remove k m) = refs m"
  using bt_total_remove [of m "\<lambda>i. mset (bt_values (i_children i))" k] by (simp add: refs_def kids_ok_def bt_values_def)

lemma slots_insert: "kids_ok m \<Longrightarrow> bt_get m k = None \<Longrightarrow> inode_refs i = [] \<Longrightarrow> slots (bt_insert k i m) = slots m"
  by (simp add: slots_def kids_ok_def bt_total_fresh)

lemma slots_remove:
  "kids_ok m \<Longrightarrow> bt_get m k = Some i \<Longrightarrow> slots (bt_remove k m) + mset (map cr_id (inode_refs i)) = slots m"
  using bt_total_remove [of m "\<lambda>i. mset (map cr_id (inode_refs i))" k] by (simp add: slots_def kids_ok_def)

lemma inode_refs_changes [simp]:
  "inode_refs (add_child n c i) = inode_refs i" "inode_refs (del_child n i) = inode_refs i"
  by (simp_all add: inode_refs_def add_child_def del_child_def)

section \<open>The namespace invariant\<close>

definition ns_core :: "bool \<Rightarrow> (u64, Inode) btree \<Rightarrow> bool" where
  "ns_core hide m \<longleftrightarrow>
     kids_ok m
     \<and> (\<forall>fid i. bt_get m fid = Some i \<longrightarrow> i_id i = fid \<and> inode_ok hide i)
     \<and> (\<exists>r. bt_get m ROOT_ID = Some r \<and> i_kind r = Directory \<and> i_parent r = ROOT_ID)
     \<and> (\<forall>c. c \<in># refs m \<longrightarrow> c \<noteq> ROOT_ID \<and> bt_contains m c)
     \<and> (\<forall>fid i. bt_get m fid = Some i \<longrightarrow> fid \<noteq> ROOT_ID \<longrightarrow> count (refs m) fid = unat (i_link_count i))
     \<and> (\<forall>d. dir_at m d \<longrightarrow> (ROOT_ID, d) \<in> (child_rel m)\<^sup>*)"

definition held :: "(u64, Inode) btree \<Rightarrow> u64 \<Rightarrow> bool" where
  "held m fid \<longleftrightarrow> (\<forall>i. bt_get m fid = Some i \<longrightarrow> fid \<noteq> ROOT_ID \<longrightarrow> (\<exists>n. entry m (i_parent i) n = Some fid))"

definition parents_held :: "(u64, Inode) btree \<Rightarrow> bool" where
  "parents_held m \<longleftrightarrow> (\<forall>fid. held m fid)"

lemma ns_coreD:
  assumes "ns_core hide m"
  shows "kids_ok m" "bt_ok m" "bt_get m fid = Some i \<Longrightarrow> i_id i = fid" "bt_get m fid = Some i \<Longrightarrow> inode_ok hide i"
    "bt_get m fid = Some i \<Longrightarrow> bt_ok (i_children i)"
    "\<exists>r. bt_get m 1 = Some r \<and> i_kind r = Directory \<and> i_parent r = 1"
    "c \<in># refs m \<Longrightarrow> c \<noteq> 1" "c \<in># refs m \<Longrightarrow> bt_contains m c"
    "bt_get m fid = Some i \<Longrightarrow> fid \<noteq> 1 \<Longrightarrow> count (refs m) fid = unat (i_link_count i)"
    "dir_at m d \<Longrightarrow> (1, d) \<in> (child_rel m)\<^sup>*"
  using assms unfolding ns_core_def kids_ok_def by blast+

lemma inode_ok_children: "inode_ok hide i \<Longrightarrow> i_kind i \<noteq> Directory \<Longrightarrow> i_children i = []"
  by (auto simp: inode_ok_def split: InodeKind.splits)

lemma inode_ok_link: "inode_ok hide i \<Longrightarrow> i_link_count i \<noteq> 0" "inode_ok hide i \<Longrightarrow> i_kind i \<noteq> File \<Longrightarrow> i_link_count i = 1"
  by (auto simp: inode_ok_def split: InodeKind.splits)

lemma entry_dir:
  assumes "ns_core hide m" "entry m d n = Some c"
  shows "dir_at m d" "bt_contains m c" "c \<noteq> 1" "(d, c) \<in> child_rel m"
proof -
  from assms(2) obtain i where i: "bt_get m d = Some i" "bt_get (i_children i) n = Some c"
    by (auto simp: entry_def split: option.splits)
  have "i_children i \<noteq> []" using i(2) by auto
  then have "i_kind i = Directory" using inode_ok_children ns_coreD(4) [OF assms(1) i(1)] by blast
  then show "dir_at m d" using i by (auto simp: dir_at_def)
  have "c \<in># refs m" using entry_refs [OF ns_coreD(1) [OF assms(1)] assms(2)] .
  then show "bt_contains m c" "c \<noteq> 1" using ns_coreD(7,8) [OF assms(1)] by blast+
  show "(d, c) \<in> child_rel m" using child_rel_entry [OF ns_coreD(1) [OF assms(1)]] assms(2) by blast
qed

lemma entry_not_None: "entry m d n = Some c \<Longrightarrow> bt_contains m d"
  by (auto simp: entry_def bt_contains_def split: option.splits)

text \<open>With the directories every inode is reachable.\<close>

lemma ns_core_reach:
  assumes "ns_core hide m" "bt_contains m x"
  shows "(1, x) \<in> (child_rel m)\<^sup>*"
proof (cases "dir_at m x")
  case False
  from assms(2) obtain i where i: "bt_get m x = Some i" by (auto simp: bt_contains_def)
  have "x \<noteq> 1" using False ns_coreD(6) [OF assms(1)] by (auto simp: dir_at_def)
  then have "count (refs m) x \<noteq> 0"
    using ns_coreD(9) [OF assms(1) i] inode_ok_link(1) [OF ns_coreD(4) [OF assms(1) i]] by (simp add: unat_eq_0)
  then have "x \<in># refs m" by simp
  then obtain d where d: "(d, x) \<in> child_rel m" using child_rel_refs [OF ns_coreD(2) [OF assms(1)]] by blast
  then obtain n where "entry m d n = Some x" using child_rel_entry [OF ns_coreD(1) [OF assms(1)]] by blast
  then have "(1, d) \<in> (child_rel m)\<^sup>*" using entry_dir(1) [OF assms(1)] ns_coreD(10) [OF assms(1)] by blast
  with d show ?thesis by auto
qed (rule ns_coreD(10) [OF assms(1)])

section \<open>Paths around an edge\<close>

lemma path_avoids: "(r, x) \<in> R\<^sup>* \<Longrightarrow> (r, x) \<in> (R - {(a, s)})\<^sup>* \<or> (s, x) \<in> (R - {(a, s)})\<^sup>*"
proof (induction rule: rtrancl_induct)
  case (step y z)
  show ?case
  proof (cases "(y, z) = (a, s)")
    case False
    then have "(y, z) \<in> R - {(a, s)}" using step.hyps(2) by blast
    with step.IH show ?thesis by (meson rtrancl.rtrancl_into_rtrancl)
  qed auto
qed auto

lemma path_from_leaf: "(c, x) \<in> R\<^sup>* \<Longrightarrow> (\<And>y. (c, y) \<notin> R) \<Longrightarrow> x = c"
  by (metis converse_rtranclE)

text \<open>Without a leaf's edge everything else stays reachable.\<close>

lemma path_without_leaf:
  assumes "(r, x) \<in> R\<^sup>*" "\<And>y. (c, y) \<notin> R" "x \<noteq> c" "R - {(p, c)} \<subseteq> R'"
  shows "(r, x) \<in> R'\<^sup>*"
proof -
  have "(c, x) \<notin> (R - {(p, c)})\<^sup>*" using path_from_leaf [of c x "R - {(p, c)}"] assms(2,3) by blast
  then have "(r, x) \<in> (R - {(p, c)})\<^sup>*" using path_avoids [OF assms(1)] by blast
  then show ?thesis using rtrancl_mono [OF assms(4)] by blast
qed

text \<open>A subtree hung elsewhere, outside itself, stays reachable with all the rest.\<close>

lemma path_after_move:
  assumes "(r, x) \<in> R\<^sup>*" "(r, q) \<in> R\<^sup>*" "(s, q) \<notin> R\<^sup>*" "R - {(p, s)} \<subseteq> R'" "(q, s) \<in> R'"
  shows "(r, x) \<in> R'\<^sup>*"
proof -
  have mono: "(R - {(p, s)})\<^sup>* \<subseteq> R'\<^sup>*" and sub: "(R - {(p, s)})\<^sup>* \<subseteq> R\<^sup>*"
    using rtrancl_mono assms(4) by blast+
  have "(r, q) \<in> (R - {(p, s)})\<^sup>*" using path_avoids [OF assms(2)] assms(3) sub by blast
  then have "(r, s) \<in> R'\<^sup>*" using mono assms(5) by (meson rtrancl.rtrancl_into_rtrancl subsetD)
  with path_avoids [OF assms(1), of p s] mono show ?thesis by (meson rtrancl_trans subsetD)
qed

section \<open>Adding an inode, a link, or changing attributes\<close>

lemma inode_ok_add_child:
  assumes "inode_ok hide i" "i_kind i = Directory" "is_ok (validate_name n)" "bt_ok (i_children i)"
  shows "inode_ok hide (add_child n c i)"
proof -
  have "is_ok (validate_name n')" if "(n', c') \<in> set (bt_insert n c (i_children i))" for n' c'
  proof -
    have "bt_ok (bt_insert n c (i_children i))" using assms(4) by simp
    then have "bt_get (bt_insert n c (i_children i)) n' = Some c'" using that by (simp add: bt_entries)
    then show ?thesis using assms(1-3) bt_entries [OF assms(4)] by (auto simp: inode_ok_def split: if_splits)
  qed
  then show ?thesis using assms(1,2) by (auto simp: inode_ok_def add_child_def inode_refs_def)
qed

lemma capacity_changes [simp]:
  "validate_capacity hide (i\<lparr>i_children := cs\<rparr>) = validate_capacity hide i"
  "validate_capacity hide (i\<lparr>i_parent := p\<rparr>) = validate_capacity hide i"
  "validate_capacity hide (i\<lparr>i_link_count := l\<rparr>) = validate_capacity hide i"
  "validate_capacity hide (i\<lparr>i_mode := md\<rparr>) = validate_capacity hide i"
  "validate_capacity hide (i\<lparr>i_mtime_ns := mt\<rparr>) = validate_capacity hide i"
  by (simp_all add: validate_capacity_def)

lemma inode_ok_del_child: "inode_ok hide i \<Longrightarrow> inode_ok hide (del_child n i)"
  by (auto simp: inode_ok_def inode_refs_def bt_remove_def del_child_def split: InodeKind.splits)

lemma dir_at_modify: "(\<And>i. i_kind (f i) = i_kind i) \<Longrightarrow> dir_at (bt_modify p f m) d \<longleftrightarrow> dir_at m d"
  by (auto simp: dir_at_def split: if_splits)

lemma kind_changes [simp]: "i_kind (add_child n c i) = i_kind i" "i_kind (del_child n i) = i_kind i"
  "i_id (add_child n c i) = i_id i" "i_id (del_child n i) = i_id i"
  "i_parent (add_child n c i) = i_parent i" "i_parent (del_child n i) = i_parent i"
  "i_link_count (add_child n c i) = i_link_count i" "i_link_count (del_child n i) = i_link_count i"
  by (simp_all add: add_child_def del_child_def)

lemma ns_add_inode:
  assumes ns: "ns_core hide m" and p: "bt_get m p = Some d" "i_kind d = Directory" and n: "bt_get (i_children d) n = None"
    and name: "is_ok (validate_name n)" and fresh: "bt_get m fid = None"
    and i: "i_id i = fid" "inode_ok hide i" "i_children i = []" "i_link_count i = 1"
  defines "m' \<equiv> bt_modify p (add_child n fid) (bt_insert fid i m)"
  shows "ns_core hide m'" "entry m' = (entry m)(p := (entry m p)(n \<mapsto> fid))" "refs m' = add_mset fid (refs m)"
proof -
  let ?m1 = "bt_insert fid i m"
  have ne: "p \<noteq> fid" using p fresh by auto
  have k: "kids_ok ?m1" "kids_ok m'" using ns_coreD(1) [OF ns] i by (simp_all add: m'_def)
  have e1: "entry ?m1 = entry m" using i fresh by (simp add: entry_insert)
  show e: "entry m' = (entry m)(p := (entry m p)(n \<mapsto> fid))"
    using p ne by (simp add: m'_def entry_add_child bt_contains_def e1)
  have "refs ?m1 = refs m" using ns_coreD(1) [OF ns] fresh i by (simp add: refs_insert)
  then show r: "refs m' = add_mset fid (refs m)"
    using refs_add_child [OF k(1), of p d n fid] p n ne by (simp add: m'_def)
  have get: "bt_get m' x = (if x = p then Some (add_child n fid d) else if x = fid then Some i else bt_get m x)" for x
    using p ne by (simp add: m'_def)
  have "fid \<noteq> 1" using fresh ns_coreD(6) [OF ns] by auto
  have "fid \<notin># refs m" using ns_coreD(8) [OF ns, of fid] fresh by (auto simp: bt_contains_def)
  then have z: "count (refs m) fid = 0" by (simp add: not_in_iff)
  have sub: "child_rel m \<subseteq> child_rel m'" and new: "(p, fid) \<in> child_rel m'"
    using e n p by (auto simp: child_rel_entry [OF k(2)] child_rel_entry [OF ns_coreD(1) [OF ns]] entry_def)
      (metis option.distinct(1))
  show "ns_core hide m'"
    unfolding ns_core_def
  proof (intro conjI allI impI)
    show "kids_ok m'" by (rule k)
    show "\<exists>r. bt_get m' 1 = Some r \<and> i_kind r = Directory \<and> i_parent r = 1"
      using ns_coreD(6) [OF ns] p \<open>fid \<noteq> 1\<close> by (auto simp: get)
    fix c assume "c \<in># refs m'"
    then show "c \<noteq> 1" "bt_contains m' c"
      using ns_coreD(7,8) [OF ns, of c] \<open>fid \<noteq> 1\<close> by (auto simp: r get bt_contains_def)
  next
    fix x j assume j: "bt_get m' x = Some j"
    show "i_id j = x" using j ns_coreD(3) [OF ns] i p by (auto simp: get split: if_splits)
    show "inode_ok hide j"
      using j ns_coreD(4) [OF ns] i p inode_ok_add_child [OF ns_coreD(4) [OF ns p(1)] p(2) name ns_coreD(5) [OF ns p(1)]]
      by (auto simp: get split: if_splits)
    assume "x \<noteq> 1"
    then show "count (refs m') x = unat (i_link_count j)"
      using j ns_coreD(9) [OF ns, of x] i p ne z by (auto simp: get r split: if_splits)
  next
    fix x assume "dir_at m' x"
    then have "x = fid \<or> dir_at m x" using p by (auto simp: dir_at_def get split: if_splits)
    moreover have "(1, p) \<in> (child_rel m')\<^sup>*"
      using ns_coreD(10) [OF ns, of p] p rtrancl_mono [OF sub] by (auto simp: dir_at_def)
    ultimately show "(1, x) \<in> (child_rel m')\<^sup>*"
      using new ns_coreD(10) [OF ns, of x] rtrancl_mono [OF sub] by (auto intro: rtrancl_into_rtrancl)
  qed
qed

lemma parents_held_add:
  assumes "parents_held m" "entry m' = (entry m)(p := (entry m p)(n \<mapsto> fid))" "entry m p n = None"
    and "\<And>x j. bt_get m' x = Some j \<Longrightarrow> (\<exists>i. bt_get m x = Some i \<and> i_parent i = i_parent j) \<or> x = fid \<and> i_parent j = p"
  shows "parents_held m'"
  unfolding parents_held_def held_def
proof (intro allI impI)
  fix x j assume j: "bt_get m' x = Some j" "x \<noteq> 1"
  from assms(4) [OF j(1)] show "\<exists>n. entry m' (i_parent j) n = Some x"
  proof
    assume "\<exists>i. bt_get m x = Some i \<and> i_parent i = i_parent j"
    then obtain k where k: "entry m (i_parent j) k = Some x" using assms(1) j(2) unfolding parents_held_def held_def by metis
    then have "entry m' (i_parent j) k = Some x" using assms(2,3) by auto
    then show ?thesis by blast
  qed (use assms(2) in auto)
qed

lemma bt_eqI: "bt_ok m \<Longrightarrow> bt_ok m' \<Longrightarrow> (\<And>k. bt_get m k = bt_get m' k) \<Longrightarrow> m = m'"
  by (rule bt.entries_determined) auto

section \<open>Changing attributes\<close>

text \<open>Changes that concern neither names nor slots nor links.\<close>

definition attr_only :: "(Inode \<Rightarrow> Inode) \<Rightarrow> bool" where
  "attr_only f \<longleftrightarrow> (\<forall>i. i_id (f i) = i_id i \<and> i_parent (f i) = i_parent i \<and> i_kind (f i) = i_kind i \<and> i_size (f i) = i_size i
     \<and> i_chunks (f i) = i_chunks i \<and> i_children (f i) = i_children i \<and> i_external_list_blocks (f i) = i_external_list_blocks i
     \<and> i_link_count (f i) = i_link_count i \<and> i_symlink_target (f i) = i_symlink_target i)"

lemma attr_onlyD:
  assumes "attr_only f"
  shows "i_id (f i) = i_id i" "i_parent (f i) = i_parent i" "i_kind (f i) = i_kind i" "i_children (f i) = i_children i"
    "i_link_count (f i) = i_link_count i" "inode_refs (f i) = inode_refs i" "inode_ok hide (f i) = inode_ok hide i"
proof -
  have a: "i_id (f i) = i_id i" "i_parent (f i) = i_parent i" "i_kind (f i) = i_kind i" "i_size (f i) = i_size i"
    "i_chunks (f i) = i_chunks i" "i_children (f i) = i_children i" "i_external_list_blocks (f i) = i_external_list_blocks i"
    "i_link_count (f i) = i_link_count i" "i_symlink_target (f i) = i_symlink_target i"
    using assms unfolding attr_only_def by blast+
  have r: "inode_refs (f i) = inode_refs i" by (simp add: inode_refs_def a)
  have v: "validate_capacity hide (f i) = validate_capacity hide i" by (simp add: validate_capacity_def a)
  show "inode_ok hide (f i) = inode_ok hide i" unfolding inode_ok_def a r v ..
  show "i_id (f i) = i_id i" "i_parent (f i) = i_parent i" "i_kind (f i) = i_kind i" "i_children (f i) = i_children i"
    "i_link_count (f i) = i_link_count i" "inode_refs (f i) = inode_refs i" by (fact a r)+
qed

lemma ns_attr:
  assumes ns: "ns_core hide m" and f: "attr_only f"
  shows "ns_core hide (bt_modify x f m)" "entry (bt_modify x f m) = entry m" "refs (bt_modify x f m) = refs m"
    "slots (bt_modify x f m) = slots m" "parents_held (bt_modify x f m) = parents_held m"
proof -
  let ?m = "bt_modify x f m"
  note k = ns_coreD(1) [OF ns]
  have k': "kids_ok ?m" using k attr_onlyD(4) [OF f] by simp
  show e: "entry ?m = entry m" using attr_onlyD(4) [OF f] by (rule entry_modify_same)
  show r: "refs ?m = refs m" using k attr_onlyD(4) [OF f] by (rule refs_modify_same)
  show "slots ?m = slots m" using k attr_onlyD(6) [OF f] by (rule slots_modify_same)
  have get: "bt_get ?m y = Some j \<longleftrightarrow> (\<exists>i. bt_get m y = Some i \<and> j = (if y = x then f i else i))" for y j
    by (auto split: if_splits)
  have cr: "child_rel ?m = child_rel m"
    using child_rel_entry [OF k'] child_rel_entry [OF k] e by auto
  have same: "i_id j = i_id i \<and> i_parent j = i_parent i \<and> i_kind j = i_kind i \<and> i_link_count j = i_link_count i \<and> inode_ok hide j = inode_ok hide i"
    if "j = (if y = x then f i else i)" for i j y
    using that attr_onlyD [OF f] by simp
  show "ns_core hide ?m"
    unfolding ns_core_def dir_at_def
  proof (intro conjI allI impI)
    show "kids_ok ?m" by (rule k')
    show "\<exists>r. bt_get ?m 1 = Some r \<and> i_kind r = Directory \<and> i_parent r = 1"
      using ns_coreD(6) [OF ns] attr_onlyD(2,3) [OF f] by auto
    fix c assume "c \<in># refs ?m"
    then show "c \<noteq> 1" "bt_contains ?m c"
      using ns_coreD(7,8) [OF ns, of c] by (auto simp: r bt_contains_def)
  next
    fix y j assume "bt_get ?m y = Some j"
    then obtain i where i: "bt_get m y = Some i" "j = (if y = x then f i else i)" unfolding get by blast
    then show "i_id j = y" "inode_ok hide j"
      using ns_coreD(3,4) [OF ns i(1)] same [OF i(2)] by simp_all
    assume "y \<noteq> 1"
    then show "count (refs ?m) y = unat (i_link_count j)" using ns_coreD(9) [OF ns i(1)] same [OF i(2)] r by simp
  next
    fix y assume "\<exists>j. bt_get ?m y = Some j \<and> i_kind j = Directory"
    then have "dir_at m y" unfolding get dir_at_def using same by metis
    then show "(1, y) \<in> (child_rel ?m)\<^sup>*" using ns_coreD(10) [OF ns] cr by simp
  qed
  show "parents_held ?m = parents_held m"
    unfolding parents_held_def held_def get e using same by metis
qed

section \<open>Adding a link\<close>

lemma ns_link:
  assumes ns: "ns_core hide m" and p: "bt_get m p = Some d" "i_kind d = Directory" and n: "bt_get (i_children d) n = None"
    and name: "is_ok (validate_name n)" and tgt: "bt_get m c = Some i" "i_kind i = File" "i_link_count i \<noteq> -1"
  defines "m' \<equiv> bt_modify c (\<lambda>i. i\<lparr>i_link_count := saturating_add_u32 (i_link_count i) 1\<rparr>) (bt_modify p (add_child n c) m)"
  shows "ns_core hide m'" "entry m' = (entry m)(p := (entry m p)(n \<mapsto> c))" "refs m' = add_mset c (refs m)" "slots m' = slots m"
    "parents_held m \<Longrightarrow> parents_held m'"
proof -
  let ?m1 = "bt_modify p (add_child n c) m"
  note k = ns_coreD(1) [OF ns]
  have ne: "p \<noteq> c" using p tgt by auto
  have k1: "kids_ok ?m1" and k': "kids_ok m'" using k by (simp_all add: m'_def)
  have e1: "entry ?m1 = (entry m)(p := (entry m p)(n \<mapsto> c))" using p by (simp add: entry_add_child bt_contains_def)
  show e: "entry m' = (entry m)(p := (entry m p)(n \<mapsto> c))"
    unfolding m'_def e1 [symmetric] by (rule entry_modify_same) simp
  have "refs m' = refs ?m1" unfolding m'_def by (rule refs_modify_same [OF k1]) simp
  then show r: "refs m' = add_mset c (refs m)" using refs_add_child [OF k p(1) n] by simp
  have "slots m' = slots ?m1" unfolding m'_def by (rule slots_modify_same [OF k1]) (simp add: inode_refs_def)
  then show "slots m' = slots m" using slots_modify_same [OF k, of "add_child n c" p] by simp
  let ?i = "i\<lparr>i_link_count := saturating_add_u32 (i_link_count i) 1\<rparr>"
  have get: "bt_get m' x = (if x = c then Some ?i else if x = p then Some (add_child n c d) else bt_get m x)" for x
    using p tgt ne by (simp add: m'_def)
  have "unat (i_link_count i) + 1 < 2 ^ 32"
  proof -
    have "unat (i_link_count i) \<noteq> unat (-1 :: u32)" using tgt(3) by (simp only: word_unat_eq_iff not_False_eq_True)
    moreover have "unat (i_link_count i) < 2 ^ 32" using unsigned_less [of "i_link_count i", where ?'a = nat] by simp
    moreover have "unat (-1 :: u32) = 2 ^ 32 - 1" by (simp add: unsigned_minus_1_eq_mask mask_eq_exp_minus_1)
    ultimately show ?thesis by linarith
  qed
  then have inc: "unat (saturating_add_u32 (i_link_count i) 1) = Suc (unat (i_link_count i))"
    by (simp add: saturating_add_u32_def unat_word_ariths)
  then have "saturating_add_u32 (i_link_count i) 1 \<noteq> 0" by (metis nat.distinct(1) unat_0)
  then have iok: "inode_ok hide ?i" using ns_coreD(4) [OF ns tgt(1)] tgt(2) by (simp add: inode_ok_def inode_refs_def)
  have c1: "c \<noteq> 1" using tgt ns_coreD(6) [OF ns] by auto
  have sub: "child_rel m \<subseteq> child_rel m'"
    using e n p by (auto simp: child_rel_entry [OF k'] child_rel_entry [OF k] entry_def) (metis option.distinct(1))
  show "ns_core hide m'"
    unfolding ns_core_def
  proof (intro conjI allI impI)
    show "kids_ok m'" by (rule k')
    show "\<exists>r. bt_get m' 1 = Some r \<and> i_kind r = Directory \<and> i_parent r = 1"
      using ns_coreD(6) [OF ns] p c1 by (auto simp: get)
    fix x assume "x \<in># refs m'"
    then show "x \<noteq> 1" "bt_contains m' x"
      using ns_coreD(7,8) [OF ns, of x] c1 by (auto simp: r get bt_contains_def)
  next
    fix x j assume j: "bt_get m' x = Some j"
    show "i_id j = x" using j ns_coreD(3) [OF ns] tgt p by (auto simp: get split: if_splits)
    show "inode_ok hide j"
      using j ns_coreD(4) [OF ns] iok p inode_ok_add_child [OF ns_coreD(4) [OF ns p(1)] p(2) name ns_coreD(5) [OF ns p(1)]]
      by (auto simp: get split: if_splits)
    assume "x \<noteq> 1"
    then show "count (refs m') x = unat (i_link_count j)"
      using j ns_coreD(9) [OF ns, of x] tgt p ne inc by (auto simp: get r split: if_splits)
  next
    fix x assume "dir_at m' x"
    then have "dir_at m x" using p tgt by (auto simp: dir_at_def get split: if_splits)
    then show "(1, x) \<in> (child_rel m')\<^sup>*" using ns_coreD(10) [OF ns, of x] rtrancl_mono [OF sub] by blast
  qed
  show "parents_held m'" if "parents_held m"
  proof (rule parents_held_add [OF that e])
    show "entry m p n = None" using p n by (simp add: entry_def)
    show "(\<exists>i. bt_get m x = Some i \<and> i_parent i = i_parent j) \<or> x = c \<and> i_parent j = p" if "bt_get m' x = Some j" for x j
      using that tgt p by (auto simp: get split: if_splits)
  qed
qed

section \<open>Removing an entry\<close>

lemma del_entry_facts:
  assumes ns: "ns_core hide m" and e: "entry m p n = Some c" and c: "bt_get m c = Some i" "i_children i = []"
  defines "m1 \<equiv> bt_modify p (del_child n) m"
  shows "p \<noteq> c" "c \<noteq> 1" "kids_ok m1" "add_mset c (refs m1) = refs m" "slots m1 = slots m"
    "entry m1 = (entry m)(p := (entry m p)(n := None))" "bt_get m1 c = Some i" "entry m c = Map.empty"
    "\<exists>d. bt_get m p = Some d \<and> i_kind d = Directory \<and> bt_get m1 p = Some (del_child n d)"
    "\<And>x. x \<noteq> p \<Longrightarrow> bt_get m1 x = bt_get m x"
proof -
  note k = ns_coreD(1) [OF ns]
  show ec: "entry m c = Map.empty" using c by (intro ext) (simp add: entry_def)
  show pc: "p \<noteq> c" using e ec by auto
  show "c \<noteq> 1" by (rule entry_dir(3) [OF ns e])
  show "kids_ok m1" using k by (simp add: m1_def)
  show "add_mset c (refs m1) = refs m" unfolding m1_def by (rule refs_del_child [OF k e])
  show "slots m1 = slots m" unfolding m1_def by (rule slots_modify_same [OF k]) simp
  show "entry m1 = (entry m)(p := (entry m p)(n := None))" by (simp add: m1_def entry_del_child)
  show "bt_get m1 c = Some i" using c pc by (simp add: m1_def)
  show "\<exists>d. bt_get m p = Some d \<and> i_kind d = Directory \<and> bt_get m1 p = Some (del_child n d)"
    using entry_dir(1) [OF ns e] by (auto simp: dir_at_def m1_def)
  show "bt_get m1 x = bt_get m x" if "x \<noteq> p" for x using that by (simp add: m1_def)
qed

lemma child_rel_del:
  assumes "kids_ok m" "kids_ok m'" "entry m p n = Some c" "entry m' = (entry m)(p := (entry m p)(n := None))"
  shows "child_rel m - {(p, c)} \<subseteq> child_rel m'"
proof
  fix x assume x: "x \<in> child_rel m - {(p, c)}"
  obtain a b where ab: "x = (a, b)" by (cases x)
  with x obtain k where k: "entry m a k = Some b" "(a, b) \<noteq> (p, c)" using child_rel_entry [OF assms(1)] by blast
  then have "entry m' a k = Some b" using assms(3,4) by (cases "a = p \<and> k = n") auto
  then show "x \<in> child_rel m'" using child_rel_entry [OF assms(2)] ab by blast
qed

lemma parents_held_del:
  assumes "parents_held m" "entry m p n = Some c" "entry m' = (entry m)(p := (entry m p)(n := None))"
    and "\<And>x j. bt_get m' x = Some j \<Longrightarrow> x \<noteq> c \<Longrightarrow> \<exists>i. bt_get m x = Some i \<and> i_parent i = i_parent j"
    and "held m' c"
  shows "parents_held m'"
  unfolding parents_held_def
proof
  fix x
  show "held m' x"
  proof (cases "x = c")
    case False
    show ?thesis
      unfolding held_def
    proof (intro allI impI)
      fix j assume j: "bt_get m' x = Some j" "x \<noteq> 1"
      from assms(4) [OF j(1) False] assms(1) j(2) obtain k where k: "entry m (i_parent j) k = Some x"
        unfolding parents_held_def held_def by metis
      then have "entry m' (i_parent j) k = Some x" using assms(2,3) False by auto
      then show "\<exists>n. entry m' (i_parent j) n = Some x" by blast
    qed
  qed (use assms(5) in simp)
qed

lemma ns_drop_last:
  assumes ns: "ns_core hide m" and e: "entry m p n = Some c" and c: "bt_get m c = Some i" "i_children i = []" "i_link_count i = 1"
  defines "m' \<equiv> bt_remove c (bt_modify p (del_child n) m)"
  shows "ns_core hide m'" "entry m' = (entry m)(p := (entry m p)(n := None))" "add_mset c (refs m') = refs m"
    "slots m' + mset (map cr_id (inode_refs i)) = slots m" "parents_held m \<Longrightarrow> parents_held m'"
proof -
  define m1 where "m1 = bt_modify p (del_child n) m"
  note f = del_entry_facts [OF ns e c(1,2), folded m1_def]
  note k = ns_coreD(1) [OF ns]
  obtain d where d: "bt_get m p = Some d" "i_kind d = Directory" "bt_get m1 p = Some (del_child n d)" using f(9) by blast
  have m': "m' = bt_remove c m1" by (simp add: m'_def m1_def)
  have k': "kids_ok m'" using f(3) by (simp add: m')
  show en: "entry m' = (entry m)(p := (entry m p)(n := None))"
    using f(1,6,8) by (simp add: m' entry_remove fun_upd_twist) (metis fun_upd_triv fun_upd_other fun_upd_twist)
  have rr: "refs m' = refs m1" using f(3,7) c(2) unfolding m' by (rule refs_remove)
  then show r: "add_mset c (refs m') = refs m" using f(4) by simp
  show "slots m' + mset (map cr_id (inode_refs i)) = slots m" using slots_remove [OF f(3,7)] f(5) by (simp add: m')
  have get: "bt_get m' x = (if x = c then None else if x = p then Some (del_child n d) else bt_get m x)" for x
    using d f(10) by (simp add: m')
  have cnt: "count (refs m') x = (if x = c then 0 else count (refs m) x)" for x
  proof -
    have "count (refs m) c = 1" using ns_coreD(9) [OF ns c(1) f(2)] c(3) by simp
    then show ?thesis unfolding r [symmetric] by simp
  qed
  have sub: "child_rel m - {(p, c)} \<subseteq> child_rel m'"
    by (rule child_rel_del [OF k k' e en])
  have leaf: "(c, y) \<notin> child_rel m" for y using f(8) by (simp add: child_rel_entry [OF k])
  show "ns_core hide m'"
    unfolding ns_core_def
  proof (intro conjI allI impI)
    show "kids_ok m'" by (rule k')
    show "\<exists>r. bt_get m' 1 = Some r \<and> i_kind r = Directory \<and> i_parent r = 1"
      using ns_coreD(6) [OF ns] d f(2) by (auto simp: get)
    fix x assume "x \<in># refs m'"
    then have "count (refs m') x \<noteq> 0" by simp
    then have "x \<noteq> c" "x \<in># refs m" by (auto simp: cnt split: if_splits)
    then show "x \<noteq> 1" "bt_contains m' x"
      using ns_coreD(7,8) [OF ns, of x] d by (auto simp: get bt_contains_def)
  next
    fix x j assume j: "bt_get m' x = Some j"
    show "i_id j = x" using j ns_coreD(3) [OF ns] d by (auto simp: get split: if_splits)
    show "inode_ok hide j"
      using j ns_coreD(4) [OF ns] d inode_ok_del_child by (auto simp: get split: if_splits)
    assume "x \<noteq> 1"
    then show "count (refs m') x = unat (i_link_count j)"
      using j ns_coreD(9) [OF ns, of x] d by (auto simp: get cnt split: if_splits)
  next
    fix x assume "dir_at m' x"
    then have "dir_at m x" "x \<noteq> c" using d by (auto simp: dir_at_def get split: if_splits)
    then show "(1, x) \<in> (child_rel m')\<^sup>*" using path_without_leaf [OF ns_coreD(10) [OF ns] leaf _ sub] by blast
  qed
  show "parents_held m'" if "parents_held m"
    by (rule parents_held_del [OF that e en]) (use d in \<open>auto simp: get held_def split: if_splits\<close>)
qed

lemma ns_drop_link:
  assumes ns: "ns_core hide m" and e: "entry m p n = Some c" and c: "bt_get m c = Some i" "i_kind i = File" "i_link_count i \<noteq> 1"
  defines "m' \<equiv> bt_modify c (\<lambda>i. i\<lparr>i_link_count := saturating_sub_u32 (i_link_count i) 1\<rparr>) (bt_modify p (del_child n) m)"
  shows "ns_core hide m'" "entry m' = (entry m)(p := (entry m p)(n := None))" "add_mset c (refs m') = refs m"
    "slots m' = slots m" "parents_held m \<Longrightarrow> held m' c \<Longrightarrow> parents_held m'" "c \<in># refs m'"
proof -
  define m1 where "m1 = bt_modify p (del_child n) m"
  have nk: "i_children i = []" using inode_ok_children [OF ns_coreD(4) [OF ns c(1)]] c(2) by simp
  note f = del_entry_facts [OF ns e c(1) nk, folded m1_def]
  note k = ns_coreD(1) [OF ns]
  obtain d where d: "bt_get m p = Some d" "i_kind d = Directory" "bt_get m1 p = Some (del_child n d)" using f(9) by blast
  let ?g = "\<lambda>i. i\<lparr>i_link_count := saturating_sub_u32 (i_link_count i) 1\<rparr>"
  have m': "m' = bt_modify c ?g m1" by (simp add: m'_def m1_def)
  have k': "kids_ok m'" using f(3) by (simp add: m')
  have "entry m' = entry m1" unfolding m' by (rule entry_modify_same) simp
  then show en: "entry m' = (entry m)(p := (entry m p)(n := None))" using f(6) by simp
  have "refs m' = refs m1" unfolding m' by (rule refs_modify_same [OF f(3)]) simp
  then show r: "add_mset c (refs m') = refs m" using f(4) by simp
  have "slots m' = slots m1" unfolding m' by (rule slots_modify_same [OF f(3)]) (simp add: inode_refs_def)
  then show "slots m' = slots m" using f(5) by simp
  have lc: "i_link_count i \<noteq> 0" using inode_ok_link(1) [OF ns_coreD(4) [OF ns c(1)]] .
  have dec: "Suc (unat (saturating_sub_u32 (i_link_count i) 1)) = unat (i_link_count i)"
    "saturating_sub_u32 (i_link_count i) 1 \<noteq> 0"
  proof -
    have "1 \<le> i_link_count i" using lc by (simp add: word_le_nat_alt unat_gt_0 Suc_le_eq)
    then have s: "saturating_sub_u32 (i_link_count i) 1 = i_link_count i - 1" "unat (i_link_count i - 1) = unat (i_link_count i) - 1"
      by (simp_all add: saturating_sub_u32_def not_less unat_minus_one lc)
    moreover have "0 < unat (i_link_count i)" using lc by (simp add: unat_gt_0)
    ultimately show "Suc (unat (saturating_sub_u32 (i_link_count i) 1)) = unat (i_link_count i)" by simp
    show "saturating_sub_u32 (i_link_count i) 1 \<noteq> 0" using s(1) c(3) by (metis diff_add_cancel add.left_neutral)
  qed
  have get: "bt_get m' x = (if x = c then Some (?g i) else if x = p then Some (del_child n d) else bt_get m x)" for x
    using d f(7,10) by (simp add: m')
  have iok: "inode_ok hide (?g i)" using ns_coreD(4) [OF ns c(1)] c(2) dec(2) by (simp add: inode_ok_def inode_refs_def)
  have cnt: "Suc (count (refs m') c) = count (refs m) c" "x \<noteq> c \<Longrightarrow> count (refs m') x = count (refs m) x" for x
    unfolding r [symmetric] by simp_all
  have cc: "count (refs m) c = unat (i_link_count i)" by (rule ns_coreD(9) [OF ns c(1) f(2)])
  then have "count (refs m') c = unat (saturating_sub_u32 (i_link_count i) 1)" using cnt(1) dec(1) by simp
  then show "c \<in># refs m'" using dec(2) by (metis count_eq_zero_iff unat_eq_zero)
  have sub: "child_rel m - {(p, c)} \<subseteq> child_rel m'"
    by (rule child_rel_del [OF k k' e en])
  have leaf: "(c, y) \<notin> child_rel m" for y using f(8) by (simp add: child_rel_entry [OF k])
  show "ns_core hide m'"
    unfolding ns_core_def
  proof (intro conjI allI impI)
    show "kids_ok m'" by (rule k')
    show "\<exists>r. bt_get m' 1 = Some r \<and> i_kind r = Directory \<and> i_parent r = 1"
      using ns_coreD(6) [OF ns] d f(2) by (auto simp: get)
    fix x assume "x \<in># refs m'"
    then have "x \<in># refs m" using r by (metis insert_iff set_mset_add_mset_insert)
    then show "x \<noteq> 1" "bt_contains m' x"
      using ns_coreD(7,8) [OF ns, of x] d by (auto simp: get bt_contains_def)
  next
    fix x j assume j: "bt_get m' x = Some j"
    show "i_id j = x" using j ns_coreD(3) [OF ns] d c by (auto simp: get split: if_splits)
    show "inode_ok hide j"
      using j ns_coreD(4) [OF ns] d inode_ok_del_child iok by (auto simp: get split: if_splits)
    assume "x \<noteq> 1"
    then show "count (refs m') x = unat (i_link_count j)"
      using j ns_coreD(9) [OF ns, of x] d cnt cc dec(1) by (auto simp: get split: if_splits)
  next
    fix x assume "dir_at m' x"
    then have "dir_at m x" "x \<noteq> c" using d c(2) by (auto simp: dir_at_def get split: if_splits)
    then show "(1, x) \<in> (child_rel m')\<^sup>*" using path_without_leaf [OF ns_coreD(10) [OF ns] leaf _ sub] by blast
  qed
  show "parents_held m'" if "parents_held m" "held m' c"
    by (rule parents_held_del [OF that(1) e en _ that(2)]) (use d in \<open>auto simp: get split: if_splits\<close>)
qed

section \<open>Setting the canonical parent\<close>

lemma inode_ok_set_parent: "inode_ok hide (i\<lparr>i_parent := q\<rparr>) = inode_ok hide i"
  by (cases "i_kind i") (simp_all add: inode_ok_def inode_refs_def)

lemma ns_set_parent:
  fixes q :: u64
  assumes ns: "ns_core hide m" and x: "x \<noteq> 1"
  defines "m' \<equiv> bt_modify x (\<lambda>i. i\<lparr>i_parent := q\<rparr>) m"
  shows "ns_core hide m'" "entry m' = entry m" "refs m' = refs m" "slots m' = slots m"
    "(\<And>y. y \<noteq> x \<Longrightarrow> held m y) \<Longrightarrow> entry m q n = Some x \<Longrightarrow> parents_held m'"
proof -
  note k = ns_coreD(1) [OF ns]
  have k': "kids_ok m'" using k by (simp add: m'_def)
  show e: "entry m' = entry m" unfolding m'_def by (rule entry_modify_same) simp
  show r: "refs m' = refs m" unfolding m'_def by (rule refs_modify_same [OF k]) simp
  show "slots m' = slots m" unfolding m'_def by (rule slots_modify_same [OF k]) (simp add: inode_refs_def)
  have cr: "child_rel m' = child_rel m" using child_rel_entry [OF k'] child_rel_entry [OF k] e by auto
  have get: "bt_get m' y = Some j \<longleftrightarrow> (\<exists>i. bt_get m y = Some i \<and> j = (if y = x then i\<lparr>i_parent := q\<rparr> else i))" for y j
    by (auto simp: m'_def split: if_splits)
  have same: "i_id j = i_id i \<and> i_kind j = i_kind i \<and> i_link_count j = i_link_count i \<and> inode_ok hide j = inode_ok hide i
      \<and> (y \<noteq> x \<longrightarrow> i_parent j = i_parent i) \<and> (y = x \<longrightarrow> i_parent j = q)"
    if "j = (if y = x then i\<lparr>i_parent := q\<rparr> else i)" for i j y
    using that by (simp add: inode_ok_set_parent)
  show "ns_core hide m'"
    unfolding ns_core_def dir_at_def
  proof (intro conjI allI impI)
    show "kids_ok m'" by (rule k')
    show "\<exists>r. bt_get m' 1 = Some r \<and> i_kind r = Directory \<and> i_parent r = 1"
      using ns_coreD(6) [OF ns] x by (auto simp: m'_def)
    fix c assume "c \<in># refs m'"
    then have "c \<in># refs m" unfolding r .
    then show "c \<noteq> 1" "bt_contains m' c"
      using ns_coreD(7,8) [OF ns, of c] by (auto simp: bt_contains_def m'_def)
  next
    fix y j assume "bt_get m' y = Some j"
    then obtain i where i: "bt_get m y = Some i" "j = (if y = x then i\<lparr>i_parent := q\<rparr> else i)" unfolding get by blast
    then show "i_id j = y" "inode_ok hide j"
      using ns_coreD(3,4) [OF ns i(1)] same [OF i(2)] by simp_all
    assume "y \<noteq> 1"
    then show "count (refs m') y = unat (i_link_count j)" using ns_coreD(9) [OF ns i(1)] same [OF i(2)] r by simp
  next
    fix y assume "\<exists>j. bt_get m' y = Some j \<and> i_kind j = Directory"
    then have "dir_at m y" unfolding get dir_at_def using same by metis
    then show "(1, y) \<in> (child_rel m')\<^sup>*" using ns_coreD(10) [OF ns] cr by simp
  qed
  show "parents_held m'" if "\<And>y. y \<noteq> x \<Longrightarrow> held m y" "entry m q n = Some x"
    unfolding parents_held_def held_def
  proof (intro allI impI)
    fix y j assume "bt_get m' y = Some j" and y: "y \<noteq> 1"
    then obtain i where i: "bt_get m y = Some i" "j = (if y = x then i\<lparr>i_parent := q\<rparr> else i)" unfolding get by blast
    show "\<exists>n. entry m' (i_parent j) n = Some y"
    proof (cases "y = x")
      case True
      then show ?thesis using that(2) same [OF i(2)] e by auto
    next
      case False
      then have "\<exists>n. entry m (i_parent i) n = Some y" using that(1) i(1) y unfolding held_def by blast
      then show ?thesis using False same [OF i(2)] e by simp
    qed
  qed
qed

section \<open>Moving an entry\<close>

definition move_inodes :: "u64 \<Rightarrow> rstring \<Rightarrow> u64 \<Rightarrow> rstring \<Rightarrow> u64 \<Rightarrow> (u64, Inode) btree \<Rightarrow> (u64, Inode) btree" where
  "move_inodes op on np nn src m = bt_modify np (add_child nn src) (bt_modify op (del_child on) m)"

lemma ns_move:
  assumes ns: "ns_core hide m" and e: "entry m op on = Some src"
    and np: "dir_at m np" "entry m np nn = None" and name: "is_ok (validate_name nn)"
    and cycle: "dir_at m src \<longrightarrow> np \<noteq> src \<and> (src, np) \<notin> (child_rel m)\<^sup>+"
  defines "m' \<equiv> move_inodes op on np nn src m"
  shows "ns_core hide m'" "entry m' = (let en = (entry m)(op := (entry m op)(on := None)) in en(np := (en np)(nn \<mapsto> src)))"
    "refs m' = refs m" "slots m' = slots m" "x \<noteq> src \<Longrightarrow> held m x \<Longrightarrow> held m' x" "op = np \<Longrightarrow> held m src \<Longrightarrow> held m' src"
proof -
  define m1 where "m1 = bt_modify op (del_child on) m"
  note k = ns_coreD(1) [OF ns]
  have k1: "kids_ok m1" and k': "kids_ok m'" using k by (simp_all add: m1_def m'_def move_inodes_def)
  have e1: "entry m1 = (entry m)(op := (entry m op)(on := None))" by (simp add: m1_def entry_del_child)
  have np1: "bt_contains m1 np" using np(1) by (auto simp: m1_def bt_contains_def dir_at_def)
  have en: "entry m' = (entry m1)(np := (entry m1 np)(nn \<mapsto> src))"
    using np1 by (simp add: m'_def move_inodes_def m1_def [symmetric] entry_add_child)
  then show "entry m' = (let en = (entry m)(op := (entry m op)(on := None)) in en(np := (en np)(nn \<mapsto> src)))"
    by (simp add: e1)
  obtain i1 where i1: "bt_get m1 np = Some i1" using np1 by (auto simp: bt_contains_def)
  have n1: "entry m1 np nn = None" using np(2) e1 by auto
  then have "bt_get (i_children i1) nn = None" using i1 by (simp add: entry_def)
  from refs_add_child [OF k1 i1 this] have "refs m' = add_mset src (refs m1)"
    by (simp add: m'_def move_inodes_def m1_def)
  then show r: "refs m' = refs m" using refs_del_child [OF k e] by (simp add: m1_def)
  have "slots m' = slots m1" using slots_modify_same [OF k1, of "add_child nn src" np] by (simp add: m'_def move_inodes_def m1_def)
  then show "slots m' = slots m" using slots_modify_same [OF k, of "del_child on" op] by (simp add: m1_def)
  let ?f = "\<lambda>x i. (if x = np then add_child nn src else (\<lambda>i. i)) ((if x = op then del_child on else (\<lambda>i. i)) i)"
  have get: "bt_get m' x = Some j \<longleftrightarrow> (\<exists>i. bt_get m x = Some i \<and> j = ?f x i)" for x j
    by (auto simp: m'_def move_inodes_def split: if_splits)
  have same: "i_id (?f x i) = i_id i" "i_kind (?f x i) = i_kind i" "i_parent (?f x i) = i_parent i" "i_link_count (?f x i) = i_link_count i" for x i
    by simp_all
  have iok: "inode_ok hide (?f x i)" if i: "bt_get m x = Some i" for x i
  proof -
    let ?d = "(if x = op then del_child on else (\<lambda>i. i)) i"
    have d: "inode_ok hide ?d" using ns_coreD(4) [OF ns i] inode_ok_del_child by simp
    have "bt_ok (i_children ?d)" using ns_coreD(5) [OF ns i] by (simp add: del_child_def)
    then have "x = np \<Longrightarrow> inode_ok hide (add_child nn src ?d)"
      using np(1) i d name by (intro inode_ok_add_child) (auto simp: dir_at_def)
    then show ?thesis using d by (cases "x = np") simp_all
  qed
  have src: "src \<noteq> 1" "bt_contains m src" using entry_dir(2,3) [OF ns e] by blast+
  have sub: "child_rel m - {(op, src)} \<subseteq> child_rel m'"
  proof -
    have "child_rel m - {(op, src)} \<subseteq> child_rel m1" by (rule child_rel_del [OF k k1 e e1])
    moreover have "child_rel m1 \<subseteq> child_rel m'"
      using en n1 by (auto simp: child_rel_entry [OF k'] child_rel_entry [OF k1]) (metis option.distinct(1))
    ultimately show ?thesis by blast
  qed
  have new: "(np, src) \<in> child_rel m'" using en by (auto simp: child_rel_entry [OF k'])
  have "(src, np) \<notin> (child_rel m)\<^sup>*"
  proof (cases "dir_at m src")
    case True
    then show ?thesis using cycle by (metis rtranclD)
  next
    case False
    obtain i where i: "bt_get m src = Some i" using src by (auto simp: bt_contains_def)
    then have "i_children i = []" using False inode_ok_children [OF ns_coreD(4) [OF ns i]] by (auto simp: dir_at_def)
    then have "(src, y) \<notin> child_rel m" for y using i by (simp add: child_rel_iff bt_values_def)
    then show ?thesis using path_from_leaf [of src np] np(1) False by metis
  qed
  note path = path_after_move [OF _ ns_coreD(10) [OF ns np(1)] this sub new]
  show "ns_core hide m'"
    unfolding ns_core_def
  proof (intro conjI allI impI)
    show "kids_ok m'" by (rule k')
    show "\<exists>r. bt_get m' 1 = Some r \<and> i_kind r = Directory \<and> i_parent r = 1"
      unfolding get using ns_coreD(6) [OF ns] same by metis
    fix x assume "x \<in># refs m'"
    then show "x \<noteq> 1" "bt_contains m' x"
      using ns_coreD(7,8) [OF ns, of x] unfolding bt_get_contains get by (auto simp: r bt_contains_def)
  next
    fix x j assume "bt_get m' x = Some j"
    then obtain i where i: "bt_get m x = Some i" "j = ?f x i" unfolding get by blast
    show "i_id j = x" "inode_ok hide j" using ns_coreD(3) [OF ns i(1)] iok [OF i(1)] unfolding i(2) same by blast+
    assume "x \<noteq> 1"
    then show "count (refs m') x = unat (i_link_count j)" using ns_coreD(9) [OF ns i(1)] unfolding r i(2) same by blast
  next
    fix x assume "dir_at m' x"
    then have "dir_at m x" unfolding dir_at_def get using same by metis
    then show "(1, x) \<in> (child_rel m')\<^sup>*" using path ns_coreD(10) [OF ns] by blast
  qed
  have keep: "entry m' q k = Some x" if "entry m q k = Some x" "x \<noteq> src" for q k x
    using that np(2) e by (auto simp: en e1)
  show "held m' x" if x: "x \<noteq> src" "held m x"
    using x(2) keep [OF _ x(1)] unfolding held_def get by (metis same(3))
  show "held m' src" if h: "op = np" "held m src"
  proof -
    have "\<exists>k'. entry m' q k' = Some src" if "entry m q k = Some src" for q k
    proof (cases "q = op")
      case True
      then have "entry m' q nn = Some src" using h(1) by (simp add: en)
      then show ?thesis by blast
    next
      case False
      then show ?thesis using that h(1) by (auto simp: en e1)
    qed
    then show ?thesis using h(2) unfolding held_def get by (metis same(3))
  qed
qed

section \<open>The state invariant\<close>

abbreviation v_doff :: "Vfs \<Rightarrow> u64" where "v_doff v \<equiv> data_offset (c_header (v_container v))"
abbreviation v_hide :: "Vfs \<Rightarrow> bool" where "v_hide v \<equiv> hide_size_header (c_header (v_container v))"

text \<open>The counters, and the slots: in use, free, or freed and waiting for the next save.\<close>

definition counters_ok :: "Vfs \<Rightarrow> bool" where
  "counters_ok v \<longleftrightarrow>
     (let t = v_tree v in
      t_root t = ROOT_ID \<and> ROOT_ID < next_file_id t \<and> next_file_id t < CHUNK_LIST_FILE_ID_BIT
      \<and> next_chunk_gen t \<noteq> 0 \<and> next_chunk_gen t \<noteq> -1 \<and> is_ok (slot_offset (v_doff v) (next_chunk_id t))
      \<and> (\<forall>fid i. bt_get (inodes t) fid = Some i \<longrightarrow>
           fid < next_file_id t \<and> (\<forall>cr \<in> set (inode_refs i). ref_ok (v_doff v) (next_chunk_id t) (next_chunk_gen t) cr))
      \<and> (\<forall>x. count (slots (inodes t) + mset (free_chunks t) + mset (v_pending_free v)) x \<le> 1)
      \<and> (\<forall>x \<in> set (free_chunks t) \<union> set (v_pending_free v). x < next_chunk_id t \<and> is_ok (slot_offset (v_doff v) x)))"

definition vfs_core :: "Vfs \<Rightarrow> bool" where
  "vfs_core v \<longleftrightarrow> ns_core (v_hide v) (v_inodes v) \<and> counters_ok v"

definition vfs_inv :: "Vfs \<Rightarrow> bool" where
  "vfs_inv v \<longleftrightarrow> vfs_core v \<and> parents_held (v_inodes v)"

text \<open>What the changes of the namespace keep of the counters and slots.\<close>

definition keeps_slots :: "Vfs \<Rightarrow> Vfs \<Rightarrow> bool" where
  "keeps_slots v v' \<longleftrightarrow>
     v_container v' = v_container v \<and> t_root (v_tree v') = t_root (v_tree v) \<and> next_file_id (v_tree v) \<le> next_file_id (v_tree v')
     \<and> next_chunk_id (v_tree v') = next_chunk_id (v_tree v) \<and> next_chunk_gen (v_tree v') = next_chunk_gen (v_tree v)
     \<and> free_chunks (v_tree v') = free_chunks (v_tree v)
     \<and> slots (v_inodes v') + mset (v_pending_free v') = slots (v_inodes v) + mset (v_pending_free v)
     \<and> (\<forall>x j. bt_get (v_inodes v') x = Some j \<longrightarrow>
          (\<exists>i. bt_get (v_inodes v) x = Some i \<and> inode_refs j = inode_refs i) \<or> x < next_file_id (v_tree v') \<and> inode_refs j = [])"

lemma counters_ok_keep:
  assumes ok: "bt_ok (v_inodes v)" and c: "counters_ok v" and k: "keeps_slots v v'" and n: "next_file_id (v_tree v') < 0x8000000000000000"
  shows "counters_ok v'"
proof -
  let ?t = "v_tree v" and ?t' = "v_tree v'"
  have k': "v_container v' = v_container v" "t_root ?t' = t_root ?t" "next_file_id ?t \<le> next_file_id ?t'"
    "next_chunk_id ?t' = next_chunk_id ?t" "next_chunk_gen ?t' = next_chunk_gen ?t" "free_chunks ?t' = free_chunks ?t"
    and sl: "slots (inodes ?t') + mset (v_pending_free v') = slots (inodes ?t) + mset (v_pending_free v)"
    and get: "\<And>x j. bt_get (inodes ?t') x = Some j \<Longrightarrow>
          (\<exists>i. bt_get (inodes ?t) x = Some i \<and> inode_refs j = inode_refs i) \<or> x < next_file_id ?t' \<and> inode_refs j = []"
    using k unfolding keeps_slots_def by blast+
  have c': "t_root ?t = 1" "1 < next_file_id ?t" "next_chunk_gen ?t \<noteq> 0" "next_chunk_gen ?t \<noteq> -1"
    "is_ok (slot_offset (v_doff v) (next_chunk_id ?t))"
    and ino: "\<And>fid i. bt_get (inodes ?t) fid = Some i \<Longrightarrow>
         fid < next_file_id ?t \<and> (\<forall>cr \<in> set (inode_refs i). ref_ok (v_doff v) (next_chunk_id ?t) (next_chunk_gen ?t) cr)"
    and cnt: "\<And>x. count (slots (inodes ?t) + mset (free_chunks ?t) + mset (v_pending_free v)) x \<le> 1"
    and fr: "\<And>x. x \<in> set (free_chunks ?t) \<union> set (v_pending_free v) \<Longrightarrow> x < next_chunk_id ?t \<and> is_ok (slot_offset (v_doff v) x)"
    using c unfolding counters_ok_def Let_def by blast+
  have tot: "slots (inodes ?t') + mset (free_chunks ?t) + mset (v_pending_free v')
      = slots (inodes ?t) + mset (free_chunks ?t) + mset (v_pending_free v)"
    using sl by (simp add: ac_simps)
  have refs: "fid < next_file_id ?t' \<and> (\<forall>cr \<in> set (inode_refs i). ref_ok (v_doff v) (next_chunk_id ?t) (next_chunk_gen ?t) cr)"
    if "bt_get (inodes ?t') fid = Some i" for fid i
    using get [OF that] ino k'(3) by (metis empty_iff less_le_trans list.set(1))
  have pend: "x < next_chunk_id ?t \<and> is_ok (slot_offset (v_doff v) x)" if "x \<in> set (v_pending_free v')" for x
  proof (cases "x \<in> set (v_pending_free v)")
    case False
    have "x \<in># slots (inodes ?t) + mset (v_pending_free v)" using that sl by (metis set_mset_mset union_iff)
    then have "x \<in># slots (inodes ?t)" using False by simp
    then obtain fid i where i: "bt_get (inodes ?t) fid = Some i" "x \<in> cr_id ` set (inode_refs i)"
      by (auto simp: slots_def bt_total_mem [OF ok])
    then show ?thesis using ino [OF i(1)] by (auto simp: ref_ok_def)
  qed (use fr in blast)
  show ?thesis
    unfolding counters_ok_def Let_def k' tot using c' n k'(3) refs cnt fr pend by (auto intro: less_le_trans)
qed


lemma vfs_coreD:
  assumes "vfs_core v"
  shows "ns_core (v_hide v) (v_inodes v)" "counters_ok v" "bt_ok (v_inodes v)"
    "bt_get (v_inodes v) fid = Some i \<Longrightarrow> fid < next_file_id (v_tree v)"
  using assms ns_coreD(2) unfolding vfs_core_def counters_ok_def Let_def by blast+

lemma vfs_core_keep:
  assumes "vfs_core v" "keeps_slots v v'" "ns_core (v_hide v) (v_inodes v')" "next_file_id (v_tree v') < 0x8000000000000000"
  shows "vfs_core v'"
proof -
  have "v_hide v' = v_hide v" using assms(2) by (simp add: keeps_slots_def)
  then show ?thesis using counters_ok_keep [OF vfs_coreD(3,2) [OF assms(1)] assms(2,4)] assms(3) by (simp add: vfs_core_def)
qed

text \<open>With the invariant the tree is valid, also with the waiting slots counted as free, as a save writes it.\<close>

lemma vfs_inv_valid:
  assumes "vfs_inv v"
  shows "maps_ok (v_tree v)"
    "tree_ok (v_doff v) (v_hide v) ((v_tree v)\<lparr>free_chunks := free_chunks (v_tree v) @ v_pending_free v\<rparr>)"
    "tree_ok (v_doff v) (v_hide v) (v_tree v)"
proof -
  let ?t = "v_tree v" and ?m = "v_inodes v"
  from assms have ns: "ns_core (v_hide v) ?m" and c: "counters_ok v" and h: "parents_held ?m"
    by (simp_all add: vfs_inv_def vfs_core_def)
  show "maps_ok ?t" using ns_coreD(1) [OF ns] by (simp add: maps_ok_kids)
  have ino: "i_id i = fid \<and> fid < next_file_id ?t \<and> inode_ok (v_hide v) i \<and> dir_at ?m (i_parent i)
      \<and> (\<forall>cr \<in> set (inode_refs i). ref_ok (v_doff v) (next_chunk_id ?t) (next_chunk_gen ?t) cr)
      \<and> (fid \<noteq> 1 \<longrightarrow> count (refs ?m) fid = unat (i_link_count i)) \<and> (1, fid) \<in> (child_rel ?m)\<^sup>*"
    if i: "bt_get ?m fid = Some i" for fid i
  proof -
    have "dir_at ?m (i_parent i)"
    proof (cases "fid = 1")
      case True
      then show ?thesis using i ns_coreD(6) [OF ns] by (auto simp: dir_at_def)
    next
      case False
      then show ?thesis using h i entry_dir(1) [OF ns] unfolding parents_held_def held_def by blast
    qed
    moreover have "bt_contains ?m fid" using i by (simp add: bt_contains_def)
    moreover have "fid < next_file_id ?t \<and> (\<forall>cr \<in> set (inode_refs i). ref_ok (v_doff v) (next_chunk_id ?t) (next_chunk_gen ?t) cr)"
      using c i unfolding counters_ok_def Let_def by blast
    ultimately show ?thesis using ns_coreD(3,4,9) [OF ns i] ns_core_reach [OF ns] by blast
  qed
  have cnt: "count (slots ?m + mset (free_chunks ?t) + mset (v_pending_free v)) x \<le> 1" for x
    using c unfolding counters_ok_def Let_def by blast
  then have cnt': "count (slots ?m) x + count_list (free_chunks ?t @ v_pending_free v) x \<le> 1" for x
    by (simp add: count_mset add.assoc)
  then have s1: "count (slots ?m) x \<le> 1" for x by (metis add_leD1)
  have dis: "distinct (free_chunks ?t @ v_pending_free v)"
    unfolding distinct_count_atmost_1
  proof
    fix a show "count (mset (free_chunks ?t @ v_pending_free v)) a = (if a \<in> set (free_chunks ?t @ v_pending_free v) then 1 else 0)"
      using cnt' [of a] count_list_0_iff [of "free_chunks ?t @ v_pending_free v" a] unfolding count_mset by auto
  qed
  have fr: "x < next_chunk_id ?t \<and> x \<notin># slots ?m \<and> is_ok (slot_offset (v_doff v) x)" if "x \<in> set (free_chunks ?t @ v_pending_free v)" for x
  proof -
    have "count_list (free_chunks ?t @ v_pending_free v) x \<noteq> 0" using that by (simp only: count_list_0_iff not_not)
    then have "count (slots ?m) x = 0" using cnt' [of x] by linarith
    moreover have "x < next_chunk_id ?t \<and> is_ok (slot_offset (v_doff v) x)"
      using that c unfolding counters_ok_def Let_def by auto
    ultimately show ?thesis by (simp add: not_in_iff)
  qed
  have base: "t_root ?t = 1" "1 < next_file_id ?t" "next_file_id ?t < 0x8000000000000000" "next_chunk_gen ?t \<noteq> 0"
    "next_chunk_gen ?t \<noteq> -1" "is_ok (slot_offset (v_doff v) (next_chunk_id ?t))"
    using c unfolding counters_ok_def Let_def by blast+
  show "tree_ok (v_doff v) (v_hide v) (?t\<lparr>free_chunks := free_chunks ?t @ v_pending_free v\<rparr>)"
    unfolding tree_ok_def using base ino ns_coreD(6,7,8) [OF ns] s1 dis fr by simp blast
  show "tree_ok (v_doff v) (v_hide v) ?t"
    unfolding tree_ok_def using base ino ns_coreD(6,7,8) [OF ns] s1 dis fr by simp blast
qed

end
