(* ===== verification/Lbx_NsOps.thy ===== *)
theory Lbx_NsOps
  imports Lbx_NsInv
begin

text \<open>
  The directory operations as one machine, and its properties: every operation does to the namespace
  what its specification on a plain map says, keeps the invariant, changes nothing when it fails and
  never panics; sequences of operations follow through the interface \<open>simulation\<close>.
\<close>

section \<open>The operations as one machine\<close>

datatype ns_op =
    Mkdir u64 u64 rstring
  | Create u64 u64 rstring u32
  | MkSymlink u64 u64 rstring rstring
  | Link u64 u64 rstring
  | Unlink u64 rstring
  | Rmdir u64 rstring
  | Rename u64 rstring u64 rstring
  | Chmod u64 u32
  | SetMtime u64 u64

fun run_ns :: "ns_op \<Rightarrow> u64 vop" where
  "run_ns (Mkdir now p n) = mkdir now p n"
| "run_ns (Create now p n mode) = create_with_mode now p n mode"
| "run_ns (MkSymlink now p n target) = symlink now p n target"
| "run_ns (Link c p n) = bindR (link c p n) (\<lambda>_. retR c)"
| "run_ns (Unlink p n) = bindR (unlink p n) (\<lambda>_. retR 0)"
| "run_ns (Rmdir p n) = bindR (rmdir p n) (\<lambda>_. retR 0)"
| "run_ns (Rename op on np nn) = bindR (rename op on np nn) (\<lambda>_. retR 0)"
| "run_ns (Chmod fid mode) = bindR (chmod fid mode) (\<lambda>_. retR fid)"
| "run_ns (SetMtime fid t) = bindR (set_mtime fid t) (\<lambda>_. retR fid)"

text \<open>A namespace without inodes: which name in which directory stands for which file.\<close>

type_synonym ns = "u64 \<Rightarrow> rstring \<Rightarrow> u64 option"

definition ns_add :: "u64 \<Rightarrow> rstring \<Rightarrow> u64 \<Rightarrow> ns \<Rightarrow> ns" where
  "ns_add p n c en = en(p := (en p)(n \<mapsto> c))"

definition ns_del :: "u64 \<Rightarrow> rstring \<Rightarrow> ns \<Rightarrow> ns" where
  "ns_del p n en = en(p := (en p)(n := None))"

fun spec_ns :: "ns_op \<Rightarrow> u64 \<Rightarrow> ns \<Rightarrow> ns" where
  "spec_ns (Mkdir now p n) fid en = ns_add p n fid en"
| "spec_ns (Create now p n mode) fid en = ns_add p n fid en"
| "spec_ns (MkSymlink now p n target) fid en = ns_add p n fid en"
| "spec_ns (Link c p n) fid en = ns_add p n c en"
| "spec_ns (Unlink p n) fid en = ns_del p n en"
| "spec_ns (Rmdir p n) fid en = ns_del p n en"
| "spec_ns (Rename op on np nn) fid en =
     (case en op on of None \<Rightarrow> en | Some c \<Rightarrow> if en np nn = Some c then en else ns_add np nn c (ns_del op on en))"
| "spec_ns (Chmod c mode) fid en = en"
| "spec_ns (SetMtime c t) fid en = en"

section \<open>A failed operation changes nothing\<close>

definition atomic :: "('s, 'e, 'a) rand \<Rightarrow> bool" where
  "atomic m \<longleftrightarrow> (\<forall>s e s'. m s = (Inl e, s') \<longrightarrow> s' = s)"

definition infallible :: "('s, 'e, 'a) rand \<Rightarrow> bool" where
  "infallible m \<longleftrightarrow> (\<forall>s. is_ok (fst (m s)))"

named_theorems atomic_intros "computations that change nothing when they fail"

lemma atomic_liftR [atomic_intros]: "(\<And>x. atomic (f x)) \<Longrightarrow> atomic (bindR (liftR m) f)"
  by (auto simp: atomic_def bindR_def liftR_def split: sum.splits)

lemma atomic_readV [atomic_intros]: "(\<And>x. atomic (f x)) \<Longrightarrow> atomic (bindR (readV g) f)"
  by (auto simp: atomic_def bindR_def readV_def split: sum.splits)

lemma atomic_failR [atomic_intros]: "atomic (failR e)"
  by (simp add: atomic_def failR_def)

lemma infallible_atomic: "infallible m \<Longrightarrow> atomic m"
  unfolding atomic_def infallible_def by (metis fst_conv is_ok_simps(2))

lemma infallible_simps [simp]: "infallible (retR x)" "infallible (modV f)"
  by (simp_all add: infallible_def retR_def modV_def)

lemma infallible_bind [simp]: "infallible m \<Longrightarrow> (\<And>x. infallible (f x)) \<Longrightarrow> infallible (bindR m f)"
  by (auto simp: infallible_def bindR_def split: sum.splits prod.splits) (metis fst_conv is_ok_simps(2))

lemma atomic_bind: "atomic m \<Longrightarrow> (\<And>x. infallible (f x)) \<Longrightarrow> atomic (bindR m f)"
  unfolding atomic_def infallible_def bindR_def
  by (auto split: sum.splits prod.splits) (metis fst_conv is_ok_simps(2))

lemma atomic_effects [atomic_intros]: "atomic (retR x)" "atomic (modV f)" "(\<And>x. infallible (g x)) \<Longrightarrow> atomic (bindR (modV f) g)"
  by (simp_all add: infallible_atomic)

lemma atomic_alloc: "atomic alloc_fid"
  by (auto simp: atomic_def alloc_fid_def split: option.splits)

lemma atomic_if [atomic_intros]: "atomic m \<Longrightarrow> atomic m' \<Longrightarrow> atomic (if b then m else m')"
  by simp

lemma atomic_add_inode: "atomic (add_inode now p n k sz mode target)"
  unfolding add_inode_def by (intro atomic_intros atomic_bind [OF atomic_alloc]) simp_all

lemma atomic_ops:
  "atomic (mkdir now p n)" "atomic (create_with_mode now p n mode)" "atomic (symlink now p n target)"
  "atomic (link c p n)" "atomic (unlink p n)" "atomic (rmdir p n)" "atomic (rename op on np nn)"
  "atomic (chmod c mode)" "atomic (set_mtime c t)"
  unfolding mkdir_def create_with_mode_def symlink_def link_def unlink_def rmdir_def rename_def chmod_def set_mtime_def
  by (auto intro!: atomic_intros atomic_add_inode atomic_bind [OF atomic_add_inode] split: InodeKind.splits option.splits)

lemma atomic_run_ns: "atomic (run_ns op)"
  by (cases op) (simp_all add: atomic_ops atomic_bind)

section \<open>What a successful operation did\<close>

lemma readV_eq: "readV f v = (Inr x, v') \<longleftrightarrow> f v = Inr x \<and> v' = v"
  by (auto simp: readV_def)

lemma modV_eq: "modV f v = (Inr x, v') \<longleftrightarrow> v' = f v"
  by (auto simp: modV_def)

lemmas op_simps = bindR_eq_Inr readV_eq modV_eq liftR_eq retR_eq failR_eq

lemma require_dir_Inr: "require_dir v p = Inr d \<longleftrightarrow> bt_get (v_inodes v) p = Some d \<and> i_kind d = Directory"
  by (auto simp: require_dir_def bindE_eq_Inr ok_or_def split: option.splits)

lemma ok_or_Inr: "ok_or e m = Inr x \<longleftrightarrow> m = Some x"
  by (cases m) (auto simp: ok_or_def)

lemma unwrap_inode_Inr: "unwrap_inode v c = Inr i \<longleftrightarrow> bt_get (v_inodes v) c = Some i"
  by (simp add: unwrap_inode_def ok_or_Inr)

lemma v_inodes_on [simp]: "v_inodes (on_inodes f v) = f (v_inodes v)"
  by (simp add: on_inodes_def)

lemma on_inodes_frame [simp]:
  "v_container (on_inodes f v) = v_container v" "v_pending_free (on_inodes f v) = v_pending_free v"
  "v_chunks_dirty (on_inodes f v) = v_chunks_dirty v" "t_root (v_tree (on_inodes f v)) = t_root (v_tree v)"
  "next_file_id (v_tree (on_inodes f v)) = next_file_id (v_tree v)" "next_chunk_id (v_tree (on_inodes f v)) = next_chunk_id (v_tree v)"
  "next_chunk_gen (v_tree (on_inodes f v)) = next_chunk_gen (v_tree v)" "free_chunks (v_tree (on_inodes f v)) = free_chunks (v_tree v)"
  by (simp_all add: on_inodes_def)

lemma add_inode_Inr:
  "add_inode now p n k sz mode target v = (Inr fid, v') \<longleftrightarrow>
     (\<exists>d. bt_get (v_inodes v) p = Some d \<and> i_kind d = Directory \<and> bt_get (i_children d) n = None
        \<and> unat (next_file_id (v_tree v)) + 1 < 2 ^ 64 \<and> fid = next_file_id (v_tree v)
        \<and> v' = v\<lparr>v_tree := (v_tree v)\<lparr>next_file_id := next_file_id (v_tree v) + 1,
                   inodes := bt_modify p (add_child n fid) (bt_insert fid (fresh_inode now fid p k sz mode target) (v_inodes v))\<rparr>,
                 v_dirty := True\<rparr>)"
  by (auto simp: add_inode_def op_simps require_dir_Inr alloc_fid_def alloc_file_id_def checked_add_u64_def bt_contains_def
      on_inodes_def split: if_splits option.splits)

section \<open>Laws of map changes\<close>

lemma bt_remove_modify: "bt_ok m \<Longrightarrow> bt_remove k (bt_modify k f m) = bt_remove k m"
  by (rule bt_eqI) auto

lemma bt_modify_modify: "bt_ok m \<Longrightarrow> bt_modify k f (bt_modify k g m) = bt_modify k (\<lambda>i. f (g i)) m"
  by (rule bt_eqI) (auto simp: option.map_comp comp_def)

lemma bt_modify_remove: "bt_ok m \<Longrightarrow> k \<noteq> k' \<Longrightarrow> bt_modify k f (bt_remove k' m) = bt_remove k' (bt_modify k f m)"
  by (rule bt_eqI) auto

lemma bt_insert_removed: "bt_ok ch \<Longrightarrow> bt_insert n c (bt_remove n ch) = bt_insert n c ch"
  "bt_ok ch \<Longrightarrow> bt_insert n c (bt_remove n' (bt_remove n ch)) = bt_insert n c (bt_remove n' ch)"
  by (rule bt_eqI; simp)+

section \<open>The effect of each operation\<close>

text \<open>When the operation replaces one of several links to a file.\<close>

fun replaces_link :: "Vfs \<Rightarrow> ns_op \<Rightarrow> bool" where
  "replaces_link v (Rename op on np nn) \<longleftrightarrow>
     (case entry (v_inodes v) np nn of
        None \<Rightarrow> False
      | Some dst \<Rightarrow> entry (v_inodes v) op on \<noteq> Some dst
          \<and> (case bt_get (v_inodes v) dst of None \<Rightarrow> False | Some i \<Rightarrow> i_link_count i \<noteq> 1))"
| "replaces_link v op \<longleftrightarrow> False"

definition did :: "Vfs \<Rightarrow> ns_op \<Rightarrow> u64 \<Rightarrow> Vfs \<Rightarrow> bool" where
  "did v op r v' \<longleftrightarrow>
     keeps_slots v v' \<and> ns_core (v_hide v) (v_inodes v') \<and> entry (v_inodes v') = spec_ns op r (entry (v_inodes v))
     \<and> (parents_held (v_inodes v) \<longrightarrow> \<not> replaces_link v op \<longrightarrow> parents_held (v_inodes v'))"

lemma fresh_id: "vfs_core v \<Longrightarrow> bt_get (v_inodes v) (next_file_id (v_tree v)) = None"
  using vfs_coreD(4) [of v "next_file_id (v_tree v)"] by (cases "bt_get (v_inodes v) (next_file_id (v_tree v))") auto

lemma next_fid_grows: "unat a + 1 < 2 ^ 64 \<Longrightarrow> a < (a + 1 :: u64)"
  by (simp add: word_less_nat_alt unat_word_ariths)

lemma add_inode_effect:
  assumes core: "vfs_core v" and a: "add_inode now p n k sz mode target v = (Inr fid, v')" and name: "is_ok (validate_name n)"
    and i: "inode_ok (v_hide v) (fresh_inode now fid p k sz mode target)"
  shows "keeps_slots v v' \<and> ns_core (v_hide v) (v_inodes v') \<and> entry (v_inodes v') = ns_add p n fid (entry (v_inodes v))
     \<and> (parents_held (v_inodes v) \<longrightarrow> parents_held (v_inodes v'))"
proof -
  let ?i = "fresh_inode now fid p k sz mode target"
  note ns = vfs_coreD(1) [OF core]
  from a [unfolded add_inode_Inr] obtain d where d: "bt_get (v_inodes v) p = Some d" "i_kind d = Directory" "bt_get (i_children d) n = None"
    and sz: "unat (next_file_id (v_tree v)) + 1 < 2 ^ 64" and fid: "fid = next_file_id (v_tree v)"
    and v': "v' = v\<lparr>v_tree := (v_tree v)\<lparr>next_file_id := next_file_id (v_tree v) + 1,
                   inodes := bt_modify p (add_child n fid) (bt_insert fid ?i (v_inodes v))\<rparr>, v_dirty := True\<rparr>"
    by blast
  define m' where "m' = bt_modify p (add_child n fid) (bt_insert fid ?i (v_inodes v))"
  have fresh: "bt_get (v_inodes v) fid = None" using fresh_id [OF core] fid by simp
  have ch: "i_children ?i = []" "i_link_count ?i = 1" "i_id ?i = fid" "inode_refs ?i = []" "i_parent ?i = p"
    by (simp_all add: fresh_inode_def inode_refs_def)
  note r = ns_add_inode [OF ns d name fresh ch(3) i ch(1,2), folded m'_def]
  have vi: "v_inodes v' = m'" by (simp add: v' m'_def)
  have pf: "p \<noteq> fid" using d fresh by auto
  have get: "bt_get m' x = (if x = p then Some (add_child n fid d) else if x = fid then Some ?i else bt_get (v_inodes v) x)" for x
    using d pf by (simp add: m'_def)
  have k1: "kids_ok (bt_insert fid ?i (v_inodes v))" using ns_coreD(1) [OF ns] ch by simp
  have "slots m' = slots (bt_insert fid ?i (v_inodes v))" unfolding m'_def by (rule slots_modify_same [OF k1]) simp
  then have sl: "slots m' = slots (v_inodes v)" using slots_insert [OF ns_coreD(1) [OF ns] fresh ch(4)] by simp
  have gr: "next_file_id (v_tree v) < next_file_id (v_tree v')" using next_fid_grows [OF sz] by (simp add: v')
  have old: "(\<exists>i. bt_get (v_inodes v) x = Some i \<and> inode_refs j = inode_refs i) \<or> x < next_file_id (v_tree v') \<and> inode_refs j = []"
    if "bt_get m' x = Some j" for x j
    using that d ch(4) gr fid by (auto simp: get split: if_splits)
  have "keeps_slots v v'"
    unfolding keeps_slots_def vi using gr sl old by (auto simp: v')
  moreover have "parents_held m'" if "parents_held (v_inodes v)"
  proof (rule parents_held_add [OF that r(2)])
    show "entry (v_inodes v) p n = None" using d by (simp add: entry_def)
    show "(\<exists>i. bt_get (v_inodes v) x = Some i \<and> i_parent i = i_parent j) \<or> x = fid \<and> i_parent j = p" if "bt_get m' x = Some j" for x j
      using that d ch(5) by (auto simp: get split: if_splits)
  qed
  ultimately show ?thesis using r by (simp add: vi ns_add_def)
qed

lemma validate_new_name_ok: "validate_new_name n = Inr x \<Longrightarrow> is_ok (validate_name n)"
  by (cases "validate_name n") (auto simp: validate_new_name_def)

lemma required_zero [simp]: "required_chunks 0 b = 0"
  by (simp add: required_chunks_def)

lemma fresh_ok:
  "inode_ok hide (fresh_inode now fid p Directory 0 mode None)"
  "inode_ok hide (fresh_inode now fid p File 0 mode None)"
  "is_safe_symlink_target target \<Longrightarrow> inode_ok hide (fresh_inode now fid p Symlink sz mode (Some target))"
  by (simp_all add: inode_ok_def fresh_inode_def inode_refs_def validate_capacity_def checked_mul_u64_def ok_or_def)

lemma keeps_slots_chunks_dirty: "keeps_slots v (v'\<lparr>v_chunks_dirty := s\<rparr>) = keeps_slots v v'"
  by (simp add: keeps_slots_def)

lemma did_mkdir: "vfs_core v \<Longrightarrow> run_ns (Mkdir now p n) v = (Inr r, v') \<Longrightarrow> did v (Mkdir now p n) r v'"
  using add_inode_effect [OF _ _ validate_new_name_ok fresh_ok(1)]
  by (auto simp: mkdir_def op_simps did_def)

lemma did_create:
  assumes "vfs_core v" "run_ns (Create now p n mode) v = (Inr r, v')"
  shows "did v (Create now p n mode) r v'"
proof -
  from assms(2) obtain v1 x where nm: "validate_new_name n = Inr x" and a: "add_inode now p n File 0 (mode AND 0xfff) None v = (Inr r, v1)"
    and v': "v' = v1\<lparr>v_chunks_dirty := insert r (v_chunks_dirty v1)\<rparr>"
    by (auto simp: create_with_mode_def op_simps)
  from add_inode_effect [OF assms(1) a validate_new_name_ok [OF nm] fresh_ok(2)] show ?thesis
    by (simp add: did_def v' keeps_slots_chunks_dirty)
qed

lemma did_symlink: "vfs_core v \<Longrightarrow> run_ns (MkSymlink now p n target) v = (Inr r, v') \<Longrightarrow> did v (MkSymlink now p n target) r v'"
  using add_inode_effect [OF _ _ validate_new_name_ok fresh_ok(3)]
  by (auto simp: symlink_def op_simps did_def split: if_splits)

lemma did_link:
  assumes core: "vfs_core v" and run: "run_ns (Link c p n) v = (Inr r, v')"
  shows "did v (Link c p n) r v'"
proof -
  note ns = vfs_coreD(1) [OF core]
  let ?v' = "on_inodes (bt_modify c (\<lambda>i. i\<lparr>i_link_count := saturating_add_u32 (i_link_count i) 1\<rparr>))
        (on_inodes (bt_modify p (add_child n c)) v)\<lparr>v_dirty := True\<rparr>"
  have "\<exists>i d x. validate_new_name n = Inr x \<and> (bt_get (v_inodes v) c = Some i \<and> i_kind i = File \<and> i_link_count i \<noteq> -1)
     \<and> (bt_get (v_inodes v) p = Some d \<and> i_kind d = Directory \<and> bt_get (i_children d) n = None) \<and> v' = ?v'"
  proof -
    from run have l: "link c p n v = (Inr (), v')" by (simp add: op_simps)
    then obtain x i where nm: "validate_new_name n = Inr x" and c: "bt_get (v_inodes v) c = Some i"
      by (auto simp: link_def op_simps ok_or_Inr)
    have "i_kind i = File" "i_link_count i \<noteq> -1"
      using l c by (cases "i_kind i"; auto simp: link_def op_simps ok_or_Inr split: if_splits)+
    with l nm c show ?thesis
      by (auto simp: link_def op_simps ok_or_Inr require_dir_Inr bt_contains_def split: if_splits)
  qed
  then obtain i d x where nm: "validate_new_name n = Inr x" and c: "bt_get (v_inodes v) c = Some i" "i_kind i = File" "i_link_count i \<noteq> -1"
    and d: "bt_get (v_inodes v) p = Some d" "i_kind d = Directory" "bt_get (i_children d) n = None" and v': "v' = ?v'" by blast
  define m' where "m' = bt_modify c (\<lambda>i. i\<lparr>i_link_count := saturating_add_u32 (i_link_count i) 1\<rparr>) (bt_modify p (add_child n c) (v_inodes v))"
  note l = ns_link [OF ns d validate_new_name_ok [OF nm] c, folded m'_def]
  have vi: "v_inodes v' = m'" by (simp add: v' m'_def)
  have "(\<exists>i. bt_get (v_inodes v) x = Some i \<and> inode_refs j = inode_refs i)" if "bt_get m' x = Some j" for x j
    using that by (auto simp: m'_def inode_refs_def add_child_def split: if_splits)
  then have "keeps_slots v v'" unfolding keeps_slots_def vi using l(4) by (auto simp: v')
  then show ?thesis using l by (simp add: did_def vi ns_add_def)
qed

lemma attr_only_ops: "attr_only (\<lambda>i. i\<lparr>i_mode := md\<rparr>)" "attr_only (\<lambda>i. i\<lparr>i_mtime_ns := t\<rparr>)"
  by (simp_all add: attr_only_def)

lemma did_attr:
  assumes core: "vfs_core v" and f: "attr_only f" and v': "v_inodes v' = bt_modify c f (v_inodes v)"
    and same: "v_container v' = v_container v" "v_pending_free v' = v_pending_free v"
      "v_tree v' = (v_tree v)\<lparr>inodes := bt_modify c f (v_inodes v)\<rparr>" and op: "\<And>r en. spec_ns op r en = en" "\<not> replaces_link v op"
  shows "did v op r v'"
proof -
  note a = ns_attr [OF vfs_coreD(1) [OF core] f, of c]
  have "(\<exists>i. bt_get (v_inodes v) x = Some i \<and> inode_refs j = inode_refs i)" if "bt_get (bt_modify c f (v_inodes v)) x = Some j" for x j
    using that attr_onlyD(6) [OF f] by (auto split: if_splits)
  then have "keeps_slots v v'" unfolding keeps_slots_def v' using a(4) same by auto
  then show ?thesis using a by (simp add: did_def v' op)
qed

lemma did_chmod: "vfs_core v \<Longrightarrow> run_ns (Chmod c mode) v = (Inr r, v') \<Longrightarrow> did v (Chmod c mode) r v'"
  by (rule did_attr [OF _ attr_only_ops(1), of v v' c "mode AND 0xfff"]) (auto simp: chmod_def op_simps on_inodes_def)

lemma did_set_mtime: "vfs_core v \<Longrightarrow> run_ns (SetMtime c t) v = (Inr r, v') \<Longrightarrow> did v (SetMtime c t) r v'"
  by (rule did_attr [OF _ attr_only_ops(2), of v v' c t]) (auto simp: set_mtime_def op_simps on_inodes_def)

section \<open>Removing: unlink and rmdir\<close>

lemma saturating_sub_one: "saturating_sub_u32 1 1 = 0" "l \<noteq> 0 \<Longrightarrow> saturating_sub_u32 l 1 = 0 \<longleftrightarrow> l = 1"
  by (auto simp: saturating_sub_u32_def word_less_nat_alt unat_eq_0)

lemma release_link_last:
  assumes "bt_ok (v_inodes v)" "bt_get (v_inodes v) c = Some i" "i_link_count i = 1"
  shows "v_inodes (release_link c v) = bt_remove c (v_inodes v)"
    "v_pending_free (release_link c v) = v_pending_free v @ map cr_id (inode_refs i)"
    "v_container (release_link c v) = v_container v" "v_tree (release_link c v) = (v_tree v)\<lparr>inodes := bt_remove c (v_inodes v)\<rparr>"
  using assms by (simp_all add: release_link_def Let_def saturating_sub_one inode_refs_def on_inodes_def bt_remove_modify)

lemma release_link_more:
  assumes "bt_get (v_inodes v) c = Some i" "i_link_count i \<noteq> 1" "i_link_count i \<noteq> 0"
  shows "release_link c v = on_inodes (bt_modify c (\<lambda>i. i\<lparr>i_link_count := saturating_sub_u32 (i_link_count i) 1\<rparr>)) v"
  using assms by (simp add: release_link_def Let_def saturating_sub_one)

lemma directory_holding_Some:
  assumes "ns_core hide (v_inodes v)" "directory_holding v c = Some q"
  shows "\<exists>n. entry (v_inodes v) q n = Some c"
proof -
  from assms(2) obtain d where d: "d \<in> set (bt_values (v_inodes v))" "c \<in> set (bt_values (i_children d))" "q = i_id d"
    by (auto simp: directory_holding_def find_Some_iff in_set_conv_nth)
  from d(1) obtain x where x: "bt_get (v_inodes v) x = Some d" using bt_in_values [OF ns_coreD(2) [OF assms(1)]] by blast
  then have "x = q" using ns_coreD(3) [OF assms(1) x] d(3) by simp
  then have "(q, c) \<in> child_rel (v_inodes v)" using x d(2) by (simp add: child_rel_iff)
  then show ?thesis using child_rel_entry [OF ns_coreD(1) [OF assms(1)]] by blast
qed

lemma directory_holding_None:
  assumes "ns_core hide (v_inodes v)" "c \<in># refs (v_inodes v)"
  shows "directory_holding v c \<noteq> None"
proof -
  obtain q where "(q, c) \<in> child_rel (v_inodes v)" using assms child_rel_refs ns_coreD(2) by blast
  then obtain d where d: "bt_get (v_inodes v) q = Some d" "c \<in> set (bt_values (i_children d))" by (auto simp: child_rel_iff)
  then have "i_children d \<noteq> []" by (auto simp: bt_values_def)
  then have "i_kind d = Directory" using inode_ok_children ns_coreD(4) [OF assms(1) d(1)] by blast
  moreover have "d \<in> set (bt_values (v_inodes v))" using d(1) bt_in_values [OF ns_coreD(2) [OF assms(1)]] by blast
  ultimately show ?thesis using d(2) by (auto simp: directory_holding_def find_None_iff)
qed

text \<open>What removing an entry and a link from a leaf leaves behind.\<close>

definition dropped :: "Vfs \<Rightarrow> u64 \<Rightarrow> rstring \<Rightarrow> u64 \<Rightarrow> Inode \<Rightarrow> Vfs \<Rightarrow> bool" where
  "dropped v p n c i v' \<longleftrightarrow>
     keeps_slots v v' \<and> ns_core (v_hide v) (v_inodes v') \<and> entry (v_inodes v') = ns_del p n (entry (v_inodes v))
     \<and> (\<forall>x j. bt_get (v_inodes v') x = Some j \<longrightarrow> (\<exists>k. bt_get (v_inodes v) x = Some k \<and> i_kind k = i_kind j \<and> i_parent k = i_parent j))
     \<and> (bt_contains (v_inodes v') c \<longrightarrow> c \<in># refs (v_inodes v') \<and> i_link_count i \<noteq> 1)
     \<and> (\<forall>x. x \<noteq> c \<longrightarrow> bt_contains (v_inodes v) x \<longrightarrow> bt_contains (v_inodes v') x)
     \<and> (\<forall>x. x \<noteq> c \<longrightarrow> held (v_inodes v) x \<longrightarrow> held (v_inodes v') x)
     \<and> (parents_held (v_inodes v) \<longrightarrow> held (v_inodes v') c \<longrightarrow> parents_held (v_inodes v'))"

lemma keeps_slotsI:
  assumes "v_container v' = v_container v" "v_tree v' = (v_tree v)\<lparr>inodes := m'\<rparr>"
    and "slots m' + mset (v_pending_free v') = slots (v_inodes v) + mset (v_pending_free v)"
    and "\<And>x j. bt_get m' x = Some j \<Longrightarrow> \<exists>i. bt_get (v_inodes v) x = Some i \<and> inode_refs j = inode_refs i"
  shows "keeps_slots v v'"
  using assms unfolding keeps_slots_def by simp

lemma keeps_slots_trans:
  assumes "keeps_slots v v1" "keeps_slots v1 v2"
  shows "keeps_slots v v2"
proof -
  have "(\<exists>i. bt_get (v_inodes v) x = Some i \<and> inode_refs j = inode_refs i) \<or> x < next_file_id (v_tree v2) \<and> inode_refs j = []"
    if "bt_get (v_inodes v2) x = Some j" for x j
  proof -
    have g: "(\<exists>i. bt_get (v_inodes a) x = Some i \<and> inode_refs j = inode_refs i) \<or> x < next_file_id (v_tree b) \<and> inode_refs j = []"
      if "keeps_slots a b" "bt_get (v_inodes b) x = Some j" for a b x j
      using that unfolding keeps_slots_def by blast
    have n: "next_file_id (v_tree v1) \<le> next_file_id (v_tree v2)" using assms(2) by (simp add: keeps_slots_def)
    from g [OF assms(2) that] show ?thesis
    proof
      assume "\<exists>i. bt_get (v_inodes v1) x = Some i \<and> inode_refs j = inode_refs i"
      then obtain i where "bt_get (v_inodes v1) x = Some i" "inode_refs j = inode_refs i" by blast
      with g [OF assms(1)] n show ?thesis by (metis less_le_trans)
    qed blast
  qed
  moreover have "next_file_id (v_tree v) \<le> next_file_id (v_tree v2)"
    using assms by (auto simp: keeps_slots_def)
  ultimately show ?thesis using assms unfolding keeps_slots_def by simp
qed

lemma held_del:
  assumes "held m x" "x \<noteq> c" "entry m p n = Some c" "entry m' = (entry m)(p := (entry m p)(n := None))"
    and "\<And>j. bt_get m' x = Some j \<Longrightarrow> \<exists>i. bt_get m x = Some i \<and> i_parent i = i_parent j"
  shows "held m' x"
  unfolding held_def
proof (intro allI impI)
  fix j assume j: "bt_get m' x = Some j" "x \<noteq> 1"
  from assms(5) [OF j(1)] assms(1) j(2) obtain k where k: "entry m (i_parent j) k = Some x" unfolding held_def by metis
  then have "entry m' (i_parent j) k = Some x" using assms(2-4) by auto
  then show "\<exists>n. entry m' (i_parent j) n = Some x" by blast
qed

lemma drop_entry:
  assumes core: "vfs_core v" and e: "entry (v_inodes v) p n = Some c" and c: "bt_get (v_inodes v) c = Some i" "i_children i = []"
  shows "dropped v p n c i (release_link c (on_inodes (bt_modify p (del_child n)) v))" (is "dropped v p n c i ?v'")
proof -
  let ?m = "v_inodes v" and ?v1 = "on_inodes (bt_modify p (del_child n)) v"
  let ?m1 = "bt_modify p (del_child n) ?m"
  note ns = vfs_coreD(1) [OF core]
  note f = del_entry_facts [OF ns e c]
  have lc: "i_link_count i \<noteq> 0" using inode_ok_link(1) [OF ns_coreD(4) [OF ns c(1)]] .
  show ?thesis
  proof (cases "i_link_count i = 1")
    case True
    have rl: "v_inodes ?v' = bt_remove c ?m1" "v_pending_free ?v' = v_pending_free v @ map cr_id (inode_refs i)"
      "v_container ?v' = v_container v" "v_tree ?v' = (v_tree v)\<lparr>inodes := bt_remove c ?m1\<rparr>"
      using release_link_last [of ?v1 c i] f(3,7) True by (simp_all add: kids_okD on_inodes_def)
    note d = ns_drop_last [OF ns e c True]
    have get: "\<exists>k. bt_get ?m x = Some k \<and> i_kind k = i_kind j \<and> i_parent k = i_parent j \<and> inode_refs j = inode_refs k"
      if "bt_get (bt_remove c ?m1) x = Some j" for x j
      using that by (auto split: if_splits)
    have "keeps_slots v ?v'"
      unfolding keeps_slots_def rl(1,2) using d(4) get by (auto simp: rl ac_simps)
    moreover have "held (bt_remove c ?m1) x" if "x \<noteq> c" "held ?m x" for x
      by (rule held_del [OF that(2,1) e d(2)]) (use get in blast)
    ultimately show ?thesis
      unfolding dropped_def rl(1) using d(1,2,5) get by (auto simp: ns_del_def bt_contains_def)
  next
    case False
    then have fl: "i_kind i = File" using inode_ok_link(2) [OF ns_coreD(4) [OF ns c(1)]] by blast
    let ?g = "\<lambda>i. i\<lparr>i_link_count := saturating_sub_u32 (i_link_count i) 1\<rparr>"
    have v': "?v' = on_inodes (bt_modify c ?g) ?v1"
      using f(7) False lc by (intro release_link_more) simp_all
    then have vi: "v_inodes ?v' = bt_modify c ?g ?m1" by simp
    note d = ns_drop_link [OF ns e c(1) fl False]
    have get: "\<exists>k. bt_get ?m x = Some k \<and> i_kind k = i_kind j \<and> i_parent k = i_parent j \<and> inode_refs j = inode_refs k"
      if "bt_get (bt_modify c ?g ?m1) x = Some j" for x j
      using that f(1) by (auto simp: inode_refs_def del_child_def split: if_splits)
    have "keeps_slots v ?v'"
    proof (rule keeps_slotsI)
      show "v_tree ?v' = (v_tree v)\<lparr>inodes := bt_modify c ?g ?m1\<rparr>" unfolding v' by (simp add: on_inodes_def)
    qed (use v' d(4) get in \<open>simp_all del: bt_get_modify, blast\<close>)
    moreover have "held (bt_modify c ?g ?m1) x" if "x \<noteq> c" "held ?m x" for x
      by (rule held_del [OF that(2,1) e d(2)]) (use get in blast)
    ultimately show ?thesis
      unfolding dropped_def vi using d(1,2,5,6) get False by (auto simp: ns_del_def bt_contains_def)
  qed
qed

lemma did_unlink:
  assumes core: "vfs_core v" and run: "run_ns (Unlink p n) v = (Inr r, v')"
  shows "did v (Unlink p n) r v'"
proof -
  note ns = vfs_coreD(1) [OF core]
  from run obtain d c i where d: "bt_get (v_inodes v) p = Some d" "bt_get (i_children d) n = Some c"
    and c: "bt_get (v_inodes v) c = Some i" "i_kind i \<noteq> Directory"
    and v': "v' = (adopt_parent c p (release_link c (on_inodes (bt_modify p (del_child n)) v)))\<lparr>v_dirty := True\<rparr>"
    by (auto simp: unlink_def op_simps require_dir_Inr ok_or_Inr unwrap_inode_Inr split: if_splits)
  have e: "entry (v_inodes v) p n = Some c" using d by (simp add: entry_def)
  define v2 where "v2 = release_link c (on_inodes (bt_modify p (del_child n)) v)"
  have "dropped v p n c i v2"
    unfolding v2_def using inode_ok_children [OF ns_coreD(4) [OF ns c(1)] c(2)] by (intro drop_entry [OF core e c(1)])
  then have dr: "keeps_slots v v2" "ns_core (v_hide v) (v_inodes v2)" "entry (v_inodes v2) = ns_del p n (entry (v_inodes v))"
    and par: "\<And>x j. bt_get (v_inodes v2) x = Some j \<Longrightarrow> \<exists>k. bt_get (v_inodes v) x = Some k \<and> i_parent k = i_parent j"
    and cr: "bt_contains (v_inodes v2) c \<Longrightarrow> c \<in># refs (v_inodes v2)"
    and hx: "\<And>x. x \<noteq> c \<Longrightarrow> held (v_inodes v) x \<Longrightarrow> held (v_inodes v2) x"
    and ph: "parents_held (v_inodes v) \<Longrightarrow> held (v_inodes v2) c \<Longrightarrow> parents_held (v_inodes v2)"
    unfolding dropped_def by blast+
  have c1: "c \<noteq> 1" by (rule entry_dir(3) [OF ns e])
  show ?thesis
  proof (cases "\<exists>j. bt_get (v_inodes v2) c = Some j \<and> i_parent j = p")
    case True
    then obtain j where j: "bt_get (v_inodes v2) c = Some j" "i_parent j = p" by blast
    then have "c \<in># refs (v_inodes v2)" using cr by (simp add: bt_contains_def)
    then obtain q where q: "directory_holding v2 c = Some q" using directory_holding_None [OF dr(2)] by blast
    obtain k where k: "entry (v_inodes v2) q k = Some c" using directory_holding_Some [OF dr(2) q] by blast
    have v'': "v' = on_inodes (bt_modify c (\<lambda>i. i\<lparr>i_parent := q\<rparr>)) v2\<lparr>v_dirty := True\<rparr>"
      using j q by (simp add: v' v2_def [symmetric] adopt_parent_def)
    note sp = ns_set_parent [OF dr(2) c1, of q]
    have "\<exists>i. bt_get (v_inodes v2) x = Some i \<and> inode_refs y = inode_refs i"
      if "bt_get (bt_modify c (\<lambda>i. i\<lparr>i_parent := q\<rparr>) (v_inodes v2)) x = Some y" for x y
      using that by (auto simp: inode_refs_def split: if_splits)
    then have "keeps_slots v2 v'"
      using sp(4) unfolding keeps_slots_def v'' by auto
    with dr(1) have "keeps_slots v v'" by (rule keeps_slots_trans)
    moreover have "parents_held (v_inodes v')" if "parents_held (v_inodes v)"
      using sp(5) [OF _ k] hx that unfolding parents_held_def by (simp add: v'')
    ultimately show ?thesis using sp(1,2) dr(3) by (simp add: did_def v'')
  next
    case False
    then have v'': "v' = v2\<lparr>v_dirty := True\<rparr>"
      by (auto simp: v' v2_def [symmetric] adopt_parent_def split: option.splits)
    have "held (v_inodes v2) c" if h: "parents_held (v_inodes v)"
      unfolding held_def
    proof (intro allI impI)
      fix j assume j: "bt_get (v_inodes v2) c = Some j"
      then have "i_parent j \<noteq> p" using False by blast
      moreover obtain k where "entry (v_inodes v) (i_parent j) k = Some c"
        using par [OF j] h c1 unfolding parents_held_def held_def by metis
      ultimately show "\<exists>n. entry (v_inodes v2) (i_parent j) n = Some c" using dr(3) by (auto simp: ns_del_def)
    qed
    then show ?thesis using dr ph by (simp add: did_def v'' keeps_slots_def)
  qed
qed

lemma did_rmdir:
  assumes core: "vfs_core v" and run: "run_ns (Rmdir p n) v = (Inr r, v')"
  shows "did v (Rmdir p n) r v'"
proof -
  note ns = vfs_coreD(1) [OF core]
  from run obtain d c i where d: "bt_get (v_inodes v) p = Some d" "bt_get (i_children d) n = Some c"
    and c: "bt_get (v_inodes v) c = Some i" "i_kind i = Directory" "i_children i = []"
    and v': "v' = on_inodes (bt_modify p (del_child n)) (on_inodes (bt_remove c) v)\<lparr>v_dirty := True\<rparr>"
    by (auto simp: rmdir_def op_simps require_dir_Inr ok_or_Inr unwrap_inode_Inr split: if_splits)
  have e: "entry (v_inodes v) p n = Some c" using d by (simp add: entry_def)
  have one: "i_link_count i = 1" "inode_refs i = []" using ns_coreD(4) [OF ns c(1)] c(2) by (simp_all add: inode_ok_def)
  note dl = ns_drop_last [OF ns e c(1,3) one(1)]
  have pc: "p \<noteq> c" using del_entry_facts(1) [OF ns e c(1,3)] .
  have vi: "v_inodes v' = bt_remove c (bt_modify p (del_child n) (v_inodes v))"
    using bt_modify_remove [OF ns_coreD(2) [OF ns] pc] by (simp add: v')
  have "\<exists>i. bt_get (v_inodes v) x = Some i \<and> inode_refs y = inode_refs i"
    if "bt_get (bt_remove c (bt_modify p (del_child n) (v_inodes v))) x = Some y" for x y
    using that by (auto split: if_splits)
  then have "keeps_slots v v'"
    using dl(4) one(2) unfolding keeps_slots_def vi by (auto simp: v')
  then show ?thesis using dl by (simp add: did_def vi ns_del_def)
qed

section \<open>Renaming\<close>

lemma bt_modify_commute: "bt_ok m \<Longrightarrow> a \<noteq> b \<Longrightarrow> bt_modify a f (bt_modify b g m) = bt_modify b g (bt_modify a f m)"
  by (rule bt_eqI) auto

lemma move_entry_inodes:
  "bt_ok (v_inodes v) \<Longrightarrow>
     move_entry op on np nn src v =
       on_inodes (\<lambda>m. if op = np then move_inodes op on np nn src m
                      else bt_modify src (\<lambda>i. i\<lparr>i_parent := np\<rparr>) (move_inodes op on np nn src m)) v"
  by (auto simp: move_entry_def move_inodes_def on_inodes_def bt_modify_modify)

lemma move_inodes_overwrite:
  assumes "kids_ok m"
  shows "move_inodes op on np nn src (bt_modify np (del_child nn) m) = move_inodes op on np nn src m"
proof (rule bt_eqI)
  have ok: "bt_ok m" using kids_okD(1) [OF assms] .
  show "bt_ok (move_inodes op on np nn src (bt_modify np (del_child nn) m))" "bt_ok (move_inodes op on np nn src m)"
    using ok by (simp_all add: move_inodes_def)
  fix x
  have ch: "bt_get m x = Some i \<Longrightarrow> bt_ok (i_children i)" for i using kids_okD(2) [OF assms] .
  have "add_child nn src (del_child on (del_child nn i)) = add_child nn src (del_child on i)"
    "add_child nn src (del_child nn i) = add_child nn src i" if "bt_get m x = Some i" for i
    using ch [OF that] by (simp_all add: add_child_def del_child_def bt_insert_removed)
  then show "bt_get (move_inodes op on np nn src (bt_modify np (del_child nn) m)) x = bt_get (move_inodes op on np nn src m) x"
    by (cases "bt_get m x") (auto simp: move_inodes_def)
qed

lemma release_link_modify:
  assumes "bt_ok (v_inodes v)" "p \<noteq> c"
  shows "release_link c (on_inodes (bt_modify p f) v) = on_inodes (bt_modify p f) (release_link c v)"
  using assms
  by (simp add: release_link_def Let_def on_inodes_def bt_modify_commute [of _ c p] bt_modify_remove [symmetric] split: option.splits)

lemma kids_ok_release: "kids_ok (v_inodes v) \<Longrightarrow> kids_ok (v_inodes (release_link c v))"
  by (simp add: release_link_def Let_def split: option.splits)

text \<open>Moving onto a name that was taken is moving onto the name freed first.\<close>

lemma move_over:
  assumes "kids_ok (v_inodes v)" "np \<noteq> dst"
  shows "move_entry op on np nn src (release_link dst v)
     = move_entry op on np nn src (release_link dst (on_inodes (bt_modify np (del_child nn)) v))"
proof -
  let ?w = "release_link dst v"
  have k: "kids_ok (v_inodes ?w)" using kids_ok_release [OF assms(1)] .
  have "on_inodes g (on_inodes f w) = on_inodes (\<lambda>m. g (f m)) w" for g f w by (simp add: on_inodes_def)
  then show ?thesis
    using release_link_modify [OF kids_okD(1) [OF assms(1)] assms(2), of "del_child nn"] k
    by (simp add: move_entry_inodes kids_okD(1)) (simp add: on_inodes_def move_inodes_overwrite [OF k])
qed

lemma move_effect:
  assumes ns: "ns_core hide (v_inodes v)" and e: "entry (v_inodes v) op on = Some src"
    and np: "dir_at (v_inodes v) np" "entry (v_inodes v) np nn = None" and name: "is_ok (validate_name nn)"
    and cycle: "dir_at (v_inodes v) src \<longrightarrow> np \<noteq> src \<and> (src, np) \<notin> (child_rel (v_inodes v))\<^sup>+"
  defines "v' \<equiv> move_entry op on np nn src v"
  shows "keeps_slots v v' \<and> ns_core hide (v_inodes v') \<and> entry (v_inodes v') = ns_add np nn src (ns_del op on (entry (v_inodes v)))
     \<and> (parents_held (v_inodes v) \<longrightarrow> parents_held (v_inodes v'))"
proof -
  let ?m = "v_inodes v" and ?m1 = "move_inodes op on np nn src (v_inodes v)"
  note mv = ns_move [OF ns e np name cycle]
  have src1: "src \<noteq> 1" using entry_dir(3) [OF ns e] .
  have en: "entry ?m1 = ns_add np nn src (ns_del op on (entry ?m))" using mv(2) by (simp add: ns_add_def ns_del_def Let_def)
  have get1: "\<exists>i. bt_get ?m x = Some i \<and> inode_refs j = inode_refs i" if "bt_get ?m1 x = Some j" for x j
    using that by (auto simp: move_inodes_def split: if_splits)
  show ?thesis
  proof (cases "op = np")
    case True
    have v': "v' = on_inodes (move_inodes op on np nn src) v"
      using True ns_coreD(2) [OF ns] by (simp add: v'_def move_entry_inodes)
    have "keeps_slots v v'" by (rule keeps_slotsI [of _ _ ?m1]) (use mv(4) get1 in \<open>simp_all add: v' on_inodes_def\<close>)
    moreover have "parents_held ?m1" if "parents_held ?m"
      using that mv(5,6) True unfolding parents_held_def by metis
    ultimately show ?thesis using mv(1) en by (simp add: v')
  next
    case False
    let ?m2 = "bt_modify src (\<lambda>i. i\<lparr>i_parent := np\<rparr>) ?m1"
    have v': "v' = on_inodes (\<lambda>_. ?m2) v"
      using False ns_coreD(2) [OF ns] by (simp add: v'_def move_entry_inodes on_inodes_def)
    note sp = ns_set_parent [OF mv(1) src1, of np]
    have e1: "entry ?m1 np nn = Some src" by (simp add: en ns_add_def)
    have "keeps_slots v v'"
    proof (rule keeps_slotsI)
      show "v_tree v' = (v_tree v)\<lparr>inodes := ?m2\<rparr>" by (simp add: v' on_inodes_def)
      show "\<exists>i. bt_get ?m x = Some i \<and> inode_refs j = inode_refs i" if "bt_get ?m2 x = Some j" for x j
      proof -
        from that obtain k where "bt_get ?m1 x = Some k" "inode_refs j = inode_refs k"
          by (auto simp: inode_refs_def split: if_splits)
        then show ?thesis using get1 by metis
      qed
    qed (use mv(4) sp(4) in \<open>simp_all add: v'\<close>)
    moreover have "parents_held ?m2" if "parents_held ?m"
      by (rule sp(5) [OF _ e1]) (use that mv(5) in \<open>auto simp: parents_held_def\<close>)
    ultimately show ?thesis using sp(1,2) en by (simp add: v')
  qed
qed

lemma did_nothing: "vfs_core v \<Longrightarrow> spec_ns op r (entry (v_inodes v)) = entry (v_inodes v) \<Longrightarrow> did v op r v"
  using vfs_coreD(1) by (auto simp: did_def keeps_slots_def)

lemma rename_plan_Inr:
  assumes "rename_plan op on np nn v = Inr plan"
  obtains src i where "entry (v_inodes v) op on = Some src" "bt_get (v_inodes v) src = Some i" "dir_at (v_inodes v) np"
    "i_kind i = Directory \<longrightarrow> np \<noteq> src \<and> (src, np) \<notin> (child_rel (v_inodes v))\<^sup>+"
    "plan = None \<Longrightarrow> entry (v_inodes v) np nn = Some src"
    "\<And>s d. plan = Some (s, d) \<Longrightarrow> s = src \<and> entry (v_inodes v) np nn = d \<and> d \<noteq> Some src"
    "\<And>s dst. plan = Some (s, Some dst) \<Longrightarrow> \<exists>j. bt_get (v_inodes v) dst = Some j \<and> (i_kind j = Directory \<longrightarrow> i_children j = [])"
proof -
  from assms obtain od src nd i disp where od: "bt_get (v_inodes v) op = Some od" "bt_get (i_children od) on = Some src"
    and nd: "bt_get (v_inodes v) np = Some nd" "i_kind nd = Directory" and i: "bt_get (v_inodes v) src = Some i"
    and cyc: "\<not> (i_kind i = Directory \<and> (np = src \<or> is_descendant_of (v_tree v) src np))"
    and disp: "displaced_by v src (i_kind i) nd nn = Inr disp" and plan: "plan = map_option (\<lambda>d. (src, d)) disp"
    by (auto simp: rename_plan_def bindE_eq_Inr ok_or_Inr require_dir_Inr unwrap_inode_Inr split: if_splits)
  have en: "entry (v_inodes v) np nn = bt_get (i_children nd) nn" using nd by (simp add: entry_def)
  show thesis
  proof (rule that)
    show "entry (v_inodes v) op on = Some src" using od by (simp add: entry_def)
    show "dir_at (v_inodes v) np" using nd by (simp add: dir_at_def)
    show "i_kind i = Directory \<longrightarrow> np \<noteq> src \<and> (src, np) \<notin> (child_rel (v_inodes v))\<^sup>+"
      using cyc by (auto simp: is_descendant_of_iff)
    show "entry (v_inodes v) np nn = Some src" if "plan = None"
      using disp that plan by (auto simp: displaced_by_def en bindE_eq_Inr split: option.splits if_splits)
    show "s = src \<and> entry (v_inodes v) np nn = d \<and> d \<noteq> Some src" if "plan = Some (s, d)" for s d
      using disp that plan by (auto simp: displaced_by_def en bindE_eq_Inr split: option.splits if_splits)
    show "\<exists>j. bt_get (v_inodes v) dst = Some j \<and> (i_kind j = Directory \<longrightarrow> i_children j = [])" if "plan = Some (s, Some dst)" for s dst
      using disp that plan by (auto simp: displaced_by_def bindE_eq_Inr unwrap_inode_Inr split: option.splits if_splits)
  qed (rule i)
qed

lemma child_rel_mono: "kids_ok m \<Longrightarrow> kids_ok m' \<Longrightarrow> (\<And>d n c. entry m d n = Some c \<Longrightarrow> entry m' d n = Some c) \<Longrightarrow> child_rel m \<subseteq> child_rel m'"
  by (rule subrelI) (metis child_rel_entry)

lemma rename_effect:
  assumes core: "vfs_core v" and name: "is_ok (validate_name nn)" and plan: "rename_plan op on np nn v = Inr (Some (src, displaced))"
  defines "v' \<equiv> move_entry op on np nn src (case displaced of None \<Rightarrow> v | Some dst \<Rightarrow> release_link dst v)"
  shows "did v (Rename op on np nn) r v'"
proof -
  note ns = vfs_coreD(1) [OF core]
  obtain src' i where pl: "entry (v_inodes v) op on = Some src'" "bt_get (v_inodes v) src' = Some i" "dir_at (v_inodes v) np"
    "i_kind i = Directory \<longrightarrow> np \<noteq> src' \<and> (src', np) \<notin> (child_rel (v_inodes v))\<^sup>+"
    and pd: "\<And>s d. Some (src, displaced) = Some (s, d) \<Longrightarrow> s = src' \<and> entry (v_inodes v) np nn = d \<and> d \<noteq> Some src'"
    and pj: "\<And>s dst. Some (src, displaced) = Some (s, Some dst) \<Longrightarrow>
        \<exists>j. bt_get (v_inodes v) dst = Some j \<and> (i_kind j = Directory \<longrightarrow> i_children j = [])"
    by (rule rename_plan_Inr [OF plan]) blast
  have s: "src' = src" and d: "entry (v_inodes v) np nn = displaced" "displaced \<noteq> Some src" using pd [OF refl] by auto
  note e = pl(1) [unfolded s] and i = pl(2) [unfolded s] and np = pl(3) and cyc = pl(4) [unfolded s]
  have leaf: "\<exists>j. bt_get (v_inodes v) dst = Some j \<and> (i_kind j = Directory \<longrightarrow> i_children j = [])" if "displaced = Some dst" for dst
    using pj that by blast
  have cyc': "dir_at (v_inodes v) src \<longrightarrow> np \<noteq> src \<and> (src, np) \<notin> (child_rel (v_inodes v))\<^sup>+"
    using cyc i by (auto simp: dir_at_def)
  have spec: "spec_ns (Rename op on np nn) r (entry (v_inodes v)) = ns_add np nn src (ns_del op on (entry (v_inodes v)))"
    using e d by auto
  show ?thesis
  proof (cases displaced)
    case None
    then show ?thesis
      using move_effect [OF ns e np _ name cyc'] d(1) unfolding did_def spec v'_def by simp
  next
    case (Some dst)
    obtain j where j: "bt_get (v_inodes v) dst = Some j" "i_kind j = Directory \<longrightarrow> i_children j = []" using leaf [OF Some] by blast
    have jc: "i_children j = []" using j inode_ok_children [OF ns_coreD(4) [OF ns j(1)]] by blast
    have ed: "entry (v_inodes v) np nn = Some dst" using d(1) Some by simp
    have npd: "np \<noteq> dst" using del_entry_facts(1) [OF ns ed j(1) jc] .
    define w where "w = release_link dst (on_inodes (bt_modify np (del_child nn)) v)"
    have v'w: "v' = move_entry op on np nn src w"
      unfolding v'_def w_def using move_over [OF ns_coreD(1) [OF ns] npd] Some by simp
    have "dropped v np nn dst j w" unfolding w_def by (rule drop_entry [OF core ed j(1) jc])
    then have dr: "keeps_slots v w" "ns_core (v_hide v) (v_inodes w)" "entry (v_inodes w) = ns_del np nn (entry (v_inodes v))"
      and kd: "\<And>x k. bt_get (v_inodes w) x = Some k \<Longrightarrow> \<exists>l. bt_get (v_inodes v) x = Some l \<and> i_kind l = i_kind k"
      and gone: "bt_contains (v_inodes w) dst \<Longrightarrow> i_link_count j \<noteq> 1"
      and rest: "\<And>x. x \<noteq> dst \<Longrightarrow> bt_contains (v_inodes v) x \<Longrightarrow> bt_contains (v_inodes w) x"
      and ph: "parents_held (v_inodes v) \<Longrightarrow> held (v_inodes w) dst \<Longrightarrow> parents_held (v_inodes w)"
      unfolding dropped_def by blast+
    have ne: "(op, on) \<noteq> (np, nn)" using e ed d(2) Some by auto
    then have ew: "entry (v_inodes w) op on = Some src" using e dr(3) by (auto simp: ns_del_def)
    have ew': "entry (v_inodes w) np nn = None" by (simp add: dr(3) ns_del_def)
    have dw: "dir_at (v_inodes w) x \<Longrightarrow> dir_at (v_inodes v) x" for x unfolding dir_at_def using kd by metis
    have npw: "dir_at (v_inodes w) np"
      using rest [OF npd] np kd unfolding dir_at_def bt_contains_def by (metis not_None_eq option.inject)
    have "child_rel (v_inodes w) \<subseteq> child_rel (v_inodes v)"
      by (rule child_rel_mono [OF ns_coreD(1) [OF dr(2)] ns_coreD(1) [OF ns]]) (auto simp: dr(3) ns_del_def split: if_splits)
    then have "(src, np) \<in> (child_rel (v_inodes w))\<^sup>+ \<Longrightarrow> (src, np) \<in> (child_rel (v_inodes v))\<^sup>+" by (rule trancl_mono [rotated])
    then have cw: "dir_at (v_inodes w) src \<longrightarrow> np \<noteq> src \<and> (src, np) \<notin> (child_rel (v_inodes w))\<^sup>+" using cyc' dw by blast
    note mv = move_effect [OF dr(2) ew npw ew' name cw, folded v'w]
    have en: "ns_add np nn src (ns_del op on (entry (v_inodes w))) = ns_add np nn src (ns_del op on (entry (v_inodes v)))"
      unfolding dr(3) by (auto simp: ns_add_def ns_del_def fun_eq_iff)
    have "parents_held (v_inodes v')" if "parents_held (v_inodes v)" "\<not> replaces_link v (Rename op on np nn)"
    proof -
      have "i_link_count j = 1" using that(2) e ed j(1) d(2) Some by simp
      then have "held (v_inodes w) dst" using gone by (auto simp: held_def bt_contains_def)
      then show ?thesis using mv ph that(1) by blast
    qed
    moreover have "keeps_slots v v'" using keeps_slots_trans [OF dr(1)] mv by blast
    ultimately show ?thesis unfolding did_def spec using mv en by simp
  qed
qed

lemma did_rename:
  assumes core: "vfs_core v" and run: "run_ns (Rename op on np nn) v = (Inr r, v')"
  shows "did v (Rename op on np nn) r v'"
proof -
  have dirty: "did v o' r (w\<lparr>v_dirty := True\<rparr>) = did v o' r w" for w o' by (simp add: did_def keeps_slots_def)
  from run have l: "rename op on np nn v = (Inr (), v')" by (simp add: op_simps)
  show ?thesis
  proof (cases "op = np \<and> on = nn")
    case True
    with l obtain d where d: "bt_get (v_inodes v) np = Some d" "bt_contains (i_children d) nn" and v': "v' = v"
      by (auto simp: rename_def op_simps require_dir_Inr split: if_splits)
    then show ?thesis using True by (auto intro!: did_nothing [OF core] simp: entry_def bt_contains_def)
  next
    case False
    with l obtain x plan where nm: "validate_new_name nn = Inr x" and plan: "rename_plan op on np nn v = Inr plan"
      and rest: "(case plan of
         None \<Rightarrow> retR ()
       | Some (src_id, displaced) \<Rightarrow>
           bindR (modV (case displaced of None \<Rightarrow> (\<lambda>v. v) | Some dst_id \<Rightarrow> release_link dst_id)) (\<lambda>_.
           bindR (modV (move_entry op on np nn src_id)) (\<lambda>_.
           modV (\<lambda>v. v\<lparr>v_dirty := True\<rparr>)))) v = (Inr (), v')"
      by (auto simp: rename_def op_simps split: if_splits)
    show ?thesis
    proof (cases plan)
      case None
      then have "v' = v" using rest by (simp add: retR_eq)
      moreover obtain src where "entry (v_inodes v) op on = Some src" "entry (v_inodes v) np nn = Some src"
        using rename_plan_Inr [OF plan] None by metis
      ultimately show ?thesis by (auto intro!: did_nothing [OF core])
    next
      case (Some p)
      obtain src disp where p: "p = (src, disp)" by (cases p)
      have "v' = (move_entry op on np nn src (case disp of None \<Rightarrow> v | Some dst \<Rightarrow> release_link dst v))\<lparr>v_dirty := True\<rparr>"
        using rest Some p by (auto simp: op_simps split: option.splits)
      then show ?thesis
        using rename_effect [OF core validate_new_name_ok [OF nm]] plan Some p by (simp add: dirty)
    qed
  qed
qed

lemma did_op: "vfs_core v \<Longrightarrow> run_ns op v = (Inr r, v') \<Longrightarrow> did v op r v'"
  by (cases op)
    (auto intro: did_mkdir did_create did_symlink did_link did_unlink did_rmdir did_rename did_chmod did_set_mtime simp del: run_ns.simps)

section \<open>Sequences of operations\<close>

text \<open>The states a session goes through; \<open>plain\<close> sessions never rename over one of several links.\<close>

inductive ns_reaches :: "bool \<Rightarrow> Vfs \<Rightarrow> Vfs \<Rightarrow> bool" for plain v0 where
  ns_start: "ns_reaches plain v0 v0"
| ns_step: "ns_reaches plain v0 v \<Longrightarrow> plain \<longrightarrow> \<not> replaces_link v op \<Longrightarrow> run_ns op v = (res, v') \<Longrightarrow> ns_reaches plain v0 v'"

lemma failed_keeps: "run_ns op v = (Inl e, v') \<Longrightarrow> v' = v"
  using atomic_run_ns [of op] unfolding atomic_def by blast

lemma step_core:
  assumes "vfs_core v" "run_ns op v = (res, v')" "next_file_id (v_tree v') < 0x8000000000000000"
  shows "vfs_core v'" "next_file_id (v_tree v) \<le> next_file_id (v_tree v')" "v_container v' = v_container v"
    "parents_held (v_inodes v) \<Longrightarrow> \<not> replaces_link v op \<Longrightarrow> parents_held (v_inodes v')"
proof -
  have "vfs_core v' \<and> next_file_id (v_tree v) \<le> next_file_id (v_tree v') \<and> v_container v' = v_container v
     \<and> (parents_held (v_inodes v) \<longrightarrow> \<not> replaces_link v op \<longrightarrow> parents_held (v_inodes v'))"
  proof (cases res)
    case (Inl e)
    then show ?thesis using failed_keeps assms(1,2) by auto
  next
    case (Inr r)
    then have "did v op r v'" using did_op assms(1,2) by blast
    then show ?thesis using vfs_core_keep [OF assms(1) _ _ assms(3)] by (auto simp: did_def keeps_slots_def)
  qed
  then show "vfs_core v'" "next_file_id (v_tree v) \<le> next_file_id (v_tree v')" "v_container v' = v_container v"
    "parents_held (v_inodes v) \<Longrightarrow> \<not> replaces_link v op \<Longrightarrow> parents_held (v_inodes v')" by blast+
qed

text \<open>Ids are never given back.\<close>

definition grows :: "'a vop \<Rightarrow> bool" where
  "grows m \<longleftrightarrow> (\<forall>v x v'. m v = (x, v') \<longrightarrow> next_file_id (v_tree v) \<le> next_file_id (v_tree v'))"

lemma grows_bind: "grows m \<Longrightarrow> (\<And>x. grows (f x)) \<Longrightarrow> grows (bindR m f)"
  unfolding grows_def bindR_def by (auto split: sum.splits prod.splits) (meson order_trans)+

lemma grows_simps: "grows (readV g)" "grows (liftR m)" "grows (retR x)" "grows (failR e)"
  by (simp_all add: grows_def readV_def liftR_def retR_def failR_def)

lemma next_file_id_frame [simp]:
  "next_file_id (v_tree (release_link c v)) = next_file_id (v_tree v)"
  "next_file_id (v_tree (adopt_parent c p v)) = next_file_id (v_tree v)"
  "next_file_id (v_tree (move_entry op on np nn c v)) = next_file_id (v_tree v)"
  by (simp_all add: release_link_def adopt_parent_def move_entry_def Let_def split: option.splits)

lemma grows_modV: "(\<And>v. next_file_id (v_tree (f v)) = next_file_id (v_tree v)) \<Longrightarrow> grows (modV f)"
  by (simp add: grows_def modV_def)

lemma grows_alloc: "grows alloc_fid"
proof -
  have "a \<le> a + 1" if "unat a + 1 < 2 ^ 64" for a :: u64 using next_fid_grows [OF that] by simp
  then show ?thesis
    unfolding grows_def alloc_fid_def alloc_file_id_def checked_add_u64_def by (auto split: option.splits if_splits)
qed

lemma grows_if: "grows m \<Longrightarrow> grows m' \<Longrightarrow> grows (if b then m else m')"
  by simp

lemmas grows_intros = grows_bind grows_simps grows_modV grows_alloc grows_if

lemma grows_run_ns: "grows (run_ns op)"
  by (cases op)
    (auto simp: mkdir_def create_with_mode_def symlink_def add_inode_def link_def unlink_def rmdir_def rename_def chmod_def
      set_mtime_def intro!: grows_intros split: InodeKind.splits option.splits prod.splits)

lemma reaches_core:
  "ns_reaches plain v0 v \<Longrightarrow> vfs_core v0 \<Longrightarrow> next_file_id (v_tree v) < 0x8000000000000000 \<Longrightarrow>
     vfs_core v \<and> v_container v = v_container v0 \<and> (plain \<longrightarrow> parents_held (v_inodes v0) \<longrightarrow> parents_held (v_inodes v))"
proof (induction rule: ns_reaches.induct)
  case (ns_step v op res v')
  have "next_file_id (v_tree v) < 0x8000000000000000"
    using grows_run_ns [of op] ns_step.hyps(3) ns_step.prems(2) unfolding grows_def by (meson le_less_trans)
  then show ?case using ns_step step_core [OF _ ns_step.hyps(3)] by auto
qed simp


section \<open>What a caller sees\<close>

definition ns_of :: "Vfs \<Rightarrow> ns" where
  "ns_of v d n = (case lookup v d n of Inl _ \<Rightarrow> None | Inr c \<Rightarrow> Some c)"

lemma ns_of_entry: "ns_core hide (v_inodes v) \<Longrightarrow> ns_of v = entry (v_inodes v)"
proof (intro ext)
  fix d n assume ns: "ns_core hide (v_inodes v)"
  show "ns_of v d n = entry (v_inodes v) d n"
  proof (cases "bt_get (v_inodes v) d")
    case (Some i)
    then show ?thesis
      using inode_ok_children [OF ns_coreD(4) [OF ns Some]]
      by (cases "i_kind i = Directory") (auto simp: ns_of_def lookup_def require_dir_def entry_def ok_or_def split: option.splits)
  qed (simp add: ns_of_def lookup_def require_dir_def entry_def ok_or_def)
qed

section \<open>No operation panics\<close>

definition calm :: "vfs_error + 'a \<Rightarrow> bool" where
  "calm x \<longleftrightarrow> (\<forall>s. x \<noteq> Inl (VCrypto (Panic s)))"

lemma bindR_calm:
  "calm (fst (m v)) \<Longrightarrow> (\<And>x v'. m v = (Inr x, v') \<Longrightarrow> calm (fst (f x v'))) \<Longrightarrow> calm (fst (bindR m f v))"
  by (cases "m v"; cases "fst (m v)") (auto simp: bindR_def calm_def)

lemma bindE_calm: "calm m \<Longrightarrow> (\<And>x. m = Inr x \<Longrightarrow> calm (f x)) \<Longrightarrow> calm (bindE m f)"
  by (cases m) (auto simp: calm_def)

lemma calm_simps [simp]: "calm (Inr x)" "calm (fst (retR y v))" "calm (fst (modV g v))" "fst (readV h v) = h v" "fst (liftR z v) = z"
  "fst (failR e v) = Inl e" "calm (ok_or NotFound o')" "calm (ensure_writable v)" "calm (validate_name n)" "calm (validate_new_name n)"
  "calm (require_dir v p)" "calm (fst (alloc_fid v))"
  by (auto simp: calm_def retR_def modV_def readV_def liftR_def failR_def ok_or_def ensure_writable_def validate_name_def
      validate_new_name_def require_dir_def alloc_fid_def bindE_def split: option.splits sum.splits)

lemma calm_Inl [simp]: "calm (Inl e) \<longleftrightarrow> (\<forall>s. e \<noteq> VCrypto (Panic s))"
  by (simp add: calm_def)

lemma calm_unwrap: "bt_contains (v_inodes v) c \<Longrightarrow> calm (unwrap_inode v c)"
  by (auto simp: unwrap_inode_def bt_contains_def ok_or_def)

lemma child_contained: "vfs_core v \<Longrightarrow> require_dir v p = Inr d \<Longrightarrow> bt_get (i_children d) n = Some c \<Longrightarrow> bt_contains (v_inodes v) c"
  using entry_dir(2) [OF vfs_coreD(1), of v p n c] by (simp add: require_dir_Inr entry_def)

lemma calm_displaced: "vfs_core v \<Longrightarrow> require_dir v p = Inr d \<Longrightarrow> calm (displaced_by v s k d n)"
  unfolding displaced_by_def
  by (auto simp: unwrap_inode_Inr split: option.splits intro!: bindE_calm calm_unwrap child_contained)

lemma calm_plan: "vfs_core v \<Longrightarrow> calm (rename_plan op on np nn v)"
  unfolding rename_plan_def
  by (intro bindE_calm) (auto simp: ok_or_Inr intro!: bindE_calm calm_unwrap calm_displaced intro: child_contained)

lemma calm_add_inode [simp]: "calm (fst (add_inode now p n k sz mode target v))"
  unfolding add_inode_def by (auto intro!: bindR_calm)

lemma calm_run_ns:
  assumes "vfs_core v"
  shows "calm (fst (run_ns op v))"
proof (cases op)
  case (Unlink p n)
  then show ?thesis
    using child_contained [OF assms] by (auto simp: unlink_def readV_eq liftR_eq ok_or_Inr intro!: bindR_calm calm_unwrap)
next
  case (Rmdir p n)
  then show ?thesis
    using child_contained [OF assms] by (auto simp: rmdir_def readV_eq liftR_eq ok_or_Inr intro!: bindR_calm calm_unwrap)
next
  case (Rename a b c d)
  then show ?thesis
    using calm_plan [OF assms] by (auto simp: rename_def readV_eq liftR_eq intro!: bindR_calm split: option.splits)
qed (auto simp: mkdir_def create_with_mode_def symlink_def link_def chmod_def set_mtime_def readV_eq liftR_eq intro!: bindR_calm split: InodeKind.splits)

definition demo_vfs :: Vfs where
  "demo_vfs = \<lparr>v_container = demo_container, v_tree = tree_new, v_dirty = False, v_format = V5, v_tolerated_inodes = [],
     v_chunks_dirty = {}, v_pending_free = [], v_cow_floor_gen = 1, v_max_vault_size = 0\<rparr>"

fun run_all :: "ns_op list \<Rightarrow> Vfs \<Rightarrow> Vfs" where
  "run_all [] v = v"
| "run_all (op # ops) v = run_all ops (snd (run_ns op v))"

lemma reaches_run_all: "ns_reaches False v0 v \<Longrightarrow> ns_reaches False v0 (run_all ops v)"
  by (induction ops arbitrary: v) (auto intro: ns_step [OF _ _ surjective_pairing])

lemmas ns_eval = mkdir_def create_with_mode_def add_inode_def link_def unlink_def rmdir_def rename_def rename_plan_def displaced_by_def
  move_entry_def release_link_def adopt_parent_def directory_holding_def alloc_fid_def alloc_file_id_def bindR_def retR_def liftR_def
  readV_def modV_def failR_def ensure_writable_def validate_new_name_def validate_name_def require_dir_def unwrap_inode_def
  on_inodes_def add_child_def del_child_def fresh_inode_def ok_or_def bt_get_def bt_contains_def bt_modify_def bt_remove_def
  bt_values_def saturating_add_u32_def saturating_sub_u32_def checked_add_u64_def utf8_len_def utf8_width_def is_control_def Let_def

definition stale_ops :: "ns_op list" where
  "stale_ops = [Mkdir 0 1 [65], Create 0 2 [102] 420, Link 3 1 [103], Create 0 1 [120] 420, Rename 1 [120] 2 [102],
     Unlink 2 [102], Rmdir 1 [65]]"


definition stale_tree :: DirectoryTree where
  "stale_tree = \<lparr>t_root = 1, next_file_id = 5, next_chunk_id = 0, next_chunk_gen = 1, free_chunks = [],
     inodes = [(1, \<lparr>i_id = 1, i_parent = 1, i_kind = Directory, i_size = 0, i_mtime_ns = 0, i_chunks = [],
        i_children = [([103], 3)], i_cached_real_size = None, i_external_list_blocks = [], i_mode = DEFAULT_DIR_MODE,
        i_link_count = 1, i_symlink_target = None\<rparr>),
       (3, \<lparr>i_id = 3, i_parent = 2, i_kind = File, i_size = 0, i_mtime_ns = 0, i_chunks = [],
        i_children = [], i_cached_real_size = None, i_external_list_blocks = [], i_mode = 420,
        i_link_count = 1, i_symlink_target = None\<rparr>)]\<rparr>"

lemma stale_run: "v_tree (run_all stale_ops demo_vfs) = stale_tree"
  by (simp add: stale_ops_def demo_vfs_def tree_new_def stale_tree_def ns_eval)

lemma stale_run_container: "v_container (run_all stale_ops demo_vfs) = demo_container"
  by (simp add: stale_ops_def demo_vfs_def tree_new_def ns_eval)

lemma stale_invalid: "validate_metadata_tree stale_tree 131072 hide = Inl MetadataDeserialize"
  by (simp add: stale_tree_def validate_metadata_tree_def validate_inode_def validate_kind_def slot_offset_def checked_mul_u64_def
      checked_add_u64_def ok_or_def bt_get_def bt_values_def validate_parent_def validate_name_def utf8_len_def utf8_width_def)

text \<open>The tree after one more file is made, and after the surviving link is removed.\<close>

definition freed_tree :: DirectoryTree where
  "freed_tree = \<lparr>t_root = 1, next_file_id = 5, next_chunk_id = 0, next_chunk_gen = 1, free_chunks = [],
     inodes = [(1, \<lparr>i_id = 1, i_parent = 1, i_kind = Directory, i_size = 0, i_mtime_ns = 0, i_chunks = [],
        i_children = [], i_cached_real_size = None, i_external_list_blocks = [], i_mode = DEFAULT_DIR_MODE,
        i_link_count = 1, i_symlink_target = None\<rparr>)]\<rparr>"

lemma freed_run: "v_tree (run_all [Unlink 1 [103]] (run_all stale_ops demo_vfs)) = freed_tree"
  "v_container (run_all [Unlink 1 [103]] (run_all stale_ops demo_vfs)) = demo_container"
  by (simp_all add: stale_ops_def demo_vfs_def tree_new_def freed_tree_def ns_eval)

lemma freed_valid: "validate_metadata_tree freed_tree 131072 hide = Inr ()"
proof -
  have "\<not> (5 :: u64) \<le> 1" by (simp add: word_le_nat_alt)
  then show ?thesis
    by (simp add: freed_tree_def validate_metadata_tree_def validate_inode_def validate_kind_def slot_offset_def checked_mul_u64_def
        checked_add_u64_def ok_or_def bt_get_def bt_values_def validate_parent_def reach_loop.simps)
qed

lemma grown_invalid:
  "validate_metadata_tree (v_tree (run_all [Create 0 1 [121] 420] (run_all stale_ops demo_vfs))) 131072 hide = Inl MetadataDeserialize"
  "v_container (run_all [Create 0 1 [121] 420] (run_all stale_ops demo_vfs)) = demo_container"
  by (simp_all add: stale_ops_def demo_vfs_def tree_new_def ns_eval validate_metadata_tree_def validate_inode_def validate_kind_def
      slot_offset_def checked_mul_u64_def validate_parent_def)

section \<open>Repairing parents\<close>

lemma note_holder_spec:
  "bt_get (note_holder d cs h) c = (case bt_get h c of Some q \<Rightarrow> Some q | None \<Rightarrow> if c \<in> set cs then Some d else None)"
  by (induction d cs h rule: note_holder.induct) (auto simp: bt_contains_def split: option.splits)

lemma holders_sound:
  "bt_get (holders xs h) c = Some q \<Longrightarrow>
     bt_get h c = Some q \<or> (\<exists>i. (q, i) \<in> set xs \<and> i_kind i = Directory \<and> c \<in> set (bt_values (i_children i)))"
proof (induction xs h rule: holders.induct)
  case (2 d i rest h)
  from 2(1) [OF 2(2) [simplified]] show ?case
    by (auto simp: note_holder_spec split: if_splits option.splits)
qed simp

lemma holders_complete:
  "bt_get h c \<noteq> None \<or> (\<exists>(q, i) \<in> set xs. i_kind i = Directory \<and> c \<in> set (bt_values (i_children i))) \<Longrightarrow> bt_get (holders xs h) c \<noteq> None"
proof (induction xs h rule: holders.induct)
  case (2 d i rest h)
  let ?h = "if i_kind i \<noteq> Directory then h else note_holder d (bt_values (i_children i)) h"
  have "bt_get ?h c \<noteq> None \<or> (\<exists>(q, i) \<in> set rest. i_kind i = Directory \<and> c \<in> set (bt_values (i_children i)))"
    using 2(2) by (auto simp: note_holder_spec split: option.splits)
  from 2(1) [OF this] show ?case by simp
qed simp

lemma holder_entry:
  assumes ns: "ns_core hide m"
  shows "bt_get (holders m []) c = Some q \<Longrightarrow> \<exists>n. entry m q n = Some c" "c \<in># refs m \<Longrightarrow> bt_get (holders m []) c \<noteq> None"
proof -
  show "\<exists>n. entry m q n = Some c" if h: "bt_get (holders m []) c = Some q"
  proof -
    obtain i where "(q, i) \<in> set m" "c \<in> set (bt_values (i_children i))" using holders_sound [OF h] by auto
    then have "(q, c) \<in> child_rel m" using bt_entries [OF ns_coreD(2) [OF ns]] by (auto simp: child_rel_iff)
    then show ?thesis using child_rel_entry [OF ns_coreD(1) [OF ns]] by blast
  qed
  show "bt_get (holders m []) c \<noteq> None" if ref: "c \<in># refs m"
  proof -
    obtain q n where e: "entry m q n = Some c"
      using ref [unfolded child_rel_refs [OF ns_coreD(2) [OF ns]] child_rel_entry [OF ns_coreD(1) [OF ns]]] by blast
    obtain i where i: "bt_get m q = Some i" "i_kind i = Directory" using entry_dir(1) [OF ns e] by (auto simp: dir_at_def)
    have "c \<in> set (bt_values (i_children i))" using entry_dir(4) [OF ns e] i by (simp add: child_rel_iff)
    moreover have "(q, i) \<in> set m" using i(1) bt_entries [OF ns_coreD(2) [OF ns]] by blast
    ultimately have "\<exists>(q, i) \<in> set m. i_kind i = Directory \<and> c \<in> set (bt_values (i_children i))" using i(2) by blast
    then show ?thesis by (intro holders_complete disjI2)
  qed
qed

lemma parent_stale_iff: "ns_core hide m \<Longrightarrow> bt_get m fid = Some i \<Longrightarrow> parent_stale m fid i \<longleftrightarrow> \<not> (\<exists>n. entry m (i_parent i) n = Some fid)"
proof -
  assume ns: "ns_core hide m" and i: "bt_get m fid = Some i"
  have "(case bt_get m (i_parent i) of Some p \<Rightarrow> i_kind p = Directory \<and> fid \<in> set (bt_values (i_children p)) | None \<Rightarrow> False)
     \<longleftrightarrow> dir_at m (i_parent i) \<and> (i_parent i, fid) \<in> child_rel m"
    by (auto simp: dir_at_def child_rel_iff split: option.splits)
  also have "\<dots> \<longleftrightarrow> (\<exists>n. entry m (i_parent i) n = Some fid)"
    using entry_dir(1) [OF ns] child_rel_entry [OF ns_coreD(1) [OF ns]] by blast
  finally show ?thesis by (simp add: parent_stale_def)
qed

lemma set_parent_held:
  assumes "ns_core hide m" "x \<noteq> 1" "entry m q n = Some x"
  shows "held (bt_modify x (\<lambda>i. i\<lparr>i_parent := q\<rparr>) m) x" "y \<noteq> x \<Longrightarrow> held m y \<Longrightarrow> held (bt_modify x (\<lambda>i. i\<lparr>i_parent := q\<rparr>) m) y"
  using ns_set_parent(2) [OF assms(1,2), of q] assms(3) unfolding held_def by auto

lemma repair_ids_spec:
  assumes "ns_core hide m" "\<And>c q. bt_get h c = Some q \<Longrightarrow> \<exists>n. entry m q n = Some c" "\<And>c. c \<in># refs m \<Longrightarrow> bt_get h c \<noteq> None"
    and "repair_ids h fids (m, k) = (m', k')"
  shows "ns_core hide m' \<and> entry m' = entry m \<and> refs m' = refs m \<and> slots m' = slots m
     \<and> (\<forall>x. held m x \<or> x \<in> set fids \<longrightarrow> held m' x)
     \<and> (\<forall>x j. bt_get m' x = Some j \<longrightarrow> (\<exists>i. bt_get m x = Some i \<and> inode_refs j = inode_refs i))"
  using assms
proof (induction fids arbitrary: m k)
  case (Cons fid fids)
  have step: ?case
    if m1: "ns_core hide m1" "entry m1 = entry m" "refs m1 = refs m" "slots m1 = slots m" "held m1 fid"
      "\<And>x. held m x \<Longrightarrow> held m1 x" "\<And>x j. bt_get m1 x = Some j \<Longrightarrow> \<exists>i. bt_get m x = Some i \<and> inode_refs j = inode_refs i"
      and rest: "repair_ids h fids (m1, k1) = (m', k')" for m1 k1
  proof -
    have "\<And>c q. bt_get h c = Some q \<Longrightarrow> \<exists>n. entry m1 q n = Some c" "\<And>c. c \<in># refs m1 \<Longrightarrow> bt_get h c \<noteq> None"
      using Cons.prems(2,3) m1(2,3) by auto
    note IH = Cons.IH [OF m1(1) this rest]
    have "\<exists>i. bt_get m x = Some i \<and> inode_refs j = inode_refs i" if "bt_get m' x = Some j" for x j
      using IH that m1(7) by metis
    then show ?thesis using IH m1(2-6) by auto
  qed
  show ?case
  proof (cases "held m fid")
    case True
    then have "fid = 1 \<or> bt_get m fid = None \<or> (\<exists>i. bt_get m fid = Some i \<and> \<not> parent_stale m fid i)"
      using parent_stale_iff [OF Cons.prems(1)] unfolding held_def by (cases "bt_get m fid") auto
    then have "repair_ids h fids (m, k) = (m', k')" using Cons.prems(4) by (elim disjE) (auto split: option.splits if_splits)
    then show ?thesis using step [of m k] Cons.prems(1) True by blast
  next
    case False
    then obtain i where i: "bt_get m fid = Some i" "fid \<noteq> 1" "parent_stale m fid i"
      using parent_stale_iff [OF Cons.prems(1)] unfolding held_def by blast
    have "count (refs m) fid \<noteq> 0"
      using ns_coreD(9) [OF Cons.prems(1) i(1,2)] inode_ok_link(1) [OF ns_coreD(4) [OF Cons.prems(1) i(1)]] by (simp add: unat_eq_0)
    then obtain q where q: "bt_get h fid = Some q" using Cons.prems(3) by auto
    then obtain n where n: "entry m q n = Some fid" using Cons.prems(2) by blast
    let ?m1 = "bt_modify fid (\<lambda>i. i\<lparr>i_parent := q\<rparr>) m"
    have rest: "repair_ids h fids (?m1, k + 1) = (m', k')" using Cons.prems(4) i q by simp
    note sp = ns_set_parent [OF Cons.prems(1) i(2), of q] and sh = set_parent_held [OF Cons.prems(1) i(2) n]
    show ?thesis
    proof (rule step [OF sp(1-4) sh(1) _ _ rest])
      show "held ?m1 x" if "held m x" for x using that sh False by (cases "x = fid") auto
      show "\<exists>i. bt_get m x = Some i \<and> inode_refs j = inode_refs i" if "bt_get ?m1 x = Some j" for x j
        using that by (auto simp: inode_refs_def split: if_splits)
    qed
  qed
qed simp

lemma repair_heals:
  assumes "vfs_core v"
  shows "vfs_inv (v\<lparr>v_tree := fst (repair_stale_parents (v_tree v))\<rparr>)"
    "entry (inodes (fst (repair_stale_parents (v_tree v)))) = entry (v_inodes v)"
proof -
  note ns = vfs_coreD(1) [OF assms]
  obtain m' k where r: "repair_ids (holders (v_inodes v) []) (bt_keys (v_inodes v)) (v_inodes v, 0) = (m', k)" by fastforce
  have t: "fst (repair_stale_parents (v_tree v)) = (v_tree v)\<lparr>inodes := m'\<rparr>" by (simp add: repair_stale_parents_def r)
  let ?v = "v\<lparr>v_tree := (v_tree v)\<lparr>inodes := m'\<rparr>\<rparr>"
  note s = repair_ids_spec [OF ns holder_entry [OF ns] r]
  have held: "held m' x" for x
  proof (cases "bt_contains (v_inodes v) x")
    case True
    then show ?thesis using s bt_in_keys [OF ns_coreD(2) [OF ns]] by blast
  next
    case False
    then have "held (v_inodes v) x" by (auto simp: held_def bt_contains_def)
    then show ?thesis using s by blast
  qed
  have "keeps_slots v ?v" by (rule keeps_slotsI [of _ _ m']) (use s in auto)
  then have "vfs_core ?v"
    using s vfs_coreD(2) [OF assms] by (intro vfs_core_keep [OF assms]) (auto simp: counters_ok_def Let_def)
  then show "vfs_inv (v\<lparr>v_tree := fst (repair_stale_parents (v_tree v))\<rparr>)"
    using held by (simp add: vfs_inv_def parents_held_def t)
  show "entry (inodes (fst (repair_stale_parents (v_tree v)))) = entry (v_inodes v)" using s by (simp add: t)
qed

section \<open>Sequences of operations against the specification\<close>

text \<open>A run of operations, and the operations that succeeded with their results.\<close>

fun run_log :: "('o \<Rightarrow> 's \<Rightarrow> ('e + 'r) \<times> 's) \<Rightarrow> 'o list \<Rightarrow> 's \<Rightarrow> ('o \<times> 'r) list \<times> 's" where
  "run_log exec [] s = ([], s)"
| "run_log exec (x # xs) s =
     (case exec x s of
        (Inl _, s') \<Rightarrow> run_log exec xs s'
      | (Inr r, s') \<Rightarrow> (case run_log exec xs s' of (done_ops, s'') \<Rightarrow> ((x, r) # done_ops, s'')))"

text \<open>
  A machine whose operations implement a specification step by step: from states that satisfy the
  invariant, a success is one step of the specification and a failure is none, and the invariant
  holds on as long as the bound \<open>small\<close>, which never comes back once lost, does.
\<close>

locale simulation =
  fixes exec :: "'o \<Rightarrow> 's \<Rightarrow> ('e + 'r) \<times> 's" and inv small :: "'s \<Rightarrow> bool"
    and view :: "'s \<Rightarrow> 'a" and spec :: "'o \<Rightarrow> 'r \<Rightarrow> 'a \<Rightarrow> 'a"
  assumes success: "inv s \<Longrightarrow> exec x s = (Inr r, s') \<Longrightarrow> view s' = spec x r (view s)"
    and failure: "exec x s = (Inl e, s') \<Longrightarrow> s' = s"
    and keeps_inv: "inv s \<Longrightarrow> exec x s = (res, s') \<Longrightarrow> small s' \<Longrightarrow> inv s'"
    and small_before: "exec x s = (res, s') \<Longrightarrow> small s' \<Longrightarrow> small s"
begin

lemma small_run: "run_log exec xs s = (l, s') \<Longrightarrow> small s' \<Longrightarrow> small s"
proof (induction xs arbitrary: s l)
  case (Cons x xs)
  obtain res s1 where e: "exec x s = (res, s1)" by fastforce
  then obtain l1 where "run_log exec xs s1 = (l1, s')" using Cons.prems(1) by (auto split: sum.splits prod.splits)
  then have "small s1" using Cons.IH Cons.prems(2) by blast
  then show ?case using small_before [OF e] by blast
qed simp

lemma run_simulates:
  "inv s \<Longrightarrow> run_log exec xs s = (l, s') \<Longrightarrow> small s' \<Longrightarrow>
     inv s' \<and> view s' = fold (\<lambda>(x, r). spec x r) l (view s)"
proof (induction xs arbitrary: s l)
  case (Cons x xs)
  obtain res s1 where e: "exec x s = (res, s1)" by fastforce
  obtain l1 where r: "run_log exec xs s1 = (l1, s')" and l: "l = (case res of Inl _ \<Rightarrow> l1 | Inr y \<Rightarrow> (x, y) # l1)"
    using Cons.prems(2) e by (auto split: sum.splits prod.splits)
  have i: "inv s1" using keeps_inv [OF Cons.prems(1) e] small_run [OF r Cons.prems(3)] by blast
  note ih = Cons.IH [OF i r Cons.prems(3)]
  show ?case
  proof (cases res)
    case (Inl y)
    then show ?thesis using ih failure e l by auto
  next
    case (Inr y)
    then show ?thesis using ih success [OF Cons.prems(1)] e l by auto
  qed
qed simp

end

lemma ns_of_did: "vfs_core v \<Longrightarrow> run_ns op v = (Inr r, v') \<Longrightarrow> ns_of v' = spec_ns op r (ns_of v)"
  using did_op [of v op r v'] ns_of_entry [of "v_hide v" v] ns_of_entry [of "v_hide v" v'] vfs_coreD(1) [of v] by (simp add: did_def)

interpretation vfs_ns: simulation run_ns vfs_core "\<lambda>v. next_file_id (v_tree v) < 0x8000000000000000" ns_of spec_ns
proof
  show "vfs_core v \<Longrightarrow> run_ns op v = (Inr r, v') \<Longrightarrow> ns_of v' = spec_ns op r (ns_of v)" for op r v v' by (rule ns_of_did)
  show "run_ns op v = (Inl e, v') \<Longrightarrow> v' = v" for op e v v' by (rule failed_keeps)
  show "vfs_core v \<Longrightarrow> run_ns op v = (res, v') \<Longrightarrow> next_file_id (v_tree v') < 0x8000000000000000 \<Longrightarrow> vfs_core v'"
    for op res v v' by (rule step_core(1))
  show "run_ns op v = (res, v') \<Longrightarrow> next_file_id (v_tree v') < 0x8000000000000000 \<Longrightarrow> next_file_id (v_tree v) < 0x8000000000000000"
    for op res v v' using grows_run_ns [of op] unfolding grows_def by (meson le_less_trans)
qed

lemma demo_root: "v_inodes demo_vfs = inodes tree_new" "v_doff demo_vfs = 131072" "v_container demo_vfs = demo_container"
  by (simp_all add: demo_vfs_def demo_header_def)

lemma demo_inv: "vfs_inv demo_vfs"
proof -
  obtain r where m: "inodes tree_new = [(1, r)]" and r: "i_id r = 1" "i_parent r = 1" "i_kind r = Directory" "i_size r = 0"
    "inode_refs r = []" "i_children r = []" "i_symlink_target r = None" "i_link_count r = 1"
    by (simp add: tree_new_def inode_refs_def)
  have get: "bt_get (inodes tree_new) x = (if x = 1 then Some r else None)" for x by (simp add: m bt_get_def)
  have rf: "refs (inodes tree_new) = {#}" "slots (inodes tree_new) = {#}" using r by (simp_all add: m refs_def slots_def bt_values_def)
  have k: "kids_ok (inodes tree_new)" using r by (simp add: kids_ok_def get) (simp add: m bt_ok_def bt_keys_def)
  have "ns_core hide (inodes tree_new)" for hide
    using r k by (auto simp: ns_core_def get rf dir_at_def inode_ok_def)
  moreover have "parents_held (inodes tree_new)" by (simp add: parents_held_def held_def get)
  moreover have "counters_ok demo_vfs"
    unfolding counters_ok_def Let_def demo_root
    by (simp add: demo_vfs_def get rf r) (simp add: tree_new_def slot_offset_def checked_mul_u64_def checked_add_u64_def ok_or_def word_less_nat_alt demo_header_def)
  ultimately show ?thesis by (simp add: vfs_inv_def vfs_core_def demo_root)
qed

lemma demo_core: "vfs_core demo_vfs"
  using demo_inv by (simp add: vfs_inv_def)

lemma demo_mkdir: "\<exists>v'. run_ns (Mkdir 0 1 [65]) demo_vfs = (Inr 2, v') \<and> next_file_id (v_tree v') = 3"
  by (simp add: demo_vfs_def tree_new_def ns_eval)

text \<open>
  C8: the directory operations implement a namespace. What a caller sees through \<open>lookup\<close> after any
  sequence of \<open>mkdir\<close>, \<open>create\<close>, \<open>symlink\<close>, \<open>link\<close>, \<open>unlink\<close>, \<open>rmdir\<close>, \<open>rename\<close>, \<open>chmod\<close> and
  \<open>set_mtime\<close>, some of which may fail, is what the successful ones in their order promise on a plain
  map from directory and name to file: one name added, one removed, one moved over whatever the target
  name stood for, or nothing.
\<close>

theorem namespace_refines_spec:
  assumes "vfs_core v" "run_log run_ns ops v = (done_ops, v')" "next_file_id (v_tree v') < 2 ^ 63"
  shows "ns_of v' = fold (\<lambda>(op, r). spec_ns op r) done_ops (ns_of v)"
  using vfs_ns.run_simulates [OF assms(1,2)] assms(3) by simp

theorem namespace_refines_spec_witness:
  "\<exists>v'. run_log run_ns [Mkdir 0 1 [65], Rmdir 1 [66], Mkdir 0 2 [66], Rename 2 [66] 1 [67]] demo_vfs
       = ([(Mkdir 0 1 [65], 2), (Mkdir 0 2 [66], 3), (Rename 2 [66] 1 [67], 0)], v')
     \<and> ns_of v' 1 [65] = Some 2 \<and> ns_of v' 2 [66] = None \<and> ns_of v' 1 [67] = Some 3"
proof -
  let ?log = "[(Mkdir 0 1 [65], 2), (Mkdir 0 2 [66], 3), (Rename 2 [66] 1 [67], 0)]"
  obtain v' where r: "run_log run_ns [Mkdir 0 1 [65], Rmdir 1 [66], Mkdir 0 2 [66], Rename 2 [66] 1 [67]] demo_vfs = (?log, v')"
    and n: "next_file_id (v_tree v') < 2 ^ 63"
    by (simp add: demo_vfs_def tree_new_def ns_eval is_descendant_of_def)
  have "ns_of demo_vfs 1 [67] = None"
    by (simp add: demo_vfs_def tree_new_def ns_of_def lookup_def require_dir_def ok_or_def bt_get_def)
  with namespace_refines_spec [OF demo_core r n] have "ns_of v' 1 [65] = Some 2 \<and> ns_of v' 2 [66] = None \<and> ns_of v' 1 [67] = Some 3"
    by (simp add: ns_add_def ns_del_def)
  with r show ?thesis by blast
qed

text \<open>
  C11: no sequence of directory operations, failed ones included, breaks the tree. From a state that
  satisfies the invariant every reached state satisfies it, as long as file ids stay below the reserved
  bit: every entry names an inode, every link count is the number of names, kinds and names are as they
  should be, every inode is reachable from the root, and no chunk slot is in use twice or both in use
  and free or waiting to be freed.
\<close>

theorem namespace_invariant:
  assumes "vfs_core v0" "ns_reaches plain v0 v" "next_file_id (v_tree v) < 2 ^ 63"
  shows "vfs_core v"
  using reaches_core [OF assms(2,1)] assms(3) by simp

theorem namespace_invariant_witness:
  "ns_reaches False demo_vfs (run_all stale_ops demo_vfs) \<and> vfs_core (run_all stale_ops demo_vfs)"
proof -
  have r: "ns_reaches False demo_vfs (run_all stale_ops demo_vfs)" by (intro reaches_run_all ns_start)
  have "vfs_core (run_all stale_ops demo_vfs)"
    by (rule namespace_invariant [OF demo_core r]) (simp add: stale_run, simp add: stale_tree_def)
  with r show ?thesis by blast
qed

text \<open>
  C12: saves are accepted. After any sequence of directory operations none of which renames over one of
  several links to a file, the tree passes the validator that every save runs first, and so does the
  tree with the slots waiting to be freed counted as free, which is what a save writes and the next
  open validates.
\<close>

theorem saves_accepted:
  assumes "vfs_inv v0" "ns_reaches True v0 v" "next_file_id (v_tree v) < 2 ^ 63" "size (refs (v_inodes v)) < 2 ^ 32"
  shows "validate_metadata_tree (v_tree v) (v_doff v) (v_hide v) = Inr ()
   \<and> validate_metadata_tree ((v_tree v)\<lparr>free_chunks := free_chunks (v_tree v) @ v_pending_free v\<rparr>)
       (v_doff v) (v_hide v) = Inr ()"
proof -
  have "vfs_inv v" using reaches_core [OF assms(2)] assms(1,3) by (simp add: vfs_inv_def)
  note val = vfs_inv_valid [OF this]
  have "maps_ok ((v_tree v)\<lparr>free_chunks := free_chunks (v_tree v) @ v_pending_free v\<rparr>)" using val(1) by (simp add: maps_ok_def)
  then show ?thesis using validate_metadata_tree_iff [of "v_tree v"] validate_metadata_tree_iff val assms(4) by simp
qed

theorem saves_accepted_witness:
  "\<exists>v. ns_reaches True demo_vfs v \<and> ns_of v 1 [65] = Some 2 \<and> validate_metadata_tree (v_tree v) (v_doff v) (v_hide v) = Inr ()"
proof -
  obtain v where r: "run_ns (Mkdir 0 1 [65]) demo_vfs = (Inr 2, v)" and n: "next_file_id (v_tree v) = 3" using demo_mkdir by blast
  have re: "ns_reaches True demo_vfs v" by (rule ns_step [OF ns_start _ r]) simp
  note d = did_op [OF demo_core r]
  have e: "ns_of v 1 [65] = Some 2" using d ns_of_entry [of "v_hide demo_vfs" v] by (simp add: did_def ns_add_def)
  have "size (refs (v_inodes v)) < 2 ^ 32"
    using r by (auto simp: demo_vfs_def tree_new_def ns_eval refs_def)
  then show ?thesis using saves_accepted [OF demo_inv re] n re e by auto
qed

text \<open>
  C40: renaming over one of several links to a file leaves the file's parent stale. The operations
  \<open>stale_ops\<close> make a directory and a file in it, link the file elsewhere, rename another file over it, and
  remove that one and the directory. The tree they reach is consistent and the linked file still
  exists, but its recorded parent is the removed directory, so the validation that every save runs
  first rejects the tree. It still does after a further file is made, and accepts the tree again once
  the linked file is removed. \<open>unlink\<close> adopts a surviving parent in this situation.
\<close>

theorem rename_over_link_blocks_saves:
  "ns_reaches False demo_vfs (run_all stale_ops demo_vfs) \<and> vfs_core (run_all stale_ops demo_vfs)
   \<and> ns_of (run_all stale_ops demo_vfs) 1 [103] = Some 3
   \<and> (let v = run_all stale_ops demo_vfs in validate_metadata_tree (v_tree v) (v_doff v) (v_hide v) = Inl MetadataDeserialize)
   \<and> (let v = run_all [Create 0 1 [121] 420] (run_all stale_ops demo_vfs)
      in validate_metadata_tree (v_tree v) (v_doff v) (v_hide v) = Inl MetadataDeserialize)
   \<and> (let v = run_all [Unlink 1 [103]] (run_all stale_ops demo_vfs)
      in validate_metadata_tree (v_tree v) (v_doff v) (v_hide v) = Inr ())"
proof -
  let ?v = "run_all stale_ops demo_vfs"
  have r: "ns_reaches False demo_vfs ?v" by (intro reaches_run_all ns_start)
  have c: "vfs_core ?v" using reaches_core [OF r demo_core] by (simp add: stale_run) (simp add: stale_tree_def)
  have "entry (v_inodes ?v) 1 [103] = Some 3" by (simp add: stale_run) (simp add: stale_tree_def entry_def bt_get_def)
  then have "ns_of ?v 1 [103] = Some 3" using ns_of_entry [OF vfs_coreD(1) [OF c]] by simp
  moreover have d: "data_offset (c_header demo_container) = 131072" by (simp add: demo_header_def)
  ultimately show ?thesis
    using r c stale_invalid grown_invalid(1) freed_valid unfolding Let_def stale_run stale_run_container freed_run grown_invalid(2) d by blast
qed

text \<open>
  C17: a failed operation changes nothing and is not a panic. Whatever error a directory operation
  returns, the state is exactly the one before the call; and in a state that satisfies the invariant
  none of the \<open>unwrap\<close>s on its way is reached with a missing inode.
\<close>

theorem failed_op_changes_nothing:
  assumes "run_ns op v = (Inl e, v')"
  shows "v' = v \<and> (vfs_core v \<longrightarrow> (\<forall>msg. e \<noteq> VCrypto (Panic msg)))"
  using failed_keeps [OF assms] calm_run_ns [of v op] assms by (simp add: calm_def)

theorem failed_op_changes_nothing_witness:
  "\<exists>v'. run_ns (Rmdir 1 [65]) demo_vfs = (Inl NotFound, v') \<and> v' = demo_vfs"
proof -
  obtain e v' where r: "run_ns (Rmdir 1 [65]) demo_vfs = (Inl e, v')" and e: "e = NotFound"
    by (simp add: demo_vfs_def tree_new_def ns_eval)
  with failed_op_changes_nothing [OF r] show ?thesis by blast
qed

text \<open>
  C18: opening repairs stale parents. On every tree that satisfies the invariant except for the recorded
  parents, the repair pass points each one at a directory that holds an entry for the inode, changes no
  entry, and the result satisfies the full invariant.
\<close>

theorem repair_restores_parents:
  assumes "vfs_core v"
  shows "vfs_inv (v\<lparr>v_tree := fst (repair_stale_parents (v_tree v))\<rparr>)
     \<and> ns_of (v\<lparr>v_tree := fst (repair_stale_parents (v_tree v))\<rparr>) = ns_of v"
proof -
  let ?v = "v\<lparr>v_tree := fst (repair_stale_parents (v_tree v))\<rparr>"
  note h = repair_heals [OF assms]
  have "ns_core (v_hide ?v) (v_inodes ?v)" using h(1) by (simp add: vfs_inv_def vfs_core_def)
  from ns_of_entry [OF this] ns_of_entry [OF vfs_coreD(1) [OF assms]] h show ?thesis by simp
qed

theorem repair_restores_parents_witness:
  "\<exists>v. ns_reaches False demo_vfs v \<and> validate_metadata_tree (v_tree v) (v_doff v) (v_hide v) \<noteq> Inr ()
     \<and> vfs_inv (v\<lparr>v_tree := fst (repair_stale_parents (v_tree v))\<rparr>)"
proof -
  let ?v = "run_all stale_ops demo_vfs"
  have r: "ns_reaches False demo_vfs ?v" by (intro reaches_run_all ns_start)
  have c: "vfs_core ?v" using reaches_core [OF r demo_core] by (simp add: stale_run) (simp add: stale_tree_def)
  have "validate_metadata_tree (v_tree ?v) (v_doff ?v) (v_hide ?v) \<noteq> Inr ()"
    using stale_invalid by (simp add: stale_run stale_run_container demo_header_def)
  then show ?thesis using r repair_restores_parents [OF c] by blast
qed

end
