(* ===== verification/Lbx_Save.thy ===== *)
theory Lbx_Save
  imports Lbx_NsOps
begin

text \<open>
  Saving and loading a file system (\<open>flush\<close>, \<open>close\<close> and \<open>open\<close> of luksbox-vfs/src/vfs.rs): the shapes
  of the tree on disk, the spilling of long chunk lists to chains of list blocks, the automatic
  upgrades of header and metadata format, the encoding under one of five magics with the size limit as
  a tail, and the way back. The postcard encoding of the shapes and two switches of the process are the
  record \<open>Host\<close>. A \<open>fop\<close> is a computation on the file system and the random source.
\<close>

unbundle bit_operations_syntax

section \<open>Computations on the file system and the random source\<close>

type_synonym ('r, 'a) fop = "(Vfs \<times> 'r, vfs_error, 'a) rand"

definition onV :: "'a vop \<Rightarrow> ('r, 'a) fop" where
  "onV m = (\<lambda>(v, r). case m v of (x, v') \<Rightarrow> (x, (v', r)))"

definition onK :: "('r, 'a) kop \<Rightarrow> ('r, 'a) fop" where
  "onK m = (\<lambda>(v, r). case m (v_container v, r) of (x, (c, r')) \<Rightarrow> (x, (v\<lparr>v_container := c\<rparr>, r')))"

definition askV :: "(Vfs \<Rightarrow> 'a) \<Rightarrow> ('r, 'a) fop" where
  "askV f = onV (readV (\<lambda>v. Inr (f v)))"

definition setV :: "(Vfs \<Rightarrow> Vfs) \<Rightarrow> ('r, unit) fop" where
  "setV f = onV (modV f)"

abbreviation (input) METADATA_V2_MAGIC :: bytes where "METADATA_V2_MAGIC \<equiv> bstr ''LBM'' @ [2]"
abbreviation (input) METADATA_V3_MAGIC :: bytes where "METADATA_V3_MAGIC \<equiv> bstr ''LBM'' @ [3]"
abbreviation (input) METADATA_V4_MAGIC :: bytes where "METADATA_V4_MAGIC \<equiv> bstr ''LBM'' @ [4]"
abbreviation (input) METADATA_V5_MAGIC :: bytes where "METADATA_V5_MAGIC \<equiv> bstr ''LBM'' @ [5]"
abbreviation (input) METADATA_V6_MAGIC :: bytes where "METADATA_V6_MAGIC \<equiv> bstr ''LBM'' @ [6]"
abbreviation (input) METADATA_DECODE_LIMIT_BYTES :: nat where "METADATA_DECODE_LIMIT_BYTES \<equiv> 67108864"
abbreviation (input) V3_INLINE_CHUNK_THRESHOLD :: nat where "V3_INLINE_CHUNK_THRESHOLD \<equiv> 1024"
abbreviation (input) V5_INLINE_CHUNK_THRESHOLD :: nat where "V5_INLINE_CHUNK_THRESHOLD \<equiv> 256"

section \<open>The shapes on disk\<close>

record InodeV3OnDisk =
  o_id :: u64
  o_parent :: u64
  o_kind :: InodeKind
  o_size :: u64
  o_mtime_ns :: u64
  o_chunks :: "ChunkRef list"
  o_chunks_external :: "(ChunkRef \<times> u64) option"
  o_children :: "(rstring, u64) btree"

record InodeV4OnDisk = InodeV3OnDisk +
  o_mode :: u32
  o_link_count :: u32
  o_symlink_target :: "rstring option"

record 'i TreeOnDisk =
  d_root :: u64
  d_next_file_id :: u64
  d_next_chunk_id :: u64
  d_next_chunk_gen :: u64
  d_free_chunks :: "u64 list"
  d_inodes :: "(u64, 'i) btree"

type_synonym DirectoryTreeV3OnDisk = "InodeV3OnDisk TreeOnDisk"
type_synonym DirectoryTreeV4OnDisk = "InodeV4OnDisk TreeOnDisk"

record VaultSettingsOnDisk =
  s_max_vault_size :: u64

text \<open>
  What the file system takes from outside the repository: the postcard encoder and decoder of the
  on-disk shapes (the encoder may fail; the decoder returns the rest of the input), and two
  switches of the process, the metadata format of new vaults and the tolerance for unreadable
  chunk lists.
\<close>

record Host =
  pc_v2 :: "DirectoryTree \<Rightarrow> bytes option"
  pc_v3 :: "DirectoryTreeV3OnDisk \<Rightarrow> bytes option"
  pc_v4 :: "DirectoryTreeV4OnDisk \<Rightarrow> bytes option"
  pc_settings :: "VaultSettingsOnDisk \<Rightarrow> bytes option"
  un_v2 :: "bytes \<Rightarrow> (DirectoryTree \<times> bytes) option"
  un_v3 :: "bytes \<Rightarrow> (DirectoryTreeV3OnDisk \<times> bytes) option"
  un_v4 :: "bytes \<Rightarrow> (DirectoryTreeV4OnDisk \<times> bytes) option"
  un_settings :: "bytes \<Rightarrow> (VaultSettingsOnDisk \<times> bytes) option"
  use_v3_for_fresh_vault :: bool
  tolerate_bad_chunk_lists :: bool

definition for_fresh_vault :: "Host \<Rightarrow> MetadataFormat" where
  "for_fresh_vault H = (if use_v3_for_fresh_vault H then V5 else V2)"

definition inline_chunk_threshold :: "MetadataFormat \<Rightarrow> nat" where
  "inline_chunk_threshold f = (case f of V5 \<Rightarrow> V5_INLINE_CHUNK_THRESHOLD | _ \<Rightarrow> V3_INLINE_CHUNK_THRESHOLD)"

section \<open>Spilling chunk lists\<close>

definition alloc_gen :: "u64 vop" where
  "alloc_gen = (\<lambda>v. case alloc_chunk_gen (v_tree v) of
       None \<Rightarrow> (Inl IdSpaceExhausted, v)
     | Some (g, t) \<Rightarrow> (Inr g, v\<lparr>v_tree := t\<rparr>))"

definition alloc_cid :: "u64 vop" where
  "alloc_cid = (\<lambda>v. case alloc_chunk_id (v_tree v) of
       None \<Rightarrow> (Inl IdSpaceExhausted, v)
     | Some (cid, t) \<Rightarrow> (Inr cid, v\<lparr>v_tree := t\<rparr>))"

fun alloc_refs :: "nat \<Rightarrow> ChunkRef list vop" where
  "alloc_refs 0 = retR []"
| "alloc_refs (Suc n) =
     bindR alloc_cid (\<lambda>cid.
     bindR alloc_gen (\<lambda>g.
     bindR (alloc_refs n) (\<lambda>rs.
     retR (\<lparr>cr_id = cid, cr_gen = g\<rparr> # rs))))"

definition write_external_chain_for :: "'r env \<Rightarrow> u64 \<Rightarrow> ChunkRef list \<Rightarrow> ('r, ChunkRef \<times> u64 \<times> ChunkRef list) fop" where
  "write_external_chain_for E file_id entries =
     bindR (onV (alloc_refs (div_ceil (length entries) CHUNK_LIST_ENTRIES_PER_BLOCK))) (\<lambda>block_refs.
     bindR (onK (write_chain_blocks E file_id entries 0 block_refs)) (\<lambda>_.
     case block_refs of
       [] \<Rightarrow> failR (VCrypto (Panic ''index out of bounds''))
     | head # _ \<Rightarrow> retR (head, of_nat (length entries), block_refs)))"

definition on_disk_of :: "Inode \<Rightarrow> ChunkRef list \<Rightarrow> (ChunkRef \<times> u64) option \<Rightarrow> InodeV3OnDisk" where
  "on_disk_of inode chunks external =
     \<lparr>o_id = i_id inode, o_parent = i_parent inode, o_kind = i_kind inode, o_size = i_size inode,
      o_mtime_ns = i_mtime_ns inode, o_chunks = chunks, o_chunks_external = external, o_children = i_children inode\<rparr>"

definition file_needs_external :: "MetadataFormat \<Rightarrow> Inode \<Rightarrow> bool" where
  "file_needs_external f inode \<longleftrightarrow> i_kind inode = File \<and> inline_chunk_threshold f < length (i_chunks inode)"

text \<open>
  One inode: a clean chain is kept, otherwise the old blocks are queued for release and a new chain
  is written where the list is too long to stay inline.
\<close>

definition spill_inode :: "'r env \<Rightarrow> u64 \<Rightarrow> ('r, InodeV3OnDisk) fop" where
  "spill_inode E fid =
     bindR (onV (readV (\<lambda>v. unwrap_inode v fid))) (\<lambda>inode.
     bindR (askV (\<lambda>v. (file_needs_external (v_format v) inode, fid \<in> v_chunks_dirty v))) (\<lambda>(external, changed).
     if external \<and> \<not> changed \<and> i_external_list_blocks inode \<noteq> []
     then retR (on_disk_of inode [] (Some (hd (i_external_list_blocks inode), of_nat (length (i_chunks inode)))))
     else
       bindR (setV (\<lambda>v. on_inodes (bt_modify fid (\<lambda>i. i\<lparr>i_external_list_blocks := []\<rparr>))
                          (v\<lparr>v_pending_free := v_pending_free v @ map cr_id (i_external_list_blocks inode)\<rparr>))) (\<lambda>_.
       if external
       then
         bindR (write_external_chain_for E fid (i_chunks inode)) (\<lambda>(head, cnt, new_externals).
         bindR (setV (on_inodes (bt_modify fid (\<lambda>i. i\<lparr>i_external_list_blocks := new_externals\<rparr>)))) (\<lambda>_.
         retR (on_disk_of inode [] (Some (head, cnt)))))
       else retR (on_disk_of inode (i_chunks inode) None))))"

fun spill_ids :: "'r env \<Rightarrow> u64 list \<Rightarrow> (u64, InodeV3OnDisk) btree \<Rightarrow> ('r, (u64, InodeV3OnDisk) btree) fop" where
  "spill_ids E [] acc = retR acc"
| "spill_ids E (fid # fids) acc = bindR (spill_inode E fid) (\<lambda>od. spill_ids E fids (bt_insert fid od acc))"

definition tree_on_disk :: "DirectoryTree \<Rightarrow> (u64, 'i) btree \<Rightarrow> 'i TreeOnDisk" where
  "tree_on_disk t ods =
     \<lparr>d_root = t_root t, d_next_file_id = next_file_id t, d_next_chunk_id = next_chunk_id t,
      d_next_chunk_gen = next_chunk_gen t, d_free_chunks = free_chunks t, d_inodes = ods\<rparr>"

definition spill_to_v3_on_disk :: "'r env \<Rightarrow> ('r, DirectoryTreeV3OnDisk) fop" where
  "spill_to_v3_on_disk E =
     bindR (askV (\<lambda>v. bt_keys (v_inodes v))) (\<lambda>inode_ids.
     bindR (spill_ids E inode_ids []) (\<lambda>ods.
     askV (\<lambda>v. tree_on_disk (v_tree v) ods)))"

definition with_v4_fields :: "InodeV3OnDisk \<Rightarrow> Inode \<Rightarrow> InodeV4OnDisk" where
  "with_v4_fields od inode =
     \<lparr>o_id = o_id od, o_parent = o_parent od, o_kind = o_kind od, o_size = o_size od, o_mtime_ns = o_mtime_ns od,
      o_chunks = o_chunks od, o_chunks_external = o_chunks_external od, o_children = o_children od,
      o_mode = i_mode inode, o_link_count = i_link_count inode, o_symlink_target = i_symlink_target inode\<rparr>"

fun v4_rows :: "Vfs \<Rightarrow> (u64 \<times> InodeV3OnDisk) list \<Rightarrow> (u64 \<times> InodeV4OnDisk) list vres" where
  "v4_rows v [] = Inr []"
| "v4_rows v ((fid, od) # rest) =
     bindE (unwrap_inode v fid) (\<lambda>inode.
     bindE (v4_rows v rest) (\<lambda>rows. Inr ((fid, with_v4_fields od inode) # rows)))"

definition spill_to_v4_on_disk :: "'r env \<Rightarrow> ('r, DirectoryTreeV4OnDisk) fop" where
  "spill_to_v4_on_disk E =
     bindR (spill_to_v3_on_disk E) (\<lambda>v3.
     bindR (onV (readV (\<lambda>v. v4_rows v (d_inodes v3)))) (\<lambda>rows.
     retR \<lparr>d_root = d_root v3, d_next_file_id = d_next_file_id v3, d_next_chunk_id = d_next_chunk_id v3,
            d_next_chunk_gen = d_next_chunk_gen v3, d_free_chunks = d_free_chunks v3, d_inodes = rows\<rparr>))"

section \<open>The save\<close>

definition tree_needs_v4_format :: "DirectoryTree \<Rightarrow> bool" where
  "tree_needs_v4_format t \<longleftrightarrow>
     list_ex (\<lambda>i. i_link_count i \<noteq> 1 \<or> i_kind i = Symlink
       \<or> i_mode i \<noteq> (case i_kind i of File \<Rightarrow> DEFAULT_FILE_MODE | Directory \<Rightarrow> DEFAULT_DIR_MODE | Symlink \<Rightarrow> 0x1ff))
       (bt_values (inodes t))"

definition mark_all_dirty :: "Vfs \<Rightarrow> Vfs" where
  "mark_all_dirty v = v\<lparr>v_chunks_dirty := v_chunks_dirty v \<union> set (bt_keys (v_inodes v))\<rparr>"

definition upgrade_v1_header_in_memory :: "Vfs \<Rightarrow> Vfs" where
  "upgrade_v1_header_in_memory v =
     mark_all_dirty (v\<lparr>v_container := (v_container v)\<lparr>c_header := (c_header (v_container v))\<lparr>version_major := VERSION_MAJOR_V2\<rparr>,
                                          header_dirty := True\<rparr>,
                       v_format := V5\<rparr>)"

definition auto_upgrade_header :: "Host \<Rightarrow> Vfs \<Rightarrow> Vfs" where
  "auto_upgrade_header H v =
     (if version_major (c_header (v_container v)) = VERSION_MAJOR_V1 \<and> \<not> is_deniable (v_container v) \<and> use_v3_for_fresh_vault H
      then upgrade_v1_header_in_memory v else v)"

definition auto_upgrade_format :: "Vfs \<Rightarrow> Vfs" where
  "auto_upgrade_format v =
     (if v_format v \<in> {V2, V3} \<and> tree_needs_v4_format (v_tree v) then mark_all_dirty (v\<lparr>v_format := V4\<rparr>) else v)"

definition limited :: "bytes option \<Rightarrow> bytes vres" where
  "limited payload =
     bindE (ok_or MetadataSerialize payload) (\<lambda>b.
     if METADATA_DECODE_LIMIT_BYTES < length b then Inl MetadataSerialize else Inr b)"

definition settings_tail :: "Host \<Rightarrow> u64 \<Rightarrow> bytes option vres" where
  "settings_tail H max_size =
     (if max_size = 0 then Inr None
      else bindE (ok_or MetadataSerialize (pc_settings H \<lparr>s_max_vault_size = max_size\<rparr>)) (\<lambda>b. Inr (Some b)))"

definition add_pending :: "'i TreeOnDisk \<Rightarrow> Vfs \<Rightarrow> 'i TreeOnDisk" where
  "add_pending d v = d\<lparr>d_free_chunks := d_free_chunks d @ v_pending_free v\<rparr>"

definition encode_tree :: "'r env \<Rightarrow> Host \<Rightarrow> MetadataFormat \<Rightarrow> ('r, bytes) fop" where
  "encode_tree E H f =
     (case f of
        V5 \<Rightarrow>
          bindR (spill_to_v4_on_disk E) (\<lambda>v4.
          bindR (onV (readV (\<lambda>v. limited (pc_v4 H (add_pending v4 v))))) (\<lambda>payload.
          bindR (onV (readV (\<lambda>v. settings_tail H (v_max_vault_size v)))) (\<lambda>tail.
          case tail of
            Some t \<Rightarrow> retR (METADATA_V6_MAGIC @ payload @ t)
          | None \<Rightarrow> retR (METADATA_V5_MAGIC @ payload))))
      | V4 \<Rightarrow>
          bindR (spill_to_v4_on_disk E) (\<lambda>v4.
          bindR (onV (readV (\<lambda>v. limited (pc_v4 H (add_pending v4 v))))) (\<lambda>payload.
          retR (METADATA_V4_MAGIC @ payload)))
      | V3 \<Rightarrow>
          bindR (spill_to_v3_on_disk E) (\<lambda>v3.
          bindR (onV (readV (\<lambda>v. limited (pc_v3 H (add_pending v3 v))))) (\<lambda>payload.
          retR (METADATA_V3_MAGIC @ payload)))
      | V2 \<Rightarrow>
          bindR (onV (readV (\<lambda>v. limited (pc_v2 H ((v_tree v)\<lparr>free_chunks := free_chunks (v_tree v) @ v_pending_free v\<rparr>))))) (\<lambda>payload.
          retR (METADATA_V2_MAGIC @ payload)))"

text \<open>What a save does once the metadata is written: the slots freed before it may be used again.\<close>

definition settle :: "Vfs \<Rightarrow> Vfs" where
  "settle v =
     v\<lparr>v_tree := (v_tree v)\<lparr>free_chunks := free_chunks (v_tree v) @ v_pending_free v\<rparr>, v_pending_free := [],
       v_container := (v_container v)\<lparr>recovered_from_mirror := False\<rparr>, v_dirty := False, v_chunks_dirty := {}\<rparr>"

definition commit :: "'r env \<Rightarrow> Host \<Rightarrow> ('r, unit) fop" where
  "commit E H =
     bindR (setV (\<lambda>v. v\<lparr>v_cow_floor_gen := next_chunk_gen (v_tree v)\<rparr>)) (\<lambda>_.
     bindR (onV (readV (\<lambda>v. validate_metadata_tree (v_tree v) (v_doff v) (v_hide v)))) (\<lambda>_.
     bindR (onV alloc_gen) (\<lambda>_.
     bindR (setV (auto_upgrade_header H)) (\<lambda>_.
     bindR (setV auto_upgrade_format) (\<lambda>_.
     bindR (askV v_format) (\<lambda>f.
     bindR (encode_tree E H f) (\<lambda>bs.
     bindR (onK (fmt (c_write_metadata E bs))) (\<lambda>_.
     setV settle))))))))"

definition flush :: "'r env \<Rightarrow> Host \<Rightarrow> ('r, unit) fop" where
  "flush E H = (\<lambda>(v, r).
     if v_tolerated_inodes v \<noteq> [] then (if v_dirty v then Inl ReadOnlyMount else Inr (), (v, r))
     else if \<not> v_dirty v \<and> \<not> recovered_from_mirror (v_container v) then (Inr (), (v, r))
     else commit E H (v, r))"

definition close :: "'r env \<Rightarrow> Host \<Rightarrow> ('r, Container) fop" where
  "close E H = bindR (flush E H) (\<lambda>_. askV v_container)"

definition vfs_upgrade_header_to_v3 :: "'r env \<Rightarrow> Host \<Rightarrow> ('r, bool) fop" where
  "vfs_upgrade_header_to_v3 E H =
     bindR (onV (readV ensure_writable)) (\<lambda>_.
     bindR (askV (\<lambda>v. c_header_generation (v_container v))) (\<lambda>g.
     if g \<noteq> None then retR False
     else
       bindR (askV (\<lambda>v. version_major (c_header (v_container v)) = VERSION_MAJOR_V1 \<and> \<not> is_deniable (v_container v))) (\<lambda>old.
       bindR (if old
              then if \<not> use_v3_for_fresh_vault H
                then failR (Format (HeaderUpgradeUnsupported ''LUKSBOX_FORMAT_V2 is set (pre-v0.2.1 compatibility); unset it first''))
                else setV (\<lambda>v. (upgrade_v1_header_in_memory v)\<lparr>v_dirty := True\<rparr>)
              else retR ()) (\<lambda>_.
       bindR (onK (fmt upgrade_standard_header_to_v3)) (\<lambda>_.
       bindR (flush E H) (\<lambda>_.
       bindR (onK (fmt (persist_header E))) (\<lambda>_.
       retR True)))))))"

section \<open>Loading\<close>

definition inode_of :: "InodeV3OnDisk \<Rightarrow> u64 \<Rightarrow> ChunkRef list \<Rightarrow> ChunkRef list \<Rightarrow> u32 \<Rightarrow> u32 \<Rightarrow> rstring option \<Rightarrow> Inode" where
  "inode_of od sz chunks externals mode links target =
     \<lparr>i_id = o_id od, i_parent = o_parent od, i_kind = o_kind od, i_size = sz, i_mtime_ns = o_mtime_ns od,
      i_chunks = chunks, i_children = o_children od, i_cached_real_size = None, i_external_list_blocks = externals,
      i_mode = mode, i_link_count = links, i_symlink_target = target\<rparr>"

definition tree_of_disk :: "'i TreeOnDisk \<Rightarrow> (u64, Inode) btree \<Rightarrow> DirectoryTree" where
  "tree_of_disk d m =
     \<lparr>t_root = d_root d, next_file_id = d_next_file_id d, next_chunk_id = d_next_chunk_id d,
      next_chunk_gen = d_next_chunk_gen d, free_chunks = d_free_chunks d, inodes = m\<rparr>"

definition v3_inode :: "'r env \<Rightarrow> Container \<Rightarrow> InodeV3OnDisk \<Rightarrow> Inode vres" where
  "v3_inode E c od =
     bindE (case o_chunks_external od of
              None \<Rightarrow> Inr (o_chunks od, [])
            | Some (head, expected) \<Rightarrow>
                if o_kind od \<noteq> File then Inl MetadataDeserialize
                else if o_chunks od \<noteq> [] then Inl MetadataDeserialize
                else (case walk_chunk_list_chain E c (o_id od) head expected of
                        Inl _ \<Rightarrow> Inl MetadataDeserialize
                      | Inr x \<Rightarrow> Inr x)) (\<lambda>(chunks, externals).
     Inr (inode_of od (o_size od) chunks externals (default_mode_for_kind (o_kind od)) 1 None))"

fun v3_rows :: "'r env \<Rightarrow> Container \<Rightarrow> (u64 \<times> InodeV3OnDisk) list \<Rightarrow> (u64, Inode) btree \<Rightarrow> (u64, Inode) btree vres" where
  "v3_rows E c [] m = Inr m"
| "v3_rows E c ((fid, od) # rest) m = bindE (v3_inode E c od) (\<lambda>i. v3_rows E c rest (bt_insert fid i m))"

definition v3_on_disk_to_in_memory :: "'r env \<Rightarrow> DirectoryTreeV3OnDisk \<Rightarrow> Container \<Rightarrow> DirectoryTree vres" where
  "v3_on_disk_to_in_memory E d c = bindE (v3_rows E c (d_inodes d) []) (\<lambda>m. Inr (tree_of_disk d m))"

definition check_target :: "InodeV4OnDisk \<Rightarrow> unit vres" where
  "check_target od =
     (case (o_kind od, o_symlink_target od) of
        (Symlink, Some t) \<Rightarrow> if is_safe_symlink_target t then Inr () else Inl MetadataDeserialize
      | (Symlink, None) \<Rightarrow> Inl MetadataDeserialize
      | (_, Some _) \<Rightarrow> Inl MetadataDeserialize
      | (_, None) \<Rightarrow> Inr ())"

definition v4_inode :: "'r env \<Rightarrow> bool \<Rightarrow> Container \<Rightarrow> u64 \<Rightarrow> InodeV4OnDisk \<Rightarrow> (Inode \<times> ToleratedInode list) vres" where
  "v4_inode E tolerate c fid od =
     (if o_link_count od = 0 then Inl MetadataDeserialize
      else
        bindE (check_target od) (\<lambda>_.
        bindE (case o_chunks_external od of
                 None \<Rightarrow> Inr (o_chunks od, [], False)
               | Some (head, expected) \<Rightarrow>
                   if o_kind od \<noteq> File then Inl MetadataDeserialize
                   else if o_chunks od \<noteq> [] then Inl MetadataDeserialize
                   else (case walk_chunk_list_chain E c (o_id od) head expected of
                           Inr (chunks, externals) \<Rightarrow> Inr (chunks, externals, False)
                         | Inl _ \<Rightarrow> if tolerate then Inr ([], [], True) else Inl MetadataDeserialize)) (\<lambda>(chunks, externals, lost).
        Inr (inode_of (InodeV3OnDisk.truncate od) (if lost then 0 else o_size od) chunks externals (o_mode od) (o_link_count od)
               (o_symlink_target od),
             if lost then [\<lparr>ti_id = fid, ti_kind = o_kind od, ti_original_size = o_size od\<rparr>] else []))))"

fun v4_inodes :: "'r env \<Rightarrow> bool \<Rightarrow> Container \<Rightarrow> (u64 \<times> InodeV4OnDisk) list \<Rightarrow> (u64, Inode) btree \<Rightarrow> ToleratedInode list
    \<Rightarrow> ((u64, Inode) btree \<times> ToleratedInode list) vres" where
  "v4_inodes E tolerate c [] m lost = Inr (m, lost)"
| "v4_inodes E tolerate c ((fid, od) # rest) m lost =
     bindE (v4_inode E tolerate c fid od) (\<lambda>(i, l). v4_inodes E tolerate c rest (bt_insert fid i m) (lost @ l))"

definition v4_on_disk_to_in_memory ::
  "'r env \<Rightarrow> bool \<Rightarrow> DirectoryTreeV4OnDisk \<Rightarrow> Container \<Rightarrow> (DirectoryTree \<times> ToleratedInode list) vres" where
  "v4_on_disk_to_in_memory E tolerate d c =
     bindE (v4_inodes E tolerate c (d_inodes d) [] []) (\<lambda>(m, lost). Inr (tree_of_disk d m, lost))"

definition strip_magic :: "bytes \<Rightarrow> bytes \<Rightarrow> bytes option" where
  "strip_magic magic blob = (if length magic \<le> length blob \<and> take (length magic) blob = magic then Some (drop (length magic) blob) else None)"

definition decoded :: "(bytes \<Rightarrow> ('a \<times> bytes) option) \<Rightarrow> bytes \<Rightarrow> ('a \<times> bytes) vres" where
  "decoded un payload =
     (if METADATA_DECODE_LIMIT_BYTES < length payload then Inl MetadataDeserialize
      else ok_or MetadataDeserialize (un payload))"

definition patch_v2_modes :: "DirectoryTree \<Rightarrow> DirectoryTree" where
  "patch_v2_modes t = t\<lparr>inodes := map (\<lambda>(fid, i). (fid, i\<lparr>i_mode := default_mode_for_kind (i_kind i)\<rparr>)) (inodes t)\<rparr>"

definition decode_blob ::
  "'r env \<Rightarrow> Host \<Rightarrow> Container \<Rightarrow> bytes \<Rightarrow> (DirectoryTree \<times> MetadataFormat \<times> u64 \<times> ToleratedInode list) vres" where
  "decode_blob E H c blob =
     (if blob = [] then Inr (tree_new, for_fresh_vault H, 0, [])
      else case strip_magic METADATA_V6_MAGIC blob of
        Some payload \<Rightarrow>
          bindE (decoded (un_v4 H) payload) (\<lambda>(v4, rest).
          bindE (ok_or MetadataDeserialize (un_settings H rest)) (\<lambda>(settings, rest).
          if rest \<noteq> [] then Inl MetadataDeserialize
          else bindE (v4_on_disk_to_in_memory E (tolerate_bad_chunk_lists H) v4 c) (\<lambda>(t, lost).
            Inr (t, V5, s_max_vault_size settings, lost))))
      | None \<Rightarrow>
      case strip_magic METADATA_V5_MAGIC blob of
        Some payload \<Rightarrow>
          bindE (decoded (un_v4 H) payload) (\<lambda>(v4, _).
          bindE (v4_on_disk_to_in_memory E (tolerate_bad_chunk_lists H) v4 c) (\<lambda>(t, lost). Inr (t, V5, 0, lost)))
      | None \<Rightarrow>
      case strip_magic METADATA_V4_MAGIC blob of
        Some payload \<Rightarrow>
          bindE (decoded (un_v4 H) payload) (\<lambda>(v4, _).
          bindE (v4_on_disk_to_in_memory E (tolerate_bad_chunk_lists H) v4 c) (\<lambda>(t, lost). Inr (t, V4, 0, lost)))
      | None \<Rightarrow>
      case strip_magic METADATA_V3_MAGIC blob of
        Some payload \<Rightarrow>
          bindE (decoded (un_v3 H) payload) (\<lambda>(v3, _).
          bindE (v3_on_disk_to_in_memory E v3 c) (\<lambda>t. Inr (t, V3, 0, [])))
      | None \<Rightarrow>
      case strip_magic METADATA_V2_MAGIC blob of
        Some payload \<Rightarrow> bindE (decoded (un_v2 H) payload) (\<lambda>(t, _). Inr (patch_v2_modes t, V2, 0, []))
      | None \<Rightarrow> Inl MetadataDeserialize)"

definition vfs_open :: "'r env \<Rightarrow> Host \<Rightarrow> ('r, Vfs) kop" where
  "vfs_open E H =
     bindR (fmt (c_read_metadata E)) (\<lambda>blob (c, r).
       (bindE (decode_blob E H c blob) (\<lambda>(t, f, max_size, lost).
        bindE (validate_metadata_tree t (data_offset (c_header c)) (hide_size_header (c_header c))) (\<lambda>_.
        let t = fst (repair_stale_parents t) in
        Inr \<lparr>v_container = c, v_tree = t, v_dirty = False, v_format = f, v_tolerated_inodes = lost, v_chunks_dirty = {},
             v_pending_free = [], v_cow_floor_gen = next_chunk_gen t, v_max_vault_size = max_size\<rparr>)), (c, r)))"

end
