(* ===== verification/Lbx_Slots.thy ===== *)
theory Lbx_Slots
  imports Lbx_Save
begin

text \<open>
  What operations on file contents keep: trees with the same names, the accounting of slots (each in
  use, free, waiting to be freed or held by the operation under way, and never two of these), and which
  slots on disk a change leaves readable. Shared by the proofs about saves, writes and truncation.
\<close>

section \<open>Trees with the same names\<close>

text \<open>Two inode maps that differ at most in what concerns the contents of files.\<close>

definition names_same :: "Inode \<Rightarrow> Inode \<Rightarrow> bool" where
  "names_same i j \<longleftrightarrow>
     i_id j = i_id i \<and> i_parent j = i_parent i \<and> i_kind j = i_kind i \<and> i_children j = i_children i
     \<and> i_link_count j = i_link_count i \<and> i_symlink_target j = i_symlink_target i"

definition same_tree :: "(Inode \<Rightarrow> Inode \<Rightarrow> bool) \<Rightarrow> (u64, Inode) btree \<Rightarrow> (u64, Inode) btree \<Rightarrow> bool" where
  "same_tree R m m' \<longleftrightarrow> list_all2 (\<lambda>p q. fst q = fst p \<and> R (snd p) (snd q)) m m'"

lemma same_tree_keys: "same_tree R m m' \<Longrightarrow> bt_keys m' = bt_keys m"
  unfolding same_tree_def bt_keys_def by (induction rule: list_all2_induct) auto

lemma same_tree_ok: "same_tree R m m' \<Longrightarrow> bt_ok m' = bt_ok m"
  using same_tree_keys by (simp add: bt_ok_def)

lemma same_tree_get:
  assumes "same_tree R m m'"
  shows "rel_option R (bt_get m k) (bt_get m' k)"
  using assms unfolding same_tree_def bt_get_def by (induction rule: list_all2_induct) (auto split: prod.splits)

lemma same_tree_getD:
  assumes "same_tree R m m'"
  shows "bt_get m' k = Some j \<Longrightarrow> \<exists>i. bt_get m k = Some i \<and> R i j" "bt_get m k = Some i \<Longrightarrow> \<exists>j. bt_get m' k = Some j \<and> R i j"
    "bt_get m' k = None \<longleftrightarrow> bt_get m k = None" "bt_contains m' k = bt_contains m k"
  using same_tree_get [OF assms, of k] by (auto simp: rel_option_iff bt_contains_def split: option.splits)

lemma same_tree_refl: "(\<And>i. R i i) \<Longrightarrow> same_tree R m m"
  unfolding same_tree_def by (rule list_all2_refl) simp

lemma same_tree_trans:
  assumes "same_tree R m1 m2" "same_tree S m2 m3" "\<And>i j k. R i j \<Longrightarrow> S j k \<Longrightarrow> T i k"
  shows "same_tree T m1 m3"
  using list_all2_trans [of "\<lambda>p q. fst q = fst p \<and> R (snd p) (snd q)" "\<lambda>p q. fst q = fst p \<and> S (snd p) (snd q)"
      "\<lambda>p q. fst q = fst p \<and> T (snd p) (snd q)" m1 m2 m3] assms
  unfolding same_tree_def by auto

lemma same_tree_mono: "same_tree R m m' \<Longrightarrow> (\<And>i j. R i j \<Longrightarrow> S i j) \<Longrightarrow> same_tree S m m'"
  unfolding same_tree_def by (erule list_all2_mono) auto

lemma same_tree_insert:
  assumes "bt_ok m" "bt_get m k = Some i" "R i j" "\<And>i. R i i"
  shows "same_tree R m (bt_insert k j m)"
  using assms
proof (induction m)
  case (Cons p m)
  obtain k' i' where p: "p = (k', i')" by (cases p)
  have refl: "list_all2 (\<lambda>p q. fst q = fst p \<and> R (snd p) (snd q)) m m" by (rule list_all2_refl) (use assms(4) in simp)
  show ?case
  proof (cases "k' = k")
    case True
    then have "i' = i" using Cons.prems(2) p by (simp add: bt_get_def)
    then show ?thesis using True p refl Cons.prems(3) by (simp add: same_tree_def)
  next
    case False
    then have g: "bt_get m k = Some i" using Cons.prems(2) p by (simp add: bt_get_def)
    have "k' < k" using Cons.prems(1) g p unfolding bt_ok_Cons by auto
    then show ?thesis using Cons.IH [OF _ g Cons.prems(3,4)] Cons.prems(1,4) p False
      by (simp add: same_tree_def bt_ok_Cons)
  qed
qed (simp add: bt_get_def)

lemma same_tree_modify:
  assumes "bt_ok m" "\<And>i. bt_get m k = Some i \<Longrightarrow> R i (f i)" "\<And>i. R i i"
  shows "same_tree R m (bt_modify k f m)"
proof (cases "bt_get m k")
  case None
  then show ?thesis using same_tree_refl [of R m] assms(3) by (simp add: bt_modify_def)
next
  case (Some i)
  then show ?thesis using same_tree_insert [OF assms(1) Some assms(2) [OF Some] assms(3)] by (simp add: bt_modify_def)
qed

lemma same_tree_total:
  assumes "same_tree R m m'" "\<And>i j. R i j \<Longrightarrow> F j = F i"
  shows "bt_total F m' = bt_total F m"
  using assms(1) unfolding same_tree_def by (induction rule: list_all2_induct) (simp_all add: assms(2))

lemma names_sameD:
  assumes "names_same i j"
  shows "i_id j = i_id i" "i_parent j = i_parent i" "i_kind j = i_kind i" "i_children j = i_children i"
    "i_link_count j = i_link_count i" "i_symlink_target j = i_symlink_target i"
  using assms by (simp_all add: names_same_def)

lemma names_same_refl [simp]: "names_same i i"
  by (simp add: names_same_def)

lemma same_names:
  assumes "same_tree names_same m m'"
  shows "kids_ok m' = kids_ok m" "entry m' = entry m" "refs m' = refs m" "dir_at m' d = dir_at m d"
    "parents_held m' = parents_held m" "kids_ok m \<Longrightarrow> child_rel m' = child_rel m"
proof -
  note g = same_tree_getD [OF assms]
  have gi: "\<exists>i. bt_get m k = Some i \<and> names_same i j" if "bt_get m' k = Some j" for k j using g(1) that by blast
  have gj: "\<exists>j. bt_get m' k = Some j \<and> names_same i j" if "bt_get m k = Some i" for k i using g(2) that by blast
  show k: "kids_ok m' = kids_ok m"
    unfolding kids_ok_def same_tree_ok [OF assms]
  proof (intro arg_cong2 [where f = conj] refl iffI allI impI)
    fix k i assume a: "\<forall>k j. bt_get m' k = Some j \<longrightarrow> bt_ok (i_children j)" "bt_get m k = Some i"
    then show "bt_ok (i_children i)" using gj [OF a(2)] names_sameD(4) by fastforce
  next
    fix k j assume a: "\<forall>k i. bt_get m k = Some i \<longrightarrow> bt_ok (i_children i)" "bt_get m' k = Some j"
    then show "bt_ok (i_children j)" using gi [OF a(2)] names_sameD(4) by fastforce
  qed
  show e: "entry m' = entry m"
  proof (intro ext)
    fix d n show "entry m' d n = entry m d n"
    proof (cases "bt_get m d")
      case (Some i)
      then obtain j where "bt_get m' d = Some j" "names_same i j" using g(2) by blast
      then show ?thesis using Some by (simp add: entry_def names_same_def)
    qed (simp add: entry_def g(3) [THEN iffD2])
  qed
  show "refs m' = refs m" unfolding refs_def by (rule same_tree_total [OF assms]) (simp add: names_same_def)
  show "dir_at m' d = dir_at m d"
  proof (cases "bt_get m d")
    case (Some i)
    then obtain j where "bt_get m' d = Some j" "names_same i j" using gj by blast
    then show ?thesis using Some by (simp add: dir_at_def names_same_def)
  qed (simp add: dir_at_def g(3) [THEN iffD2])
  have "held m' x = held m x" for x
  proof (cases "bt_get m x")
    case (Some i)
    then obtain j where "bt_get m' x = Some j" "names_same i j" using gj by blast
    then show ?thesis using Some by (simp add: held_def e names_same_def)
  qed (simp add: held_def g(3) [THEN iffD2])
  then show "parents_held m' = parents_held m" by (simp add: parents_held_def)
  show "child_rel m' = child_rel m" if km: "kids_ok m"
  proof (rule set_eqI)
    fix p :: "u64 \<times> u64"
    obtain d c where p: "p = (d, c)" by (cases p)
    show "p \<in> child_rel m' \<longleftrightarrow> p \<in> child_rel m"
      unfolding p child_rel_entry [OF km] child_rel_entry [OF k [THEN iffD2, OF km]] e by (rule refl)
  qed
qed

lemma ns_core_same:
  assumes "same_tree names_same m m'" "ns_core hide m" "\<And>k j. bt_get m' k = Some j \<Longrightarrow> inode_ok hide j"
  shows "ns_core hide m'"
proof -
  note g = same_tree_getD [OF assms(1)] and s = same_names [OF assms(1)] and ns = ns_coreD [OF assms(2)]
  have "i_id j = k \<and> (k \<noteq> 1 \<longrightarrow> count (refs m) k = unat (i_link_count j))" if gj: "bt_get m' k = Some j" for k j
  proof -
    obtain i where i: "bt_get m k = Some i" "names_same i j" using same_tree_getD(1) [OF assms(1) gj] by blast
    then show ?thesis using ns(3,9) [OF i(1)] by (simp add: names_same_def)
  qed
  note row = this
  have root: "\<exists>r. bt_get m' 1 = Some r \<and> i_kind r = Directory \<and> i_parent r = 1"
  proof -
    obtain r where r: "bt_get m 1 = Some r" "i_kind r = Directory" "i_parent r = 1" using ns_coreD(6) [OF assms(2)] by blast
    from same_tree_getD(2) [OF assms(1) r(1)] obtain r' where "bt_get m' 1 = Some r'" "names_same r r'" by blast
    then show ?thesis using r by (simp add: names_same_def)
  qed
  show ?thesis
    unfolding ns_core_def s(1,3,4) s(6) [OF ns(1)] g(4)
  proof (intro conjI allI impI root)
    show "kids_ok m" by (rule ns(1))
    show "c \<noteq> 1" "bt_contains m c" if "c \<in># refs m" for c using ns(7,8) that by blast+
    show "i_id j = k" "inode_ok hide j" if "bt_get m' k = Some j" for k j using row [OF that] assms(3) [OF that] by simp_all
    show "count (refs m) k = unat (i_link_count j)" if "bt_get m' k = Some j" "k \<noteq> 1" for k j using row [OF that(1)] that(2) by simp
    show "(1, d) \<in> (child_rel m)\<^sup>*" if "dir_at m d" for d by (rule ns(10) [OF that])
  qed
qed

section \<open>Accounting of slots\<close>

text \<open>
  Every slot is in use by one inode, free, waiting to be freed, or held by the operation under way
  (the set \<open>R\<close>), and in no two of these.
\<close>

definition used :: "Vfs \<Rightarrow> u64 multiset" where
  "used v = slots (v_inodes v) + mset (free_chunks (v_tree v)) + mset (v_pending_free v)"

definition acct :: "u64 set \<Rightarrow> Vfs \<Rightarrow> bool" where
  "acct R v \<longleftrightarrow>
     next_chunk_gen (v_tree v) \<noteq> 0
     \<and> (\<forall>fid i. bt_get (v_inodes v) fid = Some i \<longrightarrow>
          (\<forall>cr \<in> set (inode_refs i). cr_gen cr \<noteq> 0 \<and> cr_gen cr < next_chunk_gen (v_tree v)))
     \<and> (\<forall>x. count (used v) x \<le> 1)
     \<and> (\<forall>x. x \<in># used v \<or> x \<in> R \<longrightarrow> x < next_chunk_id (v_tree v))
     \<and> (\<forall>x \<in> R. x \<notin># used v)"

definition room :: "Vfs \<Rightarrow> bool" where
  "room v \<longleftrightarrow> is_ok (slot_offset (v_doff v) (next_chunk_id (v_tree v))) \<and> next_chunk_gen (v_tree v) \<noteq> -1"

definition ids_ok :: "Vfs \<Rightarrow> bool" where
  "ids_ok v \<longleftrightarrow>
     t_root (v_tree v) = ROOT_ID \<and> ROOT_ID < next_file_id (v_tree v) \<and> next_file_id (v_tree v) < CHUNK_LIST_FILE_ID_BIT
     \<and> (\<forall>fid i. bt_get (v_inodes v) fid = Some i \<longrightarrow> fid < next_file_id (v_tree v))"

lemma slot_offset_ok: "is_ok (slot_offset doff i) \<longleftrightarrow> unat doff + unat i * 4124 < 2 ^ 64"
proof
  show "unat doff + unat i * 4124 < 2 ^ 64" if "is_ok (slot_offset doff i)"
    using that slot_offset_Inr by (metis is_ok_iff)
  assume a: "unat doff + unat i * 4124 < 2 ^ 64"
  then have "unat (of_nat (unat doff + unat i * 4124) :: u64) = unat doff + unat i * 4124" by (intro unat_of_nat_u64) simp
  then have "slot_offset doff i = Inr (of_nat (unat doff + unat i * 4124))" using a by (simp add: slot_offset_Inr)
  then show "is_ok (slot_offset doff i)" by simp
qed

lemma slot_offset_mono: "x \<le> y \<Longrightarrow> is_ok (slot_offset doff y) \<Longrightarrow> is_ok (slot_offset doff x)"
  unfolding slot_offset_ok word_le_nat_alt by (meson add_left_mono le_less_trans mult_le_mono1)

lemma in_slots: "bt_ok m \<Longrightarrow> x \<in># slots m \<longleftrightarrow> (\<exists>fid i. bt_get m fid = Some i \<and> x \<in> cr_id ` set (inode_refs i))"
  unfolding slots_def by (auto simp: bt_total_mem)

lemma counters_ok_split: "bt_ok (v_inodes v) \<Longrightarrow> counters_ok v \<longleftrightarrow> ids_ok v \<and> acct {} v \<and> room v"
proof
  assume ok: "bt_ok (v_inodes v)" and c: "counters_ok v"
  let ?t = "v_tree v"
  have ino: "fid < next_file_id ?t \<and> (\<forall>cr \<in> set (inode_refs i). ref_ok (v_doff v) (next_chunk_id ?t) (next_chunk_gen ?t) cr)"
    if "bt_get (v_inodes v) fid = Some i" for fid i using c that unfolding counters_ok_def Let_def by blast
  have fr: "x < next_chunk_id ?t" if "x \<in> set (free_chunks ?t) \<union> set (v_pending_free v)" for x
    using c that unfolding counters_ok_def Let_def by blast
  have cnt: "count (used v) x \<le> 1" for x using c unfolding counters_ok_def Let_def used_def by blast
  have "x < next_chunk_id ?t" if x: "x \<in># used v" for x
  proof (cases "x \<in># slots (v_inodes v)")
    case True
    then obtain fid i where "bt_get (v_inodes v) fid = Some i" "x \<in> cr_id ` set (inode_refs i)" using in_slots [OF ok] by blast
    then show ?thesis using ino by (auto simp: ref_ok_def)
  next
    case False
    then show ?thesis using x fr by (auto simp: used_def)
  qed
  then have "acct {} v"
    unfolding acct_def using ino cnt c by (auto simp: ref_ok_def counters_ok_def Let_def)
  moreover have "ids_ok v" "room v" using c unfolding ids_ok_def room_def counters_ok_def Let_def by blast+
  ultimately show "ids_ok v \<and> acct {} v \<and> room v" by blast
next
  assume ok: "bt_ok (v_inodes v)" and a: "ids_ok v \<and> acct {} v \<and> room v"
  let ?t = "v_tree v"
  have lt: "x < next_chunk_id ?t \<and> is_ok (slot_offset (v_doff v) x)" if "x \<in># used v" for x
    using a that slot_offset_mono [of x "next_chunk_id ?t"] unfolding acct_def room_def by auto
  have "ref_ok (v_doff v) (next_chunk_id ?t) (next_chunk_gen ?t) cr"
    if "bt_get (v_inodes v) fid = Some i" "cr \<in> set (inode_refs i)" for fid i cr
  proof -
    have "cr_id cr \<in># used v" using that in_slots [OF ok] by (auto simp: used_def)
    then show ?thesis using lt a that unfolding acct_def ref_ok_def by blast
  qed
  moreover have "x \<in># used v" if "x \<in> set (free_chunks ?t) \<union> set (v_pending_free v)" for x using that by (auto simp: used_def)
  ultimately show "counters_ok v"
    using a lt unfolding counters_ok_def Let_def ids_ok_def room_def acct_def used_def by blast
qed

section \<open>Allocating\<close>

lemma alloc_gen_Inr:
  "alloc_gen v = (Inr g, v') \<longleftrightarrow>
     g = next_chunk_gen (v_tree v) \<and> unat g + 1 < 2 ^ 64 \<and> v' = v\<lparr>v_tree := (v_tree v)\<lparr>next_chunk_gen := g + 1\<rparr>\<rparr>"
  by (auto simp: alloc_gen_def alloc_chunk_gen_def checked_add_u64_def split: option.splits if_splits)

lemma less_plus_one: "unat g + 1 < 2 ^ 64 \<Longrightarrow> (x :: u64) < g + 1 \<longleftrightarrow> x \<le> g"
proof -
  assume a: "unat g + 1 < 2 ^ 64"
  then have "unat (g + 1) = unat g + 1" using unat_add_lem [of g 1] by simp
  then show ?thesis by (auto simp: word_less_nat_alt word_le_nat_alt)
qed

lemma plus_one_nonzero: "unat g + 1 < 2 ^ 64 \<Longrightarrow> (g :: u64) + 1 \<noteq> 0"
proof -
  assume "unat g + 1 < 2 ^ 64"
  then have "unat (g + 1) = unat g + 1" using unat_add_lem [of g 1] by simp
  then show ?thesis by (metis add_is_0 one_neq_zero unat_0)
qed

lemma alloc_gen_acct:
  assumes "acct R v" "alloc_gen v = (Inr g, v')"
  shows "acct R v'" "g \<noteq> 0" "g < next_chunk_gen (v_tree v')" "next_chunk_gen (v_tree v) \<le> next_chunk_gen (v_tree v')"
proof -
  let ?g = "next_chunk_gen (v_tree v)"
  have v': "g = ?g" "unat ?g + 1 < 2 ^ 64" "v' = v\<lparr>v_tree := (v_tree v)\<lparr>next_chunk_gen := ?g + 1\<rparr>\<rparr>"
    using assms(2) by (auto simp: alloc_gen_Inr)
  note lt = less_plus_one [OF v'(2)]
  show "g \<noteq> 0" using assms(1) v'(1) by (simp add: acct_def)
  show "g < next_chunk_gen (v_tree v')" using v' lt by simp
  show "?g \<le> next_chunk_gen (v_tree v')" using v' lt by (simp add: order.strict_implies_order)
  show "acct R v'" using assms(1) plus_one_nonzero [OF v'(2)] unfolding acct_def used_def v'(3)
    by (simp add: lt) (meson order.strict_implies_order)
qed

lemma alloc_cid_Inr:
  "alloc_cid v = (Inr x, v') \<longleftrightarrow>
     free_chunks (v_tree v) \<noteq> [] \<and> x = last (free_chunks (v_tree v))
       \<and> v' = v\<lparr>v_tree := (v_tree v)\<lparr>free_chunks := butlast (free_chunks (v_tree v))\<rparr>\<rparr>
     \<or> free_chunks (v_tree v) = [] \<and> x = next_chunk_id (v_tree v) \<and> unat x + 1 < 2 ^ 64
       \<and> v' = v\<lparr>v_tree := (v_tree v)\<lparr>next_chunk_id := x + 1\<rparr>\<rparr>"
  by (auto simp: alloc_cid_def alloc_chunk_id_def checked_add_u64_def split: option.splits if_splits)

lemma mset_butlast_last: "xs \<noteq> [] \<Longrightarrow> mset xs = add_mset (last xs) (mset (butlast xs))"
  by (induction xs rule: rev_induct) auto

text \<open>An allocated slot is none of those in use, waiting or held.\<close>

lemma alloc_cid_acct:
  assumes a: "acct R v" and al: "alloc_cid v = (Inr x, v')"
  shows "acct (insert x R) v'" "x \<notin># slots (v_inodes v)" "x \<notin> set (v_pending_free v)" "x \<notin> R"
    "next_chunk_id (v_tree v) \<le> next_chunk_id (v_tree v')"
proof -
  let ?t = "v_tree v"
  have lt: "y < next_chunk_id ?t" if "y \<in># used v \<or> y \<in> R" for y using a that unfolding acct_def by blast
  have cnt: "count (used v) y \<le> 1" for y using a unfolding acct_def by blast
  have dis: "y \<notin># used v" if "y \<in> R" for y using a that unfolding acct_def by blast
  have "acct (insert x R) v' \<and> x \<notin># slots (v_inodes v) \<and> x \<notin> set (v_pending_free v) \<and> x \<notin> R
      \<and> next_chunk_id ?t \<le> next_chunk_id (v_tree v')"
  proof (cases "free_chunks ?t = []")
    case False
    then have x: "x = last (free_chunks ?t)" and v': "v' = v\<lparr>v_tree := ?t\<lparr>free_chunks := butlast (free_chunks ?t)\<rparr>\<rparr>"
      using al by (auto simp: alloc_cid_Inr)
    have u: "used v = add_mset x (used v')"
      using mset_butlast_last [OF False] by (simp add: used_def v' x)
    have xu: "x \<in># used v" using u by simp
    have nx: "x \<notin># used v'" using cnt [of x] u by (simp add: not_in_iff)
    have le: "count (used v') y \<le> 1" for y using cnt [of y] u by (simp split: if_splits)
    have sub: "y \<in># used v" if "y \<in># used v'" for y using that u by simp
    have "acct (insert x R) v'"
      unfolding acct_def using a lt le nx dis sub xu by (auto simp: acct_def v')
    moreover have "x \<notin># slots (v_inodes v)" "x \<notin> set (v_pending_free v)" using nx by (auto simp: used_def v')
    moreover have "x \<notin> R" using dis xu by blast
    ultimately show ?thesis by (simp add: v')
  next
    case True
    then have x: "x = next_chunk_id ?t" "unat x + 1 < 2 ^ 64" and v': "v' = v\<lparr>v_tree := ?t\<lparr>next_chunk_id := x + 1\<rparr>\<rparr>"
      using al by (auto simp: alloc_cid_Inr)
    have nu: "x \<notin># used v" "x \<notin> R" using lt [of x] x(1) by auto
    have u: "used v' = used v" by (simp add: used_def v')
    have "acct (insert x R) v'"
      unfolding acct_def u using a lt nu less_plus_one [OF x(2)] x(1)
      by (auto simp: acct_def v' order.strict_implies_order)
    moreover have "next_chunk_id ?t \<le> x + 1" using less_plus_one [OF x(2), of x] x(1) by (simp add: order.strict_implies_order)
    ultimately show ?thesis using nu by (simp add: v' used_def)
  qed
  then show "acct (insert x R) v'" "x \<notin># slots (v_inodes v)" "x \<notin> set (v_pending_free v)" "x \<notin> R"
    "next_chunk_id ?t \<le> next_chunk_id (v_tree v')" by blast+
qed

lemma acct_mono: "acct R v \<Longrightarrow> S \<subseteq> R \<Longrightarrow> acct S v"
  unfolding acct_def by blast

section \<open>What operations on the contents keep\<close>

definition data_same :: "Inode \<Rightarrow> Inode \<Rightarrow> bool" where
  "data_same i j \<longleftrightarrow> j = i\<lparr>i_external_list_blocks := i_external_list_blocks j\<rparr>"

definition hdr_same :: "Container \<Rightarrow> Container \<Rightarrow> bool" where
  "hdr_same c c' \<longleftrightarrow>
     (let h = c_header c; h' = c_header c' in
      data_offset h' = data_offset h \<and> metadata_offset h' = metadata_offset h \<and> metadata_size h' = metadata_size h
      \<and> cipher_suite h' = cipher_suite h \<and> header_salt h' = header_salt h \<and> hide_size_header h' = hide_size_header h
      \<and> pad_files_pow2 h' = pad_files_pow2 h \<and> masked_metadata_len h' = masked_metadata_len h)
     \<and> c_mvk c' = c_mvk c \<and> deniable c' = deniable c \<and> rotating c' = rotating c
     \<and> c_header_generation c' = c_header_generation c"

definition frame :: "Vfs \<Rightarrow> Vfs \<Rightarrow> bool" where
  "frame v v' \<longleftrightarrow>
     same_tree data_same (v_inodes v) (v_inodes v') \<and> t_root (v_tree v') = t_root (v_tree v)
     \<and> next_file_id (v_tree v') = next_file_id (v_tree v) \<and> next_chunk_id (v_tree v) \<le> next_chunk_id (v_tree v')
     \<and> next_chunk_gen (v_tree v) \<le> next_chunk_gen (v_tree v') \<and> v_tolerated_inodes v' = v_tolerated_inodes v
     \<and> v_max_vault_size v' = v_max_vault_size v \<and> hdr_same (v_container v) (v_container v')"

lemma data_same_refl [simp]: "data_same i i"
  by (simp add: data_same_def)

lemma data_same_trans: "data_same i j \<Longrightarrow> data_same j k \<Longrightarrow> data_same i k"
  by (simp add: data_same_def) (metis Inode.update_convs(9) Inode.surjective)

lemma data_sameD:
  assumes "data_same i j"
  shows "i_id j = i_id i" "i_parent j = i_parent i" "i_kind j = i_kind i" "i_size j = i_size i" "i_mtime_ns j = i_mtime_ns i"
    "i_chunks j = i_chunks i" "i_children j = i_children i" "i_cached_real_size j = i_cached_real_size i"
    "i_mode j = i_mode i" "i_link_count j = i_link_count i" "i_symlink_target j = i_symlink_target i"
    "names_same i j"
proof -
  obtain b where j: "j = i\<lparr>i_external_list_blocks := b\<rparr>" using assms by (auto simp: data_same_def)
  show "i_id j = i_id i" "i_parent j = i_parent i" "i_kind j = i_kind i" "i_size j = i_size i" "i_mtime_ns j = i_mtime_ns i"
    "i_chunks j = i_chunks i" "i_children j = i_children i" "i_cached_real_size j = i_cached_real_size i"
    "i_mode j = i_mode i" "i_link_count j = i_link_count i" "i_symlink_target j = i_symlink_target i" "names_same i j"
    by (simp_all add: j names_same_def)
qed

lemma hdr_same_refl [simp]: "hdr_same c c"
  by (simp add: hdr_same_def Let_def)

lemma hdr_same_trans: "hdr_same a b \<Longrightarrow> hdr_same b c \<Longrightarrow> hdr_same a c"
  by (simp add: hdr_same_def Let_def)

lemma hdr_same_key: "hdr_same c c' \<Longrightarrow> file_key E c' f = file_key E c f" "hdr_same c c' \<Longrightarrow> list_file_key E c' f = list_file_key E c f"
  by (simp_all add: hdr_same_def Let_def file_key_def list_file_key_def c_derive_subkey_def)

lemma frame_refl [simp]: "frame v v"
  by (simp add: frame_def same_tree_refl)

lemma frame_trans: "frame u v \<Longrightarrow> frame v w \<Longrightarrow> frame u w"
  unfolding frame_def using same_tree_trans data_same_trans hdr_same_trans order_trans by (metis (no_types, lifting))

lemma frameD:
  assumes "frame v v'"
  shows "same_tree data_same (v_inodes v) (v_inodes v')" "same_tree names_same (v_inodes v) (v_inodes v')"
    "v_doff v' = v_doff v" "v_hide v' = v_hide v" "hdr_same (v_container v) (v_container v')"
  using assms same_tree_mono [of data_same] data_sameD(12) by (auto simp: frame_def hdr_same_def Let_def)

section \<open>What is on disk\<close>

definition safe :: "'r env \<Rightarrow> u64 set \<Rightarrow> Container \<Rightarrow> Container \<Rightarrow> bool" where
  "safe E S c c' \<longleftrightarrow> (\<forall>a pt. cr_id (a_ref a) \<in> S \<longrightarrow> rd_chunk E c a = Some pt \<longrightarrow> rd_chunk E c' a = Some pt)"

lemma safe_refl [simp]: "safe E S c c"
  by (simp add: safe_def)

lemma safe_trans: "safe E S a b \<Longrightarrow> safe E T b c \<Longrightarrow> U \<subseteq> S \<Longrightarrow> U \<subseteq> T \<Longrightarrow> safe E U a c"
  unfolding safe_def by blast

lemma safe_mono: "safe E S c c' \<Longrightarrow> T \<subseteq> S \<Longrightarrow> safe E T c c'"
  unfolding safe_def by blast

definition prot :: "u64 set \<Rightarrow> Vfs \<Rightarrow> u64 set" where
  "prot R v = set_mset (slots (v_inodes v)) \<union> set (v_pending_free v) \<union> R"

definition chain_good :: "'r env \<Rightarrow> Container \<Rightarrow> u64 \<Rightarrow> Inode \<Rightarrow> bool" where
  "chain_good E c fid i \<longleftrightarrow>
     chain_ok E c fid (i_chunks i) 0 (i_external_list_blocks i)
     \<and> length (i_external_list_blocks i) = div_ceil (length (i_chunks i)) 254"

definition chains_ok :: "'r env \<Rightarrow> Vfs \<Rightarrow> bool" where
  "chains_ok E v \<longleftrightarrow>
     (\<forall>fid i. bt_get (v_inodes v) fid = Some i \<longrightarrow> i_external_list_blocks i \<noteq> [] \<longrightarrow> fid \<notin> v_chunks_dirty v \<longrightarrow>
        chain_good E (v_container v) fid i)"

lemma chain_ok_safe: "safe E S c c' \<Longrightarrow> cr_id ` set bs \<subseteq> S \<Longrightarrow> chain_ok E c fid entries idx bs \<Longrightarrow> chain_ok E c' fid entries idx bs"
proof (induction bs arbitrary: idx)
  case (Cons b bs)
  then obtain pt where "rd_chunk E c (chain_addr fid idx b) = Some pt" "block_holds entries idx bs pt" by auto
  moreover have "cr_id (a_ref (chain_addr fid idx b)) \<in> S" using Cons.prems(2) by (simp add: chain_addr_def)
  ultimately show ?case using Cons by (auto simp: safe_def)
qed simp

lemma chain_good_safe: "safe E S c c' \<Longrightarrow> cr_id ` set (i_external_list_blocks i) \<subseteq> S \<Longrightarrow> chain_good E c fid i \<Longrightarrow> chain_good E c' fid i"
  unfolding chain_good_def by (metis chain_ok_safe)

section \<open>Writing to the data area\<close>

lemma write_chunk_file: "write_chunk E key f i ch pt (c, r) = (x, (c', r')) \<Longrightarrow> \<exists>g. c' = c\<lparr>lbx_file := g\<rparr>"
  by (auto simp: write_chunk_def bindR_def liftR_def vcrypto_def onR_def fmt_def write_at_def lbxC_def
      split: if_splits prod.splits sum.splits) (metis Container.surjective Container.update_convs(1))+

lemma write_list_block_file:
  assumes "write_chunk_list_block E fid idx ch es nx (c, r) = (Inr (), (c', r'))"
  shows "\<exists>g. c' = c\<lparr>lbx_file := g\<rparr>"
  using assms write_chunk_file by (fastforce simp: write_chunk_list_block_def bindR_eq_Inr onR_eq_Inr)

lemma write_chain_file: "write_chain_blocks E fid es idx bs (c, r) = (Inr (), (c', r')) \<Longrightarrow> \<exists>g. c' = c\<lparr>lbx_file := g\<rparr>"
proof (induction bs arbitrary: idx c r)
  case Nil
  then show ?case by (metis Container.surjective Container.update_convs(1) retR_eq prod.inject write_chain_blocks.simps(1))
next
  case (Cons b bs)
  from Cons.prems obtain c1 r1 where w: "write_chunk_list_block E fid (of_nat idx) b (take 254 (drop (idx * 254) es))
      (case bs of [] \<Rightarrow> None | b' # _ \<Rightarrow> Some b') (c, r) = (Inr (), (c1, r1))"
    and rest: "write_chain_blocks E fid es (Suc idx) bs (c1, r1) = (Inr (), (c', r'))"
    by (auto simp: bindR_eq_Inr)
  from write_list_block_file [OF w] Cons.IH [OF rest] show ?case by auto
qed

lemma hdr_same_file [simp]: "hdr_same c (c\<lparr>lbx_file := g\<rparr>)"
  by (simp add: hdr_same_def Let_def c_header_generation_def)

lemma onV_Inr: "onV m (v, r) = (Inr x, (v', r')) \<longleftrightarrow> m v = (Inr x, v') \<and> r' = r"
  by (auto simp: onV_def split: prod.splits)

lemma onK_Inr: "onK m (v, r) = (Inr x, (v', r')) \<longleftrightarrow> (\<exists>c. m (v_container v, r) = (Inr x, (c, r')) \<and> v' = v\<lparr>v_container := c\<rparr>)"
  by (auto simp: onK_def split: prod.splits)

lemma askV_Inr: "askV f (v, r) = (Inr x, (v', r')) \<longleftrightarrow> x = f v \<and> v' = v \<and> r' = r"
  by (auto simp: askV_def onV_Inr readV_eq)

lemma setV_Inr: "setV f (v, r) = (Inr x, (v', r')) \<longleftrightarrow> v' = f v \<and> r' = r"
  by (auto simp: setV_def onV_Inr modV_eq)

lemmas fop_simps = bindR_eq_Inr onV_Inr onK_Inr askV_Inr setV_Inr readV_eq

section \<open>Spilling one inode\<close>

text \<open>Allocation changes the counters and the free list only.\<close>

definition alloc_frame :: "Vfs \<Rightarrow> Vfs \<Rightarrow> bool" where
  "alloc_frame v v' \<longleftrightarrow>
     (\<exists>nc ng fr. v' = v\<lparr>v_tree := (v_tree v)\<lparr>next_chunk_id := nc, next_chunk_gen := ng, free_chunks := fr\<rparr>\<rparr>
        \<and> next_chunk_id (v_tree v) \<le> nc \<and> next_chunk_gen (v_tree v) \<le> ng)"

lemma alloc_frame_refl [simp]: "alloc_frame v v"
  unfolding alloc_frame_def
  by (rule exI [where x = "next_chunk_id (v_tree v)"], rule exI [where x = "next_chunk_gen (v_tree v)"],
      rule exI [where x = "free_chunks (v_tree v)"]) simp

lemma alloc_frame_trans: "alloc_frame u v \<Longrightarrow> alloc_frame v w \<Longrightarrow> alloc_frame u w"
proof -
  assume "alloc_frame u v"
  then obtain nc ng fr where v: "v = u\<lparr>v_tree := (v_tree u)\<lparr>next_chunk_id := nc, next_chunk_gen := ng, free_chunks := fr\<rparr>\<rparr>"
    "next_chunk_id (v_tree u) \<le> nc" "next_chunk_gen (v_tree u) \<le> ng" unfolding alloc_frame_def by blast
  assume "alloc_frame v w"
  then obtain nc' ng' fr' where w: "w = v\<lparr>v_tree := (v_tree v)\<lparr>next_chunk_id := nc', next_chunk_gen := ng', free_chunks := fr'\<rparr>\<rparr>"
    "next_chunk_id (v_tree v) \<le> nc'" "next_chunk_gen (v_tree v) \<le> ng'" unfolding alloc_frame_def by blast
  have "w = u\<lparr>v_tree := (v_tree u)\<lparr>next_chunk_id := nc', next_chunk_gen := ng', free_chunks := fr'\<rparr>\<rparr>" using v(1) w(1) by simp
  moreover have "next_chunk_id (v_tree u) \<le> nc'" "next_chunk_gen (v_tree u) \<le> ng'" using v w by simp_all
  ultimately show "alloc_frame u w" unfolding alloc_frame_def by blast
qed

lemma alloc_frameD:
  assumes "alloc_frame v v'"
  shows "v_inodes v' = v_inodes v" "v_container v' = v_container v" "v_pending_free v' = v_pending_free v" "frame v v'"
    "v_chunks_dirty v' = v_chunks_dirty v" "v_format v' = v_format v" "prot R v' = prot R v" "v_cow_floor_gen v' = v_cow_floor_gen v"
    "v_dirty v' = v_dirty v" "next_chunk_gen (v_tree v) \<le> next_chunk_gen (v_tree v')"
  using assms by (auto simp: alloc_frame_def frame_def same_tree_refl prot_def)

lemma alloc_cid_frame: "acct R v \<Longrightarrow> alloc_cid v = (Inr x, v') \<Longrightarrow> alloc_frame v v'"
  using alloc_cid_acct(5) [of R v x v'] unfolding alloc_frame_def alloc_cid_Inr
  by (elim disjE conjE)
    (rule exI [where x = "next_chunk_id (v_tree v')"], rule exI [where x = "next_chunk_gen (v_tree v)"],
      rule exI [where x = "free_chunks (v_tree v')"], simp)+

lemma alloc_gen_frame: "acct R v \<Longrightarrow> alloc_gen v = (Inr x, v') \<Longrightarrow> alloc_frame v v'"
  using alloc_gen_acct(4) [of R v x v'] unfolding alloc_frame_def alloc_gen_Inr
  by (elim conjE)
    (rule exI [where x = "next_chunk_id (v_tree v)"], rule exI [where x = "next_chunk_gen (v_tree v')"],
      rule exI [where x = "free_chunks (v_tree v)"], simp)

lemma alloc_refs_effect:
  "acct R v \<Longrightarrow> alloc_refs n v = (Inr rs, v') \<Longrightarrow>
     length rs = n \<and> distinct (map cr_id rs) \<and> cr_id ` set rs \<inter> prot R v = {} \<and> acct (R \<union> cr_id ` set rs) v' \<and> alloc_frame v v'
     \<and> (\<forall>r \<in> set rs. cr_gen r \<noteq> 0 \<and> cr_gen r < next_chunk_gen (v_tree v'))"
proof (induction n arbitrary: R v rs)
  case (Suc n)
  from Suc.prems(2) obtain x v1 g v2 rs' where x: "alloc_cid v = (Inr x, v1)" and g: "alloc_gen v1 = (Inr g, v2)"
    and rs': "alloc_refs n v2 = (Inr rs', v')" and rs: "rs = \<lparr>cr_id = x, cr_gen = g\<rparr> # rs'"
    by (auto simp: bindR_eq_Inr)
  note a1 = alloc_cid_acct [OF Suc.prems(1) x] and f1 = alloc_cid_frame [OF Suc.prems(1) x]
  note a2 = alloc_gen_acct [OF a1(1) g] and f2 = alloc_gen_frame [OF a1(1) g]
  note ih = Suc.IH [OF a2(1) rs']
  note f12 = alloc_frame_trans [OF f1 f2]
  have p: "prot (insert x R) v2 = insert x (prot R v)" using alloc_frameD(1,3) [OF f12] by (auto simp: prot_def)
  have "x \<notin> prot R v" using a1(2-4) by (simp add: prot_def)
  moreover have "x \<notin> cr_id ` set rs'" using ih p by auto
  moreover have "g < next_chunk_gen (v_tree v')" using a2(3) ih alloc_frameD(10) by (metis less_le_trans)
  ultimately show ?case
    using ih a2(2) p alloc_frame_trans [OF f12] by (simp add: rs)
qed simp

lemma write_external_chain_effect:
  assumes env: "rng_fills E" "aead_correct E" and a: "acct R v" and ne: "entries \<noteq> []"
    and w: "write_external_chain_for E fid entries (v, r) = (Inr (hd_ref, cnt, bs), (v', r'))"
  shows "acct (R \<union> cr_id ` set bs) v'" "cr_id ` set bs \<inter> prot R v = {}" "distinct (map cr_id bs)"
    "\<forall>b \<in> set bs. cr_gen b \<noteq> 0 \<and> cr_gen b < next_chunk_gen (v_tree v')"
    "bs \<noteq> []" "hd_ref = hd bs" "cnt = of_nat (length entries)" "length bs = div_ceil (length entries) 254"
    "safe E (prot R v) (v_container v) (v_container v')" "chain_ok E (v_container v') fid entries 0 bs"
    "alloc_frame v (v'\<lparr>v_container := v_container v\<rparr>)" "\<exists>g. v_container v' = (v_container v)\<lparr>lbx_file := g\<rparr>"
proof -
  from w obtain v1 c where al: "alloc_refs (div_ceil (length entries) 254) v = (Inr bs, v1)"
    and wr: "write_chain_blocks E fid entries 0 bs (v_container v1, r) = (Inr (), (c, r'))"
    and v': "v' = v1\<lparr>v_container := c\<rparr>" and h: "hd_ref = hd bs" "cnt = of_nat (length entries)" "bs \<noteq> []"
  proof -
    from w obtain bs' v1 c where x: "alloc_refs (div_ceil (length entries) 254) v = (Inr bs', v1)"
      "write_chain_blocks E fid entries 0 bs' (v_container v1, r) = (Inr (), (c, r'))" "v' = v1\<lparr>v_container := c\<rparr>"
      and y: "(case bs' of [] \<Rightarrow> failR (VCrypto (Panic ''index out of bounds'')) | head # _ \<Rightarrow> retR (head, of_nat (length entries), bs'))
          (v', r') = (Inr (hd_ref, cnt, bs), (v', r'))"
      unfolding write_external_chain_for_def by (fastforce simp: fop_simps split: list.splits)
    from y have "bs' = bs" "hd_ref = hd bs" "cnt = of_nat (length entries)" "bs \<noteq> []" by (cases bs'; auto)+
    with x that show thesis by blast
  qed
  note e = alloc_refs_effect [OF a al]
  have f: "alloc_frame v v1" using e by blast
  have c: "v_container v1 = v_container v" using alloc_frameD(2) [OF f] .
  show "bs \<noteq> []" "hd_ref = hd bs" "cnt = of_nat (length entries)" "length bs = div_ceil (length entries) 254"
    "distinct (map cr_id bs)" "cr_id ` set bs \<inter> prot R v = {}" using h e by blast+
  show "\<forall>b \<in> set bs. cr_gen b \<noteq> 0 \<and> cr_gen b < next_chunk_gen (v_tree v')" using e by (simp add: v')
  show "acct (R \<union> cr_id ` set bs) v'" using e by (simp add: v' acct_def used_def)
  have nz: "\<forall>b \<in> set bs. cr_gen b \<noteq> 0" using e by blast
  show "chain_ok E (v_container v') fid entries 0 bs"
    using write_chain_blocks_ok [OF env nz _ wr] e by (simp add: v')
  show "safe E (prot R v) (v_container v) (v_container v')"
    unfolding safe_def using write_chain_frame [OF env nz wr] e c by (auto simp: v')
  show "\<exists>g. v_container v' = (v_container v)\<lparr>lbx_file := g\<rparr>" using write_chain_file [OF wr] c by (simp add: v')
  have "v'\<lparr>v_container := v_container v\<rparr> = v1" using c by (simp add: v')
  then show "alloc_frame v (v'\<lparr>v_container := v_container v\<rparr>)" using f by simp
qed

text \<open>Replacing the list blocks of an inode.\<close>

abbreviation set_ext :: "ChunkRef list \<Rightarrow> Inode \<Rightarrow> Inode" where
  "set_ext bs i \<equiv> i\<lparr>i_external_list_blocks := bs\<rparr>"

lemma slots_set_ext:
  assumes "bt_ok m" "bt_get m fid = Some i"
  shows "slots (bt_modify fid (set_ext bs) m) + mset (map cr_id (i_external_list_blocks i)) = slots m + mset (map cr_id bs)"
  using bt_total_modify [OF assms, of "\<lambda>i. mset (map cr_id (inode_refs i))" "set_ext bs"]
  by (simp add: slots_def inode_refs_def)

lemma same_tree_set_ext: "bt_ok m \<Longrightarrow> same_tree data_same m (bt_modify fid (set_ext bs) m)"
  by (rule same_tree_modify) (auto simp: data_same_def)

lemma mset_exchange:
  assumes "A + B = C + D" "D + P' + Q' = B + P + (Q :: 'a multiset)"
  shows "A + F + P' + Q' = C + F + P + Q"
proof -
  have "(A + F + P' + Q') + B = (A + B) + F + P' + Q'" by (simp add: ac_simps)
  also have "\<dots> = C + F + (D + P' + Q')" by (simp add: assms(1) ac_simps)
  also have "\<dots> = C + F + (B + P + Q)" unfolding assms(2) ..
  also have "\<dots> = (C + F + P + Q) + B" by (simp add: ac_simps)
  finally show ?thesis by simp
qed

text \<open>Replacing an inode, with the slots its new references take from and give to the waiting and the held ones.\<close>

lemma acct_replace:
  assumes a: "acct R v" and ok: "bt_ok (v_inodes v)" and i: "bt_get (v_inodes v) fid = Some i"
    and u: "mset (map cr_id (inode_refs (f i))) + mset p' + mset R' = mset (map cr_id (inode_refs i)) + mset (v_pending_free v) + mset R0"
    and R: "distinct R0" "set R0 \<subseteq> R" and R': "S = R - set R0 \<union> set R'"
    and g: "\<forall>b \<in> set (inode_refs (f i)). cr_gen b \<noteq> 0 \<and> cr_gen b < next_chunk_gen (v_tree v)"
  shows "acct S (on_inodes (bt_modify fid f) (v\<lparr>v_pending_free := p'\<rparr>))"
proof -
  let ?v = "on_inodes (bt_modify fid f) (v\<lparr>v_pending_free := p'\<rparr>)"
  have sl: "slots (v_inodes ?v) + mset (map cr_id (inode_refs i)) = slots (v_inodes v) + mset (map cr_id (inode_refs (f i)))"
    using bt_total_modify [OF ok i, of "\<lambda>i. mset (map cr_id (inode_refs i))" f] by (simp add: slots_def)
  have tot: "used ?v + mset R' = used v + mset R0"
    unfolding used_def using mset_exchange [OF sl u] by simp
  have un: "count (used v) x \<le> 1" "x \<in> R \<Longrightarrow> x \<notin># used v" "x \<in># used v \<or> x \<in> R \<Longrightarrow> x < next_chunk_id (v_tree v)" for x
    using a unfolding acct_def by blast+
  have c1: "count (used v + mset R0) x \<le> 1" for x
  proof (cases "x \<in> set R0")
    case True
    then have "count (used v) x = 0" using R un(2) by (auto simp: not_in_iff)
    then show ?thesis using R(1) by (simp add: distinct_count_atmost_1)
  next
    case False
    then have "x \<notin># mset R0" by simp
    then have "count (mset R0) x = 0" by (simp only: not_in_iff)
    then show ?thesis using un(1) [of x] unfolding count_union by linarith
  qed
  then have c2: "count (used ?v) x + count (mset R') x \<le> 1" for x unfolding tot [symmetric] by (simp add: count_union)
  have mem: "x \<in># used ?v \<or> x \<in> set R' \<longleftrightarrow> x \<in># used v \<or> x \<in> set R0" for x
    using arg_cong [OF tot, of "\<lambda>M. x \<in># M"] by simp
  have nt: "next_chunk_id (v_tree ?v) = next_chunk_id (v_tree v)" "next_chunk_gen (v_tree ?v) = next_chunk_gen (v_tree v)" by simp_all
  show ?thesis
    unfolding acct_def nt
  proof (intro conjI allI ballI impI)
    show "next_chunk_gen (v_tree v) \<noteq> 0" using a by (simp add: acct_def)
    show "count (used ?v) x \<le> 1" for x using c2 [of x] by linarith
    show "x < next_chunk_id (v_tree v)" if "x \<in># used ?v \<or> x \<in> S" for x
      using that mem un(3) R(2) R' by blast
    show "x \<notin># used ?v" if "x \<in> S" for x
    proof (cases "x \<in> set R'")
      case True
      then have "count (mset R') x \<noteq> 0" by (simp add: count_eq_zero_iff)
      then show ?thesis using c2 [of x] unfolding not_in_iff by linarith
    next
      case False
      then have "x \<in> R" "x \<notin> set R0" using that R' by auto
      then show ?thesis using mem un(2) by blast
    qed
    fix k j cr assume kj: "bt_get (v_inodes ?v) k = Some j" "cr \<in> set (inode_refs j)"
    then have "cr \<in> set (inode_refs (f i)) \<or> (\<exists>j'. bt_get (v_inodes v) k = Some j' \<and> cr \<in> set (inode_refs j'))"
      using i by (auto split: if_splits)
    then show "cr_gen cr \<noteq> 0" "cr_gen cr < next_chunk_gen (v_tree v)" using g a unfolding acct_def by blast+
  qed
qed

lemma acct_set_ext:
  assumes a: "acct R v" and ok: "bt_ok (v_inodes v)" and i: "bt_get (v_inodes v) fid = Some i"
    and u: "mset (map cr_id bs) + mset p' + mset R' = mset (map cr_id (i_external_list_blocks i)) + mset (v_pending_free v) + mset R0"
    and R: "distinct R0" "set R0 \<subseteq> R" and R': "S = R - set R0 \<union> set R'"
    and g: "\<forall>b \<in> set bs. cr_gen b \<noteq> 0 \<and> cr_gen b < next_chunk_gen (v_tree v)"
  shows "acct S (on_inodes (bt_modify fid (set_ext bs)) (v\<lparr>v_pending_free := p'\<rparr>))"
proof (rule acct_replace [where f = "set_ext bs", OF a ok i _ R R'])
  show "mset (map cr_id (inode_refs (set_ext bs i))) + mset p' + mset R' = mset (map cr_id (inode_refs i)) + mset (v_pending_free v) + mset R0"
    using arg_cong [OF u, of "\<lambda>M. mset (map cr_id (i_chunks i)) + M"] by (simp add: inode_refs_def ac_simps)
  show "\<forall>b \<in> set (inode_refs (set_ext bs i)). cr_gen b \<noteq> 0 \<and> cr_gen b < next_chunk_gen (v_tree v)"
    using g a i unfolding acct_def by (auto simp: inode_refs_def)
qed

end
