(* ===== verification/Lbx_Spill.thy ===== *)
theory Lbx_Spill
  imports Lbx_Slots
begin

text \<open>
  Spilling chunk lists keeps the accounting and the contents of all slots in use, and its rows describe
  the tree; writing the metadata region touches no slot.
\<close>

lemma bt_modify_id: "bt_ok m \<Longrightarrow> (\<And>i. bt_get m k = Some i \<Longrightarrow> f i = i) \<Longrightarrow> bt_modify k f m = m"
  by (rule bt_eqI) (auto, metis map_option_eq_Some not_Some_eq option.map_disc_iff)

lemma on_inodes_frame2 [simp]:
  "v_tolerated_inodes (on_inodes f v) = v_tolerated_inodes v" "v_max_vault_size (on_inodes f v) = v_max_vault_size v"
  "v_dirty (on_inodes f v) = v_dirty v" "v_cow_floor_gen (on_inodes f v) = v_cow_floor_gen v" "v_format (on_inodes f v) = v_format v"
  by (simp_all add: on_inodes_def)

definition spilled :: "'r env \<Rightarrow> u64 set \<Rightarrow> Vfs \<Rightarrow> Vfs \<Rightarrow> bool" where
  "spilled E R v v' \<longleftrightarrow>
     frame v v' \<and> acct R v' \<and> safe E (prot R v) (v_container v) (v_container v') \<and> prot R v \<subseteq> prot R v'
     \<and> v_chunks_dirty v' = v_chunks_dirty v \<and> v_format v' = v_format v \<and> v_dirty v' = v_dirty v
     \<and> v_cow_floor_gen v' = v_cow_floor_gen v \<and> (\<exists>g. v_container v' = (v_container v)\<lparr>lbx_file := g\<rparr>)"

lemma spilled_refl: "acct R v \<Longrightarrow> spilled E R v v"
  by (simp add: spilled_def) (metis Container.surjective Container.update_convs(1))

lemma spilled_trans: "spilled E R u v \<Longrightarrow> spilled E R v w \<Longrightarrow> spilled E R u w"
  unfolding spilled_def using frame_trans [of u v w] safe_trans [of E "prot R u" "v_container u" "v_container v" "prot R v" "v_container w" "prot R u"]
  by fastforce

definition row_for :: "'r env \<Rightarrow> Container \<Rightarrow> MetadataFormat \<Rightarrow> u64 \<Rightarrow> Inode \<Rightarrow> InodeV3OnDisk \<Rightarrow> bool" where
  "row_for E c f fid i od \<longleftrightarrow>
     (if file_needs_external f i
      then i_external_list_blocks i \<noteq> [] \<and> chain_good E c fid i
        \<and> od = on_disk_of i [] (Some (hd (i_external_list_blocks i), of_nat (length (i_chunks i))))
      else i_external_list_blocks i = [] \<and> od = on_disk_of i (i_chunks i) None)"

lemma on_disk_of_ext [simp]: "on_disk_of (set_ext bs i) cs x = on_disk_of i cs x" "file_needs_external f (set_ext bs i) = file_needs_external f i"
  by (simp_all add: on_disk_of_def file_needs_external_def)

lemma dropped_ext:
  assumes a: "acct R v" and ok: "bt_ok (v_inodes v)" and i: "bt_get (v_inodes v) fid = Some i"
  defines "v1 \<equiv> on_inodes (bt_modify fid (set_ext [])) (v\<lparr>v_pending_free := v_pending_free v @ map cr_id (i_external_list_blocks i)\<rparr>)"
  shows "spilled E R v v1"
proof -
  have "acct R v1"
    unfolding v1_def by (rule acct_set_ext [OF a ok i, of "[]" _ "[]" "[]"]) auto
  moreover have "prot R v \<subseteq> prot R v1"
  proof -
    have "slots (v_inodes v1) + mset (map cr_id (i_external_list_blocks i)) = slots (v_inodes v)"
      using slots_set_ext [OF ok i, of "[]"] by (simp add: v1_def)
    then have "x \<in># slots (v_inodes v) \<Longrightarrow> x \<in># slots (v_inodes v1) \<or> x \<in> cr_id ` set (i_external_list_blocks i)" for x
      by (metis list.set_map set_mset_mset union_iff)
    then show ?thesis by (auto simp: prot_def v1_def)
  qed
  moreover have "frame v v1" using same_tree_set_ext [OF ok] by (simp add: frame_def v1_def)
  ultimately show ?thesis
    unfolding spilled_def by (simp add: v1_def) (metis Container.surjective Container.update_convs(1))
qed

lemma spill_inode_effect:
  assumes env: "rng_fills E" "aead_correct E" and a: "acct R v" and ok: "bt_ok (v_inodes v)" and i: "bt_get (v_inodes v) fid = Some i"
    and clean: "i_external_list_blocks i \<noteq> [] \<Longrightarrow> fid \<notin> v_chunks_dirty v \<Longrightarrow> chain_good E (v_container v) fid i"
    and sp: "spill_inode E fid (v, r) = (Inr od, (v', r'))"
  obtains bs where "v_inodes v' = bt_modify fid (set_ext bs) (v_inodes v)" "spilled E R v v'"
    "row_for E (v_container v') (v_format v) fid (set_ext bs i) od"
proof -
  let ?ext = "file_needs_external (v_format v) i"
  define v1 where "v1 = on_inodes (bt_modify fid (set_ext [])) (v\<lparr>v_pending_free := v_pending_free v @ map cr_id (i_external_list_blocks i)\<rparr>)"
  have s1: "spilled E R v v1" unfolding v1_def by (rule dropped_ext [OF a ok i])
  have u: "unwrap_inode v fid = Inr i" using i by (simp add: unwrap_inode_Inr)
  consider (keep) "?ext" "fid \<notin> v_chunks_dirty v" "i_external_list_blocks i \<noteq> []"
    | (inline) "\<not> ?ext" | (fresh) "?ext" "fid \<in> v_chunks_dirty v \<or> i_external_list_blocks i = []" by blast
  then show thesis
  proof cases
    case keep
    then have "od = on_disk_of i [] (Some (hd (i_external_list_blocks i), of_nat (length (i_chunks i))))" "v' = v"
      using sp u by (auto simp: spill_inode_def fop_simps split: if_splits)
    moreover have "bt_modify fid (set_ext (i_external_list_blocks i)) (v_inodes v) = v_inodes v"
      using i by (intro bt_modify_id [OF ok]) simp
    ultimately show thesis
      using that [of "i_external_list_blocks i"] keep clean spilled_refl [OF a, of E] by (simp add: row_for_def)
  next
    case inline
    then have "od = on_disk_of i (i_chunks i) None" "v' = v1"
      using sp u by (auto simp: spill_inode_def fop_simps v1_def split: if_splits)
    then show thesis using that [of "[]"] inline s1 by (simp add: row_for_def) (simp add: v1_def)
  next
    case fresh
    from sp u fresh obtain hd_ref cnt bs v2 where w: "write_external_chain_for E fid (i_chunks i) (v1, r) = (Inr (hd_ref, cnt, bs), (v2, r'))"
      and v': "v' = on_inodes (bt_modify fid (set_ext bs)) v2" and od: "od = on_disk_of i [] (Some (hd_ref, cnt))"
      by (auto simp: spill_inode_def fop_simps v1_def [symmetric] split: if_splits)
    have ne: "i_chunks i \<noteq> []" using fresh(1) by (auto simp: file_needs_external_def)
    have a1: "acct R v1" using s1 by (simp add: spilled_def)
    note e = write_external_chain_effect [OF env a1 ne w]
    note fr = alloc_frameD [OF e(11), simplified]
    have m2: "v_inodes v2 = v_inodes v1" using fr(1) .
    have ok1: "bt_ok (v_inodes v1)" using ok by (simp add: v1_def)
    have g2: "bt_get (v_inodes v2) fid = Some (set_ext [] i)" using i by (simp add: m2 v1_def)
    have pf: "v2\<lparr>v_pending_free := v_pending_free v2\<rparr> = v2" by simp
    have a3: "acct R v'"
      unfolding v'
      by (rule acct_set_ext [OF e(1) _ g2, of bs "v_pending_free v2" "[]" "map cr_id bs", unfolded pf])
        (use e(2,3,4) ok1 m2 in \<open>auto simp: prot_def\<close>)
    have mm: "v_inodes v' = bt_modify fid (set_ext bs) (v_inodes v)"
      using bt_modify_modify [OF ok, of fid "set_ext bs" "set_ext []"] by (simp add: v' m2 v1_def)
    have sl: "slots (v_inodes v') = slots (v_inodes v1) + mset (map cr_id bs)"
      using slots_set_ext [OF ok1, of fid "set_ext [] i" bs] g2 m2 by (simp add: v')
    obtain g where g: "v_container v2 = (v_container v1)\<lparr>lbx_file := g\<rparr>" using e(12) by blast
    have "frame v1 v'"
      using fr(4) same_tree_set_ext [OF ok1] g by (auto simp: frame_def v' m2)
    moreover have "prot R v1 \<subseteq> prot R v'" using fr(3) by (auto simp: prot_def sl) (simp add: v')
    ultimately have "spilled E R v1 v'"
      unfolding spilled_def using a3 e(9) g fr(5,6,8,9) by (simp add: v') blast
    then have sv: "spilled E R v v'" using spilled_trans [OF s1] by blast
    have "chain_good E (v_container v') fid (set_ext bs i)" using e(8,10) by (simp add: chain_good_def v')
    then have "row_for E (v_container v') (v_format v) fid (set_ext bs i) od"
      using fresh(1) e(5-7) od by (simp add: row_for_def)
    then show thesis using that mm sv by blast
  qed
qed

lemma row_for_safe:
  assumes "row_for E c f k i od" "safe E S c c'" "cr_id ` set (inode_refs i) \<subseteq> S"
  shows "row_for E c' f k i od"
proof -
  have "cr_id ` set (i_external_list_blocks i) \<subseteq> S" using assms(3) by (auto simp: inode_refs_def)
  then show ?thesis using assms(1) chain_good_safe [OF assms(2)] by (auto simp: row_for_def split: if_splits)
qed

lemma refs_prot: "bt_ok (v_inodes v) \<Longrightarrow> bt_get (v_inodes v) k = Some i \<Longrightarrow> cr_id ` set (inode_refs i) \<subseteq> prot R v"
  using in_slots [of "v_inodes v"] by (auto simp: prot_def)

lemma spilled_ok: "spilled E R v v' \<Longrightarrow> bt_ok (v_inodes v') = bt_ok (v_inodes v)"
  using same_tree_ok [OF frameD(1)] unfolding spilled_def by blast

lemma spill_ids_effect:
  assumes env: "rng_fills E" "aead_correct E"
  shows "acct R v \<Longrightarrow> bt_ok (v_inodes v) \<Longrightarrow> distinct ids \<Longrightarrow> (\<forall>k \<in> set ids. bt_contains (v_inodes v) k \<and> bt_get acc k = None) \<Longrightarrow>
     (\<forall>k \<in> set ids. \<forall>i. bt_get (v_inodes v) k = Some i \<longrightarrow> i_external_list_blocks i \<noteq> [] \<longrightarrow> k \<notin> v_chunks_dirty v \<longrightarrow>
        chain_good E (v_container v) k i) \<Longrightarrow>
     (\<forall>k od. bt_get acc k = Some od \<longrightarrow> (\<exists>i. bt_get (v_inodes v) k = Some i \<and> row_for E (v_container v) (v_format v) k i od)) \<Longrightarrow>
     bt_ok acc \<Longrightarrow> spill_ids E ids acc (v, r) = (Inr ods, (v', r')) \<Longrightarrow>
     spilled E R v v' \<and> bt_ok ods \<and> (\<forall>k. bt_contains ods k \<longleftrightarrow> k \<in> set ids \<or> bt_contains acc k)
     \<and> (\<forall>k od. bt_get ods k = Some od \<longrightarrow> (\<exists>i. bt_get (v_inodes v') k = Some i \<and> row_for E (v_container v') (v_format v') k i od))"
proof (induction ids arbitrary: v acc r)
  case Nil
  then show ?case using spilled_refl by auto
next
  case (Cons fid ids)
  from Cons.prems(8) obtain od v1 r1 where sp: "spill_inode E fid (v, r) = (Inr od, (v1, r1))"
    and rest: "spill_ids E ids (bt_insert fid od acc) (v1, r1) = (Inr ods, (v', r'))" by (auto simp: bindR_eq_Inr)
  note ok = Cons.prems(2)
  obtain i where i: "bt_get (v_inodes v) fid = Some i" using Cons.prems(4) by (auto simp: bt_contains_def)
  obtain bs where m1: "v_inodes v1 = bt_modify fid (set_ext bs) (v_inodes v)" and s1: "spilled E R v v1"
    and row: "row_for E (v_container v1) (v_format v) fid (set_ext bs i) od"
    using spill_inode_effect [OF env Cons.prems(1) ok i _ sp] Cons.prems(5) i by auto
  have s1': "acct R v1" "safe E (prot R v) (v_container v) (v_container v1)" "v_format v1 = v_format v" "v_chunks_dirty v1 = v_chunks_dirty v"
    using s1 by (simp_all add: spilled_def)
  have get1: "bt_get (v_inodes v1) k = (if k = fid then Some (set_ext bs i) else bt_get (v_inodes v) k)" for k
    using i by (simp add: m1)
  have ih: "spilled E R v1 v' \<and> bt_ok ods \<and> (\<forall>k. bt_contains ods k \<longleftrightarrow> k \<in> set ids \<or> bt_contains (bt_insert fid od acc) k)
     \<and> (\<forall>k od. bt_get ods k = Some od \<longrightarrow> (\<exists>i. bt_get (v_inodes v') k = Some i \<and> row_for E (v_container v') (v_format v') k i od))"
  proof (rule Cons.IH [OF s1'(1) _ _ _ _ _ _ rest])
    show "bt_ok (v_inodes v1)" using ok m1 by simp
    show "distinct ids" using Cons.prems(3) by simp
    show "bt_ok (bt_insert fid od acc)" using Cons.prems(7) by simp
    show "\<forall>k \<in> set ids. bt_contains (v_inodes v1) k \<and> bt_get (bt_insert fid od acc) k = None"
      using Cons.prems(3,4) by (auto simp: bt_contains_def get1)
    show "\<forall>k \<in> set ids. \<forall>i. bt_get (v_inodes v1) k = Some i \<longrightarrow> i_external_list_blocks i \<noteq> [] \<longrightarrow> k \<notin> v_chunks_dirty v1 \<longrightarrow>
        chain_good E (v_container v1) k i"
    proof (intro ballI allI impI)
      fix k j assume k: "k \<in> set ids" and j: "bt_get (v_inodes v1) k = Some j" "i_external_list_blocks j \<noteq> []" "k \<notin> v_chunks_dirty v1"
      have j0: "bt_get (v_inodes v) k = Some j" using j(1) k Cons.prems(3) get1 by (auto split: if_splits)
      have "cr_id ` set (i_external_list_blocks j) \<subseteq> prot R v" using refs_prot [OF ok j0] by (auto simp: inode_refs_def)
      then show "chain_good E (v_container v1) k j"
        using chain_good_safe [OF s1'(2)] Cons.prems(5) k j0 j(2,3) s1'(4) by auto
    qed
    show "\<forall>k od'. bt_get (bt_insert fid od acc) k = Some od' \<longrightarrow>
        (\<exists>j. bt_get (v_inodes v1) k = Some j \<and> row_for E (v_container v1) (v_format v1) k j od')"
    proof (intro allI impI)
      fix k od' assume o: "bt_get (bt_insert fid od acc) k = Some od'"
      show "\<exists>j. bt_get (v_inodes v1) k = Some j \<and> row_for E (v_container v1) (v_format v1) k j od'"
      proof (cases "k = fid")
        case True
        then show ?thesis using o row get1 s1'(3) by simp
      next
        case False
        then obtain j where j: "bt_get (v_inodes v) k = Some j" "row_for E (v_container v) (v_format v) k j od'"
          using o Cons.prems(6) by auto
        then show ?thesis using row_for_safe [OF j(2) s1'(2) refs_prot [OF ok j(1)]] get1 False s1'(3) by simp
      qed
    qed
  qed
  then show ?case using spilled_trans [OF s1] by (auto simp: bt_contains_def)
qed

text \<open>The rows of a spill are those of the inodes, in the order of the map.\<close>

definition rows_for :: "'r env \<Rightarrow> Vfs \<Rightarrow> (u64, InodeV3OnDisk) btree \<Rightarrow> bool" where
  "rows_for E v ods \<longleftrightarrow>
     list_all2 (\<lambda>p q. fst q = fst p \<and> row_for E (v_container v) (v_format v) (fst p) (snd p) (snd q)) (v_inodes v) ods"

lemma bt_ok_keys_eq: "bt_ok m \<Longrightarrow> bt_ok m' \<Longrightarrow> (\<And>k. bt_contains m k = bt_contains m' k) \<Longrightarrow> bt_keys m = bt_keys m'"
  using bt_in_keys [of m] bt_in_keys [of m'] by (intro sorted_distinct_set_unique) (auto simp: bt_ok_def set_eq_iff)

lemma spill_to_v3_effect:
  assumes env: "rng_fills E" "aead_correct E" and a: "acct R v" and ok: "bt_ok (v_inodes v)" and ch: "chains_ok E v"
    and sp: "spill_to_v3_on_disk E (v, r) = (Inr d, (v', r'))"
  shows "spilled E R v v'" "\<exists>ods. d = tree_on_disk (v_tree v') ods \<and> rows_for E v' ods"
proof -
  from sp obtain ods where s: "spill_ids E (bt_keys (v_inodes v)) [] (v, r) = (Inr ods, (v', r'))"
    and d: "d = tree_on_disk (v_tree v') ods"
    by (auto simp: spill_to_v3_on_disk_def fop_simps)
  have e: "spilled E R v v' \<and> bt_ok ods \<and> (\<forall>k. bt_contains ods k \<longleftrightarrow> k \<in> set (bt_keys (v_inodes v)) \<or> bt_contains ([] :: (u64, InodeV3OnDisk) btree) k)
     \<and> (\<forall>k od. bt_get ods k = Some od \<longrightarrow> (\<exists>i. bt_get (v_inodes v') k = Some i \<and> row_for E (v_container v') (v_format v') k i od))"
  proof (rule spill_ids_effect [OF env a ok _ _ _ _ _ s])
    show "distinct (bt_keys (v_inodes v))" using ok by (simp add: bt_ok_def)
    show "\<forall>k\<in>set (bt_keys (v_inodes v)). bt_contains (v_inodes v) k \<and> bt_get [] k = None" using bt_in_keys [OF ok] by simp
  qed (use ch in \<open>auto simp: chains_ok_def\<close>)
  then show sv: "spilled E R v v'" by blast
  have ok': "bt_ok (v_inodes v')" using spilled_ok [OF sv] ok by simp
  have fr: "same_tree data_same (v_inodes v) (v_inodes v')" using sv frameD(1) unfolding spilled_def by blast
  have "bt_contains (v_inodes v) k = bt_contains ods k" for k
    using e bt_in_keys [OF ok, of k] by (simp add: bt_contains_def)
  then have keys: "bt_keys (v_inodes v') = bt_keys ods"
    using bt_ok_keys_eq [OF ok, of ods] e same_tree_keys [OF fr] by simp
  have "rows_for E v' ods"
    unfolding rows_for_def list_all2_conv_all_nth
  proof (intro conjI allI impI)
    show len: "length (v_inodes v') = length ods" using arg_cong [OF keys, of length] by (simp add: bt_keys_def)
    fix n assume n: "n < length (v_inodes v')"
    obtain k i where p: "v_inodes v' ! n = (k, i)" by (cases "v_inodes v' ! n")
    obtain k' od where q: "ods ! n = (k', od)" by (cases "ods ! n")
    have k: "k' = k" using arg_cong [OF keys, of "\<lambda>xs. xs ! n"] n len p q by (simp add: bt_keys_def)
    have "bt_get (v_inodes v') k = Some i" using n p bt_entries [OF ok'] by (metis nth_mem)
    moreover have "bt_get ods k = Some od" using n len q k e bt_entries [of ods] by (metis nth_mem)
    ultimately have "row_for E (v_container v') (v_format v') k i od" using e by fastforce
    then show "fst (ods ! n) = fst (v_inodes v' ! n)"
      "row_for E (v_container v') (v_format v') (fst (v_inodes v' ! n)) (snd (v_inodes v' ! n)) (snd (ods ! n))"
      using p q k by simp_all
  qed
  with d show "\<exists>ods. d = tree_on_disk (v_tree v') ods \<and> rows_for E v' ods" by blast
qed

section \<open>Walking a chain that is on disk\<close>

lemma walk_good_chain:
  assumes "chain_good E c fid i" "i_chunks i \<noteq> []" "length (i_chunks i) \<le> 2 ^ 32"
  shows "walk_chunk_list_chain E c fid (hd (i_external_list_blocks i)) (of_nat (length (i_chunks i))) = Inr (i_chunks i, i_external_list_blocks i)"
proof -
  let ?es = "i_chunks i" and ?bs = "i_external_list_blocks i"
  have ok: "chain_ok E c fid ?es 0 ?bs" and len: "length ?bs = div_ceil (length ?es) 254" using assms(1) by (simp_all add: chain_good_def)
  note ceil = div_ceil_bounds [of 254 "length ?es", simplified, folded len]
  have n: "unat (of_nat (length ?es) :: u64) = length ?es" using assms(3) by (intro unat_of_nat_u64) simp
  have "?bs \<noteq> []" using ceil(3) assms(2) by auto
  then have hd: "Some (hd ?bs) = (case ?bs of [] \<Rightarrow> None | b # _ \<Rightarrow> Some b)" by (cases ?bs) auto
  have "length ?bs < 2 ^ 32" using ceil(2) assms(2,3) by simp
  with walk_chain_ok [OF ok, of "length ?es" "[]" "length ?bs + 2" "[]"] ceil assms(2)
  have "walk_blocks E c (list_file_key E c fid) (list_file_id fid) (length ?es) (length ?bs + 2) [] []
      (Some (hd ?bs)) 0 = Inr (?es, ?bs)"
    unfolding hd by simp
  moreover have "\<not> (0x100000000 :: u64) < of_nat (length ?es)" using assms(3) n by (simp add: word_less_nat_alt)
  ultimately show ?thesis by (simp add: walk_chunk_list_chain_def Let_def n len)
qed

section \<open>Writing the metadata region\<close>

lemma rd_chunk_cong:
  assumes "hdr_same c c'" "lbx_file c' = lbx_file c"
  shows "rd_chunk E c' a = rd_chunk E c a"
  using assms by (simp add: rd_chunk_def read_chunk_def hdr_same_key(1) [OF assms(1)]) (simp add: hdr_same_def Let_def)

lemma hdr_same_flags:
  assumes "fl = flags (c_header c) \<or> fl = flags (c_header c) OR 8"
  shows "hide_size_header ((c_header c)\<lparr>flags := fl\<rparr>) = hide_size_header (c_header c)"
    "pad_files_pow2 ((c_header c)\<lparr>flags := fl\<rparr>) = pad_files_pow2 (c_header c)"
proof -
  have "(8 :: u32) AND 1 = 0" "(8 :: u32) AND 2 = 0" by simp_all
  then show "hide_size_header ((c_header c)\<lparr>flags := fl\<rparr>) = hide_size_header (c_header c)"
    "pad_files_pow2 ((c_header c)\<lparr>flags := fl\<rparr>) = pad_files_pow2 (c_header c)"
    using assms by (auto simp: hide_size_header_def pad_files_pow2_def bit.conj_disj_distrib2)
qed

lemma c_write_metadata_keys:
  assumes "c_write_metadata E pt (c, r) = (Inr (), (c', r'))"
  shows "deniable c' = deniable c" "rotating c' = rotating c" "header_side c' = header_side c"
    "recovered_from_mirror c' = recovered_from_mirror c"
  using assms
  by (auto simp: c_write_metadata_def bindR_eq_Inr withC_eq mirror_metadata_if_v2_def write_metadata_mirror_def updC_eq
      overwrite_live_metadata_def lbxC_eq_Inr Let_def split: if_splits)

lemma c_write_metadata_frame:
  assumes env: "rng_fills E" "digest_lengths E" "aead_correct E" and ok: "container_ok c"
    and w: "c_write_metadata E pt (c, r) = (Inr (), (c', r'))"
  shows "hdr_same c c'" "safe E UNIV c c'" "container_ok c'" "length pt + 36 \<le> unat (metadata_size (c_header c))"
    "is_v2_format c' = is_v2_format c" "version_major (c_header c') = version_major (c_header c)"
proof -
  let ?h = "c_header c"
  obtain region where rg: "write_metadata_opts E (cipher_suite ?h) (c_mvk c) (header_salt ?h) pt (unat (metadata_size ?h))
       (masked_metadata_len ?h) r = (Inr region, r')"
    and live: "write_all (lbx_file c) (metadata_offset ?h) region = Inr (lbx_file c')" and mk: "c_mvk c' = c_mvk c"
    and hd: "\<exists>fl. c_header c' = ?h\<lparr>flags := fl\<rparr> \<and> (fl = flags ?h \<or> fl = flags ?h OR 8)"
    by (rule c_write_metadata_effect [OF ok w])
  from hd obtain fl where h': "c_header c' = ?h\<lparr>flags := fl\<rparr>" and fl: "fl = flags ?h \<or> fl = flags ?h OR 8" by blast
  note keys = c_write_metadata_keys [OF w]
  have len: "length region = unat (metadata_size ?h)" "length pt + 36 \<le> unat (metadata_size ?h)"
    using write_metadata_region [OF env rg] by blast+
  then show "length pt + 36 \<le> unat (metadata_size ?h)" by blast
  show hs: "hdr_same c c'" using hdr_same_flags [OF fl] masked_len_flags [OF fl] keys mk h'
    by (simp add: hdr_same_def Let_def c_header_generation_def has_header_generation_def)
  have "header_wf ?h" "unat (metadata_offset ?h) < 2 ^ 63" using ok by (simp_all add: container_ok_def)
  then show "container_ok c'"
    using fl h' header_wf_flags [of ?h fl] or_4_mask(2) by (auto simp: container_ok_def)
  show "is_v2_format c' = is_v2_format c" "version_major (c_header c') = version_major ?h"
    using keys h' by (simp_all add: is_v2_format_def)
  have lay: "unat (metadata_offset ?h) + unat (metadata_size ?h) \<le> unat (data_offset ?h)"
    using ok layout_checks_bounds [of "metadata_offset ?h" "metadata_size ?h" "data_offset ?h"]
    by (simp add: container_ok_def header_wf_def)
  show "safe E UNIV c c'"
    unfolding safe_def
  proof (intro allI impI)
    fix a p assume "rd_chunk E c a = Some p"
    then obtain off buf where r: "slot_offset (data_offset ?h) (cr_id (a_ref a)) = Inr off" "read_exact (lbx_file c) off 4124 = Inr buf"
      and dec: "map_err VCrypto (aead_open E (cipher_suite ?h) (file_key E c (a_file a)) (take 12 buf)
          (chunk_aad (a_file a) (a_idx a) (cr_gen (a_ref a))) (drop 12 buf)) = Inr p"
      by (auto simp: rd_chunk_Some read_chunk_def bindE_eq_Inr)
    have "unat (metadata_offset ?h) + length region \<le> unat off" using r(1) lay len(1) by (simp add: slot_offset_Inr)
    then have "read_exact (lbx_file c') off 4124 = Inr buf" using read_write_disjoint [OF live r(2)] by blast
    then show "rd_chunk E c' a = Some p"
      using r(1) dec hs by (simp add: rd_chunk_Some read_chunk_def hdr_same_key(1) [OF hs]) (simp add: hdr_same_def Let_def)
  qed
qed

end
