(* ===== verification/Lbx_Load.thy ===== *)
theory Lbx_Load
  imports Lbx_Spill
begin

text \<open>
  A save followed by an open: what the encoder wrote the decoder reads, through every format, and the
  state after the save satisfies the invariants again. The property of the pair is at the end.
\<close>

section \<open>What a save writes\<close>

text \<open>What the inodes look like after a load: everything but the cached size.\<close>

abbreviation forget_cache :: "Inode \<Rightarrow> Inode" where
  "forget_cache i \<equiv> i\<lparr>i_cached_real_size := None\<rparr>"

definition forget_caches :: "(u64, Inode) btree \<Rightarrow> (u64, Inode) btree" where
  "forget_caches m = map (\<lambda>(k, i). (k, forget_cache i)) m"

text \<open>The fields that the serde attributes of \<open>Inode\<close> leave out of the version 2 encoding, at their defaults.\<close>

definition serde_skipped :: "Inode \<Rightarrow> Inode" where
  "serde_skipped i =
     i\<lparr>i_cached_real_size := None, i_external_list_blocks := [], i_mode := DEFAULT_FILE_MODE, i_link_count := 1, i_symlink_target := None\<rparr>"

text \<open>What the file system relies on of postcard: a decoder takes exactly what the encoder wrote off the front.\<close>

definition postcard_ok :: "Host \<Rightarrow> bool" where
  "postcard_ok H \<longleftrightarrow>
     (\<forall>t b rest. pc_v2 H t = Some b \<longrightarrow>
        un_v2 H (b @ rest) = Some (t\<lparr>inodes := map (\<lambda>(k, i). (k, serde_skipped i)) (inodes t)\<rparr>, rest))
     \<and> (\<forall>t b rest. pc_v3 H t = Some b \<longrightarrow> un_v3 H (b @ rest) = Some (t, rest))
     \<and> (\<forall>t b rest. pc_v4 H t = Some b \<longrightarrow> un_v4 H (b @ rest) = Some (t, rest))
     \<and> (\<forall>t b rest. pc_settings H t = Some b \<longrightarrow> un_settings H (b @ rest) = Some (t, rest))"

definition full_tree :: "Vfs \<Rightarrow> DirectoryTree" where
  "full_tree v = (v_tree v)\<lparr>free_chunks := free_chunks (v_tree v) @ v_pending_free v\<rparr>"

definition rows4_for :: "'r env \<Rightarrow> Vfs \<Rightarrow> (u64, InodeV4OnDisk) btree \<Rightarrow> bool" where
  "rows4_for E v rows \<longleftrightarrow>
     list_all2 (\<lambda>p q. fst q = fst p \<and> (\<exists>od. snd q = with_v4_fields od (snd p)
        \<and> row_for E (v_container v) (v_format v) (fst p) (snd p) od)) (v_inodes v) rows"

definition encoded :: "'r env \<Rightarrow> Host \<Rightarrow> Vfs \<Rightarrow> bytes \<Rightarrow> bool" where
  "encoded E H v bs \<longleftrightarrow>
     (case v_format v of
        V5 \<Rightarrow> \<exists>rows p. rows4_for E v rows \<and> pc_v4 H (tree_on_disk (full_tree v) rows) = Some p
          \<and> (if v_max_vault_size v = 0 then bs = METADATA_V5_MAGIC @ p
             else \<exists>t. pc_settings H \<lparr>s_max_vault_size = v_max_vault_size v\<rparr> = Some t \<and> bs = METADATA_V6_MAGIC @ p @ t)
      | V4 \<Rightarrow> \<exists>rows p. rows4_for E v rows \<and> pc_v4 H (tree_on_disk (full_tree v) rows) = Some p \<and> bs = METADATA_V4_MAGIC @ p
      | V3 \<Rightarrow> \<exists>rows p. rows_for E v rows \<and> pc_v3 H (tree_on_disk (full_tree v) rows) = Some p \<and> bs = METADATA_V3_MAGIC @ p
      | V2 \<Rightarrow> \<exists>p. pc_v2 H (full_tree v) = Some p \<and> bs = METADATA_V2_MAGIC @ p)"

lemma v4_rows_for:
  assumes "bt_ok (v_inodes v)" "rows_for E v ods" "v4_rows v ods = Inr rows"
  shows "rows4_for E v rows"
proof -
  have "list_all2 (\<lambda>p q. fst q = fst p \<and> (\<exists>od. snd q = with_v4_fields od (snd p) \<and> row_for E c f (fst p) (snd p) od)) m rows"
    if "list_all2 (\<lambda>p q. fst q = fst p \<and> row_for E c f (fst p) (snd p) (snd q)) m ods" "v4_rows v ods = Inr rows"
      "\<forall>p \<in> set m. bt_get (v_inodes v) (fst p) = Some (snd p)" for c f m
    using that
  proof (induction arbitrary: rows rule: list_all2_induct)
    case (Cons p m q ods)
    obtain k od where q: "q = (k, od)" by (cases q)
    have u: "unwrap_inode v k = Inr (snd p)" using Cons.prems(2) Cons.hyps(1) q by (simp add: unwrap_inode_Inr)
    from Cons.prems(1) u q obtain rows' where r: "v4_rows v ods = Inr rows'" "rows = (k, with_v4_fields od (snd p)) # rows'"
      by (auto simp: bindE_eq_Inr)
    show ?case using Cons.IH [OF r(1)] Cons.prems(2) Cons.hyps(1) q by (auto simp: r(2))
  qed simp
  moreover have "\<forall>p \<in> set (v_inodes v). bt_get (v_inodes v) (fst p) = Some (snd p)"
    using bt_entries [OF assms(1)] by auto
  ultimately show ?thesis using assms(2,3) unfolding rows_for_def rows4_for_def by blast
qed

lemma tree_on_disk_pending:
  "add_pending (tree_on_disk (v_tree v) rows) v = tree_on_disk (full_tree v) rows"
  by (simp add: add_pending_def tree_on_disk_def full_tree_def)

lemma spill_to_v4_effect:
  assumes env: "rng_fills E" "aead_correct E" and a: "acct R v" and ok: "bt_ok (v_inodes v)" and ch: "chains_ok E v"
    and sp: "spill_to_v4_on_disk E (v, r) = (Inr d, (v', r'))"
  shows "spilled E R v v'" "\<exists>rows. d = tree_on_disk (v_tree v') rows \<and> rows4_for E v' rows"
proof -
  from sp obtain d3 rows where s: "spill_to_v3_on_disk E (v, r) = (Inr d3, (v', r'))" and r4: "v4_rows v' (d_inodes d3) = Inr rows"
    and d: "d = \<lparr>d_root = d_root d3, d_next_file_id = d_next_file_id d3, d_next_chunk_id = d_next_chunk_id d3,
            d_next_chunk_gen = d_next_chunk_gen d3, d_free_chunks = d_free_chunks d3, d_inodes = rows\<rparr>"
    by (auto simp: spill_to_v4_on_disk_def fop_simps)
  note e = spill_to_v3_effect [OF env a ok ch s]
  show "spilled E R v v'" by (rule e(1))
  from e(2) obtain ods where o: "d3 = tree_on_disk (v_tree v') ods" "rows_for E v' ods" by blast
  have "rows4_for E v' rows" using v4_rows_for [OF _ o(2)] r4 o(1) spilled_ok [OF e(1)] ok by (simp add: tree_on_disk_def)
  moreover have "d = tree_on_disk (v_tree v') rows" by (simp add: d o(1) tree_on_disk_def)
  ultimately show "\<exists>rows. d = tree_on_disk (v_tree v') rows \<and> rows4_for E v' rows" by blast
qed

lemma limited_Inr: "limited p = Inr b \<longleftrightarrow> p = Some b \<and> length b \<le> METADATA_DECODE_LIMIT_BYTES"
  by (cases p) (auto simp: limited_def)

lemma settings_tail_Inr:
  "settings_tail H n = Inr t \<longleftrightarrow> (if n = 0 then t = None else \<exists>b. pc_settings H \<lparr>s_max_vault_size = n\<rparr> = Some b \<and> t = Some b)"
  by (auto simp: settings_tail_def bindE_eq_Inr)

lemma encode_tree_effect:
  assumes env: "rng_fills E" "aead_correct E" and a: "acct R v" and ok: "bt_ok (v_inodes v)" and ch: "chains_ok E v"
    and en: "encode_tree E H (v_format v) (v, r) = (Inr bs, (v', r'))"
  shows "spilled E R v v'" "encoded E H v' bs"
proof -
  have "spilled E R v v' \<and> encoded E H v' bs"
  proof (cases "v_format v")
    case V5
    from en V5 obtain d p v1 t where s: "spill_to_v4_on_disk E (v, r) = (Inr d, (v1, r'))" and v1: "v1 = v'"
      and p: "limited (pc_v4 H (add_pending d v1)) = Inr p" and t: "settings_tail H (v_max_vault_size v1) = Inr t"
      and bs: "bs = (case t of Some t \<Rightarrow> METADATA_V6_MAGIC @ p @ t | None \<Rightarrow> METADATA_V5_MAGIC @ p)"
      by (auto simp: encode_tree_def fop_simps split: option.splits)
    note e = spill_to_v4_effect [OF env a ok ch s [unfolded v1]]
    have f: "v_format v' = V5" using e(1) V5 by (simp add: spilled_def)
    show ?thesis using e p t bs v1 f by (auto simp: encoded_def limited_Inr settings_tail_Inr tree_on_disk_pending split: if_splits)
  next
    case V4
    from en V4 obtain d p v1 where s: "spill_to_v4_on_disk E (v, r) = (Inr d, (v1, r'))" and v1: "v1 = v'"
      and p: "limited (pc_v4 H (add_pending d v1)) = Inr p" and bs: "bs = METADATA_V4_MAGIC @ p"
      by (auto simp: encode_tree_def fop_simps)
    note e = spill_to_v4_effect [OF env a ok ch s [unfolded v1]]
    have f: "v_format v' = V4" using e(1) V4 by (simp add: spilled_def)
    show ?thesis using e p bs v1 f by (auto simp: encoded_def limited_Inr tree_on_disk_pending)
  next
    case V3
    from en V3 obtain d p v1 where s: "spill_to_v3_on_disk E (v, r) = (Inr d, (v1, r'))" and v1: "v1 = v'"
      and p: "limited (pc_v3 H (add_pending d v1)) = Inr p" and bs: "bs = METADATA_V3_MAGIC @ p"
      by (auto simp: encode_tree_def fop_simps)
    note e = spill_to_v3_effect [OF env a ok ch s [unfolded v1]]
    have f: "v_format v' = V3" using e(1) V3 by (simp add: spilled_def)
    show ?thesis using e p bs v1 f by (auto simp: encoded_def limited_Inr tree_on_disk_pending)
  next
    case V2
    then show ?thesis using en spilled_refl [OF a, of E] by (auto simp: encode_tree_def fop_simps encoded_def limited_Inr full_tree_def)
  qed
  then show "spilled E R v v'" "encoded E H v' bs" by blast+
qed

section \<open>Reading it back\<close>

lemma bt_insert_last: "(\<forall>p \<in> set m. fst p < k) \<Longrightarrow> bt_insert k x m = m @ [(k, x)]"
  by (induction m) auto

lemma inode_of_same:
  "inode_of (on_disk_of i cs x) (i_size i) (i_chunks i) (i_external_list_blocks i) (i_mode i) (i_link_count i) (i_symlink_target i)
     = forget_cache i"
  by (simp add: inode_of_def on_disk_of_def)

definition countable_chunks :: "Inode \<Rightarrow> bool" where
  "countable_chunks i \<longleftrightarrow> length (i_chunks i) \<le> 2 ^ 32"

lemma v3_inode_row:
  assumes "row_for E c f k i od" "i_id i = k" "countable_chunks i" "i_mode i = default_mode_for_kind (i_kind i)"
    "i_link_count i = 1" "i_symlink_target i = None"
  shows "v3_inode E c od = Inr (forget_cache i)"
proof (cases "file_needs_external f i")
  case True
  then have r: "chain_good E c k i" "od = on_disk_of i [] (Some (hd (i_external_list_blocks i), of_nat (length (i_chunks i))))"
    and ne: "i_kind i = File" "i_chunks i \<noteq> []" using assms(1) by (auto simp: row_for_def file_needs_external_def)
  have w: "walk_chunk_list_chain E c (o_id od) (hd (i_external_list_blocks i)) (of_nat (length (i_chunks i)))
      = Inr (i_chunks i, i_external_list_blocks i)"
    using walk_good_chain [OF r(1) ne(2)] assms(2,3) r(2) by (simp add: countable_chunks_def on_disk_of_def)
  show ?thesis using w r(2) ne assms inode_of_same [of i] by (simp add: v3_inode_def on_disk_of_def)
next
  case False
  then have r: "i_external_list_blocks i = []" "od = on_disk_of i (i_chunks i) None" using assms(1) by (auto simp: row_for_def)
  show ?thesis using r assms inode_of_same [of i "i_chunks i" None] by (simp add: v3_inode_def on_disk_of_def)
qed

lemma truncate_v4 [simp]: "InodeV3OnDisk.truncate (with_v4_fields od i) = od"
  by (simp add: with_v4_fields_def InodeV3OnDisk.defs)

lemma v4_inode_row:
  assumes "row_for E c f k i od" "i_id i = k" "countable_chunks i" "inode_ok hide i"
  shows "v4_inode E tol c k (with_v4_fields od i) = Inr (forget_cache i, [])"
proof -
  have okd: "o_kind od = i_kind i" "o_size od = i_size i" using assms(1) by (auto simp: row_for_def on_disk_of_def split: if_splits)
  have link: "i_link_count i \<noteq> 0" using inode_ok_link(1) [OF assms(4)] .
  have tgt: "check_target (with_v4_fields od i) = Inr ()"
    using assms(4) okd by (auto simp: check_target_def with_v4_fields_def inode_ok_def split: InodeKind.splits)
  show ?thesis
  proof (cases "file_needs_external f i")
    case True
    then have r: "chain_good E c k i" "od = on_disk_of i [] (Some (hd (i_external_list_blocks i), of_nat (length (i_chunks i))))"
      and ne: "i_kind i = File" "i_chunks i \<noteq> []" using assms(1) by (auto simp: row_for_def file_needs_external_def)
    have w: "walk_chunk_list_chain E c k (hd (i_external_list_blocks i)) (of_nat (length (i_chunks i)))
        = Inr (i_chunks i, i_external_list_blocks i)"
      using walk_good_chain [OF r(1) ne(2)] assms(2,3) by (simp add: countable_chunks_def)
    have o: "o_chunks (with_v4_fields od i) = []" "o_id (with_v4_fields od i) = k" "o_kind (with_v4_fields od i) = File"
      "o_chunks_external (with_v4_fields od i) = Some (hd (i_external_list_blocks i), of_nat (length (i_chunks i)))"
      "o_link_count (with_v4_fields od i) = i_link_count i" "o_mode (with_v4_fields od i) = i_mode i"
      "o_symlink_target (with_v4_fields od i) = i_symlink_target i" "o_size (with_v4_fields od i) = i_size i"
      using r(2) ne assms(2) by (simp_all add: with_v4_fields_def on_disk_of_def)
    show ?thesis using w o link tgt inode_of_same [of i] r(2) by (simp add: v4_inode_def)
  next
    case False
    then have r: "i_external_list_blocks i = []" "od = on_disk_of i (i_chunks i) None" using assms(1) by (auto simp: row_for_def)
    have o: "o_chunks (with_v4_fields od i) = i_chunks i" "o_chunks_external (with_v4_fields od i) = None"
      "o_link_count (with_v4_fields od i) = i_link_count i" "o_mode (with_v4_fields od i) = i_mode i"
      "o_symlink_target (with_v4_fields od i) = i_symlink_target i" "o_size (with_v4_fields od i) = i_size i"
      using r(2) by (simp_all add: with_v4_fields_def on_disk_of_def)
    show ?thesis using o link tgt inode_of_same [of i "i_chunks i" None] r by (simp add: v4_inode_def)
  qed
qed

lemma v3_rows_decode:
  "list_all2 (\<lambda>p q. fst q = fst p \<and> v3_inode E c (snd q) = Inr (forget_cache (snd p))) m rows \<Longrightarrow>
     sorted_wrt (<) (bt_keys m) \<Longrightarrow> (\<forall>p \<in> set acc. \<forall>q \<in> set m. fst p < fst q) \<Longrightarrow>
     v3_rows E c rows acc = Inr (acc @ forget_caches m)"
proof (induction arbitrary: acc rule: list_all2_induct)
  case (Cons p m q rows)
  obtain k od where q: "q = (k, od)" by (cases q)
  have ins: "bt_insert k (forget_cache (snd p)) acc = acc @ [(k, forget_cache (snd p))]"
    using Cons.prems(2) Cons.hyps(1) q by (intro bt_insert_last) auto
  have "v3_rows E c rows (acc @ [(k, forget_cache (snd p))]) = Inr ((acc @ [(k, forget_cache (snd p))]) @ forget_caches m)"
    by (rule Cons.IH) (use Cons.prems Cons.hyps(1) q in \<open>auto simp: bt_keys_def\<close>)
  then show ?case using Cons.hyps(1) q ins by (cases p) (simp add: forget_caches_def)
qed (simp add: forget_caches_def)

lemma v4_inodes_decode:
  "list_all2 (\<lambda>p q. fst q = fst p \<and> v4_inode E tol c (fst p) (snd q) = Inr (forget_cache (snd p), [])) m rows \<Longrightarrow>
     sorted_wrt (<) (bt_keys m) \<Longrightarrow> (\<forall>p \<in> set acc. \<forall>q \<in> set m. fst p < fst q) \<Longrightarrow>
     v4_inodes E tol c rows acc [] = Inr (acc @ forget_caches m, [])"
proof (induction arbitrary: acc rule: list_all2_induct)
  case (Cons p m q rows)
  obtain k od where q: "q = (k, od)" by (cases q)
  have ins: "bt_insert k (forget_cache (snd p)) acc = acc @ [(k, forget_cache (snd p))]"
    using Cons.prems(2) Cons.hyps(1) q by (intro bt_insert_last) auto
  have "v4_inodes E tol c rows (acc @ [(k, forget_cache (snd p))]) [] = Inr ((acc @ [(k, forget_cache (snd p))]) @ forget_caches m, [])"
    by (rule Cons.IH) (use Cons.prems Cons.hyps(1) q in \<open>auto simp: bt_keys_def\<close>)
  then show ?case using Cons.hyps(1) q ins by (cases p) (simp add: forget_caches_def)
qed (simp add: forget_caches_def)

lemma bt_ok_sorted: "bt_ok m \<Longrightarrow> sorted_wrt (<) (bt_keys m)"
  by (simp add: bt_ok_def strict_sorted_iff)

text \<open>What a state satisfies whose save can be read back.\<close>

definition loadable :: "Vfs \<Rightarrow> bool" where
  "loadable v \<longleftrightarrow>
     bt_ok (v_inodes v)
     \<and> (\<forall>k i. bt_get (v_inodes v) k = Some i \<longrightarrow> i_id i = k \<and> inode_ok (v_hide v) i \<and> countable_chunks i)
     \<and> (v_format v \<in> {V2, V3} \<longrightarrow> \<not> tree_needs_v4_format (v_tree v))
     \<and> (v_format v = V2 \<longrightarrow> (\<forall>k i. bt_get (v_inodes v) k = Some i \<longrightarrow> i_external_list_blocks i = []))
     \<and> (v_format v \<noteq> V5 \<longrightarrow> v_max_vault_size v = 0)"

lemma loadable_default:
  assumes "loadable v" "v_format v \<in> {V2, V3}" "bt_get (v_inodes v) k = Some i"
  shows "i_mode i = default_mode_for_kind (i_kind i)" "i_link_count i = 1" "i_symlink_target i = None"
proof -
  have ok: "bt_ok (v_inodes v)" "inode_ok (v_hide v) i" and n: "\<not> tree_needs_v4_format (v_tree v)"
    using assms unfolding loadable_def by blast+
  have "i \<in> set (bt_values (v_inodes v))" using assms(3) bt_in_values [OF ok(1)] by blast
  then have "i_link_count i = 1" "i_kind i \<noteq> Symlink"
    "i_mode i = (case i_kind i of File \<Rightarrow> DEFAULT_FILE_MODE | Directory \<Rightarrow> DEFAULT_DIR_MODE | Symlink \<Rightarrow> 0x1ff)"
    using n by (auto simp: tree_needs_v4_format_def list_ex_iff)
  then show "i_mode i = default_mode_for_kind (i_kind i)" "i_link_count i = 1" "i_symlink_target i = None"
    using ok(2) by (auto simp: default_mode_for_kind_def inode_ok_def split: InodeKind.splits)
qed

lemma decode_v3:
  assumes "loadable v" "v_format v = V3" "rows_for E v rows"
  shows "v3_on_disk_to_in_memory E (tree_on_disk (full_tree v) rows) (v_container v)
     = Inr ((full_tree v)\<lparr>inodes := forget_caches (v_inodes v)\<rparr>)"
proof -
  have ok: "bt_ok (v_inodes v)" using assms(1) by (simp add: loadable_def)
  have "list_all2 (\<lambda>p q. fst q = fst p \<and> v3_inode E (v_container v) (snd q) = Inr (forget_cache (snd p))) (v_inodes v) rows"
    using assms(3) unfolding rows_for_def
  proof (rule list.rel_mono_strong)
    fix p q assume p: "p \<in> set (v_inodes v)" and "q \<in> set rows" and r: "fst q = fst p \<and> row_for E (v_container v) (v_format v) (fst p) (snd p) (snd q)"
    have g: "bt_get (v_inodes v) (fst p) = Some (snd p)" using p bt_entries [OF ok, of "fst p" "snd p"] by simp
    then have "i_id (snd p) = fst p" "countable_chunks (snd p)" using assms(1) by (simp_all add: loadable_def)
    then show "fst q = fst p \<and> v3_inode E (v_container v) (snd q) = Inr (forget_cache (snd p))"
      using v3_inode_row [of E "v_container v" "v_format v" "fst p" "snd p" "snd q"] r loadable_default [OF assms(1) _ g] assms(2) by simp
  qed
  from v3_rows_decode [OF this bt_ok_sorted [OF ok], of "[]"] show ?thesis
    by (simp add: v3_on_disk_to_in_memory_def tree_on_disk_def tree_of_disk_def full_tree_def)
qed

lemma decode_v4:
  assumes "loadable v" "rows4_for E v rows"
  shows "v4_on_disk_to_in_memory E tol (tree_on_disk (full_tree v) rows) (v_container v)
     = Inr ((full_tree v)\<lparr>inodes := forget_caches (v_inodes v)\<rparr>, [])"
proof -
  have ok: "bt_ok (v_inodes v)" using assms(1) by (simp add: loadable_def)
  have "list_all2 (\<lambda>p q. fst q = fst p \<and> v4_inode E tol (v_container v) (fst p) (snd q) = Inr (forget_cache (snd p), [])) (v_inodes v) rows"
    using assms(2) unfolding rows4_for_def
  proof (rule list.rel_mono_strong)
    fix p q assume p: "p \<in> set (v_inodes v)" and "q \<in> set rows" and r: "fst q = fst p \<and> (\<exists>od. snd q = with_v4_fields od (snd p)
        \<and> row_for E (v_container v) (v_format v) (fst p) (snd p) od)"
    have "bt_get (v_inodes v) (fst p) = Some (snd p)" using p bt_entries [OF ok, of "fst p" "snd p"] by simp
    then have "i_id (snd p) = fst p" "countable_chunks (snd p)" "inode_ok (v_hide v) (snd p)" using assms(1) by (simp_all add: loadable_def)
    then show "fst q = fst p \<and> v4_inode E tol (v_container v) (fst p) (snd q) = Inr (forget_cache (snd p), [])"
      using v4_inode_row r by fastforce
  qed
  from v4_inodes_decode [OF this bt_ok_sorted [OF ok], of "[]"] show ?thesis
    by (simp add: v4_on_disk_to_in_memory_def tree_on_disk_def tree_of_disk_def full_tree_def)
qed

lemma decode_v2:
  assumes "loadable v" "v_format v = V2"
  shows "patch_v2_modes ((full_tree v)\<lparr>inodes := map (\<lambda>(k, i). (k, serde_skipped i)) (inodes (full_tree v))\<rparr>)
     = (full_tree v)\<lparr>inodes := forget_caches (v_inodes v)\<rparr>"
proof -
  have ok: "bt_ok (v_inodes v)" using assms(1) by (simp add: loadable_def)
  have "(serde_skipped i)\<lparr>i_mode := default_mode_for_kind (i_kind i)\<rparr> = forget_cache i" if "(k, i) \<in> set (v_inodes v)" for k i
  proof -
    have g: "bt_get (v_inodes v) k = Some i" using that bt_entries [OF ok] by simp
    have "i_external_list_blocks i = []" using g assms by (simp add: loadable_def)
    then show ?thesis using loadable_default [OF assms(1) _ g] assms(2) by (simp add: serde_skipped_def)
  qed
  then have "map (\<lambda>(k, i). (k, (serde_skipped i)\<lparr>i_mode := default_mode_for_kind (i_kind i)\<rparr>)) (v_inodes v) = forget_caches (v_inodes v)"
    unfolding forget_caches_def by (intro map_cong refl) auto
  then show ?thesis by (simp add: patch_v2_modes_def full_tree_def comp_def case_prod_unfold serde_skipped_def)
qed

lemma strip_magic_lbm:
  "strip_magic (bstr ''LBM'' @ [n]) (bstr ''LBM'' @ k # x) = (if n = k then Some x else None)"
  by (auto simp: strip_magic_def)

lemma decoded_Some: "un p = Some y \<Longrightarrow> length p \<le> METADATA_DECODE_LIMIT_BYTES \<Longrightarrow> decoded un p = Inr y"
  by (simp add: decoded_def)

lemma decode_encoded:
  assumes pc: "postcard_ok H" and l: "loadable v" and e: "encoded E H v bs" and len: "length bs \<le> METADATA_DECODE_LIMIT_BYTES"
  shows "decode_blob E H (v_container v) bs
     = Inr ((full_tree v)\<lparr>inodes := forget_caches (v_inodes v)\<rparr>, v_format v, v_max_vault_size v, [])"
proof -
  have b: "bstr ''LBM'' @ [n] \<noteq> []" for n by simp
  have p2: "un_v2 H p = Some ((full_tree v)\<lparr>inodes := map (\<lambda>(k, i). (k, serde_skipped i)) (inodes (full_tree v))\<rparr>, [])"
    if "pc_v2 H (full_tree v) = Some p" for p
    using pc that unfolding postcard_ok_def by (metis append_Nil2)
  have p3: "un_v3 H p = Some (t, [])" if "pc_v3 H t = Some p" for p t using pc that unfolding postcard_ok_def by (metis append_Nil2)
  have p4: "un_v4 H (p @ rest) = Some (t, rest)" if "pc_v4 H t = Some p" for p t rest using pc that unfolding postcard_ok_def by blast
  have ps: "un_settings H p = Some (t, [])" if "pc_settings H t = Some p" for p t using pc that unfolding postcard_ok_def by (metis append_Nil2)
  have max0: "v_max_vault_size v = 0" if "v_format v \<noteq> V5" using l that by (simp add: loadable_def)
  show ?thesis
  proof (cases "v_format v")
    case V5
    then obtain rows p where r: "rows4_for E v rows" and p: "pc_v4 H (tree_on_disk (full_tree v) rows) = Some p"
      and bs: "if v_max_vault_size v = 0 then bs = METADATA_V5_MAGIC @ p
             else \<exists>t. pc_settings H \<lparr>s_max_vault_size = v_max_vault_size v\<rparr> = Some t \<and> bs = METADATA_V6_MAGIC @ p @ t"
      using e by (auto simp: encoded_def)
    note d4 = decode_v4 [OF l r, of "tolerate_bad_chunk_lists H"]
    show ?thesis
    proof (cases "v_max_vault_size v = 0")
      case True
      then have bs: "bs = METADATA_V5_MAGIC @ p" using bs by simp
      have "decoded (un_v4 H) p = Inr (tree_on_disk (full_tree v) rows, [])"
        using p4 [OF p, of "[]"] len bs by (intro decoded_Some) simp_all
      then show ?thesis using True V5 d4 unfolding bs decode_blob_def by (simp add: strip_magic_lbm)
    next
      case False
      then obtain t where t: "pc_settings H \<lparr>s_max_vault_size = v_max_vault_size v\<rparr> = Some t" and bs: "bs = METADATA_V6_MAGIC @ p @ t"
        using bs by auto
      have "decoded (un_v4 H) (p @ t) = Inr (tree_on_disk (full_tree v) rows, t)"
        using p4 [OF p] len bs by (intro decoded_Some) simp_all
      then show ?thesis using V5 d4 ps [OF t] unfolding bs decode_blob_def by (simp add: strip_magic_lbm)
    qed
  next
    case V4
    then obtain rows p where r: "rows4_for E v rows" and p: "pc_v4 H (tree_on_disk (full_tree v) rows) = Some p"
      and bs: "bs = METADATA_V4_MAGIC @ p"
      using e by (auto simp: encoded_def)
    have "decoded (un_v4 H) p = Inr (tree_on_disk (full_tree v) rows, [])"
      using p4 [OF p, of "[]"] len bs by (intro decoded_Some) simp_all
    then show ?thesis using V4 max0 decode_v4 [OF l r, of "tolerate_bad_chunk_lists H"] unfolding bs decode_blob_def
      by (simp add: strip_magic_lbm)
  next
    case V3
    then obtain rows p where r: "rows_for E v rows" and p: "pc_v3 H (tree_on_disk (full_tree v) rows) = Some p"
      and bs: "bs = METADATA_V3_MAGIC @ p"
      using e by (auto simp: encoded_def)
    have "decoded (un_v3 H) p = Inr (tree_on_disk (full_tree v) rows, [])"
      using p3 [OF p] len bs by (intro decoded_Some) simp_all
    then show ?thesis using V3 max0 decode_v3 [OF l V3 r] unfolding bs decode_blob_def by (simp add: strip_magic_lbm)
  next
    case V2
    then obtain p where p: "pc_v2 H (full_tree v) = Some p" and bs: "bs = METADATA_V2_MAGIC @ p" using e by (auto simp: encoded_def)
    have "decoded (un_v2 H) p = Inr ((full_tree v)\<lparr>inodes := map (\<lambda>(k, i). (k, serde_skipped i)) (inodes (full_tree v))\<rparr>, [])"
      using p2 [OF p] len bs by (intro decoded_Some) simp_all
    then show ?thesis using V2 max0 decode_v2 [OF l V2] unfolding bs decode_blob_def by (simp add: strip_magic_lbm)
  qed
qed

section \<open>The save\<close>

text \<open>
  What the disk promises of an open file system: the list blocks of every file whose list did not
  change since they were written hold that list, old formats have none, and only the current format
  stores a size limit.
\<close>

definition disk_inv :: "'r env \<Rightarrow> Vfs \<Rightarrow> bool" where
  "disk_inv E v \<longleftrightarrow>
     container_ok (v_container v) \<and> chains_ok E v
     \<and> (v_format v = V2 \<longrightarrow> (\<forall>k i. bt_get (v_inodes v) k = Some i \<longrightarrow> i_external_list_blocks i = []))
     \<and> (v_format v \<noteq> V5 \<longrightarrow> v_max_vault_size v = 0)"

lemma rows_ext:
  assumes "bt_ok (v_inodes v)" "encoded E H v bs" "v_format v \<noteq> V2" "bt_get (v_inodes v) k = Some i"
  shows "if file_needs_external (v_format v) i then chain_good E (v_container v) k i else i_external_list_blocks i = []"
proof -
  have mem: "(k, i) \<in> set (v_inodes v)" using bt_entries [OF assms(1)] assms(4) by blast
  have "\<exists>od. row_for E (v_container v) (v_format v) k i od"
  proof (cases "v_format v = V3")
    case True
    then obtain rows where "rows_for E v rows" using assms(2) by (auto simp: encoded_def)
    then show ?thesis using mem unfolding rows_for_def by (fastforce simp: list_all2_conv_all_nth in_set_conv_nth)
  next
    case False
    then obtain rows where "rows4_for E v rows" using assms(2,3) by (cases "v_format v") (auto simp: encoded_def)
    then show ?thesis using mem unfolding rows4_for_def by (fastforce simp: list_all2_conv_all_nth in_set_conv_nth)
  qed
  then show ?thesis by (auto simp: row_for_def)
qed

lemma encoded_safe:
  assumes ok: "bt_ok (v_inodes v)" and e: "encoded E H v bs" and s: "safe E (prot R v) (v_container v) c"
  shows "encoded E H (v\<lparr>v_container := c\<rparr>) bs"
proof -
  have row: "row_for E c f (fst p) (snd p) od" if "p \<in> set (v_inodes v)" "row_for E (v_container v) f (fst p) (snd p) od" for p f od
  proof -
    have "bt_get (v_inodes v) (fst p) = Some (snd p)" using bt_entries [OF ok, of "fst p" "snd p"] that(1) by simp
    from row_for_safe [OF that(2) s refs_prot [OF ok this]] show ?thesis .
  qed
  have "rows_for E (v\<lparr>v_container := c\<rparr>) rows" if "rows_for E v rows" for rows
    using that unfolding rows_for_def by (simp, elim list.rel_mono_strong) (use row in simp)
  moreover have "rows4_for E (v\<lparr>v_container := c\<rparr>) rows" if "rows4_for E v rows" for rows
    using that unfolding rows4_for_def by (simp, elim list.rel_mono_strong) (use row in auto)
  moreover have same: "full_tree (v\<lparr>v_container := c\<rparr>) = full_tree v" "v_format (v\<lparr>v_container := c\<rparr>) = v_format v"
    "v_max_vault_size (v\<lparr>v_container := c\<rparr>) = v_max_vault_size v" by (simp_all add: full_tree_def)
  ultimately show ?thesis using e unfolding encoded_def same by (cases "v_format v"; simp only: MetadataFormat.case; blast)
qed

lemma bt_key_mem: "bt_get m k = Some i \<Longrightarrow> k \<in> set (bt_keys m)"
  by (force simp: bt_get_def bt_keys_def dest: map_of_SomeD)

lemma upgrade_frame:
  assumes "disk_inv E v" and v'_def: "v' = auto_upgrade_format (auto_upgrade_header H v)"
  shows "v_tree v' = v_tree v" "v_pending_free v' = v_pending_free v" "frame v v'" "disk_inv E v'" "safe E UNIV (v_container v) (v_container v')"
    "v_cow_floor_gen v' = v_cow_floor_gen v" "v_dirty v' = v_dirty v" "v_format v' \<in> {V2, V3} \<Longrightarrow> \<not> tree_needs_v4_format (v_tree v')"
    "v_chunks_dirty v \<subseteq> v_chunks_dirty v'"
proof -
  let ?u = "auto_upgrade_header H v"
  have [simp]: "\<not> (3 :: u16) \<le> 1" by (simp add: word_le_nat_alt)
  have u: "v_tree ?u = v_tree v" "v_pending_free ?u = v_pending_free v" "v_cow_floor_gen ?u = v_cow_floor_gen v" "v_dirty ?u = v_dirty v"
    "v_tolerated_inodes ?u = v_tolerated_inodes v" "v_max_vault_size ?u = v_max_vault_size v" "hdr_same (v_container v) (v_container ?u)"
    "lbx_file (v_container ?u) = lbx_file (v_container v)" "v_chunks_dirty v \<subseteq> v_chunks_dirty ?u"
    by (auto simp: auto_upgrade_header_def upgrade_v1_header_in_memory_def mark_all_dirty_def hdr_same_def Let_def
        c_header_generation_def has_header_generation_def hide_size_header_def pad_files_pow2_def masked_metadata_len_def)
  have w: "v_tree v' = v_tree ?u" "v_pending_free v' = v_pending_free ?u" "v_cow_floor_gen v' = v_cow_floor_gen ?u" "v_dirty v' = v_dirty ?u"
    "v_tolerated_inodes v' = v_tolerated_inodes ?u" "v_max_vault_size v' = v_max_vault_size ?u" "v_container v' = v_container ?u"
    "v_chunks_dirty ?u \<subseteq> v_chunks_dirty v'"
    by (auto simp: v'_def auto_upgrade_format_def mark_all_dirty_def)
  show "v_tree v' = v_tree v" "v_pending_free v' = v_pending_free v" "v_cow_floor_gen v' = v_cow_floor_gen v" "v_dirty v' = v_dirty v"
    "v_chunks_dirty v \<subseteq> v_chunks_dirty v'" using u w by auto
  show "frame v v'" using u w by (simp add: frame_def same_tree_refl)
  show "safe E UNIV (v_container v) (v_container v')" by (simp add: safe_def w(7) rd_chunk_cong [OF u(7,8)])
  show "\<not> tree_needs_v4_format (v_tree v')" if "v_format v' \<in> {V2, V3}"
    using that by (auto simp: v'_def auto_upgrade_format_def mark_all_dirty_def split: if_splits)
  have cok: "container_ok (v_container v)" "chains_ok E v" using assms(1) by (simp_all add: disk_inv_def)
  have "container_ok (v_container ?u)"
    using cok(1) by (auto simp: auto_upgrade_header_def upgrade_v1_header_in_memory_def mark_all_dirty_def container_ok_def
        header_wf_def has_header_generation_def has_sep_region_def)
  moreover have "chains_ok E ?u"
    using cok(2) unfolding chains_ok_def auto_upgrade_header_def upgrade_v1_header_in_memory_def mark_all_dirty_def
    by (auto dest: bt_key_mem)
  moreover have "chains_ok E v'" if "chains_ok E ?u"
    using that unfolding v'_def chains_ok_def auto_upgrade_format_def mark_all_dirty_def by (auto dest: bt_key_mem)
  moreover have "v_format v' = V2 \<Longrightarrow> v_format v = V2" "v_format v' \<noteq> V5 \<Longrightarrow> v_format v \<noteq> V5"
    by (auto simp: v'_def auto_upgrade_format_def auto_upgrade_header_def upgrade_v1_header_in_memory_def mark_all_dirty_def split: if_splits)
  ultimately show "disk_inv E v'" using assms(1) u w by (simp add: disk_inv_def)
qed

lemma chains_okI:
  assumes "bt_ok (v_inodes v)" "encoded E H v bs" "v_format v = V2 \<Longrightarrow> \<forall>k i. bt_get (v_inodes v) k = Some i \<longrightarrow> i_external_list_blocks i = []"
    and "bt_get (v_inodes v) k = Some i" "i_external_list_blocks i \<noteq> []"
  shows "chain_good E (v_container v) k i"
proof -
  have n: "v_format v \<noteq> V2" using assms(3,4,5) by blast
  show ?thesis using rows_ext [OF assms(1,2) n assms(4)] assms(5) by (simp split: if_splits)
qed

text \<open>A save that succeeds, step by step.\<close>

lemma commit_steps:
  assumes "commit E H (v, r) = (Inr (), (v', r'))"
  obtains g v1 v2 bs r2 c where
    "validate_metadata_tree (v_tree v) (v_doff v) (v_hide v) = Inr ()"
    "alloc_gen (v\<lparr>v_cow_floor_gen := next_chunk_gen (v_tree v)\<rparr>) = (Inr g, v1)"
    "encode_tree E H (v_format (auto_upgrade_format (auto_upgrade_header H v1))) (auto_upgrade_format (auto_upgrade_header H v1), r) = (Inr bs, (v2, r2))"
    "c_write_metadata E bs (v_container v2, r2) = (Inr (), (c, r'))" "v' = settle (v2\<lparr>v_container := c\<rparr>)"
  using assms unfolding commit_def by (auto simp: fop_simps fmt_eq_Inr)

lemma c_write_metadata_recovered:
  assumes "c_write_metadata E bs (c, r) = (Inr (), (c', r'))"
  shows "c_write_metadata E bs (c\<lparr>recovered_from_mirror := b\<rparr>, r) = (Inr (), (c'\<lparr>recovered_from_mirror := b\<rparr>, r'))"
  using assms
  by (auto simp: c_write_metadata_def bindR_def withC_def build_metadata_region_def mirror_metadata_if_v2_def is_v2_format_def
      write_metadata_mirror_def updC_def overwrite_live_metadata_def lbxC_def retR_def failR_def Let_def
      split: prod.splits sum.splits if_splits)

lemma inode_ok_ext:
  assumes "inode_ok hide i" "data_same i j" "i_kind j \<noteq> File \<longrightarrow> i_external_list_blocks j = []"
  shows "inode_ok hide j"
proof -
  obtain b where j: "j = set_ext b i" using assms(2) by (auto simp: data_same_def)
  have "validate_capacity hide j = validate_capacity hide i" by (simp add: j validate_capacity_def)
  then show ?thesis using assms(1,3) by (auto simp: inode_ok_def j inode_refs_def split: InodeKind.splits)
qed

lemma used_settle: "used (settle v) = used v"
  by (simp add: used_def settle_def ac_simps)

lemma settle_frame:
  shows "frame v (settle v)" "acct R (settle v) = acct R v" "v_inodes (settle v) = v_inodes v" "v_tree (settle v) = full_tree v"
    "v_container (settle v) = (v_container v)\<lparr>recovered_from_mirror := False\<rparr>" "v_format (settle v) = v_format v"
  using used_settle [of v] unfolding acct_def
  by (simp_all add: settle_def frame_def same_tree_refl hdr_same_def Let_def full_tree_def c_header_generation_def)

lemma safe_recovered [simp]: "safe E S c (c'\<lparr>recovered_from_mirror := b\<rparr>) = safe E S c c'"
proof -
  have "rd_chunk E (c'\<lparr>recovered_from_mirror := b\<rparr>) a = rd_chunk E c' a" for a
    by (rule rd_chunk_cong) (simp_all add: hdr_same_def Let_def c_header_generation_def)
  then show ?thesis by (simp add: safe_def)
qed

lemma same_tree_ex:
  assumes "same_tree R m m'" "\<And>i j. R i j \<Longrightarrow> P j = P i"
  shows "list_ex P (bt_values m') = list_ex P (bt_values m)"
  using assms(1) unfolding same_tree_def bt_values_def by (induction rule: list_all2_induct) (auto simp: assms(2))

lemma needs_v4_same: "same_tree data_same (inodes t) (inodes t') \<Longrightarrow> tree_needs_v4_format t' = tree_needs_v4_format t"
  unfolding tree_needs_v4_format_def by (rule same_tree_ex [of data_same]) (simp_all add: data_sameD)

definition readable_as :: "'r env \<Rightarrow> Host \<Rightarrow> Vfs \<Rightarrow> bool" where
  "readable_as E H v \<longleftrightarrow>
     (\<exists>bs. (\<forall>r. c_read_metadata E (v_container v, r) = (Inr bs, (v_container v, r)))
        \<and> decode_blob E H (v_container v) bs
          = Inr ((v_tree v)\<lparr>inodes := forget_caches (v_inodes v)\<rparr>, v_format v, v_max_vault_size v, []))"

lemma commit_effect:
  assumes env: "rng_fills E" "digest_lengths E" "aead_correct E"
    and ns: "ns_core (v_hide v) (v_inodes v)" and a: "acct R v" and di: "disk_inv E v"
    and cm: "commit E H (v, r) = (Inr (), (v', r'))"
  shows "frame v v'" "acct R v'" "safe E (prot R v) (v_container v) (v_container v')" "disk_inv E v'"
    "v_pending_free v' = []" "\<not> v_dirty v'" "v_chunks_dirty v' = {}" "ns_core (v_hide v') (v_inodes v')"
    "v_cow_floor_gen v' = next_chunk_gen (v_tree v)"
    "postcard_ok H \<Longrightarrow> (\<And>k i. bt_get (v_inodes v) k = Some i \<Longrightarrow> countable_chunks i) \<Longrightarrow> readable_as E H v'"
    "v_format v' = v_format (auto_upgrade_format (auto_upgrade_header H v))"
proof -
  define v0 where "v0 = v\<lparr>v_cow_floor_gen := next_chunk_gen (v_tree v)\<rparr>"
  obtain g v1 v2 bs r2 c where al: "alloc_gen v0 = (Inr g, v1)"
    and en: "encode_tree E H (v_format (auto_upgrade_format (auto_upgrade_header H v1))) (auto_upgrade_format (auto_upgrade_header H v1), r) = (Inr bs, (v2, r2))"
    and w: "c_write_metadata E bs (v_container v2, r2) = (Inr (), (c, r'))" and v': "v' = settle (v2\<lparr>v_container := c\<rparr>)"
    by (rule commit_steps [OF cm, folded v0_def])
  define u where "u = auto_upgrade_format (auto_upgrade_header H v1)"
  have ok: "bt_ok (v_inodes v)" using ns_coreD(2) [OF ns] .
  have a0: "acct R v0" using a by (simp add: v0_def acct_def used_def)
  have f0: "frame v v0" by (simp add: v0_def frame_def same_tree_refl)
  have d0: "disk_inv E v0" using di by (simp add: v0_def disk_inv_def chains_ok_def)
  note f1 = alloc_gen_frame [OF a0 al]
  note fr1 = alloc_frameD [OF f1]
  have a1: "acct R v1" using alloc_gen_acct(1) [OF a0 al] .
  have mx1: "v_max_vault_size v1 = v_max_vault_size v0" using fr1(4) by (simp add: frame_def)
  have d1: "disk_inv E v1" using d0 fr1 mx1 unfolding disk_inv_def chains_ok_def by simp
  note up = upgrade_frame [OF d1 u_def]
  have au: "acct R u" using a1 up(1,2) by (simp add: acct_def used_def)
  have m_u: "v_inodes u = v_inodes v" using up(1) fr1(1) by (simp add: v0_def)
  have oku: "bt_ok (v_inodes u)" using ok m_u by simp
  have chu: "chains_ok E u" and coku: "container_ok (v_container u)" using up(4) by (simp_all add: disk_inv_def)
  note e = encode_tree_effect [OF env(1,3) au oku chu, of H r bs v2 r2] en [folded u_def]
  have sp: "spilled E R u v2" and enc: "encoded E H v2 bs" using e by blast+
  have fu: "frame v u" using frame_trans [OF frame_trans [OF f0 fr1(4)] up(3)] .
  have f2: "frame v v2" using frame_trans [OF fu] sp by (simp add: spilled_def)
  obtain gg where c2: "v_container v2 = (v_container u)\<lparr>lbx_file := gg\<rparr>" using sp by (auto simp: spilled_def)
  have cok2: "container_ok (v_container v2)" using coku c2 by (simp add: container_ok_def)
  note m = c_write_metadata_frame [OF env cok2 w]
  have ok2: "bt_ok (v_inodes v2)" using spilled_ok [OF sp] oku by simp
  have fmt2: "v_format v2 = v_format u" using sp by (simp add: spilled_def)
  have f3: "frame v2 (v2\<lparr>v_container := c\<rparr>)" using m(1) by (simp add: frame_def same_tree_refl)
  note st = settle_frame [where v = "v2\<lparr>v_container := c\<rparr>"]
  show fr: "frame v v'" unfolding v' using frame_trans [OF frame_trans [OF f2 f3] st(1)] .
  have a2: "acct R v2" using sp by (simp add: spilled_def)
  show "acct R v'" unfolding v' st(2) using a2 by (simp add: acct_def used_def)
  have s2: "safe E (prot R v) (v_container v) (v_container v2)"
  proof -
    have "prot R v = prot R u" using m_u up(2) fr1(3) by (simp add: prot_def v0_def)
    moreover have "safe E UNIV (v_container v) (v_container u)" using up(5) fr1(2) by (simp add: v0_def)
    moreover have "safe E (prot R u) (v_container u) (v_container v2)" using sp by (simp add: spilled_def)
    ultimately show ?thesis using safe_trans by blast
  qed
  then show "safe E (prot R v) (v_container v) (v_container v')"
    unfolding v' st(5) using safe_trans [OF s2 m(2)] by simp
  have v2ext: "\<forall>k i. bt_get (v_inodes v2) k = Some i \<longrightarrow> i_external_list_blocks i = []" if "v_format v2 = V2"
  proof -
    have "v2 = u" using en that fmt2 unfolding u_def [symmetric] by (auto simp: encode_tree_def fop_simps)
    then show ?thesis using up(4) that by (simp add: disk_inv_def)
  qed
  let ?w = "v2\<lparr>v_container := c\<rparr>"
  have encc: "encoded E H ?w bs" by (rule encoded_safe [OF ok2 enc safe_mono [OF m(2)]]) simp
  have good: "chain_good E c k i" if "bt_get (v_inodes v2) k = Some i" "i_external_list_blocks i \<noteq> []" for k i
    using chains_okI [OF _ encc, of k i] ok2 v2ext that by simp
  have good': "chain_good E (c\<lparr>recovered_from_mirror := False\<rparr>) k i" if "bt_get (v_inodes v2) k = Some i" "i_external_list_blocks i \<noteq> []" for k i
    by (rule chain_good_safe [OF _ _ good [OF that], of UNIV]) simp_all
  have mx2: "v_max_vault_size v2 = v_max_vault_size u" using sp by (simp add: spilled_def frame_def)
  show "disk_inv E v'"
    unfolding disk_inv_def chains_ok_def v' st(3,5,6)
    using good' m(3) v2ext up(4) fmt2 mx2 by (auto simp: container_ok_def settle_def disk_inv_def)
  show "v_pending_free v' = []" "\<not> v_dirty v'" "v_chunks_dirty v' = {}" by (simp_all add: v' settle_def)
  have "v_format u = v_format (auto_upgrade_format (auto_upgrade_header H v))"
    using al by (auto simp: u_def v0_def alloc_gen_Inr auto_upgrade_format_def auto_upgrade_header_def upgrade_v1_header_in_memory_def
        mark_all_dirty_def tree_needs_v4_format_def)
  then show "v_format v' = v_format (auto_upgrade_format (auto_upgrade_header H v))" unfolding v' st(6) using fmt2 by simp
  show "v_cow_floor_gen v' = next_chunk_gen (v_tree v)"
    using sp up(6) fr1(8) by (simp add: v' settle_def spilled_def v0_def)
  have ino: "inode_ok (v_hide v) j \<and> i_id j = k" if j: "bt_get (v_inodes v2) k = Some j" for k j
  proof -
    obtain i where i: "bt_get (v_inodes v) k = Some i" "data_same i j" using same_tree_getD(1) [OF frameD(1) [OF f2] j] by blast
    have "i_kind j \<noteq> File \<longrightarrow> i_external_list_blocks j = []"
      using v2ext rows_ext [OF ok2 enc _ j] j by (cases "v_format v2 = V2") (auto simp: file_needs_external_def)
    then show ?thesis using inode_ok_ext [OF ns_coreD(4) [OF ns i(1)] i(2)] data_sameD(1) [OF i(2)] ns_coreD(3) [OF ns i(1)] by simp
  qed
  have hide: "v_hide v' = v_hide v" "v_hide v2 = v_hide v" "v_hide ?w = v_hide v" using frameD(4) [OF fr] frameD(4) [OF f2] frameD(4) [OF f3] by simp_all
  have m': "v_inodes v' = v_inodes v2" by (simp add: v' st(3))
  show "ns_core (v_hide v') (v_inodes v')"
    unfolding hide m' by (rule ns_core_same [OF frameD(2) [OF f2] ns]) (use ino in blast)
  show "readable_as E H v'" if pc: "postcard_ok H" and cc: "\<And>k i. bt_get (v_inodes v) k = Some i \<Longrightarrow> countable_chunks i"
  proof -
    let ?c = "c\<lparr>recovered_from_mirror := False\<rparr>"
    have cnt: "countable_chunks j" if "bt_get (v_inodes v2) k = Some j" for k j
      using same_tree_getD(1) [OF frameD(1) [OF f2] that] cc data_sameD(6) by (fastforce simp: countable_chunks_def)
    have ld: "loadable (v2\<lparr>v_container := ?c\<rparr>)"
      unfolding loadable_def
    proof (intro conjI allI impI)
      show "bt_ok (v_inodes (v2\<lparr>v_container := ?c\<rparr>))" using ok2 by simp
      show "i_id i = k" "inode_ok (v_hide (v2\<lparr>v_container := ?c\<rparr>)) i" "countable_chunks i"
        if "bt_get (v_inodes (v2\<lparr>v_container := ?c\<rparr>)) k = Some i" for k i using ino [of k i] cnt [of k i] that hide(3) by simp_all
      show "\<not> tree_needs_v4_format (v_tree (v2\<lparr>v_container := ?c\<rparr>))" if "v_format (v2\<lparr>v_container := ?c\<rparr>) \<in> {V2, V3}"
        using up(8) fmt2 that needs_v4_same [of "v_tree u" "v_tree v2"] frameD(1) [of u v2] sp by (simp add: spilled_def)
      show "i_external_list_blocks i = []"
        if "v_format (v2\<lparr>v_container := ?c\<rparr>) = V2" "bt_get (v_inodes (v2\<lparr>v_container := ?c\<rparr>)) k = Some i" for k i
        using v2ext that by simp
      show "v_max_vault_size (v2\<lparr>v_container := ?c\<rparr>) = 0" if "v_format (v2\<lparr>v_container := ?c\<rparr>) \<noteq> V5"
        using up(4) fmt2 mx2 that by (simp add: disk_inv_def)
    qed
    have "safe E (prot R v2) (v_container v2) ?c" using safe_mono [OF m(2)] by simp
    note enc' = encoded_safe [OF ok2 enc this]
    have len: "length bs \<le> 67108864"
      using m(4) cok2 layout_checks_bounds(1) unfolding container_ok_def header_wf_def by fastforce
    have w': "c_write_metadata E bs ((v_container v2)\<lparr>recovered_from_mirror := False\<rparr>, r2) = (Inr (), (?c, r'))"
      by (rule c_write_metadata_recovered [OF w])
    have "c_read_metadata E (?c, r) = (Inr bs, (?c, r))" for r
      by (rule c_read_after_write(1) [OF env _ w']) (use cok2 in \<open>simp add: container_ok_def\<close>)
    moreover have "decode_blob E H ?c bs = Inr ((full_tree v2)\<lparr>inodes := forget_caches (v_inodes v2)\<rparr>, v_format v2, v_max_vault_size v2, [])"
      using decode_encoded [OF pc ld enc' len] by (simp add: full_tree_def)
    ultimately show ?thesis
      unfolding readable_as_def v' st(5,6) by (auto simp: settle_def full_tree_def)
  qed
qed

section \<open>Opening\<close>

lemma forget_caches_same: "same_tree (\<lambda>i j. j = forget_cache i) m (forget_caches m)"
  by (simp add: same_tree_def forget_caches_def list_all2_map2 list.rel_refl case_prod_unfold)

lemma repair_ids_id:
  "(\<forall>fid \<in> set fids. \<forall>i. bt_get m fid = Some i \<longrightarrow> fid \<noteq> 1 \<longrightarrow> \<not> parent_stale m fid i) \<Longrightarrow> repair_ids h fids (m, k) = (m, k)"
  by (induction fids) (auto split: option.splits)

lemma repair_id:
  assumes "ns_core hide (inodes t)" "parents_held (inodes t)"
  shows "fst (repair_stale_parents t) = t"
proof -
  have "\<not> parent_stale (inodes t) fid i" if "bt_get (inodes t) fid = Some i" "fid \<noteq> 1" for fid i
    using parent_stale_iff [OF assms(1) that(1)] assms(2) that by (auto simp: parents_held_def held_def)
  then show ?thesis by (simp add: repair_stale_parents_def repair_ids_id)
qed

definition opened_vfs :: "Container \<Rightarrow> DirectoryTree \<Rightarrow> MetadataFormat \<Rightarrow> u64 \<Rightarrow> Vfs" where
  "opened_vfs c t f max_size =
     \<lparr>v_container = c, v_tree = t, v_dirty = False, v_format = f, v_tolerated_inodes = [], v_chunks_dirty = {},
      v_pending_free = [], v_cow_floor_gen = next_chunk_gen t, v_max_vault_size = max_size\<rparr>"

lemma vfs_core_forget:
  assumes "vfs_inv v" "v_pending_free v = []"
    and w: "w = opened_vfs (v_container v) ((v_tree v)\<lparr>inodes := forget_caches (v_inodes v)\<rparr>) f n"
  shows "vfs_inv w" "refs (v_inodes w) = refs (v_inodes v)"
proof -
  let ?m = "v_inodes v" and ?m' = "forget_caches (v_inodes v)"
  note st = forget_caches_same [of ?m]
  have nm: "same_tree names_same ?m ?m'" by (rule same_tree_mono [OF st]) (simp add: names_same_def)
  have ns: "ns_core (v_hide v) ?m" and c: "counters_ok v" and p: "parents_held ?m" and ok: "bt_ok ?m"
    using assms(1) vfs_coreD(3) by (auto simp: vfs_inv_def vfs_core_def)
  have i: "\<exists>i. bt_get ?m k = Some i \<and> j = forget_cache i" if "bt_get ?m' k = Some j" for k j
    using same_tree_getD(1) [OF st that] by blast
  have "inode_ok (v_hide v) j" if gj: "bt_get ?m' k = Some j" for k j
  proof -
    obtain i where i: "bt_get ?m k = Some i" "j = forget_cache i" using i [OF gj] by blast
    have "validate_capacity (v_hide v) j = validate_capacity (v_hide v) i" by (simp add: i(2) validate_capacity_def)
    then show ?thesis using ns_coreD(4) [OF ns i(1)] by (auto simp: inode_ok_def i(2) inode_refs_def split: InodeKind.splits)
  qed
  then have ns': "ns_core (v_hide v) ?m'" by (rule ns_core_same [OF nm ns])
  have sl: "slots ?m' = slots ?m" unfolding slots_def by (rule same_tree_total [OF st]) (simp add: inode_refs_def)
  have a: "acct {} v" "ids_ok v" "room v" using counters_ok_split [OF ok] c by blast+
  have vw: "v_inodes w = ?m'" "v_container w = v_container v" "v_pending_free w = []" "next_chunk_gen (v_tree w) = next_chunk_gen (v_tree v)"
    "next_chunk_id (v_tree w) = next_chunk_id (v_tree v)" "free_chunks (v_tree w) = free_chunks (v_tree v)"
    "t_root (v_tree w) = t_root (v_tree v)" "next_file_id (v_tree w) = next_file_id (v_tree v)"
    by (simp_all add: w opened_vfs_def)
  have "used w = used v" by (simp add: used_def vw sl assms(2))
  moreover have "cr_gen cr \<noteq> 0 \<and> cr_gen cr < next_chunk_gen (v_tree v)" if gj: "bt_get ?m' k = Some j" and cr: "cr \<in> set (inode_refs j)" for k j cr
  proof -
    obtain i where "bt_get ?m k = Some i" "inode_refs j = inode_refs i" using i [OF gj] by (auto simp: inode_refs_def)
    then show ?thesis using a(1) cr unfolding acct_def by metis
  qed
  ultimately have "acct {} w" using a(1) unfolding acct_def vw by (metis (no_types, lifting))
  moreover have "ids_ok w" using a(2) i unfolding ids_ok_def vw by blast
  moreover have "room w" using a(3) unfolding room_def vw by blast
  moreover have "bt_ok (v_inodes w)" using same_tree_ok [OF st] ok by (simp add: vw)
  ultimately have "counters_ok w" using counters_ok_split by blast
  then show "vfs_inv w" using ns' p same_names(5) [OF nm] by (simp add: vfs_inv_def vfs_core_def vw)
  show "refs (v_inodes w) = refs (v_inodes v)" using same_names(3) [OF nm] by (simp add: vw)
qed

lemma vfs_open_readable:
  assumes r: "readable_as E H v" and inv: "vfs_inv v" "v_pending_free v = []" and sz: "size (refs (v_inodes v)) < 2 ^ 32"
  shows "vfs_open E H (v_container v, r)
    = (Inr (opened_vfs (v_container v) ((v_tree v)\<lparr>inodes := forget_caches (v_inodes v)\<rparr>) (v_format v) (v_max_vault_size v)), (v_container v, r))"
proof -
  let ?t = "(v_tree v)\<lparr>inodes := forget_caches (v_inodes v)\<rparr>"
  define w where "w = opened_vfs (v_container v) ?t (v_format v) (v_max_vault_size v)"
  note wi = vfs_core_forget [OF inv w_def]
  have t: "v_tree w = ?t" "v_container w = v_container v" by (simp_all add: w_def opened_vfs_def)
  from r obtain bs where bs: "\<And>r. c_read_metadata E (v_container v, r) = (Inr bs, (v_container v, r))"
    "decode_blob E H (v_container v) bs = Inr (?t, v_format v, v_max_vault_size v, [])" unfolding readable_as_def by blast
  have val: "validate_metadata_tree ?t (v_doff v) (v_hide v) = Inr ()"
    using vfs_inv_valid(1,3) [OF wi(1)] validate_metadata_tree_iff [of "v_tree w"] wi(2) sz t by simp
  have rep: "fst (repair_stale_parents ?t) = ?t"
    using repair_id [of "v_hide v" ?t] wi(1) t by (simp add: vfs_inv_def vfs_core_def)
  have rd: "fmt (c_read_metadata E) (v_container v, r) = (Inr bs, (v_container v, r))" using bs(1) by (simp add: fmt_eq_Inr)
  show ?thesis
    unfolding vfs_open_def bindR_def rd using bs(2) val rep by (simp add: Let_def opened_vfs_def)
qed

lemma commit_inv:
  assumes env: "rng_fills E" "digest_lengths E" "aead_correct E" and inv: "vfs_inv v" "disk_inv E v"
    and cm: "commit E H (v, r) = (Inr (), (v', r'))" and rm: "room v'"
  shows "vfs_inv v'"
proof -
  have ns: "ns_core (v_hide v) (v_inodes v)" and c: "counters_ok v" and p: "parents_held (v_inodes v)" and ok: "bt_ok (v_inodes v)"
    using inv(1) vfs_coreD(3) by (auto simp: vfs_inv_def vfs_core_def)
  have a: "acct {} v" "ids_ok v" using counters_ok_split [OF ok] c by blast+
  note e = commit_effect [OF env ns a(1) inv(2) cm]
  note fr = frameD [OF e(1)]
  have ok': "bt_ok (v_inodes v')" using same_tree_ok [OF fr(1)] ok by simp
  have "ids_ok v'" using a(2) e(1) same_tree_getD(1) [OF fr(1)] unfolding ids_ok_def frame_def by fastforce
  then have "counters_ok v'" using counters_ok_split [OF ok'] e(2) rm by blast
  then show ?thesis using e(8) p same_names(5) [OF fr(2)] by (simp add: vfs_inv_def vfs_core_def)
qed

text \<open>What a saved inode is after the next open: the cached size is gone, and its list blocks may have moved.\<close>

definition saved_as :: "Inode \<Rightarrow> Inode \<Rightarrow> bool" where
  "saved_as i j \<longleftrightarrow> j = i\<lparr>i_cached_real_size := None, i_external_list_blocks := i_external_list_blocks j\<rparr>"

lemma saved_asI: "data_same i j \<Longrightarrow> saved_as i (forget_cache j)"
proof -
  assume "data_same i j"
  then obtain b where "j = set_ext b i" by (auto simp: data_same_def)
  then show ?thesis by (simp add: saved_as_def)
qed

lemma flush_dirty:
  assumes "v_dirty v" "v_tolerated_inodes v = []"
  shows "flush E H (v, r) = commit E H (v, r)"
  using assms by (simp add: flush_def)

lemma save_open:
  assumes env: "rng_fills E" "digest_lengths E" "aead_correct E" and pc: "postcard_ok H"
    and inv: "vfs_inv v" "disk_inv E v" "v_tolerated_inodes v = []" "v_dirty v"
    and small: "size (refs (v_inodes v)) < 2 ^ 32" "\<forall>k i. bt_get (v_inodes v) k = Some i \<longrightarrow> length (i_chunks i) \<le> 2 ^ 32"
    and save: "flush E H (v, r) = (Inr (), (v', r'))" "room v'"
  shows "\<exists>w. vfs_open E H (v_container v', r2) = (Inr w, (v_container v', r2))
     \<and> same_tree saved_as (v_inodes v) (v_inodes w) \<and> v_max_vault_size w = v_max_vault_size v \<and> v_tolerated_inodes w = []
     \<and> vfs_inv w \<and> disk_inv E w \<and> v_container w = v_container v' \<and> v_inodes w = forget_caches (v_inodes v')
     \<and> v_tree w = (v_tree v')\<lparr>inodes := forget_caches (v_inodes v')\<rparr>
     \<and> v_format w = v_format (auto_upgrade_format (auto_upgrade_header H v))
     \<and> (\<forall>a pt. cr_id (a_ref a) \<in># slots (v_inodes v) \<longrightarrow> rd_chunk E (v_container v) a = Some pt \<longrightarrow> rd_chunk E (v_container w) a = Some pt)"
proof -
  have cm: "commit E H (v, r) = (Inr (), (v', r'))" using save(1) flush_dirty [OF inv(4,3), of E H r] by simp
  have ns: "ns_core (v_hide v) (v_inodes v)" and ok: "bt_ok (v_inodes v)" and a: "acct {} v"
    using inv(1) vfs_coreD counters_ok_split unfolding vfs_inv_def by blast+
  note e = commit_effect [OF env ns a inv(2) cm]
  have rd: "readable_as E H v'" using e(10) [OF pc] small(2) by (simp add: countable_chunks_def)
  have iv': "vfs_inv v'" by (rule commit_inv [OF env inv(1,2) cm save(2)])
  have refs: "refs (v_inodes v') = refs (v_inodes v)" using same_names(3) frameD(2) [OF e(1)] by blast
  define w where "w = opened_vfs (v_container v') ((v_tree v')\<lparr>inodes := forget_caches (v_inodes v')\<rparr>) (v_format v') (v_max_vault_size v')"
  have w: "v_inodes w = forget_caches (v_inodes v')" "v_container w = v_container v'" "v_format w = v_format v'"
    "v_chunks_dirty w = {}" "v_max_vault_size w = v_max_vault_size v" "v_tolerated_inodes w = []"
    "v_tree w = (v_tree v')\<lparr>inodes := forget_caches (v_inodes v')\<rparr>"
    using e(1) by (simp_all add: w_def opened_vfs_def frame_def)
  have op: "vfs_open E H (v_container v', r2) = (Inr w, (v_container v', r2))"
    unfolding w_def by (rule vfs_open_readable [OF rd iv' e(5)]) (use small(1) refs in simp)
  have st: "same_tree saved_as (v_inodes v) (v_inodes w)"
    unfolding w(1) by (rule same_tree_trans [OF frameD(1) [OF e(1)] forget_caches_same]) (simp add: saved_asI)
  have iw: "vfs_inv w" by (rule vfs_core_forget(1) [OF iv' e(5) w_def])
  have "chain_good E (v_container w) k j"
    if g: "bt_get (v_inodes w) k = Some j" and x: "i_external_list_blocks j \<noteq> []" for k j
  proof -
    obtain i where i: "bt_get (v_inodes v') k = Some i" "j = forget_cache i"
      using same_tree_getD(1) [OF forget_caches_same] g unfolding w(1) by blast
    then show ?thesis using e(4,7) x by (simp add: disk_inv_def chains_ok_def chain_good_def w(1-6))
  qed
  moreover have "i_external_list_blocks j = []" if f: "v_format v' = V2" and g: "bt_get (v_inodes w) k = Some j" for k j
  proof -
    obtain i where "bt_get (v_inodes v') k = Some i" "j = forget_cache i"
      using same_tree_getD(1) [OF forget_caches_same] g unfolding w(1) by blast
    then show ?thesis using e(4) f by (simp add: disk_inv_def)
  qed
  ultimately have dw: "disk_inv E w" using e(1,4) unfolding disk_inv_def chains_ok_def w(1-6) frame_def by simp
  have "rd_chunk E (v_container w) x = Some pt" if "cr_id (a_ref x) \<in># slots (v_inodes v)" "rd_chunk E (v_container v) x = Some pt" for x pt
    using e(3) that unfolding w(2) safe_def prot_def by blast
  then show ?thesis using op st w(1,2,3,5,6,7) e(11) iw dw by simp
qed

text \<open>
  C7: what was saved is what the next open shows. When a save of a changed file system succeeds and the
  slot and generation counters are not exhausted, opening the container as it then is succeeds. The
  opened file system has the metadata format that the save wrote, which is the one from before the save
  after its automatic upgrades, and the size limit of the save, and tolerates nothing: every inode has its id, parent,
  kind, size, time, chunk references, children, mode, link count and symlink target back (only the
  cached size is forgotten, and chunk lists may have moved to other list blocks), the invariants hold
  again, and every chunk that was readable before the save still reads the same.
\<close>

theorem save_then_open:
  assumes env: "rng_fills E" "digest_lengths E" "aead_correct E" and pc: "postcard_ok H"
    and inv: "vfs_inv v" "disk_inv E v" "v_tolerated_inodes v = []" "v_dirty v"
    and small: "size (refs (v_inodes v)) < 2 ^ 32" "\<forall>k i. bt_get (v_inodes v) k = Some i \<longrightarrow> length (i_chunks i) \<le> 2 ^ 32"
    and save: "flush E H (v, r) = (Inr (), (v', r'))" "room v'"
  shows "\<exists>w. vfs_open E H (v_container v', r2) = (Inr w, (v_container v', r2))
     \<and> same_tree saved_as (v_inodes v) (v_inodes w) \<and> v_max_vault_size w = v_max_vault_size v \<and> v_tolerated_inodes w = []
     \<and> v_format w = v_format v' \<and> v_format v' = v_format (auto_upgrade_format (auto_upgrade_header H v))
     \<and> vfs_inv w \<and> disk_inv E w
     \<and> (\<forall>a pt. cr_id (a_ref a) \<in># slots (v_inodes v) \<longrightarrow> rd_chunk E (v_container v) a = Some pt \<longrightarrow> rd_chunk E (v_container w) a = Some pt)"
proof -
  have cm: "commit E H (v, r) = (Inr (), (v', r'))" using save(1) flush_dirty [OF inv(4,3), of E H r] by simp
  have ns: "ns_core (v_hide v) (v_inodes v)" and a: "acct {} v"
    using inv(1) vfs_coreD counters_ok_split unfolding vfs_inv_def by blast+
  have "v_format v' = v_format (auto_upgrade_format (auto_upgrade_header H v))" by (rule commit_effect(11) [OF env ns a inv(2) cm])
  then show ?thesis using save_open [OF assms, of r2] by metis
qed

text \<open>A host whose codec knows one tree, enough to run a save.\<close>

definition demo_host :: "DirectoryTreeV4OnDisk \<Rightarrow> Host" where
  "demo_host d = \<lparr>pc_v2 = (\<lambda>_. None), pc_v3 = (\<lambda>_. None), pc_v4 = (\<lambda>t. if t = d then Some [7] else None),
     pc_settings = (\<lambda>s. Some (u64_to_le (s_max_vault_size s))), un_v2 = (\<lambda>_. None), un_v3 = (\<lambda>_. None),
     un_v4 = (\<lambda>b. if b \<noteq> [] \<and> hd b = 7 then Some (d, tl b) else None),
     un_settings = (\<lambda>b. if length b < 8 then None else Some (\<lparr>s_max_vault_size = u64_from_le (take 8 b)\<rparr>, drop 8 b)),
     use_v3_for_fresh_vault = True, tolerate_bad_chunk_lists = False\<rparr>"

lemma demo_host_ok: "postcard_ok (demo_host d)"
  by (auto simp: postcard_ok_def demo_host_def split: if_splits)

lemma demo_write_metadata:
  assumes "length bs \<le> 100"
  shows "\<exists>c' r'. c_write_metadata demo_env bs (demo_container\<lparr>lbx_file := g\<rparr>, r) = (Inr (), (c', r'))"
proof -
  have "succeeds (write_metadata_opts demo_env Aes256GcmSiv (replicate 32 5) (replicate 32 7) bs 65536 False)"
    by (rule write_metadata_live [OF demo_env_live]) (use assms in simp_all)
  then obtain region r1 where "write_metadata_opts demo_env Aes256GcmSiv (replicate 32 5) (replicate 32 7) bs 65536 False r
      = (Inr region, r1)"
    unfolding succeeds_def by blast
  then show ?thesis
    using assms by (auto simp: c_write_metadata_def bindR_eq_Inr withC_def build_metadata_region_def mirror_metadata_if_v2_def
        write_metadata_mirror_def overwrite_live_metadata_def updC_def lbxC_def write_all_def demo_header_def
        masked_metadata_len_def Let_def)
qed

text \<open>The demonstration vault with one directory \<open>A\<close>.\<close>

definition demo_inode :: "u64 \<Rightarrow> (rstring, u64) btree \<Rightarrow> Inode" where
  "demo_inode fid names =
     \<lparr>i_id = fid, i_parent = 1, i_kind = Directory, i_size = 0, i_mtime_ns = 0, i_chunks = [], i_children = names,
      i_cached_real_size = None, i_external_list_blocks = [], i_mode = DEFAULT_DIR_MODE, i_link_count = 1, i_symlink_target = None\<rparr>"

definition demo_dir :: Vfs where
  "demo_dir = demo_vfs\<lparr>v_dirty := True, v_tree :=
     \<lparr>t_root = 1, next_file_id = 3, next_chunk_id = 0, next_chunk_gen = 1, free_chunks = [],
      inodes = [(1, demo_inode 1 [([65], 2)]), (2, demo_inode 2 [])]\<rparr>\<rparr>"

lemma demo_dir_run: "run_ns (Mkdir 0 1 [65]) demo_vfs = (Inr 2, demo_dir)"
  by (simp add: demo_vfs_def tree_new_def ns_eval demo_dir_def demo_inode_def)

lemma demo_dir_core: "ns_reaches True demo_vfs demo_dir"
  by (rule ns_step [OF ns_start _ demo_dir_run]) simp

lemma demo_dir_inv: "vfs_inv demo_dir"
  using reaches_core [OF demo_dir_core] demo_inv by (simp add: vfs_inv_def) (simp add: demo_dir_def)

definition demo_dir_rows :: DirectoryTreeV4OnDisk where
  "demo_dir_rows = \<lparr>d_root = 1, d_next_file_id = 3, d_next_chunk_id = 0, d_next_chunk_gen = 2, d_free_chunks = [],
     d_inodes = map (\<lambda>(k, i). (k, with_v4_fields (on_disk_of i [] None) i)) (v_inodes demo_dir)\<rparr>"

definition demo_dir_next :: Vfs where
  "demo_dir_next = demo_dir\<lparr>v_cow_floor_gen := 1, v_tree := (v_tree demo_dir)\<lparr>next_chunk_gen := 2\<rparr>\<rparr>"

lemma demo_dir_gen: "alloc_gen (demo_dir\<lparr>v_cow_floor_gen := 1\<rparr>) = (Inr 1, demo_dir_next)"
  by (simp add: alloc_gen_Inr demo_dir_next_def demo_dir_def)

lemma inline_spill_inode:
  assumes "bt_get (v_inodes v) fid = Some i" "\<not> file_needs_external (v_format v) i" "i_external_list_blocks i = []" "bt_ok (v_inodes v)"
  shows "spill_inode E fid (v, r) = (Inr (on_disk_of i (i_chunks i) None), (v, r))"
proof -
  have "on_inodes (bt_modify fid (set_ext [])) (v\<lparr>v_pending_free := v_pending_free v @ []\<rparr>) = v"
    using bt_modify_id [OF assms(4), of fid "set_ext []"] assms(1,3) by (simp add: on_inodes_def)
  then show ?thesis using assms
    by (simp add: spill_inode_def bindR_eq_Inr onV_Inr askV_Inr setV_Inr readV_eq unwrap_inode_Inr)
qed

lemma demo_dir_spills: "spill_to_v4_on_disk E (demo_dir_next, r) = (Inr demo_dir_rows, (demo_dir_next, r))"
proof -
  have m: "v_inodes demo_dir_next = [(1, demo_inode 1 [([65], 2)]), (2, demo_inode 2 [])]" by (simp add: demo_dir_next_def demo_dir_def)
  have ok: "bt_ok (v_inodes demo_dir_next)" by (simp add: m bt_ok_def bt_keys_def)
  have sp: "spill_inode E k (demo_dir_next, r) = (Inr (on_disk_of i [] None), (demo_dir_next, r))"
    if "bt_get (v_inodes demo_dir_next) k = Some i" for k i r
    using inline_spill_inode [OF that _ _ ok] that by (auto simp: m bt_get_def demo_inode_def file_needs_external_def split: if_splits)
  have "spill_ids E (bt_keys (v_inodes demo_dir_next)) [] (demo_dir_next, r)
      = (Inr [(1, on_disk_of (demo_inode 1 [([65], 2)]) [] None), (2, on_disk_of (demo_inode 2 []) [] None)], (demo_dir_next, r))"
    using sp [of 1] sp [of 2] by (simp add: m bt_keys_def bt_get_def bindR_eq_Inr)
  then show ?thesis
    by (simp add: spill_to_v4_on_disk_def spill_to_v3_on_disk_def bindR_eq_Inr askV_Inr onV_Inr readV_eq tree_on_disk_def
        unwrap_inode_def bt_get_def m ok_or_def) (simp add: demo_dir_rows_def demo_dir_next_def demo_dir_def)
qed

lemma demo_dir_refs: "size (refs (v_inodes demo_dir)) < 2 ^ 32"
  by (simp add: demo_dir_def refs_def demo_inode_def bt_values_def)

lemma demo_dir_flush: "\<exists>v' r'. flush demo_env (demo_host demo_dir_rows) (demo_dir, 0) = (Inr (), (v', r')) \<and> v_tree v' = v_tree demo_dir_next
    \<and> v_doff v' = 131072"
proof -
  let ?H = "demo_host demo_dir_rows"
  have val: "validate_metadata_tree (v_tree demo_dir) (v_doff demo_dir) (v_hide demo_dir) = Inr ()"
    using validate_metadata_tree_iff [OF vfs_inv_valid(1) [OF demo_dir_inv] demo_dir_refs] vfs_inv_valid(3) [OF demo_dir_inv] by blast
  have fl: "v_format demo_dir_next = V5" "v_container demo_dir_next = demo_container" "v_pending_free demo_dir_next = []"
    "v_max_vault_size demo_dir_next = 0" "next_chunk_gen (v_tree demo_dir) = 1"
    by (simp_all add: demo_dir_next_def demo_dir_def demo_vfs_def)
  have up: "auto_upgrade_format (auto_upgrade_header ?H demo_dir_next) = demo_dir_next"
    using fl by (simp add: auto_upgrade_format_def auto_upgrade_header_def demo_header_def)
  obtain c' r' where w: "c_write_metadata demo_env (METADATA_V5_MAGIC @ [7]) (demo_container, 0) = (Inr (), (c', r'))"
    using demo_write_metadata [of "METADATA_V5_MAGIC @ [7]" "lbx_file demo_container" 0] by (auto simp: bstr_def)
  have enc: "encode_tree demo_env ?H V5 (demo_dir_next, 0) = (Inr (METADATA_V5_MAGIC @ [7]), (demo_dir_next, 0))"
    using demo_dir_spills [of demo_env 0] fl
    by (simp add: encode_tree_def fop_simps settings_tail_def limited_def add_pending_def demo_host_def)
  have "commit demo_env ?H (demo_dir, 0) = (Inr (), (settle (demo_dir_next\<lparr>v_container := c'\<rparr>), r'))"
    unfolding commit_def using val demo_dir_gen up enc w fl by (simp add: fop_simps fmt_eq_Inr)
  moreover have "data_offset (c_header c') = 131072"
    using c_write_metadata_frame(1) [OF demo_env_ok(2,3,1) demo_container_ok w] by (simp add: hdr_same_def Let_def demo_header_def)
  ultimately show ?thesis
    using flush_dirty [of demo_dir demo_env ?H 0] fl by (simp add: demo_dir_def demo_vfs_def settle_def)
qed

theorem save_then_open_witness:
  "\<exists>v' r' w. flush demo_env (demo_host demo_dir_rows) (demo_dir, 0) = (Inr (), (v', r'))
     \<and> vfs_open demo_env (demo_host demo_dir_rows) (v_container v', r') = (Inr w, (v_container v', r')) \<and> lookup w 1 [65] = Inr 2
     \<and> v_format w = V5"
proof -
  obtain v' r' where f: "flush demo_env (demo_host demo_dir_rows) (demo_dir, 0) = (Inr (), (v', r'))" and t: "v_tree v' = v_tree demo_dir_next"
    and d: "v_doff v' = 131072" using demo_dir_flush by blast
  have di: "disk_inv demo_env demo_dir"
    using demo_container_ok by (auto simp: disk_inv_def chains_ok_def demo_dir_def demo_vfs_def demo_inode_def bt_get_def split: if_splits)
  have rm: "room v'" unfolding room_def d slot_offset_ok t by (simp add: demo_dir_next_def demo_dir_def)
  have cs: "\<forall>k i. bt_get (v_inodes demo_dir) k = Some i \<longrightarrow> length (i_chunks i) \<le> 2 ^ 32"
    by (auto simp: demo_dir_def demo_inode_def bt_get_def split: if_splits)
  have tol: "v_tolerated_inodes demo_dir = []" "v_dirty demo_dir" by (simp_all add: demo_dir_def demo_vfs_def)
  from save_then_open [OF demo_env_ok(2,3,1) demo_host_ok demo_dir_inv di tol demo_dir_refs cs f rm]
  obtain w where w: "vfs_open demo_env (demo_host demo_dir_rows) (v_container v', r') = (Inr w, (v_container v', r'))"
    "same_tree saved_as (v_inodes demo_dir) (v_inodes w)"
    "v_format w = v_format (auto_upgrade_format (auto_upgrade_header (demo_host demo_dir_rows) demo_dir))" by metis
  have fm: "v_format w = V5"
    using w(3) by (auto simp: auto_upgrade_format_def auto_upgrade_header_def upgrade_v1_header_in_memory_def mark_all_dirty_def demo_dir_def demo_vfs_def)
  have "bt_get (v_inodes demo_dir) 1 = Some (demo_inode 1 [([65], 2)])" by (simp add: demo_dir_def bt_get_def)
  from same_tree_getD(2) [OF w(2) this] obtain j where "bt_get (v_inodes w) 1 = Some j" "saved_as (demo_inode 1 [([65], 2)]) j" by blast
  moreover from this(2) have "i_kind j = Directory" "bt_get (i_children j) [65] = Some 2"
    unfolding saved_as_def by (metis Inode.select_convs(3,7) Inode.update_convs(8,9) Inode.surjective demo_inode_def,
      metis Inode.select_convs(3,7) Inode.update_convs(8,9) Inode.surjective demo_inode_def bt_get_Cons fst_conv snd_conv)
  ultimately have "lookup w 1 [65] = Inr 2" by (simp add: lookup_def require_dir_def)
  with f w(1) fm show ?thesis by blast
qed

end
