(* ===== verification/Lbx_FileIO.thy ===== *)
theory Lbx_FileIO
  imports Lbx_Load
begin

text \<open>
  Reading, writing and truncating files, and the size of the vault file (\<open>stat\<close>, \<open>read\<close>, \<open>write\<close>,
  \<open>truncate\<close>, \<open>set_max_vault_size\<close>, \<open>space_report\<close>, \<open>shrink\<close> and \<open>finish\<close> of luksbox-vfs/src/vfs.rs, with
  the helpers they share): the geometry of a file in chunks, copy-on-write rewriting under a size limit,
  the metadata budget. The clock is an argument.
\<close>

section \<open>Geometry of a file\<close>

function next_pow2_from :: "nat \<Rightarrow> nat \<Rightarrow> nat" where
  "next_pow2_from p n = (if n \<le> p \<or> p = 0 then p else next_pow2_from (2 * p) n)"
  by pat_completeness auto
termination
  by (relation "measure (\<lambda>(p, n). n - p)") auto

declare next_pow2_from.simps [simp del]

definition next_power_of_two :: "nat \<Rightarrow> nat" where
  "next_power_of_two n = next_pow2_from 1 n"

definition padded_chunk_count :: "nat \<Rightarrow> bool \<Rightarrow> nat" where
  "padded_chunk_count needed padding_on = (if \<not> padding_on \<or> needed \<le> 1 then needed else next_power_of_two needed)"

definition file_to_chunk :: "u64 \<Rightarrow> bool \<Rightarrow> (nat \<times> nat) vres" where
  "file_to_chunk offset hide_size =
     bindE (if hide_size then ok_or VOffsetOverflow (checked_add_u64 offset 8) else Inr offset) (\<lambda>total.
     Inr (unat (total div 4096), unat (total mod 4096)))"

definition checked_sub_u64 :: "u64 \<Rightarrow> u64 \<Rightarrow> u64 option" where
  "checked_sub_u64 a b = (if b \<le> a then Some (a - b) else None)"

definition chunk_file_range :: "nat \<Rightarrow> bool \<Rightarrow> (u64 \<times> u64) vres" where
  "chunk_file_range chunk_idx hide_size =
     (if hide_size \<and> chunk_idx = 0 then Inr (0, 4096 - 8)
      else if hide_size then
        bindE (ok_or VOffsetOverflow (Option.bind (checked_sub_u64 (of_nat chunk_idx) 1) (\<lambda>i. checked_mul_u64 i 4096))) (\<lambda>rel.
        bindE (ok_or VOffsetOverflow (checked_add_u64 (4096 - 8) rel)) (\<lambda>start.
        bindE (ok_or VOffsetOverflow (checked_add_u64 start 4096)) (\<lambda>stop. Inr (start, stop))))
      else
        bindE (ok_or VOffsetOverflow (checked_mul_u64 (of_nat chunk_idx) 4096)) (\<lambda>start.
        bindE (ok_or VOffsetOverflow (checked_add_u64 start 4096)) (\<lambda>stop. Inr (start, stop))))"

definition install_size_header :: "bytes \<Rightarrow> u64 \<Rightarrow> bytes" where
  "install_size_header buf sz = put buf 0 (u64_to_le sz)"

definition saturating_sub_u64 :: "u64 \<Rightarrow> u64 \<Rightarrow> u64" where
  "saturating_sub_u64 a b = (if a < b then 0 else a - b)"

definition data_start :: "bool \<Rightarrow> nat \<Rightarrow> nat" where
  "data_start hide_size chunk_idx = (if hide_size \<and> chunk_idx = 0 then SIZE_HEADER_LEN else 0)"

section \<open>Sizes and reading\<close>

record Stat =
  st_id :: u64
  st_kind :: InodeKind
  st_size :: u64
  st_mtime_ns :: u64
  st_mode :: u32
  st_link_count :: u32

definition set_cached :: "u64 \<Rightarrow> u64 \<Rightarrow> Vfs \<Rightarrow> Vfs" where
  "set_cached fid sz = on_inodes (bt_modify fid (\<lambda>i. i\<lparr>i_cached_real_size := Some sz\<rparr>))"

definition real_size :: "'r env \<Rightarrow> u64 \<Rightarrow> u64 vop" where
  "real_size E fid = (\<lambda>v.
     case bt_get (v_inodes v) fid of
       None \<Rightarrow> (Inl NotFound, v)
     | Some inode \<Rightarrow>
         if i_kind inode \<noteq> File then (Inr 0, v)
         else if \<not> v_hide v then (Inr (i_size inode), v)
         else (case i_cached_real_size inode of
                 Some s \<Rightarrow> (Inr s, v)
               | None \<Rightarrow>
                   (case i_chunks inode of
                      [] \<Rightarrow> (Inr 0, set_cached fid 0 v)
                    | chunk0 # _ \<Rightarrow>
                        (case read_chunk E (v_container v) (file_key E (v_container v) fid) fid 0 chunk0 of
                           Inl e \<Rightarrow> (Inl e, v)
                         | Inr pt \<Rightarrow>
                             (let sz = u64_from_le (take SIZE_HEADER_LEN pt) in
                              case Option.bind (checked_mul_u64 (of_nat (length (i_chunks inode))) 4096)
                                     (\<lambda>cap. checked_sub_u64 cap 8) of
                                None \<Rightarrow> (Inl MetadataDeserialize, v)
                              | Some max_real \<Rightarrow>
                                  if max_real < sz then (Inl MetadataDeserialize, v)
                                  else (Inr sz, set_cached fid sz v))))))"

definition stat :: "'r env \<Rightarrow> u64 \<Rightarrow> Stat vop" where
  "stat E fid =
     bindR (real_size E fid) (\<lambda>sz.
     bindR (readV (\<lambda>v. ok_or NotFound (bt_get (v_inodes v) fid))) (\<lambda>inode.
     retR \<lparr>st_id = i_id inode, st_kind = i_kind inode, st_size = sz, st_mtime_ns = i_mtime_ns inode,
            st_mode = i_mode inode, st_link_count = i_link_count inode\<rparr>))"

text \<open>The part of a chunk that the file range from \<open>a\<close> to \<open>b\<close> covers, as positions in its plaintext.\<close>

definition covered_range :: "bool \<Rightarrow> nat \<Rightarrow> u64 \<Rightarrow> u64 \<Rightarrow> (nat \<times> nat) vres" where
  "covered_range hide_size chunk_idx a b =
     bindE (chunk_file_range chunk_idx hide_size) (\<lambda>(chunk_file_start, chunk_file_end).
     let in_chunk_offset = saturating_sub_u64 (max a chunk_file_start) chunk_file_start;
         in_chunk_end = saturating_sub_u64 (min b chunk_file_end) chunk_file_start;
         ds = data_start hide_size chunk_idx
     in Inr (ds + unat in_chunk_offset, ds + unat in_chunk_end))"

fun read_loop :: "'r env \<Rightarrow> Container \<Rightarrow> u64 \<Rightarrow> bool \<Rightarrow> u64 \<Rightarrow> u64 \<Rightarrow> (nat \<times> ChunkRef) list \<Rightarrow> bytes vres" where
  "read_loop E c fid hide_size offset read_end [] = Inr []"
| "read_loop E c fid hide_size offset read_end ((chunk_idx, cr) # rest) =
     bindE (covered_range hide_size chunk_idx offset read_end) (\<lambda>(a, b).
     bindE (read_chunk E c (file_key E c fid) fid (of_nat chunk_idx) cr) (\<lambda>pt.
     bindE (read_loop E c fid hide_size offset read_end rest) (\<lambda>more.
     Inr (slice pt a (b - a) @ more))))"

definition panic_oob :: vfs_error where
  "panic_oob = VCrypto (Panic ''index out of bounds'')"

text \<open>\<open>read\<close> into a buffer of \<open>n\<close> bytes: the result are the bytes it writes to the front of the buffer.\<close>

definition read_file :: "'r env \<Rightarrow> u64 \<Rightarrow> u64 \<Rightarrow> nat \<Rightarrow> bytes vop" where
  "read_file E fid offset n =
     bindR (real_size E fid) (\<lambda>real.
     bindR (readV (\<lambda>v. inode_kind v fid)) (\<lambda>k.
     if k \<noteq> File then failR NotAFile
     else if real \<le> offset \<or> n = 0 then retR []
     else
       bindR (liftR (ok_or VOffsetOverflow (checked_add_u64 offset (of_nat n)))) (\<lambda>requested_end.
       let read_end = min requested_end real in
       bindR (readV (\<lambda>v. file_to_chunk offset (v_hide v))) (\<lambda>(first_chunk, _).
       bindR (readV (\<lambda>v. file_to_chunk (read_end - 1) (v_hide v))) (\<lambda>(last_chunk, _).
       bindR (readV (\<lambda>v. ok_or NotFound (bt_get (v_inodes v) fid))) (\<lambda>inode.
       if length (i_chunks inode) \<le> last_chunk then failR panic_oob
       else readV (\<lambda>v. read_loop E (v_container v) fid (v_hide v) offset read_end
              (map (\<lambda>k. (k, i_chunks inode ! k)) [first_chunk..<Suc last_chunk]))))))))"

section \<open>Slots\<close>

definition slot_end :: "Vfs \<Rightarrow> u64 \<Rightarrow> u64 vres" where
  "slot_end v cid = bindE (slot_offset (v_doff v) cid) (\<lambda>off. ok_or IdSpaceExhausted (checked_add_u64 off CHUNK_SLOT_SIZE))"

definition over_limit :: "Vfs \<Rightarrow> bool vres" where
  "over_limit v = bindE (slot_end v (next_chunk_id (v_tree v))) (\<lambda>e. Inr (v_max_vault_size v < e))"

abbreviation (input) PENDING_FREE_FLUSH_THRESHOLD :: nat where "PENDING_FREE_FLUSH_THRESHOLD \<equiv> 65536"
abbreviation (input) PENDING_FREE_RECYCLE_MIN :: nat where "PENDING_FREE_RECYCLE_MIN \<equiv> 1024"

definition alloc_slot :: "'r env \<Rightarrow> Host \<Rightarrow> nat \<Rightarrow> ('r, u64) fop" where
  "alloc_slot E H recycle_min =
     bindR (askV (\<lambda>v. v_max_vault_size v \<noteq> 0 \<and> free_chunks (v_tree v) = [])) (\<lambda>limited_growth.
     if limited_growth
     then
       bindR (onV (readV over_limit)) (\<lambda>over.
       bindR (askV (\<lambda>v. max recycle_min 1 \<le> length (v_pending_free v))) (\<lambda>recyclable.
       bindR (if over \<and> recyclable then flush E H else retR ()) (\<lambda>_.
       bindR (askV (\<lambda>v. free_chunks (v_tree v) = [])) (\<lambda>none_free.
       bindR (if none_free then onV (readV over_limit) else retR False) (\<lambda>still_over.
       if still_over then bindR (askV v_max_vault_size) (\<lambda>limit. failR (VaultSizeLimit limit))
       else onV alloc_cid)))))
     else onV alloc_cid)"

definition rewrite_target :: "'r env \<Rightarrow> Host \<Rightarrow> ChunkRef \<Rightarrow> ('r, ChunkRef \<times> u64 option) fop" where
  "rewrite_target E H cur =
     bindR (onV alloc_gen) (\<lambda>g.
     bindR (askV (\<lambda>v. v_cow_floor_gen v \<le> cr_gen cur)) (\<lambda>fresh.
     if fresh then retR (\<lparr>cr_id = cr_id cur, cr_gen = g\<rparr>, None)
     else (\<lambda>s. case alloc_slot E H PENDING_FREE_RECYCLE_MIN s of
                (Inr cid, s') \<Rightarrow> (Inr (\<lparr>cr_id = cid, cr_gen = g\<rparr>, Some (cr_id cur)), s')
              | (Inl (VaultSizeLimit limit), s') \<Rightarrow> (Inr (\<lparr>cr_id = cr_id cur, cr_gen = g\<rparr>, None), s')
              | (Inl e, s') \<Rightarrow> (Inl e, s'))))"

text \<open>Run \<open>m\<close>; if it fails, change the state by \<open>f\<close> and pass the error on.\<close>

definition on_fail :: "('r, 'a) fop \<Rightarrow> (Vfs \<Rightarrow> Vfs) \<Rightarrow> ('r, 'a) fop" where
  "on_fail m f = (\<lambda>s. case m s of (Inl e, (v, r)) \<Rightarrow> (Inl e, (f v, r)) | (Inr x, s') \<Rightarrow> (Inr x, s'))"

definition give_back :: "u64 list \<Rightarrow> Vfs \<Rightarrow> Vfs" where
  "give_back ids v = v\<lparr>v_pending_free := v_pending_free v @ ids\<rparr>"

definition rewrite_in_place :: "'r env \<Rightarrow> bytes \<Rightarrow> u64 \<Rightarrow> u32 \<Rightarrow> ChunkRef \<Rightarrow> bytes \<Rightarrow> ('r, ChunkRef) fop" where
  "rewrite_in_place E key fid idx cur pt =
     bindR (onV alloc_gen) (\<lambda>g.
     bindR (onK (write_chunk E key fid idx \<lparr>cr_id = cr_id cur, cr_gen = g\<rparr> pt)) (\<lambda>_.
     retR \<lparr>cr_id = cr_id cur, cr_gen = g\<rparr>))"

definition rewrite_chunk :: "'r env \<Rightarrow> Host \<Rightarrow> bytes \<Rightarrow> u64 \<Rightarrow> u32 \<Rightarrow> ChunkRef \<Rightarrow> bytes \<Rightarrow> ('r, ChunkRef \<times> u64 option) fop" where
  "rewrite_chunk E H key fid idx cur pt =
     bindR (rewrite_target E H cur) (\<lambda>(new_ref, retired).
     bindR (on_fail (onK (write_chunk E key fid idx new_ref pt))
              (if retired \<noteq> None then give_back [cr_id new_ref] else (\<lambda>v. v))) (\<lambda>_.
     retR (new_ref, retired)))"

definition zero_chunk :: bytes where
  "zero_chunk = replicate CHUNK_PLAINTEXT_SIZE 0"

text \<open>Zero-filled chunks at the end of a file that has \<open>start\<close> chunks: \<open>n\<close> more after \<open>appended\<close>.\<close>

fun grow :: "'r env \<Rightarrow> Host \<Rightarrow> bytes \<Rightarrow> u64 \<Rightarrow> nat \<Rightarrow> nat \<Rightarrow> ChunkRef list \<Rightarrow> ('r, ChunkRef list) fop" where
  "grow E H key fid start 0 appended = retR appended"
| "grow E H key fid start (Suc n) appended =
     bindR (on_fail (alloc_slot E H 1) (give_back (map cr_id appended))) (\<lambda>cid.
     bindR (onV alloc_gen) (\<lambda>g.
     let cref = \<lparr>cr_id = cid, cr_gen = g\<rparr> in
     bindR (on_fail (onK (write_chunk E key fid (of_nat (start + length appended)) cref zero_chunk))
              (give_back (cid # map cr_id appended))) (\<lambda>_.
     grow E H key fid start n (appended @ [cref]))))"

text \<open>
  Zeroing the part of one existing chunk that lies in the file range from \<open>a\<close> to \<open>b\<close>; the loop
  body that \<open>write\<close> (for the hole before it) and \<open>zero_fill_existing_range\<close> share. \<open>None\<close>
  means that there was nothing to do.
\<close>

definition scrub_chunk ::
  "'r env \<Rightarrow> Host \<Rightarrow> bytes \<Rightarrow> u64 \<Rightarrow> bool \<Rightarrow> u64 \<Rightarrow> u64 \<Rightarrow> nat \<Rightarrow> ChunkRef \<Rightarrow> ('r, (ChunkRef \<times> u64 option) option) fop" where
  "scrub_chunk E H key fid hide_size from to idx cur =
     bindR (liftR (covered_range hide_size idx from to)) (\<lambda>(a, b).
     if b \<le> a then retR None
     else
       bindR (onV (readV (\<lambda>v. read_chunk E (v_container v) key fid (of_nat idx) cur))) (\<lambda>pt.
       if list_all (\<lambda>x. x = 0) (slice pt a (b - a)) then retR None
       else
         bindR (rewrite_chunk E H key fid (of_nat idx) cur (put pt a (replicate (b - a) 0))) (\<lambda>res.
         retR (Some res))))"

definition opt_list :: "'a option \<Rightarrow> 'a list" where
  "opt_list x = (case x of None \<Rightarrow> [] | Some y \<Rightarrow> [y])"

fun zero_fill_loop ::
  "'r env \<Rightarrow> Host \<Rightarrow> bytes \<Rightarrow> u64 \<Rightarrow> bool \<Rightarrow> u64 \<Rightarrow> u64 \<Rightarrow> nat list \<Rightarrow> ChunkRef list \<times> u64 list \<Rightarrow> ('r, ChunkRef list \<times> u64 list) fop" where
  "zero_fill_loop E H key fid hide_size from to [] acc = retR acc"
| "zero_fill_loop E H key fid hide_size from to (idx # idxs) (chunks, retired) =
     bindR (scrub_chunk E H key fid hide_size from to idx (chunks ! idx)) (\<lambda>res.
     zero_fill_loop E H key fid hide_size from to idxs
       (case res of None \<Rightarrow> (chunks, retired) | Some (new_ref, old) \<Rightarrow> (chunks[idx := new_ref], retired @ opt_list old)))"

definition zero_fill_existing_range ::
  "'r env \<Rightarrow> Host \<Rightarrow> u64 \<Rightarrow> bytes \<Rightarrow> ChunkRef list \<Rightarrow> u64 \<Rightarrow> u64 \<Rightarrow> bool \<Rightarrow> u64 list \<Rightarrow> ('r, ChunkRef list \<times> u64 list) fop" where
  "zero_fill_existing_range E H fid key chunks from to hide_size retired =
     (if to \<le> from \<or> chunks = [] then retR (chunks, retired)
      else
        bindR (liftR (file_to_chunk from hide_size)) (\<lambda>(first, _).
        bindR (liftR (file_to_chunk (to - 1) hide_size)) (\<lambda>(last_chunk, _).
        zero_fill_loop E H key fid hide_size from to [first..<Suc (min last_chunk (length chunks - 1))] (chunks, retired))))"

section \<open>The metadata budget\<close>

definition projected_inode :: "MetadataFormat \<Rightarrow> u64 \<Rightarrow> nat \<Rightarrow> u64 \<Rightarrow> Inode \<Rightarrow> InodeV3OnDisk" where
  "projected_inode f fid extra_chunks inode_id inode =
     (let placeholder = \<lparr>cr_id = 0, cr_gen = 1\<rparr>;
          cnt = (if inode_id = fid then length (i_chunks inode) + extra_chunks else length (i_chunks inode))
      in if i_kind inode = File \<and> inline_chunk_threshold f < cnt
         then on_disk_of inode [] (Some (placeholder, of_nat cnt))
         else on_disk_of inode (i_chunks inode @ (if inode_id = fid then replicate extra_chunks placeholder else [])) None)"

definition check_metadata_budget_for_chunks :: "Host \<Rightarrow> u64 \<Rightarrow> nat \<Rightarrow> Vfs \<Rightarrow> unit vres" where
  "check_metadata_budget_for_chunks H fid extra_chunks v =
     (let budget = payload_budget_for (metadata_size (c_header (v_container v))) in
      if v_format v = V2 then
        bindE (ok_or MetadataSerialize (pc_v2 H (v_tree v))) (\<lambda>b.
        if budget < length b + extra_chunks * 12 then Inl MetadataBudgetExhausted else Inr ())
      else
        bindE (ok_or MetadataSerialize (pc_v3 H (tree_on_disk (v_tree v)
                 (map (\<lambda>(k, i). (k, projected_inode (v_format v) fid extra_chunks k i)) (v_inodes v))))) (\<lambda>b.
        if budget < length b + 4096 then Inl MetadataBudgetExhausted else Inr ()))"

section \<open>Writing\<close>

definition chunk_at :: "Vfs \<Rightarrow> u64 \<Rightarrow> nat \<Rightarrow> ChunkRef vres" where
  "chunk_at v fid idx =
     bindE (ok_or NotFound (bt_get (v_inodes v) fid)) (\<lambda>i.
     if idx < length (i_chunks i) then Inr (i_chunks i ! idx) else Inl panic_oob)"

text \<open>The hole a write past the end opens, in the existing chunks before its first one.\<close>

fun scrub_gap ::
  "'r env \<Rightarrow> Host \<Rightarrow> bytes \<Rightarrow> u64 \<Rightarrow> bool \<Rightarrow> u64 \<Rightarrow> u64 \<Rightarrow> nat list \<Rightarrow> (nat \<times> ChunkRef) list \<times> u64 list
     \<Rightarrow> ('r, (nat \<times> ChunkRef) list \<times> u64 list) fop" where
  "scrub_gap E H key fid hide_size from to [] acc = retR acc"
| "scrub_gap E H key fid hide_size from to (idx # idxs) (updates, retired) =
     bindR (onV (readV (\<lambda>v. chunk_at v fid idx))) (\<lambda>cur.
     bindR (scrub_chunk E H key fid hide_size from to idx cur) (\<lambda>res.
     scrub_gap E H key fid hide_size from to idxs
       (case res of None \<Rightarrow> (updates, retired) | Some (new_ref, old) \<Rightarrow> (updates @ [(idx, new_ref)], retired @ opt_list old))))"

record WriteState =
  ws_appended :: "ChunkRef list"
  ws_updates :: "(nat \<times> ChunkRef) list"
  ws_retired :: "u64 list"
  ws_buf_pos :: nat

text \<open>New contents of one chunk: the hole before the write zeroed, the data copied in, the size header refreshed.\<close>

definition patched ::
  "bool \<Rightarrow> nat \<Rightarrow> nat \<Rightarrow> nat \<Rightarrow> u64 \<Rightarrow> u64 \<Rightarrow> u64 \<Rightarrow> nat \<Rightarrow> nat \<Rightarrow> bytes \<Rightarrow> bytes \<Rightarrow> bytes vres" where
  "patched hide_size chunk_idx first_chunk cur_len old_real offset new_real a b chunk_data pt =
     bindE (if chunk_idx = first_chunk \<and> chunk_idx < cur_len \<and> old_real < offset
            then bindE (covered_range hide_size chunk_idx old_real offset) (\<lambda>(hole_start, _).
              Inr (if hole_start < a then put pt hole_start (replicate (a - hole_start) 0) else pt))
            else Inr pt) (\<lambda>pt.
     let pt = put pt a chunk_data in
     Inr (if hide_size \<and> chunk_idx = 0 then install_size_header pt new_real else pt))"

fun write_loop ::
  "'r env \<Rightarrow> Host \<Rightarrow> bytes \<Rightarrow> u64 \<Rightarrow> bool \<Rightarrow> u64 \<Rightarrow> u64 \<Rightarrow> u64 \<Rightarrow> u64 \<Rightarrow> nat \<Rightarrow> nat \<Rightarrow> ChunkRef list \<Rightarrow> bytes \<Rightarrow> nat list
     \<Rightarrow> WriteState \<Rightarrow> ('r, WriteState) fop" where
  "write_loop E H key fid hide_size old_real offset new_end new_real cur_len first_chunk covered buf [] ws = retR ws"
| "write_loop E H key fid hide_size old_real offset new_end new_real cur_len first_chunk covered buf (chunk_idx # idxs) ws =
     bindR (liftR (covered_range hide_size chunk_idx offset new_end)) (\<lambda>(a, b).
     let len_here = b - a;
         cur_ref = (if chunk_idx < cur_len then covered ! (chunk_idx - first_chunk) else ws_appended ws ! (chunk_idx - cur_len)) in
     bindR (onV (readV (\<lambda>v. read_chunk E (v_container v) key fid (of_nat chunk_idx) cur_ref))) (\<lambda>pt.
     bindR (liftR (patched hide_size chunk_idx first_chunk cur_len old_real offset new_real a b
              (slice buf (ws_buf_pos ws) len_here) pt)) (\<lambda>pt.
     bindR (if chunk_idx < cur_len
            then bindR (rewrite_chunk E H key fid (of_nat chunk_idx) cur_ref pt) (\<lambda>(new_ref, old).
              retR (ws\<lparr>ws_updates := ws_updates ws @ [(chunk_idx, new_ref)], ws_retired := ws_retired ws @ opt_list old\<rparr>))
            else bindR (rewrite_in_place E key fid (of_nat chunk_idx) cur_ref pt) (\<lambda>new_ref.
              retR (ws\<lparr>ws_appended := (ws_appended ws)[chunk_idx - cur_len := new_ref]\<rparr>))) (\<lambda>ws.
     write_loop E H key fid hide_size old_real offset new_end new_real cur_len first_chunk covered buf idxs
       (ws\<lparr>ws_buf_pos := ws_buf_pos ws + len_here\<rparr>)))))"

definition refresh_size_header ::
  "'r env \<Rightarrow> Host \<Rightarrow> bytes \<Rightarrow> u64 \<Rightarrow> u64 \<Rightarrow> nat \<Rightarrow> WriteState \<Rightarrow> ('r, WriteState) fop" where
  "refresh_size_header E H key fid new_real cur_len ws =
     bindR (case find (\<lambda>(i, _). i = 0) (rev (ws_updates ws)) of
              Some (_, r) \<Rightarrow> retR r
            | None \<Rightarrow>
                if 0 < cur_len then onV (readV (\<lambda>v. chunk_at v fid 0))
                else (case ws_appended ws of [] \<Rightarrow> failR panic_oob | r # _ \<Rightarrow> retR r)) (\<lambda>cur0.
     bindR (onV (readV (\<lambda>v. read_chunk E (v_container v) key fid 0 cur0))) (\<lambda>pt.
     let pt = install_size_header pt new_real in
     if 0 < cur_len
     then bindR (rewrite_chunk E H key fid 0 cur0 pt) (\<lambda>(new0, old).
       retR (ws\<lparr>ws_updates := ws_updates ws @ [(0, new0)], ws_retired := ws_retired ws @ opt_list old\<rparr>))
     else bindR (rewrite_in_place E key fid 0 cur0 pt) (\<lambda>new0.
       retR (ws\<lparr>ws_appended := (ws_appended ws)[0 := new0]\<rparr>))))"

definition apply_updates :: "(nat \<times> ChunkRef) list \<Rightarrow> ChunkRef list \<Rightarrow> ChunkRef list" where
  "apply_updates updates chunks = fold (\<lambda>(i, r) cs. cs[i := r]) updates chunks"

definition commit_inode :: "bool \<Rightarrow> u64 \<Rightarrow> u64 \<Rightarrow> ChunkRef list \<Rightarrow> Inode \<Rightarrow> Inode" where
  "commit_inode hide_size now new_real chunks i =
     i\<lparr>i_chunks := chunks,
       i_size := (if hide_size then of_nat (length chunks) * 4096 else new_real),
       i_cached_real_size := (if hide_size then Some new_real else i_cached_real_size i),
       i_mtime_ns := now\<rparr>"

text \<open>The end of \<open>write\<close> and \<open>truncate\<close>: the inode gets its new chunks, the slots it no longer names wait for the next save.\<close>

definition committed :: "bool \<Rightarrow> u64 \<Rightarrow> u64 \<Rightarrow> u64 \<Rightarrow> ChunkRef list \<Rightarrow> u64 list \<Rightarrow> Vfs \<Rightarrow> Vfs" where
  "committed hide_size now fid new_real chunks retired v =
     (on_inodes (bt_modify fid (commit_inode hide_size now new_real chunks)) v)
       \<lparr>v_dirty := True, v_chunks_dirty := insert fid (v_chunks_dirty v), v_pending_free := v_pending_free v @ retired\<rparr>"

definition budget_check :: "Host \<Rightarrow> u64 \<Rightarrow> nat \<Rightarrow> nat \<Rightarrow> ('r, unit) fop" where
  "budget_check H fid cur_len target_count =
     (if cur_len < target_count
      then onV (readV (check_metadata_budget_for_chunks H fid (target_count - cur_len))) else retR ())"

text \<open>The references of the existing chunks that the write covers, and the hole before it scrubbed.\<close>

definition covered_existing :: "u64 \<Rightarrow> nat \<Rightarrow> nat \<Rightarrow> nat \<Rightarrow> ('r, ChunkRef list) fop" where
  "covered_existing fid first_chunk last_chunk cur_len =
     (let existing_hi = min (Suc last_chunk) cur_len in
      if first_chunk < existing_hi
      then bindR (onV (readV (\<lambda>v. ok_or NotFound (bt_get (v_inodes v) fid)))) (\<lambda>i.
        retR (slice (i_chunks i) first_chunk (existing_hi - first_chunk)))
      else retR [])"

definition scrub_hole ::
  "'r env \<Rightarrow> Host \<Rightarrow> bytes \<Rightarrow> u64 \<Rightarrow> bool \<Rightarrow> u64 \<Rightarrow> u64 \<Rightarrow> nat \<Rightarrow> nat \<Rightarrow> ('r, (nat \<times> ChunkRef) list \<times> u64 list) fop" where
  "scrub_hole E H key fid hide_size old_real offset first_chunk cur_len =
     (if old_real < offset \<and> 0 < cur_len
      then bindR (liftR (file_to_chunk old_real hide_size)) (\<lambda>(gap_first, _).
        scrub_gap E H key fid hide_size old_real offset [gap_first..<min first_chunk cur_len] ([], []))
      else retR ([], []))"

text \<open>
  The body of \<open>write\<close> past its guards: every chunk is written before the inode is changed. \<open>now\<close> is
  the clock.
\<close>

definition write_chunks ::
  "'r env \<Rightarrow> Host \<Rightarrow> u64 \<Rightarrow> u64 \<Rightarrow> u64 \<Rightarrow> bytes \<Rightarrow> u64 \<Rightarrow> u64 \<Rightarrow> nat \<Rightarrow> ('r, nat) fop" where
  "write_chunks E H now fid offset buf old_real new_end cur_len =
     bindR (askV (\<lambda>v. (v_hide v, pad_files_pow2 (c_header (v_container v)), file_key E (v_container v) fid)))
       (\<lambda>(hide_size, padding_on, key).
     let new_real = max old_real new_end;
         target_count = padded_chunk_count (required_chunks new_real hide_size) padding_on in
     bindR (liftR (file_to_chunk offset hide_size)) (\<lambda>(first_chunk, _).
     bindR (liftR (file_to_chunk (new_end - 1) hide_size)) (\<lambda>(last_chunk, _).
     bindR (budget_check H fid cur_len target_count) (\<lambda>_.
     bindR (grow E H key fid cur_len (target_count - cur_len) []) (\<lambda>appended.
     bindR (covered_existing fid first_chunk last_chunk cur_len) (\<lambda>covered.
     bindR (scrub_hole E H key fid hide_size old_real offset first_chunk cur_len) (\<lambda>(updates, retired).
     bindR (write_loop E H key fid hide_size old_real offset new_end new_real cur_len first_chunk covered buf
              [first_chunk..<Suc last_chunk]
              \<lparr>ws_appended = appended, ws_updates = updates, ws_retired = retired, ws_buf_pos = 0\<rparr>) (\<lambda>ws.
     bindR (if hide_size \<and> new_real \<noteq> old_real \<and> 0 < first_chunk \<and> 0 < target_count
            then refresh_size_header E H key fid new_real cur_len ws else retR ws) (\<lambda>ws.
     bindR (onV (readV (\<lambda>v. unwrap_inode v fid))) (\<lambda>i.
     bindR (setV (committed hide_size now fid new_real (apply_updates (ws_updates ws) (i_chunks i) @ ws_appended ws) (ws_retired ws))) (\<lambda>_.
     retR (length buf))))))))))))"

definition write_file :: "'r env \<Rightarrow> Host \<Rightarrow> u64 \<Rightarrow> u64 \<Rightarrow> u64 \<Rightarrow> bytes \<Rightarrow> ('r, nat) fop" where
  "write_file E H now fid offset buf =
     bindR (onV (readV ensure_writable)) (\<lambda>_.
     if buf = [] then retR 0
     else
       bindR (askV (\<lambda>v. PENDING_FREE_FLUSH_THRESHOLD \<le> length (v_pending_free v))) (\<lambda>many.
       bindR (if many then flush E H else retR ()) (\<lambda>_.
       bindR (onV (real_size E fid)) (\<lambda>old_real.
       bindR (onV (readV (\<lambda>v. ok_or NotFound (bt_get (v_inodes v) fid)))) (\<lambda>inode.
       if i_kind inode \<noteq> File then failR NotAFile
       else
         bindR (liftR (ok_or VOffsetOverflow (checked_add_u64 offset (of_nat (length buf))))) (\<lambda>new_end.
         if MAX_FILE_SIZE < new_end then failR FileSizeExceedsCap
         else write_chunks E H now fid offset buf old_real new_end (length (i_chunks inode))))))))"

section \<open>Truncating\<close>

text \<open>The size header that \<open>truncate\<close> refreshes last, and its body past the guards.\<close>

definition truncate_header ::
  "'r env \<Rightarrow> Host \<Rightarrow> bytes \<Rightarrow> u64 \<Rightarrow> bool \<Rightarrow> u64 \<Rightarrow> ChunkRef list \<Rightarrow> u64 list \<Rightarrow> ('r, ChunkRef list \<times> u64 list) fop" where
  "truncate_header E H key fid hide_size new_size chunks retired =
     (if hide_size \<and> chunks \<noteq> []
      then bindR (onV (readV (\<lambda>v. read_chunk E (v_container v) key fid 0 (chunks ! 0)))) (\<lambda>pt.
        bindR (rewrite_chunk E H key fid 0 (chunks ! 0) (install_size_header pt new_size)) (\<lambda>(new0, old).
        retR (chunks[0 := new0], retired @ opt_list old)))
      else retR (chunks, retired))"

definition truncate_chunks :: "'r env \<Rightarrow> Host \<Rightarrow> u64 \<Rightarrow> u64 \<Rightarrow> u64 \<Rightarrow> u64 \<Rightarrow> ChunkRef list \<Rightarrow> ('r, unit) fop" where
  "truncate_chunks E H now fid new_size old_real old_chunks =
     bindR (askV (\<lambda>v. (v_hide v, pad_files_pow2 (c_header (v_container v)), file_key E (v_container v) fid)))
       (\<lambda>(hide_size, padding_on, key).
     let new_chunk_count = padded_chunk_count (required_chunks new_size hide_size) padding_on;
         chunks = take new_chunk_count old_chunks;
         freed_ids = rev (map cr_id (drop new_chunk_count old_chunks)) in
     bindR (budget_check H fid (length chunks) new_chunk_count) (\<lambda>_.
     bindR (if old_real < new_size then zero_fill_existing_range E H fid key chunks old_real new_size hide_size []
            else retR (chunks, [])) (\<lambda>(chunks, retired).
     bindR (grow E H key fid (length chunks) (new_chunk_count - length chunks) []) (\<lambda>appended.
     bindR (truncate_header E H key fid hide_size new_size (chunks @ appended) retired) (\<lambda>(chunks, retired).
     setV (committed hide_size now fid new_size chunks (freed_ids @ retired)))))))"

definition truncate_file :: "'r env \<Rightarrow> Host \<Rightarrow> u64 \<Rightarrow> u64 \<Rightarrow> u64 \<Rightarrow> ('r, unit) fop" where
  "truncate_file E H now fid new_size =
     bindR (onV (readV ensure_writable)) (\<lambda>_.
     if MAX_FILE_SIZE < new_size then failR FileSizeExceedsCap
     else
       bindR (onV (real_size E fid)) (\<lambda>old_real.
       bindR (onV (readV (\<lambda>v. ok_or NotFound (bt_get (v_inodes v) fid)))) (\<lambda>inode.
       if i_kind inode \<noteq> File then failR NotAFile
       else truncate_chunks E H now fid new_size old_real (i_chunks inode))))"

section \<open>The size of the vault file\<close>

definition minimum_vault_size :: "Vfs \<Rightarrow> u64" where
  "minimum_vault_size v = saturating_add_u64 (v_doff v) CHUNK_SLOT_SIZE"

definition set_max_vault_size :: "u64 \<Rightarrow> unit vop" where
  "set_max_vault_size bytes =
     bindR (readV ensure_writable) (\<lambda>_.
     bindR (readV (\<lambda>v.
       if bytes = 0 then Inr ()
       else if v_format v \<noteq> V5 then Inl MaxSizeNeedsCurrentFormat
       else if bytes < minimum_vault_size v then Inl (MaxSizeBelowMinimum bytes (minimum_vault_size v))
       else Inr ())) (\<lambda>_.
     modV (\<lambda>v. if bytes \<noteq> v_max_vault_size v then v\<lparr>v_max_vault_size := bytes, v_dirty := True\<rparr> else v)))"

definition first_unused_tail_slot :: "Vfs \<Rightarrow> u64" where
  "first_unused_tail_slot v =
     fold (\<lambda>i m. fold (\<lambda>cr m. max (cr_id cr + 1) m) (i_chunks i @ i_external_list_blocks i) m) (bt_values (v_inodes v)) 0"

record SpaceReport =
  sr_file_size :: u64
  sr_fixed_size :: u64
  sr_used :: u64
  sr_free_inside :: u64
  sr_reclaimable :: u64
  sr_max_size :: u64

definition saturating_mul_u64 :: "u64 \<Rightarrow> u64 \<Rightarrow> u64" where
  "saturating_mul_u64 a b = (if unat a * unat b < 2 ^ 64 then a * b else -1)"

definition space_report :: "Vfs \<Rightarrow> SpaceReport vres" where
  "space_report v =
     (let file_size = of_nat (data_file_len (v_container v));
          used_slots = sum_list (map (\<lambda>i. length (i_chunks i) + length (i_external_list_blocks i)) (bt_values (v_inodes v)));
          free_slots = length (free_chunks (v_tree v)) + length (v_pending_free v)
      in bindE (slot_offset (v_doff v) (first_unused_tail_slot v)) (\<lambda>keep.
         Inr \<lparr>sr_file_size = file_size, sr_fixed_size = v_doff v,
              sr_used = saturating_mul_u64 (of_nat used_slots) CHUNK_SLOT_SIZE,
              sr_free_inside = saturating_mul_u64 (of_nat free_slots) CHUNK_SLOT_SIZE,
              sr_reclaimable = saturating_sub_u64 file_size keep, sr_max_size = v_max_vault_size v\<rparr>))"

definition drop_tail :: "u64 \<Rightarrow> Vfs \<Rightarrow> Vfs" where
  "drop_tail keep v =
     v\<lparr>v_tree := (v_tree v)\<lparr>free_chunks := filter (\<lambda>s. s < keep) (free_chunks (v_tree v)), next_chunk_id := keep\<rparr>, v_dirty := True\<rparr>"

definition shrink_tail :: "'r env \<Rightarrow> Host \<Rightarrow> ('r, u64) fop" where
  "shrink_tail E H =
     bindR (flush E H) (\<lambda>_.
     bindR (askV (\<lambda>v. (first_unused_tail_slot v, next_chunk_id (v_tree v)))) (\<lambda>(keep, nxt).
     bindR (if keep < nxt then bindR (setV (drop_tail keep)) (\<lambda>_. flush E H) else retR ()) (\<lambda>_.
     bindR (onV (readV (\<lambda>v. slot_offset (v_doff v) (next_chunk_id (v_tree v))))) (\<lambda>new_len.
     bindR (askV (\<lambda>v. of_nat (data_file_len (v_container v)))) (\<lambda>old_len.
     if old_len \<le> new_len then retR 0
     else bindR (onK (fmt (truncate_data_file new_len))) (\<lambda>_. retR (old_len - new_len)))))))"

definition shrink :: "'r env \<Rightarrow> Host \<Rightarrow> ('r, u64) fop" where
  "shrink E H =
     bindR (onV (readV ensure_writable)) (\<lambda>_.
     bindR (askV (\<lambda>v. is_deniable (v_container v))) (\<lambda>den.
     if den then failR ShrinkDeniable else shrink_tail E H))"

definition shrink_allow_deniable :: "'r env \<Rightarrow> Host \<Rightarrow> ('r, u64) fop" where
  "shrink_allow_deniable E H = bindR (onV (readV ensure_writable)) (\<lambda>_. shrink_tail E H)"

datatype ShrinkOnFinish = Keep | GiveBack | Ask u64

text \<open>\<open>finish\<close> with its mode and the answer that \<open>Ask\<close> gets, no answer in time being a refusal.\<close>

definition finish :: "'r env \<Rightarrow> Host \<Rightarrow> ShrinkOnFinish \<Rightarrow> bool \<Rightarrow> ('r, u64) fop" where
  "finish E H mode answer =
     bindR (flush E H) (\<lambda>_.
     bindR (askV (\<lambda>v. is_deniable (v_container v) \<or> v_tolerated_inodes v \<noteq> [])) (\<lambda>never.
     if never then retR 0
     else
       bindR (case mode of
                Keep \<Rightarrow> retR False
              | GiveBack \<Rightarrow> retR True
              | Ask m \<Rightarrow> bindR (onV (readV space_report)) (\<lambda>rep. retR (max m 1 \<le> sr_reclaimable rep \<and> answer))) (\<lambda>give.
       if give then shrink E H else retR 0)))"

end
