(* ===== verification/Lbx_FileRead.thy ===== *)
theory Lbx_FileRead
  imports Lbx_FileIO
begin

text \<open>
  The contents of a file as a sequence of bytes, and that \<open>read\<close> returns them: where each byte is in the
  chunks, what the sizes say, and the loop over the chunks a read covers.
\<close>

section \<open>Where the bytes of a file are\<close>

definition hdr :: "bool \<Rightarrow> nat" where
  "hdr hide_size = (if hide_size then 8 else 0)"

lemma file_to_chunk_nat:
  assumes "unat off + hdr hide < 2 ^ 64"
  shows "file_to_chunk off hide = Inr ((unat off + hdr hide) div 4096, (unat off + hdr hide) mod 4096)"
proof -
  have "unat (off + 8) = unat off + 8" if "hide"
    using that assms unat_add_lem [of off 8] by (simp add: hdr_def)
  then show ?thesis using assms by (cases hide) (simp_all add: file_to_chunk_def hdr_def checked_add_u64_def unat_div unat_mod)
qed

lemma file_to_chunk_Inr:
  assumes "file_to_chunk off hide = Inr (k, p)"
  shows "unat off + hdr hide < 2 ^ 64" "k = (unat off + hdr hide) div 4096"
proof -
  show b: "unat off + hdr hide < 2 ^ 64"
    using assms unsigned_less [of off] by (auto simp: file_to_chunk_def hdr_def checked_add_u64_def split: if_splits)
  show "k = (unat off + hdr hide) div 4096" using assms file_to_chunk_nat [OF b] by simp
qed

lemma unat_small [simp]: "n < 2 ^ 64 \<Longrightarrow> unat (of_nat n :: u64) = n"
  by (rule unat_of_nat_u64)

lemma u64_with: "n < 2 ^ 64 \<Longrightarrow> \<exists>w :: u64. unat w = n"
  using unat_small by blast

lemma chunk_file_range_nat:
  assumes "idx < 2 ^ 40"
  shows "\<exists>s e. chunk_file_range idx hide = Inr (s, e) \<and> unat s = 4096 * idx - hdr hide \<and> unat e = 4096 * Suc idx - hdr hide"
proof (cases "hide \<and> idx = 0")
  case True
  then show ?thesis by (simp add: chunk_file_range_def hdr_def)
next
  case False
  have i: "unat (of_nat idx :: u64) = idx" using assms by (intro unat_small) simp
  have h: "hdr hide \<le> 4096 * idx" using False by (cases idx) (auto simp: hdr_def)
  have b: "4096 * idx - hdr hide < 2 ^ 64" "4096 * Suc idx - hdr hide < 2 ^ 64" using assms by (auto simp: hdr_def)
  obtain s where s: "unat (s :: u64) = 4096 * idx - hdr hide" using u64_with [OF b(1)] by blast
  obtain e where e: "unat (e :: u64) = 4096 * Suc idx - hdr hide" using u64_with [OF b(2)] by blast
  have se: "checked_add_u64 s 4096 = Some e" using s e h b(2) by (auto simp: checked_add_u64_Some)
  show ?thesis
  proof (cases hide)
    case True
    then have idx: "0 < idx" using False by simp
    then have le: "(1 :: u64) \<le> of_nat idx" using i by (simp add: word_le_nat_alt)
    have j: "unat (of_nat idx - 1 :: u64) = idx - 1" using unat_sub [OF le] i by simp
    have bm: "4096 * (idx - 1) < 2 ^ 64" using assms by (simp; linarith)
    obtain m where m: "unat (m :: u64) = 4096 * (idx - 1)" using u64_with [OF bm] by blast
    have "checked_mul_u64 (of_nat idx - 1) 4096 = Some m" using bm j m by (simp add: checked_mul_u64_Some)
    moreover have "checked_add_u64 4088 m = Some s" using m s idx True b by (auto simp: checked_add_u64_Some hdr_def)
    ultimately have "chunk_file_range idx hide = Inr (s, e)" using True idx le se by (simp add: chunk_file_range_def checked_sub_u64_def)
    then show ?thesis using s e by blast
  next
    case plain: False
    have "checked_mul_u64 (of_nat idx) 4096 = Some s" using assms i s plain by (simp add: checked_mul_u64_Some hdr_def)
    then have "chunk_file_range idx hide = Inr (s, e)" using plain se by (simp add: chunk_file_range_def)
    then show ?thesis using s e by blast
  qed
qed

lemma unat_max_min: "unat (max a b) = max (unat a) (unat (b :: u64))" "unat (min a b) = min (unat a) (unat (b :: u64))"
  by (auto simp: max_def min_def word_le_nat_alt)

lemma unat_saturating_sub: "unat (saturating_sub_u64 a b) = unat a - unat b"
  by (simp add: saturating_sub_u64_def word_less_nat_alt unat_sub word_le_nat_alt)

text \<open>The part of a chunk that a range of the file covers, as positions in the bytes of all chunks.\<close>

lemma covered_range_nat:
  assumes "idx < 2 ^ 40"
  shows "covered_range hide idx a b = Inr (unat a + hdr hide - 4096 * idx, min (unat b + hdr hide) (4096 * Suc idx) - 4096 * idx)"
proof -
  obtain s e where r: "chunk_file_range idx hide = Inr (s, e)" "unat s = 4096 * idx - hdr hide" "unat e = 4096 * Suc idx - hdr hide"
    using chunk_file_range_nat [OF assms] by blast
  have "hdr hide \<le> 8" by (simp add: hdr_def)
  moreover have "data_start hide idx = (if idx = 0 then hdr hide else 0)" by (simp add: data_start_def hdr_def)
  moreover have "idx = 0 \<or> 4096 \<le> 4096 * idx" by (cases idx) simp_all
  ultimately show ?thesis using r(2,3)
    by (simp add: covered_range_def r(1) Let_def unat_saturating_sub unat_max_min) (auto simp: max_def min_def)
qed

lemma required_chunks_nat:
  assumes "unat sz \<le> 2 ^ 44"
  shows "required_chunks sz hide = (if sz = 0 then 0 else (unat sz + hdr hide - 1) div 4096 + 1)"
proof -
  define w where "w = (if hide then saturating_add_u64 sz 8 else sz)"
  have w: "unat w = unat sz + hdr hide"
    using assms unat_add_lem [of sz 8] by (simp add: w_def saturating_add_u64_def hdr_def)
  have "unat ((w - 1) div 4096 + 1) = (unat sz + hdr hide - 1) div 4096 + 1" if "sz \<noteq> 0"
  proof -
    have "0 < unat sz" using that by (simp add: unat_gt_0)
    then have "(1 :: u64) \<le> w" using w by (simp add: word_le_nat_alt)
    then have "unat ((w - 1) div 4096) = (unat sz + hdr hide - 1) div 4096" by (simp add: unat_div unat_sub w)
    moreover have "(unat sz + hdr hide - 1) div 4096 + 1 < 2 ^ 64"
    proof -
      have "hdr hide \<le> 8" by (simp add: hdr_def)
      then show ?thesis using assms div_le_dividend [of "unat sz + hdr hide - 1" 4096] by (simp; linarith)
    qed
    ultimately show ?thesis using unat_add_lem [of "(w - 1) div 4096" 1] by simp
  qed
  then show ?thesis by (simp add: required_chunks_def Let_def w_def)
qed

lemma required_chunks_bounds:
  assumes "unat sz \<le> 2 ^ 44"
  shows "sz \<noteq> 0 \<Longrightarrow> unat sz + hdr hide \<le> 4096 * required_chunks sz hide" "required_chunks sz hide \<le> 2 ^ 32 + 1"
    "sz \<noteq> 0 \<Longrightarrow> 0 < required_chunks sz hide"
  using assms unfolding required_chunks_nat [OF assms] by (auto simp: hdr_def)

lemma next_pow2_from_ge: "0 < p \<Longrightarrow> n \<le> next_pow2_from p n"
proof (induction p n rule: next_pow2_from.induct)
  case (1 p n)
  then show ?case by (subst next_pow2_from.simps) auto
qed

lemma next_pow2_from_le: "0 < p \<Longrightarrow> p \<le> max 1 (2 * n) \<Longrightarrow> next_pow2_from p n \<le> max 1 (2 * n)"
proof (induction p n rule: next_pow2_from.induct)
  case (1 p n)
  then show ?case by (subst next_pow2_from.simps) auto
qed

lemma padded_bounds: "n \<le> padded_chunk_count n pad" "padded_chunk_count n pad \<le> 2 * n" "padded_chunk_count n pad = 0 \<longleftrightarrow> n = 0"
proof -
  show ge: "n \<le> padded_chunk_count n pad" by (simp add: padded_chunk_count_def next_power_of_two_def next_pow2_from_ge)
  show le: "padded_chunk_count n pad \<le> 2 * n"
    using next_pow2_from_le [of 1 n] by (auto simp: padded_chunk_count_def next_power_of_two_def)
  show "padded_chunk_count n pad = 0 \<longleftrightarrow> n = 0" using ge le by auto
qed

section \<open>Bytes in chunks of 4096\<close>

definition blocks :: "bytes list \<Rightarrow> bool" where
  "blocks pts \<longleftrightarrow> (\<forall>pt \<in> set pts. length pt = 4096)"

lemma blocks_simps [simp]: "blocks []" "blocks (p # ps) \<longleftrightarrow> length p = 4096 \<and> blocks ps" "blocks (ps @ qs) \<longleftrightarrow> blocks ps \<and> blocks qs"
  by (auto simp: blocks_def)

lemma blocks_update: "blocks pts \<Longrightarrow> length pt = 4096 \<Longrightarrow> blocks (pts[k := pt])"
  using set_update_subset_insert [of pts k pt] by (auto simp: blocks_def)

lemma blocks_nth: "blocks pts \<Longrightarrow> k < length pts \<Longrightarrow> length (pts ! k) = 4096"
  by (simp add: blocks_def)

lemma length_blocks: "blocks pts \<Longrightarrow> length (concat pts) = 4096 * length pts"
  by (induction pts) auto

lemma nth_blocks: "blocks pts \<Longrightarrow> k < length pts \<Longrightarrow> j < 4096 \<Longrightarrow> concat pts ! (4096 * k + j) = pts ! k ! j"
proof (induction pts arbitrary: k)
  case (Cons p pts)
  then show ?case by (cases k) (auto simp: nth_append)
qed simp

lemma nth_blocks_div: "blocks pts \<Longrightarrow> p < 4096 * length pts \<Longrightarrow> concat pts ! p = pts ! (p div 4096) ! (p mod 4096)"
  using nth_blocks [of pts "p div 4096" "p mod 4096"] by (simp add: less_mult_imp_div_less mult.commute)

lemma slice_blocks:
  assumes "blocks pts" "k < length pts" "a + n \<le> 4096"
  shows "slice (pts ! k) a n = slice (concat pts) (4096 * k + a) n"
proof (rule nth_equalityI)
  have "4096 * Suc k \<le> 4096 * length pts" using assms(2) by (intro mult_le_mono2) simp
  then show len: "length (slice (pts ! k) a n) = length (slice (concat pts) (4096 * k + a) n)"
    using assms length_blocks [OF assms(1)] blocks_nth [OF assms(1,2)] by (simp add: slice_def)
  fix i assume "i < length (slice (pts ! k) a n)"
  then have i: "i < n" by (simp add: slice_def)
  then show "slice (pts ! k) a n ! i = slice (concat pts) (4096 * k + a) n ! i"
    using assms nth_blocks [OF assms(1,2), of "a + i"] length_blocks [OF assms(1)] blocks_nth [OF assms(1,2)] len
    by (simp add: slice_def add.assoc)
qed

lemma slice_append_slice: "slice xs a m @ slice xs (a + m) n = slice xs a (m + n)"
  by (simp add: slice_def take_add drop_drop add.commute)

lemma concat_slices:
  assumes "blocks pts" "A < B" "B \<le> 4096 * length pts"
  shows "A div 4096 < n \<Longrightarrow> n \<le> Suc ((B - 1) div 4096) \<Longrightarrow>
     concat (map (\<lambda>k. slice (pts ! k) (A - 4096 * k) (min B (4096 * Suc k) - 4096 * k - (A - 4096 * k))) [A div 4096..<n])
       = slice (concat pts) A (min B (4096 * n) - A)"
proof (induction n)
  case (Suc n)
  let ?f = "\<lambda>k. slice (pts ! k) (A - 4096 * k) (min B (4096 * Suc k) - 4096 * k - (A - 4096 * k))"
  have n: "n < length pts" "4096 * n < B" using Suc.prems(2) assms(2,3) by auto
  show ?case
  proof (cases "A div 4096 = n")
    case True
    then have lo: "4096 * n \<le> A" "A < 4096 * Suc n" by auto
    have "?f n = slice (concat pts) (4096 * n + (A - 4096 * n)) (min B (4096 * Suc n) - 4096 * n - (A - 4096 * n))"
      by (rule slice_blocks [OF assms(1) n(1)]) (use lo assms(2) in auto)
    also have "\<dots> = slice (concat pts) A (min B (4096 * Suc n) - A)" using lo by simp
    finally show ?thesis using True by simp
  next
    case False
    then have lt: "A div 4096 < n" using Suc.prems(1) by simp
    then have z: "A \<le> 4096 * n" by auto
    have "?f n = slice (concat pts) (4096 * n + 0) (min B (4096 * Suc n) - 4096 * n)"
      using slice_blocks [OF assms(1) n(1), of 0 "min B (4096 * Suc n) - 4096 * n"] z by simp
    moreover have "concat (map ?f [A div 4096..<n]) = slice (concat pts) A (4096 * n - A)"
      using Suc.IH [OF lt] Suc.prems(2) n(2) by (simp add: min_def)
    ultimately show ?thesis
      using lt z n(2) slice_append_slice [of "concat pts" A "4096 * n - A" "min B (4096 * Suc n) - 4096 * n"] by simp
  qed
qed simp

section \<open>The contents of a file\<close>

definition data_addr :: "u64 \<Rightarrow> nat \<Rightarrow> ChunkRef \<Rightarrow> ChunkAddr" where
  "data_addr fid k cr = \<lparr>a_file = fid, a_idx = of_nat k, a_ref = cr\<rparr>"

text \<open>The plaintexts behind a list of chunk references, and the logical size they and the inode give.\<close>

definition holds :: "'r env \<Rightarrow> Container \<Rightarrow> u64 \<Rightarrow> ChunkRef list \<Rightarrow> bytes list \<Rightarrow> bool" where
  "holds E c fid rs pts \<longleftrightarrow>
     length pts = length rs \<and> blocks pts \<and> (\<forall>k < length rs. rd_chunk E c (data_addr fid k (rs ! k)) = Some (pts ! k))"

definition plain :: "'r env \<Rightarrow> Container \<Rightarrow> u64 \<Rightarrow> ChunkRef list \<Rightarrow> bytes list" where
  "plain E c fid rs = map (\<lambda>k. the (rd_chunk E c (data_addr fid k (rs ! k)))) [0..<length rs]"

definition size_in :: "bool \<Rightarrow> Inode \<Rightarrow> bytes list \<Rightarrow> u64" where
  "size_in hide i pts = (if hide then (if pts = [] then 0 else u64_from_le (take 8 (hd pts))) else i_size i)"

definition bytes_in :: "bool \<Rightarrow> u64 \<Rightarrow> bytes list \<Rightarrow> bytes" where
  "bytes_in hide sz pts = take (unat sz) (drop (hdr hide) (concat pts))"

definition content :: "'r env \<Rightarrow> Vfs \<Rightarrow> u64 \<Rightarrow> bytes" where
  "content E v fid =
     (case bt_get (v_inodes v) fid of
        None \<Rightarrow> []
      | Some i \<Rightarrow>
          (let pts = plain E (v_container v) fid (i_chunks i) in bytes_in (v_hide v) (size_in (v_hide v) i pts) pts))"

definition file_ok :: "'r env \<Rightarrow> Container \<Rightarrow> bool \<Rightarrow> u64 \<Rightarrow> Inode \<Rightarrow> bool" where
  "file_ok E c hide fid i \<longleftrightarrow>
     (\<exists>pts. holds E c fid (i_chunks i) pts \<and> length pts < 2 ^ 40
        \<and> unat (size_in hide i pts) \<le> 2 ^ 44
        \<and> (size_in hide i pts \<noteq> 0 \<longrightarrow> unat (size_in hide i pts) + hdr hide \<le> 4096 * length pts)
        \<and> (hide \<longrightarrow> (\<forall>s. i_cached_real_size i = Some s \<longrightarrow> s = size_in hide i pts)))"

definition files_ok :: "'r env \<Rightarrow> Vfs \<Rightarrow> bool" where
  "files_ok E v \<longleftrightarrow> (\<forall>fid i. bt_get (v_inodes v) fid = Some i \<longrightarrow> i_kind i = File \<longrightarrow> file_ok E (v_container v) (v_hide v) fid i)"

lemma size_in_cong: "i_size j = i_size i \<Longrightarrow> size_in hide j pts = size_in hide i pts"
  by (simp add: size_in_def)

lemma holds_plain: "holds E c fid rs pts \<Longrightarrow> plain E c fid rs = pts"
  by (rule nth_equalityI) (auto simp: holds_def plain_def)

lemma file_okE:
  assumes "file_ok E c hide fid i"
  obtains pts where "holds E c fid (i_chunks i) pts" "plain E c fid (i_chunks i) = pts" "length pts < 2 ^ 40" "blocks pts"
    "length pts = length (i_chunks i)" "unat (size_in hide i pts) \<le> 2 ^ 44"
    "size_in hide i pts \<noteq> 0 \<longrightarrow> unat (size_in hide i pts) + hdr hide \<le> 4096 * length pts"
    "hide \<longrightarrow> (\<forall>s. i_cached_real_size i = Some s \<longrightarrow> s = size_in hide i pts)"
  using assms holds_plain unfolding file_ok_def holds_def by blast

lemma file_okI:
  assumes "holds E c fid (i_chunks i) pts" "length pts < 2 ^ 40" "size_in hide i pts = sz" "unat sz \<le> 2 ^ 44"
    "sz \<noteq> 0 \<longrightarrow> unat sz + hdr hide \<le> 4096 * length pts" "hide \<longrightarrow> (\<forall>s. i_cached_real_size i = Some s \<longrightarrow> s = sz)"
  shows "file_ok E c hide fid i"
  using assms unfolding file_ok_def by blast

lemma rd_data: "rd_chunk E c (data_addr fid k cr) = Some pt \<longleftrightarrow> read_chunk E c (file_key E c fid) fid (of_nat k) cr = Inr pt"
  by (simp add: rd_chunk_Some data_addr_def)

section \<open>Sizes\<close>

text \<open>Changes to the cached sizes only.\<close>

definition cached_only :: "Vfs \<Rightarrow> Vfs \<Rightarrow> bool" where
  "cached_only v v' \<longleftrightarrow>
     v' = v\<lparr>v_tree := (v_tree v)\<lparr>inodes := v_inodes v'\<rparr>\<rparr> \<and> same_tree (\<lambda>i j. forget_cache j = forget_cache i) (v_inodes v) (v_inodes v')"

lemma cached_only_refl [simp]: "cached_only v v"
  by (simp add: cached_only_def same_tree_refl)

lemma set_cached_only: "bt_ok (v_inodes v) \<Longrightarrow> cached_only v (set_cached fid s v)"
  unfolding cached_only_def by (simp add: set_cached_def on_inodes_def same_tree_modify)

lemma forget_cacheD:
  assumes "forget_cache j = forget_cache i"
  shows "i_chunks j = i_chunks i" "i_size j = i_size i" "i_kind j = i_kind i" "i_external_list_blocks j = i_external_list_blocks i"
    "i_id j = i_id i" "names_same i j" "inode_refs j = inode_refs i" "inode_ok hide j = inode_ok hide i" "i_mode j = i_mode i" "i_mtime_ns j = i_mtime_ns i"
proof -
  have j: "j = i\<lparr>i_cached_real_size := i_cached_real_size j\<rparr>"
    using assms by (metis Inode.surjective Inode.update_convs(8))
  then obtain x where j: "j = i\<lparr>i_cached_real_size := x\<rparr>" by blast
  show "i_chunks j = i_chunks i" "i_size j = i_size i" "i_kind j = i_kind i" "i_external_list_blocks j = i_external_list_blocks i"
    "i_id j = i_id i" "names_same i j" "inode_refs j = inode_refs i" "i_mode j = i_mode i" "i_mtime_ns j = i_mtime_ns i"
    by (simp_all add: j names_same_def inode_refs_def)
  have "validate_capacity hide j = validate_capacity hide i" by (simp add: j validate_capacity_def)
  then show "inode_ok hide j = inode_ok hide i" by (cases "i_kind i") (simp_all add: inode_ok_def j inode_refs_def)
qed

lemma cached_onlyD:
  assumes "cached_only v v'"
  shows "v_container v' = v_container v" "v_pending_free v' = v_pending_free v" "v_max_vault_size v' = v_max_vault_size v"
    "v_tolerated_inodes v' = v_tolerated_inodes v" "v_format v' = v_format v" "v_chunks_dirty v' = v_chunks_dirty v" "v_dirty v' = v_dirty v"
    "v_cow_floor_gen v' = v_cow_floor_gen v" "next_chunk_id (v_tree v') = next_chunk_id (v_tree v)" "next_chunk_gen (v_tree v') = next_chunk_gen (v_tree v)"
    "free_chunks (v_tree v') = free_chunks (v_tree v)" "t_root (v_tree v') = t_root (v_tree v)" "next_file_id (v_tree v') = next_file_id (v_tree v)"
    "same_tree (\<lambda>i j. forget_cache j = forget_cache i) (v_inodes v) (v_inodes v')" "same_tree names_same (v_inodes v) (v_inodes v')"
proof -
  obtain m where v': "v' = v\<lparr>v_tree := (v_tree v)\<lparr>inodes := m\<rparr>\<rparr>" using assms unfolding cached_only_def by blast
  show "v_container v' = v_container v" "v_pending_free v' = v_pending_free v" "v_max_vault_size v' = v_max_vault_size v"
    "v_tolerated_inodes v' = v_tolerated_inodes v" "v_format v' = v_format v" "v_chunks_dirty v' = v_chunks_dirty v" "v_dirty v' = v_dirty v"
    "v_cow_floor_gen v' = v_cow_floor_gen v" "next_chunk_id (v_tree v') = next_chunk_id (v_tree v)" "next_chunk_gen (v_tree v') = next_chunk_gen (v_tree v)"
    "free_chunks (v_tree v') = free_chunks (v_tree v)" "t_root (v_tree v') = t_root (v_tree v)" "next_file_id (v_tree v') = next_file_id (v_tree v)"
    by (simp_all add: v')
  show st: "same_tree (\<lambda>i j. forget_cache j = forget_cache i) (v_inodes v) (v_inodes v')" using assms by (simp add: cached_only_def)
  show "same_tree names_same (v_inodes v) (v_inodes v')" by (rule same_tree_mono [OF st forget_cacheD(6)])
qed

lemma content_cached:
  assumes "cached_only v v'"
  shows "content E v' fid = content E v fid"
proof (cases "bt_get (v_inodes v) fid")
  case None
  then have "bt_get (v_inodes v') fid = None" using same_tree_getD(3) [OF cached_onlyD(14) [OF assms]] by blast
  then show ?thesis using None by (simp add: content_def)
next
  case (Some i)
  obtain j where j: "bt_get (v_inodes v') fid = Some j" "forget_cache j = forget_cache i"
    using same_tree_getD(2) [OF cached_onlyD(14) [OF assms] Some] by blast
  then show ?thesis using Some forget_cacheD(1) [OF j(2)] cached_onlyD(1) [OF assms]
      size_in_cong [OF forget_cacheD(2) [OF j(2)], of "v_hide v" "plain E (v_container v) fid (i_chunks i)"]
    by (simp add: content_def Let_def)
qed

lemma real_size_file:
  assumes ok: "bt_ok (v_inodes v)" and fo: "files_ok E v" and i: "bt_get (v_inodes v) fid = Some i" "i_kind i = File"
  shows "\<exists>v'. real_size E fid v = (Inr (size_in (v_hide v) i (plain E (v_container v) fid (i_chunks i))), v') \<and> cached_only v v' \<and> files_ok E v'"
proof -
  let ?c = "v_container v"
  have f: "file_ok E ?c (v_hide v) fid i" using fo i by (simp add: files_ok_def)
  obtain pts where p: "holds E ?c fid (i_chunks i) pts" "plain E ?c fid (i_chunks i) = pts" "length pts < 2 ^ 40" "blocks pts"
    "length pts = length (i_chunks i)" "unat (size_in (v_hide v) i pts) \<le> 2 ^ 44"
    "size_in (v_hide v) i pts \<noteq> 0 \<longrightarrow> unat (size_in (v_hide v) i pts) + hdr (v_hide v) \<le> 4096 * length pts"
    "v_hide v \<longrightarrow> (\<forall>s. i_cached_real_size i = Some s \<longrightarrow> s = size_in (v_hide v) i pts)"
    by (rule file_okE [OF f])
  let ?s = "size_in (v_hide v) i pts"
  have set_ok: "files_ok E (set_cached fid ?s v)"
    unfolding files_ok_def
  proof (intro allI impI)
    fix k j assume j: "bt_get (v_inodes (set_cached fid ?s v)) k = Some j" "i_kind j = File"
    show "file_ok E (v_container (set_cached fid ?s v)) (v_hide (set_cached fid ?s v)) k j"
    proof (cases "k = fid")
      case True
      then have "j = i\<lparr>i_cached_real_size := Some ?s\<rparr>" using j(1) i(1) by (simp add: set_cached_def)
      then have j': "i_chunks j = i_chunks i" "size_in (v_hide v) j pts = ?s" "i_cached_real_size j = Some ?s"
        using size_in_cong [of j i "v_hide v" pts] by simp_all
      have c: "v_container (set_cached fid ?s v) = ?c" by (simp add: set_cached_def)
      show ?thesis
        unfolding True c by (rule file_okI [OF _ p(3) j'(2) p(6,7)]) (use p(1) j' in simp_all)
    next
      case False
      then show ?thesis using j fo by (simp add: set_cached_def files_ok_def)
    qed
  qed
  have set: "\<exists>v'. set_cached fid ?s v = v' \<and> cached_only v v' \<and> files_ok E v'" using set_cached_only [OF ok] set_ok by blast
  show ?thesis
  proof (cases "v_hide v")
    case False
    then show ?thesis using i p(2) fo by (auto simp: real_size_def size_in_def)
  next
    case True
    note hide = True
    show ?thesis
    proof (cases "i_cached_real_size i")
      case (Some s)
      then show ?thesis using i p(2) fo True p(8) Some by (auto simp: real_size_def)
    next
      case None
      show ?thesis
      proof (cases "i_chunks i")
        case Nil
        then have "?s = 0" using p(5) True by (simp add: size_in_def)
        then show ?thesis using set None Nil True i p(2) by (simp add: real_size_def)
      next
        case (Cons cr crs)
        obtain pt ps where pts: "pts = pt # ps" using p(5) Cons by (cases pts) auto
        have rd: "read_chunk E ?c (file_key E ?c fid) fid 0 cr = Inr pt"
          using p(1) Cons pts unfolding holds_def by (auto simp: rd_data [of E ?c fid 0, simplified])
        have s: "?s = u64_from_le (take 8 pt)" using True pts by (simp add: size_in_def)
        have len: "unat (of_nat (length (i_chunks i)) :: u64) = length (i_chunks i)" using p(3,5) by (intro unat_small) simp
        have bl: "4096 * length pts < 2 ^ 64" using p(3) by simp
        obtain cap where cap: "unat (cap :: u64) = 4096 * length pts" using u64_with [OF bl] by blast
        have m: "checked_mul_u64 (of_nat (length (i_chunks i))) 4096 = Some cap"
          using len cap p(5) bl by (simp add: checked_mul_u64_Some mult.commute)
        have ge: "(8 :: u64) \<le> cap" using cap pts by (simp add: word_le_nat_alt)
        have "\<not> cap - 8 < u64_from_le (take 8 pt)"
        proof (cases "?s = 0")
          case False
          then have "unat ?s + 8 \<le> unat cap" using p(7) cap hide by (simp add: hdr_def)
          then show ?thesis using s ge by (simp add: word_less_nat_alt unat_sub)
        qed (use s in simp)
        then show ?thesis using set None Cons True i p(2) rd m ge s by (simp add: real_size_def checked_sub_u64_def Let_def)
      qed
    qed
  qed
qed

section \<open>Reading\<close>

lemma read_loop_holds:
  assumes "holds E c fid rs pts" "length pts < 2 ^ 40"
  shows "\<forall>k \<in> set ks. k < length rs \<Longrightarrow>
     read_loop E c fid hide a b (map (\<lambda>k. (k, rs ! k)) ks)
       = Inr (concat (map (\<lambda>k. slice (pts ! k) (unat a + hdr hide - 4096 * k)
           (min (unat b + hdr hide) (4096 * Suc k) - 4096 * k - (unat a + hdr hide - 4096 * k))) ks))"
proof (induction ks)
  case (Cons k ks)
  have k: "k < length rs" "k < 2 ^ 40" using Cons.prems assms by (auto simp: holds_def)
  have "read_chunk E c (file_key E c fid) fid (of_nat k) (rs ! k) = Inr (pts ! k)"
    using assms(1) k(1) unfolding holds_def rd_data [symmetric] by blast
  then show ?case using Cons by (simp add: covered_range_nat [OF k(2)])
qed simp

lemma slice_of_content:
  assumes "a \<le> r" "r \<le> sz"
  shows "slice flat (a + h) (r - a) = take (r - a) (drop a (take sz (drop h flat)))"
  using assms by (simp add: slice_def drop_take min_def add.commute)

lemma read_file_content:
  assumes ok: "bt_ok (v_inodes v)" and fo: "files_ok E v" and i: "bt_get (v_inodes v) fid = Some i" "i_kind i = File"
    and n: "unat off + n < 2 ^ 64"
  shows "\<exists>v'. read_file E fid off n v = (Inr (take n (drop (unat off) (content E v fid))), v') \<and> cached_only v v' \<and> files_ok E v'"
proof -
  let ?c = "v_container v" and ?h = "v_hide v"
  obtain pts where p: "holds E ?c fid (i_chunks i) pts" "plain E ?c fid (i_chunks i) = pts" "length pts < 2 ^ 40" "blocks pts"
    "length pts = length (i_chunks i)" "unat (size_in ?h i pts) \<le> 2 ^ 44"
    "size_in ?h i pts \<noteq> 0 \<longrightarrow> unat (size_in ?h i pts) + hdr ?h \<le> 4096 * length pts"
    using file_okE [of E ?c ?h fid i] fo i unfolding files_ok_def by metis
  define sz where "sz = size_in ?h i pts"
  obtain v' where rs: "real_size E fid v = (Inr sz, v')" and co: "cached_only v v'" and fo': "files_ok E v'"
    using real_size_file [OF ok fo i] p(2) by (auto simp: sz_def)
  obtain j where j: "bt_get (v_inodes v') fid = Some j" "forget_cache j = forget_cache i"
    using same_tree_getD(2) [OF cached_onlyD(14) [OF co] i(1)] by blast
  have jc: "i_kind j = File" "i_chunks j = i_chunks i" using forget_cacheD(1,3) [OF j(2)] i(2) by simp_all
  have c': "v_container v' = ?c" using cached_onlyD(1) [OF co] .
  have cont: "content E v fid = take (unat sz) (drop (hdr ?h) (concat pts))"
    using i(1) p(2) by (simp add: content_def bytes_in_def sz_def)
  have kd: "inode_kind v' fid = Inr File" using j(1) jc(1) by (simp add: inode_kind_def)
  show ?thesis
  proof (cases "sz \<le> off \<or> n = 0")
    case True
    then have "read_file E fid off n v = (Inr [], v')" using rs kd by (simp add: read_file_def bindR_def readV_def retR_def)
    moreover have "take n (drop (unat off) (content E v fid)) = []"
      using True by (auto simp: cont word_le_nat_alt)
    ultimately show ?thesis using co fo' by simp
  next
    case False
    then have lt: "unat off < unat sz" "0 < n" by (auto simp: word_le_nat_alt not_le)
    define stop where "stop = off + of_nat n"
    have un: "unat (of_nat n :: u64) = n" using n by (intro unat_small) simp
    have stop: "checked_add_u64 off (of_nat n) = Some stop" "unat stop = unat off + n"
      using n un unat_add_lem [of off "of_nat n"] by (simp_all add: checked_add_u64_def stop_def)
    define e where "e = min stop sz"
    have e: "unat e = min (unat off + n) (unat sz)" using stop(2) by (simp add: e_def unat_max_min)
    have e0: "unat off < unat e" "unat e \<le> unat sz" using e lt by auto
    have sz0: "sz \<noteq> 0" using lt(1) by auto
    then have cap: "unat sz + hdr ?h \<le> 4096 * length pts" using p(7) sz_def by simp
    have "(1 :: u64) \<le> e" using e0(1) by (simp add: word_le_nat_alt)
    then have e1: "unat (e - 1) = unat e - 1" by (simp add: unat_sub)
    have b: "unat off + hdr ?h < 2 ^ 64" "unat (e - 1) + hdr ?h < 2 ^ 64" using e0 e1 cap p(3) by simp_all
    let ?A = "unat off + hdr ?h" and ?B = "unat e + hdr ?h"
    have AB: "?A < ?B" "?B \<le> 4096 * length pts" using e0 cap by simp_all
    have last: "unat (e - 1) + hdr ?h = ?B - 1" using e1 e0(1) by simp
    have lastlt: "(?B - 1) div 4096 < length pts" using AB by auto
    have f1: "file_to_chunk off ?h = Inr (?A div 4096, ?A mod 4096)" by (rule file_to_chunk_nat [OF b(1)])
    have f2: "file_to_chunk (e - 1) ?h = Inr ((?B - 1) div 4096, (?B - 1) mod 4096)" using file_to_chunk_nat [OF b(2)] last by simp
    have bound: "\<forall>k \<in> set [?A div 4096..<Suc ((?B - 1) div 4096)]. k < length (i_chunks i)" using lastlt p(5) by auto
    have rl: "read_loop E ?c fid ?h off e (map (\<lambda>k. (k, i_chunks i ! k)) [?A div 4096..<Suc ((?B - 1) div 4096)])
        = Inr (slice (concat pts) ?A (min ?B (4096 * Suc ((?B - 1) div 4096)) - ?A))"
      unfolding read_loop_holds [OF p(1,3) bound]
      using concat_slices [OF p(4) AB, of "Suc ((?B - 1) div 4096)"] AB by (simp add: div_le_mono less_Suc_eq_le)
    have "min ?B (4096 * Suc ((?B - 1) div 4096)) = ?B"
    proof -
      have "?B - 1 < 4096 * Suc ((?B - 1) div 4096)" by simp
      then show ?thesis by simp
    qed
    then have rl': "read_loop E ?c fid ?h off e (map (\<lambda>k. (k, i_chunks i ! k)) [?A div 4096..<Suc ((?B - 1) div 4096)])
        = Inr (slice (concat pts) ?A (?B - ?A))" using rl by simp
    have res: "slice (concat pts) ?A (?B - ?A) = take n (drop (unat off) (content E v fid))"
    proof -
      have "slice (concat pts) ?A (?B - ?A) = take (unat e - unat off) (drop (unat off) (content E v fid))"
        unfolding cont using slice_of_content [of "unat off" "unat e" "unat sz" "concat pts" "hdr ?h"] e0 by simp
      also have "\<dots> = take n (drop (unat off) (content E v fid))"
        unfolding cont using e lt by (auto simp: min_def drop_take)
      finally show ?thesis .
    qed
    have rf: "read_file E fid off n v = (Inr (slice (concat pts) ?A (?B - ?A)), v')"
      using rs kd False stop(1) f1 f2 j(1) jc c' rl' lastlt p(5)
      by (simp add: read_file_def bindR_def readV_def retR_def liftR_def failR_def Let_def e_def [symmetric])
    then show ?thesis using res co fo' by simp
  qed
qed

end
