(* ===== verification/Lbx_Rewrite.thy ===== *)
theory Lbx_Rewrite
  imports Lbx_FileRead
begin

text \<open>
  The middle of a write: finding a slot (with the save that may be needed for it), rewriting one chunk
  copy-on-write or in place, and appending chunks, each keeping the accounting of slots, the data of the
  other files and the chunk lists on disk.
\<close>

section \<open>Saves never report the size limit\<close>

text \<open>
  A write at the size limit takes the error of the allocator as its cue to rewrite in place, so it
  matters that the save inside the allocator cannot be the one to report that error.
\<close>

named_theorems quiet_intros

definition quiet :: "'a vres \<Rightarrow> bool" where
  "quiet x \<longleftrightarrow> (\<forall>n. x \<noteq> Inl (VaultSizeLimit n))"

definition quietR :: "('s, vfs_error, 'a) rand \<Rightarrow> bool" where
  "quietR m \<longleftrightarrow> (\<forall>s. quiet (fst (m s)))"

lemma quiet_simps [simp]: "quiet (Inr x)" "quiet (Inl e) \<longleftrightarrow> (\<forall>n. e \<noteq> VaultSizeLimit n)"
  by (simp_all add: quiet_def)

lemma quiet_bindE [quiet_intros]: "quiet x \<Longrightarrow> (\<And>y. quiet (f y)) \<Longrightarrow> quiet (bindE x f)"
  by (cases x) (auto simp: quiet_def)

lemma quiet_ok_or [quiet_intros]: "(\<And>n. e \<noteq> VaultSizeLimit n) \<Longrightarrow> quiet (ok_or e x)"
  by (cases x) auto

lemma quiet_map_err [quiet_intros]: "quiet (map_err Format x)" "quiet (map_err VCrypto y)"
  by (cases x; simp) (cases y; simp)

lemma quietR_bindR [quiet_intros]: "quietR m \<Longrightarrow> (\<And>y. quietR (f y)) \<Longrightarrow> quietR (bindR m f)"
  unfolding quietR_def bindR_def by (auto simp: quiet_def split: prod.splits sum.splits) (metis fst_conv)+

lemma quietR_simps [simp, quiet_intros]: "quietR (retR x)" "quietR (failR e) \<longleftrightarrow> (\<forall>n. e \<noteq> VaultSizeLimit n)" "quietR (liftR y) \<longleftrightarrow> quiet y"
  by (simp_all add: quietR_def retR_def failR_def liftR_def)

lemma quietR_lift [quiet_intros]:
  "quietR (fmt m)" "quietR (vcrypto n)" "(\<And>v. quiet (f v)) \<Longrightarrow> quietR (readV f)" "quietR (modV g)" "quietR (askV h)" "quietR (setV g)"
  by (auto simp: quietR_def fmt_def vcrypto_def readV_def modV_def askV_def setV_def onV_def split: prod.splits intro: quiet_map_err)

lemma quietR_on [quiet_intros]: "quietR m \<Longrightarrow> quietR (onV m)" "quietR k \<Longrightarrow> quietR (onK k)" "quietR j \<Longrightarrow> quietR (onR j)"
  unfolding quietR_def onV_def onK_def onR_def by (auto split: prod.splits) (metis fst_conv)+

lemma quietR_if [quiet_intros]: "quietR m \<Longrightarrow> quietR n \<Longrightarrow> quietR (if b then m else n)"
  by simp

lemma quiet_validate [quiet_intros]: "quiet (validate_metadata_tree t doff hide)"
proof -
  have tally: "quiet (tally_children m counts cs)" for m counts cs
    by (induction m counts cs rule: tally_children.induct) (auto simp: Let_def split: option.splits)
  have claim: "quiet (claim_slots d n g live crs)" for d n g live crs
    by (induction d n g live crs rule: claim_slots.induct) auto
  have par: "quiet (validate_parent m i)" for m i by (auto simp: validate_parent_def intro!: quiet_intros)
  have cap: "quiet (validate_capacity h i)" for h i by (auto simp: validate_capacity_def intro!: quiet_intros)
  have kd: "quiet (validate_kind t d h i counts live)" for t d h i counts live
    using tally cap claim by (auto simp: validate_kind_def split: InodeKind.splits option.splits intro!: quiet_intros)
  have ino: "quiet (validate_inode t d h fid i counts live)" for t d h fid i counts live
    using kd par by (auto simp: validate_inode_def intro!: quiet_intros)
  have inos: "quiet (validate_inodes t d h xs counts live)" for t d h xs counts live
    by (induction t d h xs counts live rule: validate_inodes.induct) (auto intro!: quiet_bindE ino split: prod.splits)
  have cnt: "quiet (validate_counts counts xs)" for counts xs
    by (induction counts xs rule: validate_counts.induct) (auto simp: Let_def)
  have fr: "quiet (validate_free d n live seen xs)" for d n live seen xs
    by (induction d n live seen xs rule: validate_free.induct) auto
  have re: "quiet (reach_loop m q s)" for m q s
    by (induction m q s rule: reach_loop.induct) (subst reach_loop.simps, auto split: option.splits list.splits sum.splits prod.splits)
  show ?thesis
    using inos cnt fr re by (auto simp: validate_metadata_tree_def simp del: reach_loop.simps split: prod.splits intro!: quiet_intros)
qed

lemma quiet_alloc [quiet_intros]: "quietR alloc_gen" "quietR alloc_cid" "quietR (alloc_refs n)"
proof -
  show a: "quietR alloc_gen" "quietR alloc_cid"
    by (auto simp: quietR_def alloc_gen_def alloc_cid_def split: option.splits)
  show "quietR (alloc_refs n)" by (induction n) (auto intro!: quiet_intros a)
qed

lemma quiet_slot_offset [quiet_intros]: "quiet (slot_offset d x)"
  by (auto simp: slot_offset_def intro!: quiet_intros)

lemma quiet_write_chunk [quiet_intros]: "quietR (write_chunk E key fid idx cr pt)"
proof -
  have "quietR (bindR (liftR (slot_offset d (cr_id cr))) (\<lambda>off. bindR (vcrypto (onR (fill E 12))) (\<lambda>nonce.
     bindR (vcrypto (liftR (seal E s key nonce (chunk_aad fid idx (cr_gen cr)) pt))) (\<lambda>ct. fmt (write_at off (nonce @ ct))))))" for d s
    by (intro quiet_intros) (simp add: quiet_slot_offset)
  then show ?thesis by (auto simp: write_chunk_def quietR_def)
qed

lemma quiet_chain [quiet_intros]: "quietR (write_chain_blocks E fid es idx bs)"
proof (induction bs arbitrary: idx)
  case (Cons b bs)
  have "quietR (encode_chunk_list_block E es' nx)" for es' nx
    by (auto simp: encode_chunk_list_block_def Let_def intro!: quiet_intros)
  moreover have "quietR (\<lambda>(c, r). write_chunk E (k c) f i ch pt (c, r))" for k f i ch pt
    using quiet_write_chunk by (fastforce simp: quietR_def)
  ultimately have "quietR (write_chunk_list_block E fid i ch es' nx)" for i ch es' nx
    unfolding write_chunk_list_block_def by (intro quiet_intros)
  then show ?case using Cons by (auto intro!: quiet_intros)
qed simp

lemma quiet_spill [quiet_intros]: "quietR (spill_to_v3_on_disk E)" "quietR (spill_to_v4_on_disk E)"
proof -
  have u: "quiet (unwrap_inode v fid)" for v fid by (auto simp: unwrap_inode_def intro!: quiet_intros)
  have ext: "quietR (write_external_chain_for E fid es)" for fid es
    unfolding write_external_chain_for_def by (intro quiet_intros) (auto split: list.splits)
  have ino: "quietR (spill_inode E fid)" for fid
    unfolding spill_inode_def by (auto intro!: quiet_intros u ext split: prod.splits)
  have ids: "quietR (spill_ids E fids acc)" for fids acc
    by (induction fids arbitrary: acc) (auto intro!: quiet_intros ino)
  show v3: "quietR (spill_to_v3_on_disk E)" unfolding spill_to_v3_on_disk_def by (intro quiet_intros ids)
  have rows: "quiet (v4_rows v ods)" for v ods by (induction v ods rule: v4_rows.induct) (auto intro!: quiet_intros u)
  show "quietR (spill_to_v4_on_disk E)" unfolding spill_to_v4_on_disk_def by (intro quiet_intros v3 rows)
qed

lemma quiet_flush [quiet_intros]: "quietR (flush E H)"
proof -
  have lim: "quiet (limited x)" for x by (auto simp: limited_def intro!: quiet_intros)
  have st: "quiet (settings_tail H n)" for n by (auto simp: settings_tail_def intro!: quiet_intros)
  have "quietR (encode_tree E H f)" for f
    by (cases f) (auto simp: encode_tree_def intro!: quiet_intros lim st split: option.splits)
  then have "quietR (commit E H)" unfolding commit_def by (intro quiet_intros)
  then show ?thesis by (auto simp: flush_def quietR_def)
qed

section \<open>Slots during an operation\<close>

text \<open>The state while an operation holds the slots \<open>R\<close> that no inode names yet.\<close>

definition sys :: "'r env \<Rightarrow> u64 set \<Rightarrow> Vfs \<Rightarrow> bool" where
  "sys E R v \<longleftrightarrow> ns_core (v_hide v) (v_inodes v) \<and> acct R v \<and> disk_inv E v"

lemma sysD:
  assumes "sys E R v"
  shows "ns_core (v_hide v) (v_inodes v)" "acct R v" "disk_inv E v" "bt_ok (v_inodes v)"
  using assms ns_coreD(2) unfolding sys_def by blast+

lemma flush_effect:
  assumes env: "rng_fills E" "digest_lengths E" "aead_correct E" and s: "sys E R v"
    and f: "flush E H (v, r) = (Inr (), (v', r'))"
  shows "frame v v'" "sys E R v'" "safe E (prot R v) (v_container v) (v_container v')"
proof -
  from f consider "v' = v" | "commit E H (v, r) = (Inr (), (v', r'))" by (auto simp: flush_def split: if_splits)
  then have "frame v v' \<and> sys E R v' \<and> safe E (prot R v) (v_container v) (v_container v')"
  proof cases
    case 2
    note e = commit_effect [OF env sysD(1-3) [OF s] 2]
    show ?thesis using e(1-4,8) by (simp add: sys_def)
  qed (use s in simp)
  then show "frame v v'" "sys E R v'" "safe E (prot R v) (v_container v) (v_container v')" by blast+
qed

lemma sys_alloc:
  assumes s: "sys E R v" and f: "alloc_frame v v'" and a: "acct S v'"
  shows "sys E S v'"
proof -
  note fr = alloc_frameD [OF f]
  have mx: "v_max_vault_size v' = v_max_vault_size v" using fr(4) by (simp add: frame_def)
  have hide: "v_hide v' = v_hide v" using frameD(4) [OF fr(4)] .
  show ?thesis using s a fr mx hide unfolding sys_def disk_inv_def chains_ok_def by simp
qed

lemma alloc_gen_sys:
  assumes "sys E R v" "alloc_gen v = (Inr g, v')"
  shows "sys E R v'" "frame v v'" "g \<noteq> 0" "g < next_chunk_gen (v_tree v')" "prot R v' = prot R v" "v_container v' = v_container v"
  using sys_alloc [OF assms(1) alloc_gen_frame [OF sysD(2) [OF assms(1)] assms(2)] alloc_gen_acct(1) [OF sysD(2) [OF assms(1)] assms(2)]]
    alloc_gen_acct(2,3) [OF sysD(2) [OF assms(1)] assms(2)] alloc_frameD [OF alloc_gen_frame [OF sysD(2) [OF assms(1)] assms(2)]] by blast+

lemma alloc_cid_sys:
  assumes "sys E R v" "alloc_cid v = (Inr x, v')"
  shows "sys E (insert x R) v'" "frame v v'" "x \<notin> prot R v'" "v_container v' = v_container v"
proof -
  note a = alloc_cid_acct [OF sysD(2) [OF assms(1)] assms(2)] and f = alloc_cid_frame [OF sysD(2) [OF assms(1)] assms(2)]
  show "sys E (insert x R) v'" by (rule sys_alloc [OF assms(1) f a(1)])
  show "frame v v'" "v_container v' = v_container v" using alloc_frameD [OF f] by blast+
  show "x \<notin> prot R v'" using a(2-4) alloc_frameD(7) [OF f, of R] by (simp add: prot_def)
qed

text \<open>Taking a slot, with the save that may come before it.\<close>

definition took :: "'r env \<Rightarrow> u64 set \<Rightarrow> Vfs \<Rightarrow> Vfs \<Rightarrow> bool" where
  "took E R v v' \<longleftrightarrow> frame v v' \<and> sys E R v' \<and> safe E (prot R v) (v_container v) (v_container v')"

lemma took_refl: "sys E R v \<Longrightarrow> took E R v v"
  by (simp add: took_def)

lemma alloc_slot_effect:
  fixes E :: "'r env"
  assumes env: "rng_fills E" "digest_lengths E" "aead_correct E" and s: "sys E R v"
    and al: "alloc_slot E H n (v, r) = (res, (v', r'))"
  shows "res = Inr x \<Longrightarrow> frame v v' \<and> sys E (insert x R) v' \<and> x \<notin> prot R v' \<and> safe E (prot R v) (v_container v) (v_container v')"
    "res = Inl (VaultSizeLimit l) \<Longrightarrow> took E R v v'"
proof -
  have plain: "frame v v' \<and> sys E (insert x R) v' \<and> x \<notin> prot R v' \<and> safe E (prot R v) (v_container v) (v_container v')"
    if t: "took E R v u" and a: "alloc_cid u = (Inr x, v')" for u x
  proof -
    have u: "frame v u" "sys E R u" "safe E (prot R v) (v_container v) (v_container u)" using t by (simp_all add: took_def)
    note c = alloc_cid_sys [OF u(2) a]
    show ?thesis using c(1,3) frame_trans [OF u(1) c(2)] u(3) c(4) by simp
  qed
  let ?lim = "v_max_vault_size v \<noteq> 0 \<and> free_chunks (v_tree v) = []"
  have "(\<forall>x. res = Inr x \<longrightarrow> frame v v' \<and> sys E (insert x R) v' \<and> x \<notin> prot R v' \<and> safe E (prot R v) (v_container v) (v_container v'))
      \<and> (\<forall>l. res = Inl (VaultSizeLimit l) \<longrightarrow> took E R v v')"
  proof (cases ?lim)
    case False
    then have a: "onV alloc_cid (v, r) = (res, (v', r'))" using al by (auto simp: alloc_slot_def bindR_def askV_def onV_def readV_def split: if_splits)
    have "res \<noteq> Inl (VaultSizeLimit l)" for l
      using a quiet_alloc(2) unfolding quietR_def by (auto simp: onV_def quiet_def split: prod.splits) (metis fst_conv)
    then show ?thesis using plain [OF took_refl [OF s]] a by (auto simp: onV_Inr)
  next
    case True
    define K where "K = (\<lambda>_ :: unit. bindR (askV (\<lambda>v. free_chunks (v_tree v) = [])) (\<lambda>none_free.
       bindR (if none_free then onV (readV over_limit) else retR False) (\<lambda>still_over.
       if still_over then bindR (askV v_max_vault_size) (\<lambda>limit. failR (VaultSizeLimit limit))
       else (onV alloc_cid :: ('r, u64) fop))))"
    have rest: "bindR (onV (readV over_limit)) (\<lambda>over.
       bindR (askV (\<lambda>v. max n 1 \<le> length (v_pending_free v))) (\<lambda>recyclable.
       bindR (if over \<and> recyclable then flush E H else retR ()) K)) (v, r) = (res, (v', r'))"
      using al True unfolding K_def by (simp add: alloc_slot_def bindR_def askV_def onV_def readV_def)
    have qo: "quiet (over_limit w)" for w by (auto simp: over_limit_def slot_end_def intro!: quiet_intros)
    show ?thesis
    proof (cases "over_limit v")
      case (Inl e)
      then have "res = Inl e" using rest by (simp add: bindR_def onV_def readV_def)
      then show ?thesis using qo [of v] Inl by (auto simp: quiet_def)
    next
      case (Inr over)
      let ?m = "if over \<and> max n 1 \<le> length (v_pending_free v) then flush E H else retR ()"
      obtain y u r1 where m: "?m (v, r) = (y, (u, r1))" by (metis prod_cases3)
      have cont: "(case y of Inl e \<Rightarrow> (Inl e, (u, r1)) | Inr z \<Rightarrow> K z (u, r1)) = (res, (v', r'))"
        using rest Inr m by (simp add: bindR_def onV_def readV_def askV_def split: sum.splits)
      show ?thesis
      proof (cases y)
        case (Inl e)
        have "quietR ?m" by (intro quiet_intros quietR_simps(1))
        then have "quiet (fst (?m (v, r)))" unfolding quietR_def by blast
        then have "quiet y" unfolding m by simp
        then show ?thesis using cont Inl by (auto simp: quiet_def)
      next
        case (Inr un)
        have tu: "took E R v u"
          using m Inr flush_effect [OF env s, of H r u r1] s by (auto simp: took_def split: if_splits)
        have qa: "quiet (fst (alloc_cid u))" using quiet_alloc(2) by (simp add: quietR_def)
        show ?thesis
        proof (cases "free_chunks (v_tree u) = []")
          case True
          show ?thesis
          proof (cases "over_limit u")
            case (Inl e)
            then have "res = Inl e" using cont \<open>y = Inr un\<close> True by (simp add: K_def bindR_def onV_def readV_def askV_def)
            then show ?thesis using qo [of u] Inl by (auto simp: quiet_def)
          next
            case (Inr still)
            show ?thesis
            proof (cases still)
              case True
              then have "Inl (VaultSizeLimit (v_max_vault_size u)) = res \<and> u = v'"
                using cont \<open>y = Inr un\<close> \<open>free_chunks (v_tree u) = []\<close> Inr by (auto simp add: K_def bindR_def onV_def readV_def askV_def failR_def)
              then show ?thesis using tu by auto
            next
              case False
              then have "onV alloc_cid (u, r1) = (res, (v', r'))"
                using cont \<open>y = Inr un\<close> \<open>free_chunks (v_tree u) = []\<close> Inr by (simp add: K_def bindR_def onV_def readV_def askV_def)
              then show ?thesis using plain [OF tu] qa by (auto simp: onV_def quiet_def split: prod.splits)
            qed
          qed
        next
          case False
          then have "onV alloc_cid (u, r1) = (res, (v', r'))"
            using cont \<open>y = Inr un\<close> by (simp add: K_def bindR_def onV_def readV_def askV_def retR_def)
          then show ?thesis using plain [OF tu] qa by (auto simp: onV_def quiet_def split: prod.splits)
        qed
      qed
    qed
  qed
  then show "res = Inr x \<Longrightarrow> frame v v' \<and> sys E (insert x R) v' \<and> x \<notin> prot R v' \<and> safe E (prot R v) (v_container v) (v_container v')"
    "res = Inl (VaultSizeLimit l) \<Longrightarrow> took E R v v'" by blast+
qed

section \<open>Slots of file data\<close>

lemma slots_split:
  assumes "bt_ok m" "bt_get m fid = Some i"
  shows "slots m = mset (map cr_id (inode_refs i)) + slots (bt_remove fid m)"
  using bt_total_remove [OF assms(1), of "\<lambda>i. mset (map cr_id (inode_refs i))" fid] assms(2) unfolding slots_def by (simp add: ac_simps)

text \<open>A slot in use once is in use by one list of one inode.\<close>

lemma data_slot_private:
  assumes ok: "bt_ok m" and i: "bt_get m fid = Some i" and x: "x \<in> cr_id ` set (i_chunks i)" and c: "count (slots m) x \<le> 1"
    and j: "bt_get m k = Some j"
  shows "x \<notin> cr_id ` set (i_external_list_blocks j)" "k \<noteq> fid \<Longrightarrow> x \<notin> cr_id ` set (i_chunks j)"
proof -
  note s = slots_split [OF ok i]
  have pos: "0 < count (mset (map cr_id (i_chunks i))) x" using x by (simp add: count_mset_0_iff)
  have rest: "x \<notin> cr_id ` set (inode_refs j)" if "k \<noteq> fid"
  proof
    assume a: "x \<in> cr_id ` set (inode_refs j)"
    have "bt_get (bt_remove fid m) k = Some j" using j that by simp
    moreover have "bt_ok (bt_remove fid m)" using ok by simp
    ultimately have "x \<in># slots (bt_remove fid m)" using a in_slots by blast
    then have "0 < count (slots (bt_remove fid m)) x" by (simp only: count_greater_zero_iff)
    then show False using c pos unfolding s inode_refs_def map_append mset_append count_union by linarith
  qed
  then show "k \<noteq> fid \<Longrightarrow> x \<notin> cr_id ` set (i_chunks j)" by (simp add: inode_refs_def image_Un)
  show "x \<notin> cr_id ` set (i_external_list_blocks j)"
  proof (cases "k = fid")
    case True
    then have "j = i" using i j by simp
    moreover have "x \<notin> cr_id ` set (i_external_list_blocks i)"
    proof
      assume "x \<in> cr_id ` set (i_external_list_blocks i)"
      then have "0 < count (mset (map cr_id (i_external_list_blocks i))) x" by (simp add: count_mset_0_iff)
      then show False using c pos unfolding s inode_refs_def map_append mset_append count_union by linarith
    qed
    ultimately show ?thesis by simp
  qed (use rest in \<open>simp add: inode_refs_def image_Un\<close>)
qed

lemma write_chunk_sys:
  fixes E :: "'r env"
  assumes env: "rng_fills E" "aead_correct E" and s: "sys E R v"
    and w: "write_chunk E (file_key E (v_container v) fid) fid (of_nat k) cr pt (v_container v, r) = (Inr (), (c', r'))"
    and x: "\<And>k j. bt_get (v_inodes v) k = Some j \<Longrightarrow> cr_id cr \<notin> cr_id ` set (i_external_list_blocks j)"
  shows "sys E R (v\<lparr>v_container := c'\<rparr>)" "frame v (v\<lparr>v_container := c'\<rparr>)" "safe E (- {cr_id cr}) (v_container v) c'"
    "rd_chunk E c' (data_addr fid k cr) = Some pt"
proof -
  let ?v = "v\<lparr>v_container := c'\<rparr>"
  obtain g where g: "c' = (v_container v)\<lparr>lbx_file := g\<rparr>" using write_chunk_file [OF w] by blast
  have wr: "wr_chunk E (data_addr fid k cr) pt (v_container v) c'"
    using env w unfolding wr_chunk_def data_addr_def by auto
  show "rd_chunk E c' (data_addr fid k cr) = Some pt" by (rule chunks.wr_same [OF wr])
  show sf: "safe E (- {cr_id cr}) (v_container v) c'"
    unfolding safe_def using chunks.wr_other [OF wr] by (auto simp: data_addr_def)
  show "frame v ?v" using g by (simp add: frame_def same_tree_refl)
  have "chain_good E c' fid' i" if i: "bt_get (v_inodes v) fid' = Some i" and "chain_good E (v_container v) fid' i" for fid' i
    by (rule chain_good_safe [OF sf _ that(2)]) (use x [OF i] in blast)
  then have "chains_ok E ?v" using sysD(3) [OF s] unfolding disk_inv_def chains_ok_def by simp
  moreover have "container_ok c'" using sysD(3) [OF s] g by (simp add: disk_inv_def container_ok_def)
  ultimately show "sys E R ?v" using s g unfolding sys_def disk_inv_def acct_def used_def by simp
qed

definition others :: "Vfs \<Rightarrow> u64 \<Rightarrow> u64 set" where
  "others v fid = {x. \<exists>k j. bt_get (v_inodes v) k = Some j \<and> k \<noteq> fid \<and> x \<in> cr_id ` set (i_chunks j)}"

lemma others_frame: "frame v v' \<Longrightarrow> others v' fid = others v fid"
proof -
  assume f: "frame v v'"
  note g = same_tree_getD [OF frameD(1) [OF f]]
  have "\<exists>j. bt_get (v_inodes v) k = Some j \<and> i_chunks j = i_chunks i" if "bt_get (v_inodes v') k = Some i" for k i
    using g(1) [OF that] data_sameD(6) by fastforce
  moreover have "\<exists>j. bt_get (v_inodes v') k = Some j \<and> i_chunks j = i_chunks i" if "bt_get (v_inodes v) k = Some i" for k i
    using g(2) [OF that] data_sameD(6) by fastforce
  ultimately have "others v' fid \<subseteq> others v fid" "others v fid \<subseteq> others v' fid"
    unfolding others_def by (fastforce, fastforce)
  then show ?thesis by blast
qed

text \<open>
  The state in the middle of a write to a file that had the chunks \<open>cs\<close>: the chunks \<open>rs\<close> it is to
  have hold \<open>pts\<close>, they and the slots to retire are the old ones and those taken meanwhile, and the
  data of the other files is as it was.
\<close>

definition working ::
  "'r env \<Rightarrow> Vfs \<Rightarrow> u64 \<Rightarrow> ChunkRef list \<Rightarrow> ChunkRef list \<Rightarrow> u64 list \<Rightarrow> bytes list \<Rightarrow> Vfs \<Rightarrow> bool" where
  "working E v0 fid cs rs retired pts v \<longleftrightarrow>
     frame v0 v \<and> holds E (v_container v) fid rs pts
     \<and> (\<forall>r \<in> set rs. cr_gen r \<noteq> 0 \<and> cr_gen r < next_chunk_gen (v_tree v))
     \<and> safe E (others v0 fid) (v_container v0) (v_container v)
     \<and> (\<exists>i. bt_get (v_inodes v0) fid = Some i \<and> i_chunks i = cs)
     \<and> (\<exists>R. sys E (set R) v \<and> distinct R \<and> mset (map cr_id rs) + mset retired = mset (map cr_id cs) + mset R)"

lemma working_slots:
  assumes fr: "frame v0 v" and i: "bt_get (v_inodes v0) fid = Some i" and s: "sys E (set R) v" and d: "distinct R"
    and m: "mset (map cr_id rs) + mset retired = mset (map cr_id (i_chunks i)) + mset R"
  shows "distinct (map cr_id rs)" "cr_id ` set rs \<subseteq> prot (set R) v"
    "x \<in> cr_id ` set rs \<Longrightarrow> bt_get (v_inodes v) k = Some j \<Longrightarrow> x \<notin> cr_id ` set (i_external_list_blocks j)"
    "cr_id ` set rs \<inter> others v0 fid = {}"
proof -
  obtain j0 where j0: "bt_get (v_inodes v) fid = Some j0" "i_chunks j0 = i_chunks i"
    using same_tree_getD(2) [OF frameD(1) [OF fr] i] data_sameD(6) by blast
  note ok = sysD(4) [OF s]
  have a: "count (used v) y \<le> 1" "y \<in> set R \<Longrightarrow> y \<notin># used v" for y using sysD(2) [OF s] unfolding acct_def by blast+
  have sl: "count (slots (v_inodes v)) y \<le> 1" "y \<in> set R \<Longrightarrow> y \<notin># slots (v_inodes v)" for y
    using a(1) [of y] a(2) [of y] by (simp_all add: used_def)
  have le: "count (mset (map cr_id (i_chunks i))) y \<le> count (slots (v_inodes v)) y" for y
    unfolding slots_split [OF ok j0(1)] by (simp add: inode_refs_def j0(2))
  have one: "count (mset (map cr_id rs)) y \<le> 1" for y
  proof -
    have "count (mset (map cr_id rs)) y \<le> count (mset (map cr_id (i_chunks i))) y + count (mset R) y"
      using arg_cong [OF m, of "\<lambda>M. count M y"] by simp
    also have "\<dots> \<le> 1"
    proof (cases "y \<in> set R")
      case True
      then have "count (slots (v_inodes v)) y = 0" using sl(2) by (simp add: not_in_iff)
      then show ?thesis using le [of y] d by (simp add: distinct_count_atmost_1)
    next
      case False
      then have "count (mset R) y = 0" by (simp add: count_mset_0_iff)
      then show ?thesis using le [of y] sl(1) [of y] by linarith
    qed
    finally show ?thesis .
  qed
  show "distinct (map cr_id rs)"
    unfolding distinct_count_atmost_1
  proof
    fix y show "count (mset (map cr_id rs)) y = (if y \<in> set (map cr_id rs) then 1 else 0)"
      using one [of y] count_mset_0_iff [of "map cr_id rs" y] by (simp only: split: if_split) linarith
  qed
  have mem: "y \<in> cr_id ` set (i_chunks i) \<or> y \<in> set R" if "y \<in> cr_id ` set rs" for y
  proof -
    have "y \<in># mset (map cr_id rs) + mset retired" using that by auto
    then show ?thesis unfolding m by auto
  qed
  have "y \<in># slots (v_inodes v)" if "y \<in> cr_id ` set (i_chunks i)" for y
    using that j0 unfolding in_slots [OF ok] by (force simp: inode_refs_def)
  then show "cr_id ` set rs \<subseteq> prot (set R) v" using mem unfolding prot_def by blast
  show "x \<notin> cr_id ` set (i_external_list_blocks j)" if x: "x \<in> cr_id ` set rs" "bt_get (v_inodes v) k = Some j"
  proof (cases "x \<in> set R")
    case True
    have "x \<notin># slots (v_inodes v)" by (rule sl(2) [OF True])
    then show ?thesis using x(2) unfolding in_slots [OF ok] by (auto simp: inode_refs_def)
  next
    case False
    then show ?thesis using mem [OF x(1)] data_slot_private(1) [OF ok j0(1) _ sl(1) x(2)] j0(2) by simp
  qed
  have "x \<notin> others v fid" if x: "x \<in> cr_id ` set rs" for x
  proof (cases "x \<in> set R")
    case True
    have "x \<notin># slots (v_inodes v)" by (rule sl(2) [OF True])
    then show ?thesis unfolding others_def in_slots [OF ok] by (auto simp: inode_refs_def)
  next
    case False
    then show ?thesis using mem [OF x] data_slot_private(2) [OF ok j0(1) _ sl(1)] j0(2) unfolding others_def by auto
  qed
  then show "cr_id ` set rs \<inter> others v0 fid = {}" unfolding others_frame [OF fr] by blast
qed

section \<open>Rewriting one chunk\<close>

lemma frame_gen: "frame v v' \<Longrightarrow> g < next_chunk_gen (v_tree v) \<Longrightarrow> g < next_chunk_gen (v_tree v')"
  unfolding frame_def using order.strict_trans2 by blast

lemma rewrite_target_effect:
  fixes E :: "'r env"
  assumes env: "rng_fills E" "digest_lengths E" "aead_correct E" and s: "sys E R v"
    and rt: "rewrite_target E H cur (v, r) = (Inr (new, old), (v', r'))"
  shows "frame v v'" "safe E (prot R v) (v_container v) (v_container v')" "cr_gen new \<noteq> 0" "cr_gen new < next_chunk_gen (v_tree v')"
    "old = None \<and> cr_id new = cr_id cur \<and> sys E R v'
     \<or> old = Some (cr_id cur) \<and> cr_id new \<notin> prot R v' \<and> sys E (insert (cr_id new) R) v'"
proof -
  obtain g v1 where g: "alloc_gen v = (Inr g, v1)"
    and rest: "(if v_cow_floor_gen v1 \<le> cr_gen cur then retR (\<lparr>cr_id = cr_id cur, cr_gen = g\<rparr>, None)
     else (\<lambda>s. case alloc_slot E H 1024 s of
                (Inr cid, s') \<Rightarrow> (Inr (\<lparr>cr_id = cid, cr_gen = g\<rparr>, Some (cr_id cur)), s')
              | (Inl (VaultSizeLimit limit), s') \<Rightarrow> (Inr (\<lparr>cr_id = cr_id cur, cr_gen = g\<rparr>, None), s')
              | (Inl e, s') \<Rightarrow> (Inl e, s'))) (v1, r) = (Inr (new, old), (v', r'))"
    using rt unfolding rewrite_target_def by (auto simp: fop_simps)
  note e = alloc_gen_sys [OF s g]
  have main: "frame v v' \<and> safe E (prot R v) (v_container v) (v_container v') \<and> cr_gen new \<noteq> 0 \<and> cr_gen new < next_chunk_gen (v_tree v')
     \<and> (old = None \<and> cr_id new = cr_id cur \<and> sys E R v'
     \<or> old = Some (cr_id cur) \<and> cr_id new \<notin> prot R v' \<and> sys E (insert (cr_id new) R) v')"
  proof (cases "v_cow_floor_gen v1 \<le> cr_gen cur")
    case True
    then have "new = \<lparr>cr_id = cr_id cur, cr_gen = g\<rparr>" "old = None" "v' = v1" using rest by auto
    then show ?thesis using e by simp
  next
    case False
    obtain res w r1 where al: "alloc_slot E H 1024 (v1, r) = (res, (w, r1))" by (metis prod_cases3)
    note al2 = alloc_slot_effect [OF env e(1) al]
    show ?thesis
    proof (cases res)
      case (Inr x)
      then have n: "new = \<lparr>cr_id = x, cr_gen = g\<rparr>" "old = Some (cr_id cur)" "v' = w" using rest al False by auto
      have "frame v1 w" "sys E (insert x R) w" "x \<notin> prot R w" "safe E (prot R v1) (v_container v1) (v_container w)"
        using al2(1) [OF Inr] by blast+
      then show ?thesis using e frame_trans [OF e(2)] frame_gen [of v1 w g] by (simp add: n)
    next
      case (Inl err)
      then obtain l where l: "err = VaultSizeLimit l" using rest al False by (cases err) auto
      then have n: "new = \<lparr>cr_id = cr_id cur, cr_gen = g\<rparr>" "old = None" "v' = w" using rest al False Inl by auto
      have "frame v1 w" "sys E R w" "safe E (prot R v1) (v_container v1) (v_container w)"
        using al2(2) [of l] Inl l unfolding took_def by blast+
      then show ?thesis using e frame_trans [OF e(2)] frame_gen [of v1 w g] by (simp add: n)
    qed
  qed
  then show "frame v v'" "safe E (prot R v) (v_container v) (v_container v')" "cr_gen new \<noteq> 0" "cr_gen new < next_chunk_gen (v_tree v')"
    "old = None \<and> cr_id new = cr_id cur \<and> sys E R v'
     \<or> old = Some (cr_id cur) \<and> cr_id new \<notin> prot R v' \<and> sys E (insert (cr_id new) R) v'" by blast+
qed

lemma workingE:
  assumes "working E v0 fid cs rs retired pts v"
  obtains i R where "frame v0 v" "holds E (v_container v) fid rs pts"
    "\<forall>r \<in> set rs. cr_gen r \<noteq> 0 \<and> cr_gen r < next_chunk_gen (v_tree v)"
    "safe E (others v0 fid) (v_container v0) (v_container v)" "bt_get (v_inodes v0) fid = Some i" "i_chunks i = cs"
    "sys E (set R) v" "distinct R" "mset (map cr_id rs) + mset retired = mset (map cr_id (i_chunks i)) + mset R"
  using assms unfolding working_def by blast

lemma workingI:
  assumes "frame v0 v" "holds E (v_container v) fid rs pts"
    "\<forall>r \<in> set rs. cr_gen r \<noteq> 0 \<and> cr_gen r < next_chunk_gen (v_tree v)"
    "safe E (others v0 fid) (v_container v0) (v_container v)" "bt_get (v_inodes v0) fid = Some i" "i_chunks i = cs"
    "sys E (set R) v" "distinct R" "mset (map cr_id rs) + mset retired = mset (map cr_id (i_chunks i)) + mset R"
  shows "working E v0 fid cs rs retired pts v"
  using assms unfolding working_def by blast

lemma others_prot: "bt_ok (v_inodes v) \<Longrightarrow> others v fid \<subseteq> prot R v"
proof
  fix x assume ok: "bt_ok (v_inodes v)" and "x \<in> others v fid"
  then obtain k j where "bt_get (v_inodes v) k = Some j" "x \<in> cr_id ` set (i_chunks j)" unfolding others_def by blast
  then show "x \<in> prot R v" using refs_prot [OF ok, of k j R] by (auto simp: inode_refs_def)
qed

lemma holds_safe:
  assumes h: "holds E c fid rs pts" and s: "safe E S c c'" and sub: "cr_id ` set rs \<subseteq> S"
  shows "holds E c' fid rs pts"
proof -
  have "rd_chunk E c' (data_addr fid k (rs ! k)) = Some (pts ! k)" if k: "k < length rs" for k
  proof -
    have "cr_id (rs ! k) \<in> S" using sub k by auto
    moreover have "rd_chunk E c (data_addr fid k (rs ! k)) = Some (pts ! k)" using h k by (simp add: holds_def)
    ultimately show ?thesis using s unfolding safe_def by (simp add: data_addr_def)
  qed
  then show ?thesis using h by (simp add: holds_def)
qed

text \<open>Writing one chunk of the list, after the slot for it was found.\<close>

lemma holds_update:
  assumes h: "holds E c fid rs pts" and k: "k < length rs" and d: "distinct (map cr_id rs)" and pt: "length pt = 4096"
    and s: "safe E (- {cr_id new}) c c'" and n: "cr_id new = cr_id (rs ! k) \<or> cr_id new \<notin> cr_id ` set rs"
    and rd: "rd_chunk E c' (data_addr fid k new) = Some pt"
  shows "holds E c' fid (rs[k := new]) (pts[k := pt])"
  unfolding holds_def
proof (intro conjI allI impI)
  have len: "length pts = length rs" "blocks pts" using h by (simp_all add: holds_def)
  show "length (pts[k := pt]) = length (rs[k := new])" "blocks (pts[k := pt])" using len blocks_update pt by simp_all
  fix j assume "j < length (rs[k := new])"
  then have j: "j < length rs" by simp
  show "rd_chunk E c' (data_addr fid j (rs[k := new] ! j)) = Some (pts[k := pt] ! j)"
  proof (cases "j = k")
    case True
    then show ?thesis using rd k len by simp
  next
    case False
    have "cr_id (rs ! j) \<noteq> cr_id (rs ! k)" using d False j k by (simp add: distinct_conv_nth)
    moreover have "cr_id (rs ! j) \<in> cr_id ` set rs" using j by simp
    ultimately have "cr_id (rs ! j) \<noteq> cr_id new" using n by metis
    moreover have "rd_chunk E c (data_addr fid j (rs ! j)) = Some (pts ! j)" using h j by (simp add: holds_def)
    ultimately show ?thesis using s False unfolding safe_def by (simp add: data_addr_def)
  qed
qed

text \<open>The slot for chunk \<open>k\<close> is its own or one that was just taken.\<close>

lemma working_write:
  fixes E :: "'r env"
  assumes env: "rng_fills E" "aead_correct E" and pt: "length pt = 4096" and k: "k < length rs"
    and fr: "frame v0 v" and h: "holds E (v_container v) fid rs pts"
    and gs: "\<forall>r \<in> set rs. cr_gen r \<noteq> 0 \<and> cr_gen r < next_chunk_gen (v_tree v)"
    and oth: "safe E (others v0 fid) (v_container v0) (v_container v)"
    and i: "bt_get (v_inodes v0) fid = Some i" "i_chunks i = cs"
    and s: "sys E (set R) v" "distinct R"
    and m: "mset (map cr_id rs) + mset retired = mset (map cr_id (i_chunks i)) + mset R0"
    and new: "cr_gen new \<noteq> 0" "cr_gen new < next_chunk_gen (v_tree v)"
    and c: "old = None \<and> cr_id new = cr_id (rs ! k) \<and> R = R0 \<or> old = Some (cr_id (rs ! k)) \<and> R = cr_id new # R0"
    and w: "write_chunk E (file_key E (v_container v0) fid) fid (of_nat k) new pt (v_container v, r) = (Inr (), (c', r'))"
  shows "working E v0 fid cs (rs[k := new]) (retired @ opt_list old) (pts[k := pt]) (v\<lparr>v_container := c'\<rparr>)"
proof -
  let ?v = "v\<lparr>v_container := c'\<rparr>" and ?rs = "rs[k := new]"
  have w': "write_chunk E (file_key E (v_container v) fid) fid (of_nat k) new pt (v_container v, r) = (Inr (), (c', r'))"
    using w unfolding hdr_same_key(1) [OF frameD(5) [OF fr]] .
  have m': "mset (map cr_id ?rs) + mset (retired @ opt_list old) = mset (map cr_id (i_chunks i)) + mset R"
  proof (cases old)
    case None
    then have "cr_id new = map cr_id rs ! k" using c k by auto
    then have "map cr_id ?rs = map cr_id rs" unfolding map_update by (simp only: list_update_id)
    then show ?thesis using m None c by (simp add: opt_list_def)
  next
    case (Some y)
    then have y: "y = cr_id (rs ! k)" "R = cr_id new # R0" using c by auto
    have "mset (map cr_id ?rs) + {#y#} = mset (map cr_id rs) + {#cr_id new#}"
      using k mset_update [of k "map cr_id rs" "cr_id new"] by (simp add: map_update y(1))
    then have "mset (map cr_id ?rs) + {#y#} + mset retired = mset (map cr_id rs) + {#cr_id new#} + mset retired" by simp
    then have "mset (map cr_id ?rs) + mset (retired @ [y]) = {#cr_id new#} + (mset (map cr_id rs) + mset retired)" by (simp add: ac_simps)
    then show ?thesis unfolding m using Some y(2) by (simp add: opt_list_def)
  qed
  note ws = working_slots [OF fr i(1) s m']
  have new_in: "cr_id new \<in> cr_id ` set ?rs" using k by (simp add: set_update_memI)
  note we = write_chunk_sys [OF env s(1) w' ws(3) [OF new_in]]
  have f': "frame v0 ?v" by (rule frame_trans [OF fr we(2)])
  have dist: "distinct (map cr_id rs)"
  proof (cases old)
    case None
    then have "R = R0" using c by auto
    then show ?thesis using working_slots(1) [OF fr i(1) s] m by blast
  next
    case (Some y)
    then have "set R0 \<subseteq> set R" "distinct R0" using c s(2) by auto
    then have "sys E (set R0) v" using s(1) acct_mono unfolding sys_def by blast
    then show ?thesis using working_slots(1) [OF fr i(1) _ \<open>distinct R0\<close>] m by blast
  qed
  have nin: "cr_id new = cr_id (rs ! k) \<or> cr_id new \<notin> cr_id ` set rs"
  proof (rule disjCI)
    assume "\<not> cr_id new \<notin> cr_id ` set rs"
    then obtain j where j: "j < length rs" "cr_id (rs ! j) = cr_id new" by (auto simp: in_set_conv_nth)
    show "cr_id new = cr_id (rs ! k)"
    proof (cases "j = k")
      case False
      have "map cr_id ?rs ! j = map cr_id ?rs ! k" using j k False by simp
      moreover have "j < length (map cr_id ?rs)" "k < length (map cr_id ?rs)" using j(1) k by simp_all
      ultimately have "j = k" using nth_eq_iff_index_eq [OF ws(1)] by blast
      then show ?thesis using False by simp
    qed (use j in simp)
  qed
  have h': "holds E c' fid ?rs (pts[k := pt])"
    by (rule holds_update [OF h k dist pt we(3) nin we(4)])
  have oth': "safe E (others v0 fid) (v_container v0) c'"
    by (rule safe_trans [OF oth we(3)]) (use ws(4) new_in in auto)
  have gs': "\<forall>r \<in> set ?rs. cr_gen r \<noteq> 0 \<and> cr_gen r < next_chunk_gen (v_tree v)"
    using gs new set_update_subset_insert [of rs k new] by blast
  show ?thesis
    by (rule workingI [OF f' _ _ _ i we(1) s(2) m']) (use h' gs' oth' in simp_all)
qed

lemma rewrite_chunk_working:
  fixes E :: "'r env"
  assumes env: "rng_fills E" "digest_lengths E" "aead_correct E" and pt: "length pt = 4096" and k: "k < length rs"
    and w: "working E v0 fid cs rs retired pts v"
    and rw: "rewrite_chunk E H (file_key E (v_container v0) fid) fid (of_nat k) (rs ! k) pt (v, r) = (Inr (new, old), (v', r'))"
  shows "working E v0 fid cs (rs[k := new]) (retired @ opt_list old) (pts[k := pt]) v'"
proof -
  obtain i R where d: "frame v0 v" "holds E (v_container v) fid rs pts"
    "\<forall>r \<in> set rs. cr_gen r \<noteq> 0 \<and> cr_gen r < next_chunk_gen (v_tree v)"
    "safe E (others v0 fid) (v_container v0) (v_container v)" "bt_get (v_inodes v0) fid = Some i" "i_chunks i = cs"
    "sys E (set R) v" "distinct R" "mset (map cr_id rs) + mset retired = mset (map cr_id (i_chunks i)) + mset R"
    by (rule workingE [OF w])
  obtain v1 r1 where rt: "rewrite_target E H (rs ! k) (v, r) = (Inr (new, old), (v1, r1))"
    and wr: "\<exists>c'. write_chunk E (file_key E (v_container v0) fid) fid (of_nat k) new pt (v_container v1, r1) = (Inr (), (c', r'))
       \<and> v' = v1\<lparr>v_container := c'\<rparr>"
    using rw unfolding rewrite_chunk_def on_fail_def by (auto simp: bindR_eq_Inr onK_def split: prod.splits sum.splits)
  then obtain c' where wr: "write_chunk E (file_key E (v_container v0) fid) fid (of_nat k) new pt (v_container v1, r1) = (Inr (), (c', r'))"
    and v': "v' = v1\<lparr>v_container := c'\<rparr>" by blast
  note e = rewrite_target_effect [OF env d(7) rt]
  note ws = working_slots [OF d(1,5,7-9)]
  have fr: "frame v0 v1" by (rule frame_trans [OF d(1) e(1)])
  have h: "holds E (v_container v1) fid rs pts" by (rule holds_safe [OF d(2) e(2) ws(2)])
  have gs: "\<forall>r \<in> set rs. cr_gen r \<noteq> 0 \<and> cr_gen r < next_chunk_gen (v_tree v1)" using d(3) frame_gen [OF e(1)] by blast
  have "others v0 fid \<subseteq> prot (set R) v"
    using others_prot [OF sysD(4) [OF d(7)]] unfolding others_frame [OF d(1)] .
  then have oth: "safe E (others v0 fid) (v_container v0) (v_container v1)" using safe_trans [OF d(4) e(2)] by blast
  define R' where "R' = (if old = None then R else cr_id new # R)"
  have R': "sys E (set R') v1" "distinct R'" "old = None \<and> cr_id new = cr_id (rs ! k) \<and> R' = R \<or> old = Some (cr_id (rs ! k)) \<and> R' = cr_id new # R"
    using e(5) d(8) by (auto simp: R'_def prot_def)
  show ?thesis
    unfolding v' by (rule working_write [OF env(1,3) pt k fr h gs oth d(5,6) R'(1,2) d(9) e(3,4) R'(3) wr])
qed

lemma rewrite_in_place_working:
  fixes E :: "'r env"
  assumes env: "rng_fills E" "digest_lengths E" "aead_correct E" and pt: "length pt = 4096" and k: "k < length rs"
    and w: "working E v0 fid cs rs retired pts v"
    and rw: "rewrite_in_place E (file_key E (v_container v0) fid) fid (of_nat k) (rs ! k) pt (v, r) = (Inr new, (v', r'))"
  shows "working E v0 fid cs (rs[k := new]) retired (pts[k := pt]) v'"
proof -
  obtain i R where d: "frame v0 v" "holds E (v_container v) fid rs pts"
    "\<forall>r \<in> set rs. cr_gen r \<noteq> 0 \<and> cr_gen r < next_chunk_gen (v_tree v)"
    "safe E (others v0 fid) (v_container v0) (v_container v)" "bt_get (v_inodes v0) fid = Some i" "i_chunks i = cs"
    "sys E (set R) v" "distinct R" "mset (map cr_id rs) + mset retired = mset (map cr_id (i_chunks i)) + mset R"
    by (rule workingE [OF w])
  obtain g v1 c' where g: "alloc_gen v = (Inr g, v1)" and new: "new = \<lparr>cr_id = cr_id (rs ! k), cr_gen = g\<rparr>"
    and wr: "write_chunk E (file_key E (v_container v0) fid) fid (of_nat k) new pt (v_container v1, r) = (Inr (), (c', r'))"
    and v': "v' = v1\<lparr>v_container := c'\<rparr>"
    using rw unfolding rewrite_in_place_def by (auto simp: fop_simps)
  note e = alloc_gen_sys [OF d(7) g]
  have "\<forall>r \<in> set rs. cr_gen r \<noteq> 0 \<and> cr_gen r < next_chunk_gen (v_tree v1)" using d(3) frame_gen [OF e(2)] by blast
  note ww = working_write [OF env(1,3) pt k frame_trans [OF d(1) e(2)] _ this _ d(5,6) e(1) d(8,9), where old = None]
  show ?thesis
    using ww [OF _ _ _ _ _ wr] d(2,4) e(3,4,6) unfolding v' new by (simp add: opt_list_def)
qed

section \<open>Appending chunks\<close>

lemma append_working:
  fixes E :: "'r env"
  assumes env: "rng_fills E" "digest_lengths E" "aead_correct E" and pt: "length pt = 4096"
    and w: "working E v0 fid cs rs retired pts v"
    and al: "alloc_slot E H n (v, r) = (Inr x, (v1, r1))" "alloc_gen v1 = (Inr g, v2)"
    and wr: "write_chunk E (file_key E (v_container v0) fid) fid (of_nat (length rs)) \<lparr>cr_id = x, cr_gen = g\<rparr> pt (v_container v2, r1) = (Inr (), (c', r'))"
  shows "working E v0 fid cs (rs @ [\<lparr>cr_id = x, cr_gen = g\<rparr>]) retired (pts @ [pt]) (v2\<lparr>v_container := c'\<rparr>)"
proof -
  let ?new = "\<lparr>cr_id = x, cr_gen = g\<rparr>"
  let ?rs = "rs @ [?new]"
  obtain i R where d: "frame v0 v" "holds E (v_container v) fid rs pts"
    "\<forall>r \<in> set rs. cr_gen r \<noteq> 0 \<and> cr_gen r < next_chunk_gen (v_tree v)"
    "safe E (others v0 fid) (v_container v0) (v_container v)" "bt_get (v_inodes v0) fid = Some i" "i_chunks i = cs"
    "sys E (set R) v" "distinct R" "mset (map cr_id rs) + mset retired = mset (map cr_id (i_chunks i)) + mset R"
    by (rule workingE [OF w])
  have a: "frame v v1" "sys E (insert x (set R)) v1" "x \<notin> prot (set R) v1" "safe E (prot (set R) v) (v_container v) (v_container v1)"
    using alloc_slot_effect(1) [OF env d(7) al(1)] by blast+
  note e = alloc_gen_sys [OF a(2) al(2)]
  have fr: "frame v0 v2" by (rule frame_trans [OF d(1) frame_trans [OF a(1) e(2)]])
  have s: "sys E (set (x # R)) v2" "distinct (x # R)" using e(1) d(8) a(3) by (simp_all add: prot_def)
  have m: "mset (map cr_id ?rs) + mset retired = mset (map cr_id (i_chunks i)) + mset (x # R)" using d(9) by simp
  note ws = working_slots [OF fr d(5) s m] and ws0 = working_slots [OF d(1,5,7-9)]
  have key: "file_key E (v_container v2) fid = file_key E (v_container v0) fid" by (rule hdr_same_key(1) [OF frameD(5) [OF fr]])
  have x_in: "cr_id ?new \<in> cr_id ` set ?rs" by simp
  note we = write_chunk_sys [OF env(1,3) s(1) wr [folded key] ws(3) [OF x_in]]
  have xn: "x \<notin> cr_id ` set rs" using ws(1) by simp
  have h1: "holds E (v_container v2) fid rs pts" using holds_safe [OF d(2) a(4) ws0(2)] e(6) by simp
  have h2: "holds E c' fid rs pts" by (rule holds_safe [OF h1 we(3)]) (use xn in auto)
  have h': "holds E c' fid ?rs (pts @ [pt])"
    unfolding holds_def
  proof (intro conjI allI impI)
    have len: "length pts = length rs" "blocks pts" using h2 by (simp_all add: holds_def)
    then show "length (pts @ [pt]) = length ?rs" "blocks (pts @ [pt])" using pt by simp_all
    show "rd_chunk E c' (data_addr fid k (?rs ! k)) = Some ((pts @ [pt]) ! k)" if "k < length ?rs" for k
      using that h2 len we(4) by (cases "k = length rs") (simp_all add: holds_def nth_append)
  qed
  have "others v0 fid \<subseteq> prot (set R) v" using others_prot [OF sysD(4) [OF d(7)]] unfolding others_frame [OF d(1)] .
  then have "safe E (others v0 fid) (v_container v0) (v_container v2)" using safe_trans [OF d(4) a(4)] e(6) by simp
  then have oth: "safe E (others v0 fid) (v_container v0) c'" by (rule safe_trans [OF _ we(3)]) (use ws(4) in auto)
  have gs: "\<forall>r \<in> set ?rs. cr_gen r \<noteq> 0 \<and> cr_gen r < next_chunk_gen (v_tree v2)"
    using d(3) frame_gen [OF frame_trans [OF a(1) e(2)]] e(3,4) by auto
  show ?thesis
    by (rule workingI [OF frame_trans [OF fr we(2)] _ _ _ d(5,6) we(1) s(2) m]) (use h' gs oth in simp_all)
qed

lemma grow_working:
  fixes E :: "'r env"
  assumes env: "rng_fills E" "digest_lengths E" "aead_correct E"
  shows "working E v0 fid cs (rs @ app) retired pts v \<Longrightarrow>
    grow E H (file_key E (v_container v0) fid) fid (length rs) n app (v, r) = (Inr app', (v', r')) \<Longrightarrow>
    working E v0 fid cs (rs @ app') retired (pts @ replicate n zero_chunk) v' \<and> length app' = length app + n"
proof (induction n arbitrary: app pts v r)
  case (Suc n)
  obtain x v1 r1 g v2 c' r2 where al: "alloc_slot E H 1 (v, r) = (Inr x, (v1, r1))" "alloc_gen v1 = (Inr g, v2)"
    and wr: "write_chunk E (file_key E (v_container v0) fid) fid (of_nat (length rs + length app)) \<lparr>cr_id = x, cr_gen = g\<rparr> zero_chunk (v_container v2, r1) = (Inr (), (c', r2))"
    and rest: "grow E H (file_key E (v_container v0) fid) fid (length rs) n (app @ [\<lparr>cr_id = x, cr_gen = g\<rparr>]) (v2\<lparr>v_container := c'\<rparr>, r2) = (Inr app', (v', r'))"
    using Suc.prems(2) by (auto simp: on_fail_def Let_def fop_simps onK_def split: prod.splits sum.splits)
  have "working E v0 fid cs ((rs @ app) @ [\<lparr>cr_id = x, cr_gen = g\<rparr>]) retired (pts @ [zero_chunk]) (v2\<lparr>v_container := c'\<rparr>)"
    by (rule append_working [OF env _ Suc.prems(1) al]) (use wr in \<open>simp_all add: zero_chunk_def\<close>)
  then have "working E v0 fid cs (rs @ app @ [\<lparr>cr_id = x, cr_gen = g\<rparr>]) retired (pts @ [zero_chunk]) (v2\<lparr>v_container := c'\<rparr>)" by simp
  from Suc.IH [OF this rest] show ?case by simp
qed simp

end
