(* ===== verification/Lbx_Stages.thy ===== *)
theory Lbx_Stages
  imports Lbx_Rewrite
begin

text \<open>
  The stages of \<open>write\<close> and \<open>truncate\<close>: zeroing a range of existing chunks, laying the data over, the size
  header, and the commit of the new chunks to the inode, each described by the bytes it leaves.
\<close>

section \<open>Zeroing a range\<close>

text \<open>The byte at position \<open>p\<close> of the chunks of a file, counted from the start of the first.\<close>

abbreviation byte :: "bytes list \<Rightarrow> nat \<Rightarrow> u8" where
  "byte pts p \<equiv> pts ! (p div 4096) ! (p mod 4096)"

lemma nth_put: "off + length bs \<le> length buf \<Longrightarrow> j < length buf \<Longrightarrow>
   put buf off bs ! j = (if off \<le> j \<and> j < off + length bs then bs ! (j - off) else buf ! j)"
  by (auto simp: put_def nth_append)

lemma byte_update:
  assumes "k < length pts"
  shows "byte (pts[k := pt]) p = (if p div 4096 = k then pt ! (p mod 4096) else byte pts p)"
  using assms by (simp add: nth_list_update)

lemma working_facts:
  assumes "working E v0 fid cs rs retired pts v"
  shows "length pts = length rs" "blocks pts" "frame v0 v" "k < length rs \<Longrightarrow>
    read_chunk E (v_container v) (file_key E (v_container v0) fid) fid (of_nat k) (rs ! k) = Inr pt \<longleftrightarrow> pt = pts ! k"
proof -
  have h: "holds E (v_container v) fid rs pts" and f: "frame v0 v" using assms by (simp_all add: working_def)
  then show "length pts = length rs" "blocks pts" "frame v0 v" by (simp_all add: holds_def)
  have key: "file_key E (v_container v) fid = file_key E (v_container v0) fid" by (rule hdr_same_key(1) [OF frameD(5) [OF f]])
  assume "k < length rs"
  then have "rd_chunk E (v_container v) (data_addr fid k (rs ! k)) = Some (pts ! k)" using h by (simp add: holds_def)
  then show "read_chunk E (v_container v) (file_key E (v_container v0) fid) fid (of_nat k) (rs ! k) = Inr pt \<longleftrightarrow> pt = pts ! k"
    unfolding rd_data key by auto
qed

definition zeroed :: "nat \<Rightarrow> nat \<Rightarrow> nat set \<Rightarrow> bytes list \<Rightarrow> bytes list \<Rightarrow> bool" where
  "zeroed A B K pts pts' \<longleftrightarrow>
     length pts' = length pts
     \<and> (\<forall>p < 4096 * length pts. byte pts' p = (if p div 4096 \<in> K \<and> A \<le> p \<and> p < B then 0 else byte pts p))"

lemma zeroed_refl [simp]: "zeroed A B {} pts pts"
  by (simp add: zeroed_def)

lemma zeroed_trans: "zeroed A B K pts pts1 \<Longrightarrow> zeroed A B L pts1 pts2 \<Longrightarrow> zeroed A B (K \<union> L) pts pts2"
  by (simp add: zeroed_def)

lemma scrub_chunk_working:
  fixes E :: "'r env"
  assumes env: "rng_fills E" "digest_lengths E" "aead_correct E" and k: "k < length rs" "k < 2 ^ 40"
    and w: "working E v0 fid cs rs retired pts v"
    and sc: "scrub_chunk E H (file_key E (v_container v0) fid) fid hide from to k (rs ! k) (v, r) = (Inr res, (v', r'))"
  shows "\<exists>pts'. zeroed (unat from + hdr hide) (unat to + hdr hide) {k} pts pts'
     \<and> working E v0 fid cs (case res of None \<Rightarrow> rs | Some (new, _) \<Rightarrow> rs[k := new])
         (retired @ (case res of None \<Rightarrow> [] | Some (_, old) \<Rightarrow> opt_list old)) pts' v'"
proof -
  let ?A = "unat from + hdr hide" and ?B = "unat to + hdr hide"
  define a b where "a = ?A - 4096 * k" and "b = min ?B (4096 * Suc k) - 4096 * k"
  note f = working_facts [OF w]
  have len: "length (pts ! k) = 4096" by (rule blocks_nth [OF f(2)]) (use f(1) k in simp)
  have b: "b \<le> 4096" by (auto simp: b_def)
  have inside: "(a \<le> p mod 4096 \<and> p mod 4096 < b) \<longleftrightarrow> ?A \<le> p \<and> p < ?B" if "p div 4096 = k" for p
  proof -
    define j where "j = p mod 4096"
    have "p = 4096 * k + j" using that mult_div_mod_eq [of 4096 p] by (simp add: j_def)
    moreover have "j < 4096" by (simp add: j_def)
    ultimately show ?thesis unfolding a_def b_def j_def [symmetric] by auto
  qed
  have none: "zeroed ?A ?B {k} pts pts" if "\<And>j. a \<le> j \<Longrightarrow> j < b \<Longrightarrow> pts ! k ! j = 0"
    unfolding zeroed_def using that inside by auto
  have keep: "?thesis" if "res = None" "v' = v" "\<And>j. a \<le> j \<Longrightarrow> j < b \<Longrightarrow> pts ! k ! j = 0"
    using none [OF that(3)] w that(1,2) by (intro exI [where x = pts]) simp
  have cr: "covered_range hide k from to = Inr (a, b)" unfolding a_def b_def by (rule covered_range_nat [OF k(2)])
  show ?thesis
  proof (cases "b \<le> a")
    case True
    then show ?thesis using sc cr keep by (auto simp: scrub_chunk_def fop_simps)
  next
    case False
    let ?new = "put (pts ! k) a (replicate (b - a) 0)"
    have rest: "(if list_all (\<lambda>x. x = 0) (slice (pts ! k) a (b - a)) then retR None
       else bindR (rewrite_chunk E H (file_key E (v_container v0) fid) fid (of_nat k) (rs ! k) ?new) (\<lambda>res. retR (Some res))) (v, r) = (Inr res, (v', r'))"
      using sc cr False f(4) [OF k(1)] by (auto simp: scrub_chunk_def fop_simps)
    show ?thesis
    proof (cases "list_all (\<lambda>x. x = 0) (slice (pts ! k) a (b - a))")
      case True
      have "pts ! k ! j = 0" if "a \<le> j" "j < b" for j
      proof -
        have "slice (pts ! k) a (b - a) ! (j - a) = 0" using True that len b by (simp add: list_all_length)
        then show ?thesis using that len b by (simp add: nth_slice)
      qed
      then show ?thesis using rest True keep by auto
    next
      case nz: False
      then obtain new old where rw: "rewrite_chunk E H (file_key E (v_container v0) fid) fid (of_nat k) (rs ! k) ?new (v, r) = (Inr (new, old), (v', r'))"
        and res: "res = Some (new, old)" using rest by (auto simp: bindR_eq_Inr)
      have ln: "length ?new = 4096" using len b False by simp
      have "zeroed ?A ?B {k} pts (pts[k := ?new])"
        unfolding zeroed_def byte_update [OF k(1) [folded f(1)]]
      proof (intro conjI allI impI)
        fix p assume "p < 4096 * length pts"
        show "(if p div 4096 = k then ?new ! (p mod 4096) else byte pts p) = (if p div 4096 \<in> {k} \<and> ?A \<le> p \<and> p < ?B then 0 else byte pts p)"
        proof (cases "p div 4096 = k")
          case True
          then show ?thesis using inside [OF True] nth_put [of a "replicate (b - a) 0" "pts ! k" "p mod 4096"] len b False by auto
        qed simp
      qed simp
      then show ?thesis using rewrite_chunk_working [OF env ln k(1) w rw] res by (intro exI [where x = "pts[k := ?new]"]) simp
    qed
  qed
qed

lemma zero_fill_working:
  fixes E :: "'r env"
  assumes env: "rng_fills E" "digest_lengths E" "aead_correct E"
  shows "working E v0 fid cs rs (pre @ retired) pts v \<Longrightarrow> \<forall>k \<in> set ks. k < length rs \<and> k < 2 ^ 40 \<Longrightarrow>
     zero_fill_loop E H (file_key E (v_container v0) fid) fid hide from to ks (rs, retired) (v, r) = (Inr (rs', retired'), (v', r')) \<Longrightarrow>
     \<exists>pts'. zeroed (unat from + hdr hide) (unat to + hdr hide) (set ks) pts pts' \<and> working E v0 fid cs rs' (pre @ retired') pts' v'"
proof (induction ks arbitrary: rs retired pts v r)
  case Nil
  then show ?case by (intro exI [where x = pts]) simp
next
  case (Cons k ks)
  obtain res v1 r1 where sc: "scrub_chunk E H (file_key E (v_container v0) fid) fid hide from to k (rs ! k) (v, r) = (Inr res, (v1, r1))"
    and rest: "zero_fill_loop E H (file_key E (v_container v0) fid) fid hide from to ks
       (case res of None \<Rightarrow> (rs, retired) | Some (new_ref, old) \<Rightarrow> (rs[k := new_ref], retired @ opt_list old)) (v1, r1) = (Inr (rs', retired'), (v', r'))"
    using Cons.prems(3) by (auto simp: bindR_eq_Inr)
  have k: "k < length rs" "k < 2 ^ 40" using Cons.prems(2) by simp_all
  obtain pts1 where p1: "zeroed (unat from + hdr hide) (unat to + hdr hide) {k} pts pts1"
    and w1: "working E v0 fid cs (case res of None \<Rightarrow> rs | Some (new, _) \<Rightarrow> rs[k := new])
         ((pre @ retired) @ (case res of None \<Rightarrow> [] | Some (_, old) \<Rightarrow> opt_list old)) pts1 v1"
    using scrub_chunk_working [OF env k Cons.prems(1) sc] by blast
  define rs1 ret1 where "rs1 = (case res of None \<Rightarrow> rs | Some (new, _) \<Rightarrow> rs[k := new])"
    and "ret1 = retired @ (case res of None \<Rightarrow> [] | Some (_, old) \<Rightarrow> opt_list old)"
  have "length rs1 = length rs" by (simp add: rs1_def split: option.splits prod.splits)
  moreover have "working E v0 fid cs rs1 (pre @ ret1) pts1 v1" using w1 by (simp add: rs1_def ret1_def)
  moreover have "zero_fill_loop E H (file_key E (v_container v0) fid) fid hide from to ks (rs1, ret1) (v1, r1) = (Inr (rs', retired'), (v', r'))"
    using rest by (cases res) (auto simp: rs1_def ret1_def)
  ultimately obtain pts2 where "zeroed (unat from + hdr hide) (unat to + hdr hide) (set ks) pts1 pts2" "working E v0 fid cs rs' (pre @ retired') pts2 v'"
    using Cons.IH [of rs1 ret1 pts1 v1 r1] Cons.prems(2) by auto
  moreover have "set (k # ks) = {k} \<union> set ks" by simp
  ultimately show ?case using zeroed_trans [OF p1] by metis
qed

section \<open>The hole before a write\<close>

lemma apply_updates_snoc [simp]: "apply_updates [] cs = cs" "apply_updates (us @ [(k, cr)]) cs = (apply_updates us cs)[k := cr]"
  by (simp_all add: apply_updates_def)

lemma length_apply_updates [simp]: "length (apply_updates us cs) = length cs"
  by (induction us rule: rev_induct) auto

lemma apply_updates_other: "k \<notin> fst ` set us \<Longrightarrow> apply_updates us cs ! k = cs ! k"
  by (induction us rule: rev_induct) auto

lemma working_chunk_at:
  assumes "working E v0 fid cs rs retired pts v"
  shows "chunk_at v fid k = (if k < length cs then Inr (cs ! k) else Inl panic_oob)"
    "\<exists>j. bt_get (v_inodes v) fid = Some j \<and> i_chunks j = cs"
proof -
  obtain i where i: "frame v0 v" "bt_get (v_inodes v0) fid = Some i" "i_chunks i = cs" using assms unfolding working_def by blast
  show g: "\<exists>j. bt_get (v_inodes v) fid = Some j \<and> i_chunks j = cs"
    using same_tree_getD(2) [OF frameD(1) [OF i(1)] i(2)] data_sameD(6) i(3) by fastforce
  then show "chunk_at v fid k = (if k < length cs then Inr (cs ! k) else Inl panic_oob)" by (auto simp: chunk_at_def)
qed

lemma scrub_gap_working:
  fixes E :: "'r env"
  assumes env: "rng_fills E" "digest_lengths E" "aead_correct E"
  shows "working E v0 fid cs (apply_updates us cs @ app) retired pts v \<Longrightarrow> \<forall>k \<in> set ks. k < length cs \<and> k < 2 ^ 40 \<and> k \<notin> fst ` set us \<Longrightarrow>
     distinct ks \<Longrightarrow>
     scrub_gap E H (file_key E (v_container v0) fid) fid hide from to ks (us, retired) (v, r) = (Inr (us', retired'), (v', r')) \<Longrightarrow>
     \<exists>pts'. zeroed (unat from + hdr hide) (unat to + hdr hide) (set ks) pts pts' \<and> fst ` set us' \<subseteq> fst ` set us \<union> set ks
        \<and> working E v0 fid cs (apply_updates us' cs @ app) retired' pts' v'"
proof (induction ks arbitrary: us retired pts v r)
  case Nil
  then show ?case by (intro exI [where x = pts]) simp
next
  case (Cons k ks)
  let ?rs = "apply_updates us cs @ app"
  have k: "k < length cs" "k < 2 ^ 40" "k \<notin> fst ` set us" using Cons.prems(2) by simp_all
  have rk: "?rs ! k = cs ! k" "k < length ?rs" using k by (simp_all add: nth_append apply_updates_other)
  obtain res v1 r1 where sc: "scrub_chunk E H (file_key E (v_container v0) fid) fid hide from to k (?rs ! k) (v, r) = (Inr res, (v1, r1))"
    and rest: "scrub_gap E H (file_key E (v_container v0) fid) fid hide from to ks
       (case res of None \<Rightarrow> (us, retired) | Some (new_ref, old) \<Rightarrow> (us @ [(k, new_ref)], retired @ opt_list old)) (v1, r1) = (Inr (us', retired'), (v', r'))"
    using Cons.prems(4) working_chunk_at(1) [OF Cons.prems(1), of k] k(1) rk(1) by (auto simp: fop_simps)
  obtain pts1 where p1: "zeroed (unat from + hdr hide) (unat to + hdr hide) {k} pts pts1"
    and w1: "working E v0 fid cs (case res of None \<Rightarrow> ?rs | Some (new, _) \<Rightarrow> ?rs[k := new])
         (retired @ (case res of None \<Rightarrow> [] | Some (_, old) \<Rightarrow> opt_list old)) pts1 v1"
    using scrub_chunk_working [OF env rk(2) k(2) Cons.prems(1) sc] by blast
  define us1 ret1 where "us1 = (case res of None \<Rightarrow> us | Some (new, _) \<Rightarrow> us @ [(k, new)])"
    and "ret1 = retired @ (case res of None \<Rightarrow> [] | Some (_, old) \<Rightarrow> opt_list old)"
  have sub: "fst ` set us1 \<subseteq> insert k (fst ` set us)" by (auto simp: us1_def split: option.splits)
  have "working E v0 fid cs (apply_updates us1 cs @ app) ret1 pts1 v1"
    using w1 k(1) by (cases res) (auto simp: us1_def ret1_def list_update_append1)
  moreover have "scrub_gap E H (file_key E (v_container v0) fid) fid hide from to ks (us1, ret1) (v1, r1) = (Inr (us', retired'), (v', r'))"
    using rest by (cases res) (auto simp: us1_def ret1_def)
  moreover have "\<forall>k \<in> set ks. k < length cs \<and> k < 2 ^ 40 \<and> k \<notin> fst ` set us1" using Cons.prems(2,3) sub by auto
  ultimately obtain pts2 where z: "zeroed (unat from + hdr hide) (unat to + hdr hide) (set ks) pts1 pts2"
    and "fst ` set us' \<subseteq> fst ` set us1 \<union> set ks" "working E v0 fid cs (apply_updates us' cs @ app) retired' pts2 v'"
    using Cons.IH [of us1 ret1 pts1 v1 r1] Cons.prems(3) by auto
  moreover have "set (k # ks) = {k} \<union> set ks" by simp
  ultimately show ?case using zeroed_trans [OF p1 z] sub by (intro exI [where x = pts2]) auto
qed

section \<open>Overwriting a range\<close>

text \<open>
  The byte at position \<open>p\<close> after a write of \<open>buf\<close> at \<open>A\<close> to a file whose data ended at \<open>O0\<close>, where
  \<open>f\<close> gives the bytes before. Only the first chunk it touches has its share of the hole zeroed here.
\<close>

definition overlaid :: "bool \<Rightarrow> u64 \<Rightarrow> nat \<Rightarrow> nat \<Rightarrow> nat \<Rightarrow> nat \<Rightarrow> bytes \<Rightarrow> (nat \<Rightarrow> u8) \<Rightarrow> nat \<Rightarrow> u8" where
  "overlaid hide new_real first cur_len O0 A buf f p =
     (if hide \<and> p < 8 then u64_to_le new_real ! p
      else if A \<le> p \<and> p < A + length buf then buf ! (p - A)
      else if p div 4096 = first \<and> first < cur_len \<and> O0 \<le> p \<and> p < A then 0
      else f p)"

lemma patched_bytes:
  assumes k: "k < 2 ^ 40" and len: "length pt = 4096" and A: "A = unat offset + hdr hide" and O0: "O0 = unat old_real + hdr hide"
    and r: "4096 * k < A + length buf" "A < 4096 * Suc k"
    and a: "a = A - 4096 * k" and b: "b = min (A + length buf) (4096 * Suc k) - 4096 * k"
    and p: "patched hide k first cur_len old_real offset new_real a b (slice buf (4096 * k - A) (b - a)) pt = Inr pt'"
  shows "length pt' = 4096" "p div 4096 = k \<Longrightarrow> pt' ! (p mod 4096) = overlaid hide new_real first cur_len O0 A buf (\<lambda>p. pt ! (p mod 4096)) p"
proof -
  let ?data = "slice buf (4096 * k - A) (b - a)"
  have ab: "a \<le> b" "b \<le> 4096" "a < 4096" using a b r by auto
  have inb: "4096 * k - A + (b - a) \<le> length buf" using a b r by auto
  have ld: "length ?data = b - a" using inb by simp
  define pt1 where "pt1 = (if k = first \<and> k < cur_len \<and> old_real < offset \<and> O0 - 4096 * k < a
     then put pt (O0 - 4096 * k) (replicate (a - (O0 - 4096 * k)) 0) else pt)"
  have pt1: "length pt1 = 4096"
    using len ab length_put [of "O0 - 4096 * k" "replicate (a - (O0 - 4096 * k)) 0" pt] by (auto simp: pt1_def)
  have cr: "covered_range hide k old_real offset = Inr (O0 - 4096 * k, min A (4096 * Suc k) - 4096 * k)"
    unfolding A O0 by (rule covered_range_nat [OF k])
  have pt': "pt' = (if hide \<and> k = 0 then install_size_header (put pt1 a ?data) new_real else put pt1 a ?data)"
    using p cr by (auto simp: patched_def pt1_def Let_def split: if_splits)
  have lp: "length (put pt1 a ?data) = 4096" using pt1 ld ab by simp
  define q where "q = put pt1 a ?data"
  have q: "length q = 4096" "pt' = (if hide \<and> k = 0 then put q 0 (u64_to_le new_real) else q)"
    using lp pt' by (simp_all add: q_def install_size_header_def)
  show "length pt' = 4096" using q by simp
  assume pk: "p div 4096 = k"
  define j where "j = p mod 4096"
  have pj: "p = 4096 * k + j" using pk mult_div_mod_eq [of 4096 p] by (simp add: j_def)
  have j: "j < 4096" by (simp add: j_def)
  have old: "old_real < offset \<longleftrightarrow> O0 < A" by (simp add: A O0 word_less_nat_alt)
  have n1: "pt1 ! j = (if k = first \<and> k < cur_len \<and> O0 \<le> p \<and> p < A then 0 else pt ! j)"
    using nth_put [of "O0 - 4096 * k" "replicate (a - (O0 - 4096 * k)) 0" pt j] len ab j old
    unfolding pt1_def pj a by auto
  have "put pt1 a ?data ! j = (if a \<le> j \<and> j < b then ?data ! (j - a) else pt1 ! j)"
    using nth_put [of a ?data pt1 j] pt1 ld ab j by auto
  also have "\<dots> = (if A \<le> p \<and> p < A + length buf then buf ! (p - A) else pt1 ! j)"
  proof (cases "a \<le> j \<and> j < b")
    case True
    then have "?data ! (j - a) = buf ! (4096 * k - A + (j - a))" using inb by (intro nth_slice) auto
    moreover have "A \<le> p \<and> p < A + length buf" "4096 * k - A + (j - a) = p - A" using True unfolding pj a b by auto
    ultimately show ?thesis using True by simp
  next
    case False
    then have "\<not> (A \<le> p \<and> p < A + length buf)" using j unfolding pj a b by auto
    then show ?thesis using False by (auto split: if_splits)
  qed
  finally have n2: "put pt1 a ?data ! j = (if A \<le> p \<and> p < A + length buf then buf ! (p - A) else pt1 ! j)" .
  have n3: "pt' ! j = (if hide \<and> p < 8 then u64_to_le new_real ! p else q ! j)"
  proof (cases "hide \<and> k = 0")
    case True
    then show ?thesis using nth_put [of 0 "u64_to_le new_real" q j] q j pj by auto
  next
    case False
    then show ?thesis using pj q(2) by auto
  qed
  show "pt' ! (p mod 4096) = overlaid hide new_real first cur_len O0 A buf (\<lambda>p. pt ! (p mod 4096)) p"
    unfolding j_def [symmetric] n3 q_def n2 n1 overlaid_def using pk by (auto simp: j_def)
qed

section \<open>The chunks a write covers\<close>

definition ws_refs :: "ChunkRef list \<Rightarrow> WriteState \<Rightarrow> ChunkRef list" where
  "ws_refs cs ws = apply_updates (ws_updates ws) cs @ ws_appended ws"

lemma ws_refs_nth:
  "k < length cs \<Longrightarrow> k \<notin> fst ` set (ws_updates ws) \<Longrightarrow> ws_refs cs ws ! k = cs ! k"
  "length cs \<le> k \<Longrightarrow> ws_refs cs ws ! k = ws_appended ws ! (k - length cs)"
  by (simp_all add: ws_refs_def nth_append apply_updates_other)

text \<open>One chunk: an old one goes through the copy-on-write path, one that this write appended is overwritten.\<close>

definition put_back :: "'r env \<Rightarrow> Host \<Rightarrow> bytes \<Rightarrow> u64 \<Rightarrow> nat \<Rightarrow> nat \<Rightarrow> ChunkRef \<Rightarrow> bytes \<Rightarrow> WriteState \<Rightarrow> ('r, WriteState) fop" where
  "put_back E H key fid cur_len k cur pt ws =
     (if k < cur_len
      then bindR (rewrite_chunk E H key fid (of_nat k) cur pt) (\<lambda>(new_ref, old).
        retR (ws\<lparr>ws_updates := ws_updates ws @ [(k, new_ref)], ws_retired := ws_retired ws @ opt_list old\<rparr>))
      else bindR (rewrite_in_place E key fid (of_nat k) cur pt) (\<lambda>new_ref.
        retR (ws\<lparr>ws_appended := (ws_appended ws)[k - cur_len := new_ref]\<rparr>)))"

lemma put_back_working:
  fixes E :: "'r env"
  assumes env: "rng_fills E" "digest_lengths E" "aead_correct E" and pt: "length pt = 4096" and k: "k < length (ws_refs cs ws)"
    and w: "working E v0 fid cs (ws_refs cs ws) (ws_retired ws) pts v"
    and pb: "put_back E H (file_key E (v_container v0) fid) fid (length cs) k (ws_refs cs ws ! k) pt ws (v, r) = (Inr ws', (v', r'))"
  shows "working E v0 fid cs (ws_refs cs ws') (ws_retired ws') (pts[k := pt]) v'" "length (ws_appended ws') = length (ws_appended ws)"
    "fst ` set (ws_updates ws') \<subseteq> insert k (fst ` set (ws_updates ws))" "ws_buf_pos ws' = ws_buf_pos ws"
proof -
  let ?key = "file_key E (v_container v0) fid"
  have "working E v0 fid cs (ws_refs cs ws') (ws_retired ws') (pts[k := pt]) v' \<and> length (ws_appended ws') = length (ws_appended ws)
    \<and> fst ` set (ws_updates ws') \<subseteq> insert k (fst ` set (ws_updates ws)) \<and> ws_buf_pos ws' = ws_buf_pos ws"
  proof (cases "k < length cs")
    case True
    then obtain new old where rw: "rewrite_chunk E H ?key fid (of_nat k) (ws_refs cs ws ! k) pt (v, r) = (Inr (new, old), (v', r'))"
      and ws': "ws' = ws\<lparr>ws_updates := ws_updates ws @ [(k, new)], ws_retired := ws_retired ws @ opt_list old\<rparr>"
      using pb by (auto simp: put_back_def bindR_eq_Inr)
    have "ws_refs cs ws' = (ws_refs cs ws)[k := new]" using True by (simp add: ws' ws_refs_def list_update_append1)
    then show ?thesis using rewrite_chunk_working [OF env pt k w rw] by (auto simp: ws')
  next
    case False
    then obtain new where rw: "rewrite_in_place E ?key fid (of_nat k) (ws_refs cs ws ! k) pt (v, r) = (Inr new, (v', r'))"
      and ws': "ws' = ws\<lparr>ws_appended := (ws_appended ws)[k - length cs := new]\<rparr>"
      using pb by (auto simp: put_back_def bindR_eq_Inr)
    have "ws_refs cs ws' = (ws_refs cs ws)[k := new]" using False by (simp add: ws' ws_refs_def list_update_append)
    then show ?thesis using rewrite_in_place_working [OF env pt k w rw] by (auto simp: ws')
  qed
  then show "working E v0 fid cs (ws_refs cs ws') (ws_retired ws') (pts[k := pt]) v'" "length (ws_appended ws') = length (ws_appended ws)"
    "fst ` set (ws_updates ws') \<subseteq> insert k (fst ` set (ws_updates ws))" "ws_buf_pos ws' = ws_buf_pos ws" by blast+
qed

definition changed_on :: "nat set \<Rightarrow> ((nat \<Rightarrow> u8) \<Rightarrow> nat \<Rightarrow> u8) \<Rightarrow> bytes list \<Rightarrow> bytes list \<Rightarrow> bool" where
  "changed_on K F pts pts' \<longleftrightarrow>
     length pts' = length pts
     \<and> (\<forall>p < 4096 * length pts. byte pts' p = (if p div 4096 \<in> K then F (byte pts) p else byte pts p))"

lemma overlaid_cong: "f p = g p \<Longrightarrow> overlaid hide nr first cl O0 A buf f p = overlaid hide nr first cl O0 A buf g p"
  by (simp add: overlaid_def)

lemma write_loop_working:
  fixes E :: "'r env"
  assumes env: "rng_fills E" "digest_lengths E" "aead_correct E"
    and A: "A = unat offset + hdr hide" "unat new_end + hdr hide = A + length buf" and O0: "O0 = unat old_real + hdr hide"
    and buf: "buf \<noteq> []" and first: "first = A div 4096" and last: "lst = (A + length buf - 1) div 4096" "lst < 2 ^ 40"
    and cov: "\<And>k. first \<le> k \<Longrightarrow> k \<le> lst \<Longrightarrow> k < length cs \<Longrightarrow> covered ! (k - first) = cs ! k"
  shows "working E v0 fid cs (ws_refs cs ws) (ws_retired ws) pts v \<Longrightarrow> lst < length cs + length (ws_appended ws) \<Longrightarrow> first \<le> n \<Longrightarrow> n \<le> Suc lst \<Longrightarrow>
     \<forall>k \<in> fst ` set (ws_updates ws). k < n \<Longrightarrow> (n \<le> lst \<longrightarrow> ws_buf_pos ws = 4096 * n - A) \<Longrightarrow>
     write_loop E H (file_key E (v_container v0) fid) fid hide old_real offset new_end new_real (length cs) first covered buf [n..<Suc lst] ws (v, r)
       = (Inr ws', (v', r')) \<Longrightarrow>
     \<exists>pts'. changed_on {n..lst} (overlaid hide new_real first (length cs) O0 A buf) pts pts'
        \<and> working E v0 fid cs (ws_refs cs ws') (ws_retired ws') pts' v' \<and> length (ws_appended ws') = length (ws_appended ws)
        \<and> fst ` set (ws_updates ws') \<subseteq> fst ` set (ws_updates ws) \<union> {n..lst}"
proof (induction "Suc lst - n" arbitrary: n ws pts v r)
  case 0
  then have "n = Suc lst" by simp
  then show ?case using 0 by (intro exI [where x = pts]) (simp add: changed_on_def)
next
  case (Suc m)
  let ?key = "file_key E (v_container v0) fid" and ?W = "overlaid hide new_real first (length cs) O0 A buf"
  define a b where "a = A - 4096 * n" and "b = min (A + length buf) (4096 * Suc n) - 4096 * n"
  have n: "n \<le> lst" using Suc.hyps(2) by simp
  then have ks: "[n..<Suc lst] = n # [Suc n..<Suc lst]" by (simp add: upt_conv_Cons)
  have cr: "covered_range hide n offset new_end = Inr (a, b)"
    using covered_range_nat [of n hide offset new_end] n last(2) A by (simp add: a_def b_def)
  have lst_le: "4096 * lst \<le> A + length buf - 1" "A + length buf - 1 < 4096 * Suc lst" unfolding last(1) by simp_all
  have r: "4096 * n < A + length buf" "A < 4096 * Suc n"
  proof -
    have "0 < length buf" using buf by simp
    moreover have "4096 * n \<le> 4096 * lst" using n by simp
    ultimately show "4096 * n < A + length buf" using lst_le(1) by linarith
    have "A < 4096 * Suc (A div 4096)" by simp
    then show "A < 4096 * Suc n" using Suc.prems(3) unfolding first by (meson Suc_le_mono less_le_trans mult_le_mono2)
  qed
  have nlen: "n < length (ws_refs cs ws)" using n Suc.prems(2) by (simp add: ws_refs_def)
  define cur where "cur = (if n < length cs then covered ! (n - first) else ws_appended ws ! (n - length cs))"
  have cur: "cur = ws_refs cs ws ! n"
  proof (cases "n < length cs")
    case True
    then have "n \<notin> fst ` set (ws_updates ws)" using Suc.prems(5) by blast
    then show ?thesis using ws_refs_nth(1) [OF True] cov [OF Suc.prems(3) n True] True by (simp add: cur_def)
  next
    case False
    then show ?thesis using ws_refs_nth(2) [of cs n ws] by (simp add: cur_def)
  qed
  note f = working_facts [OF Suc.prems(1)]
  have pos: "ws_buf_pos ws = 4096 * n - A" using Suc.prems(6) n by blast
  obtain pt' ws1 v1 r1 where pp: "patched hide n first (length cs) old_real offset new_real a b (slice buf (4096 * n - A) (b - a)) (pts ! n) = Inr pt'"
    and pb: "put_back E H ?key fid (length cs) n (ws_refs cs ws ! n) pt' ws (v, r) = (Inr ws1, (v1, r1))"
    and rest: "write_loop E H ?key fid hide old_real offset new_end new_real (length cs) first covered buf [Suc n..<Suc lst]
       (ws1\<lparr>ws_buf_pos := ws_buf_pos ws1 + (b - a)\<rparr>) (v1, r1) = (Inr ws', (v', r'))"
    using Suc.prems(7) unfolding ks write_loop.simps cr put_back_def [symmetric] cur_def [symmetric] Let_def cur pos
    by (auto simp: fop_simps f(4) [OF nlen])
  have len: "length (pts ! n) = 4096" by (rule blocks_nth [OF f(2)]) (use f(1) nlen in simp)
  have n40: "n < 2 ^ 40" using n last(2) by simp
  note pat = patched_bytes [OF n40 len A(1) O0 r a_def b_def pp]
  note w1 = put_back_working [OF env pat(1) nlen Suc.prems(1) pb]
  define ws2 where "ws2 = ws1\<lparr>ws_buf_pos := ws_buf_pos ws1 + (b - a)\<rparr>"
  have refs2: "ws_refs cs ws2 = ws_refs cs ws1" by (simp add: ws2_def ws_refs_def)
  have "m = Suc lst - Suc n" using Suc.hyps(2) by simp
  moreover have "working E v0 fid cs (ws_refs cs ws2) (ws_retired ws2) (pts[n := pt']) v1" using w1(1) by (simp add: refs2) (simp add: ws2_def)
  moreover have "lst < length cs + length (ws_appended ws2)" using Suc.prems(2) w1(2) by (simp add: ws2_def)
  moreover have "\<forall>k \<in> fst ` set (ws_updates ws2). k < Suc n"
  proof -
    have "\<forall>k \<in> insert n (fst ` set (ws_updates ws)). k < Suc n" using Suc.prems(5) by auto
    moreover have "ws_updates ws2 = ws_updates ws1" by (simp add: ws2_def)
    ultimately show ?thesis using w1(3) by (metis subsetD)
  qed
  moreover have "Suc n \<le> lst \<longrightarrow> ws_buf_pos ws2 = 4096 * Suc n - A"
  proof
    assume "Suc n \<le> lst"
    then have "4096 * Suc n \<le> 4096 * lst" by (rule mult_le_mono2)
    moreover have "0 < length buf" using buf by simp
    ultimately have "4096 * Suc n < A + length buf" using lst_le(1) by linarith
    then show "ws_buf_pos ws2 = 4096 * Suc n - A" using w1(4) pos r unfolding ws2_def a_def b_def by auto
  qed
  ultimately obtain pts' where ch: "changed_on {Suc n..lst} ?W (pts[n := pt']) pts'"
    and w': "working E v0 fid cs (ws_refs cs ws') (ws_retired ws') pts' v'" "length (ws_appended ws') = length (ws_appended ws2)"
    "fst ` set (ws_updates ws') \<subseteq> fst ` set (ws_updates ws2) \<union> {Suc n..lst}"
    using Suc.hyps(1) [of "Suc n" ws2 "pts[n := pt']" v1 r1] Suc.prems(3) n rest [folded ws2_def] by auto
  have nl: "n < length pts" using nlen f(1) by simp
  have "changed_on {n..lst} ?W pts pts'"
    unfolding changed_on_def
  proof (intro conjI allI impI)
    show "length pts' = length pts" using ch by (simp add: changed_on_def)
    fix p assume p: "p < 4096 * length pts"
    have c: "byte pts' p = (if p div 4096 \<in> {Suc n..lst} then ?W (byte (pts[n := pt'])) p else byte (pts[n := pt']) p)"
      using ch p by (simp add: changed_on_def)
    show "byte pts' p = (if p div 4096 \<in> {n..lst} then ?W (byte pts) p else byte pts p)"
    proof (cases "p div 4096 = n")
      case True
      then have "byte pts' p = pt' ! (p mod 4096)" using c byte_update [OF nl, of pt' p] by simp
      then show ?thesis using pat(2) [OF True] True n overlaid_cong [of "\<lambda>p. pts ! n ! (p mod 4096)" p "byte pts"] by simp
    next
      case False
      then have "byte (pts[n := pt']) p = byte pts p" by (simp add: byte_update [OF nl])
      then show ?thesis using c False overlaid_cong [of "byte (pts[n := pt'])" p "byte pts"] by auto
    qed
  qed
  moreover have "fst ` set (ws_updates ws') \<subseteq> fst ` set (ws_updates ws) \<union> {n..lst}"
  proof -
    have "fst ` set (ws_updates ws') \<subseteq> insert n (fst ` set (ws_updates ws)) \<union> {Suc n..lst}" using w'(3) w1(3) by (simp add: ws2_def) blast
    moreover have "insert n {Suc n..lst} = {n..lst}" using n by auto
    ultimately show ?thesis by blast
  qed
  ultimately show ?case using w'(1,2) w1(2) by (intro exI [where x = pts']) (simp add: ws2_def)
qed

section \<open>The size header\<close>

lemma find_update:
  assumes "0 < length cs"
  shows "find (\<lambda>(i, _). i = 0) (rev us) = Some p \<Longrightarrow> apply_updates us cs ! 0 = snd p"
    "find (\<lambda>(i, _). i = 0) (rev us) = None \<longleftrightarrow> 0 \<notin> fst ` set us"
proof -
  show "find (\<lambda>(i, _). i = 0) (rev us) = Some p \<Longrightarrow> apply_updates us cs ! 0 = snd p"
  proof (induction us rule: rev_induct)
    case (snoc u us)
    then show ?case using assms by (cases u) (auto split: if_splits)
  qed simp
  show "find (\<lambda>(i, _). i = 0) (rev us) = None \<longleftrightarrow> 0 \<notin> fst ` set us"
    by (force simp: find_None_iff)
qed

lemma refresh_working:
  fixes E :: "'r env"
  assumes env: "rng_fills E" "digest_lengths E" "aead_correct E" and ne: "0 < length (ws_refs cs ws)"
    and us: "0 \<in> fst ` set (ws_updates ws) \<Longrightarrow> cs \<noteq> []"
    and w: "working E v0 fid cs (ws_refs cs ws) (ws_retired ws) pts v"
    and rf: "refresh_size_header E H (file_key E (v_container v0) fid) fid new_real (length cs) ws (v, r) = (Inr ws', (v', r'))"
  shows "working E v0 fid cs (ws_refs cs ws') (ws_retired ws') (pts[0 := put (pts ! 0) 0 (u64_to_le new_real)]) v'"
    "length (ws_appended ws') = length (ws_appended ws)"
proof -
  let ?key = "file_key E (v_container v0) fid"
  note f = working_facts [OF w]
  have len: "length (pts ! 0) = 4096" by (rule blocks_nth [OF f(2)]) (use f(1) ne in simp)
  define pick :: "('r, ChunkRef) fop" where "pick = (case find (\<lambda>(i, _). i = 0) (rev (ws_updates ws)) of
              Some (_, r) \<Rightarrow> retR r
            | None \<Rightarrow>
                if 0 < length cs then onV (readV (\<lambda>v. chunk_at v fid 0))
                else (case ws_appended ws of [] \<Rightarrow> failR panic_oob | r # _ \<Rightarrow> retR r))"
  have pick: "cur = ws_refs cs ws ! 0 \<and> u = (v, r)" if p: "pick (v, r) = (Inr cur, u)" for cur u
  proof (cases "cs = []")
    case True
    then have "0 \<notin> fst ` set (ws_updates ws)" using us by blast
    then have n: "find (\<lambda>(i, _). i = 0) (rev (ws_updates ws)) = None" by (force simp: find_None_iff)
    obtain x xs where x: "ws_appended ws = x # xs" using ne True by (cases "ws_appended ws") (auto simp: ws_refs_def)
    have a: "apply_updates (ws_updates ws) [] = []" using length_apply_updates [of "ws_updates ws" "[]"] by (simp only: list.size(3) length_0_conv)
    show ?thesis using p n x True a by (simp add: pick_def ws_refs_def)
  next
    case False
    then have l: "0 < length cs" by simp
    show ?thesis
    proof (cases "find (\<lambda>(i, _). i = 0) (rev (ws_updates ws))")
      case None
      then have "0 \<notin> fst ` set (ws_updates ws)" using find_update(2) [OF l] by blast
      then show ?thesis using p None l ws_refs_nth(1) [OF l, of ws] working_chunk_at(1) [OF w, of 0]
        by (cases u) (simp add: pick_def fop_simps)
    next
      case (Some q)
      have "ws_refs cs ws ! 0 = snd q" using find_update(1) [OF l Some] l by (simp add: ws_refs_def nth_append)
      then show ?thesis using p Some by (cases q) (simp add: pick_def)
    qed
  qed
  have z: "(of_nat 0 :: u32) = 0" by simp
  have rf': "bindR pick (\<lambda>cur0. bindR (onV (readV (\<lambda>v. read_chunk E (v_container v) ?key fid 0 cur0))) (\<lambda>pt.
     put_back E H ?key fid (length cs) 0 cur0 (install_size_header pt new_real) ws)) (v, r) = (Inr ws', (v', r'))"
    using rf unfolding refresh_size_header_def pick_def [symmetric] put_back_def Let_def z diff_0_eq_0 .
  then obtain pt where rd: "read_chunk E (v_container v) ?key fid 0 (ws_refs cs ws ! 0) = Inr pt"
    and pb: "put_back E H ?key fid (length cs) 0 (ws_refs cs ws ! 0) (install_size_header pt new_real) ws (v, r) = (Inr ws', (v', r'))"
    by (auto simp: fop_simps dest!: pick)
  have pt: "pt = pts ! 0" using f(4) [OF ne, of pt] rd by simp
  have pb0: "put_back E H ?key fid (length cs) 0 (ws_refs cs ws ! 0) (put (pts ! 0) 0 (u64_to_le new_real)) ws (v, r) = (Inr ws', (v', r'))"
    using pb unfolding install_size_header_def pt .
  have ln: "length (put (pts ! 0) 0 (u64_to_le new_real)) = 4096" using len by simp
  show "working E v0 fid cs (ws_refs cs ws') (ws_retired ws') (pts[0 := put (pts ! 0) 0 (u64_to_le new_real)]) v'"
    "length (ws_appended ws') = length (ws_appended ws)"
    using put_back_working(1,2) [OF env ln ne w pb0] by blast+
qed

section \<open>Contents that stay\<close>

lemma sys_cached:
  assumes c: "cached_only v v'" and s: "sys E R v"
  shows "sys E R v'"
proof -
  note d = cached_onlyD [OF c] and s1 = sysD [OF s]
  note g = same_tree_getD(1) [OF d(14)]
  have "inode_ok (v_hide v) j" if gk: "bt_get (v_inodes v') k = Some j" for k j
  proof -
    obtain i where i: "bt_get (v_inodes v) k = Some i" "forget_cache j = forget_cache i" using g [OF gk] by blast
    show ?thesis using forget_cacheD(8) [OF i(2)] ns_coreD(4) [OF s1(1) i(1)] by simp
  qed
  then have ns: "ns_core (v_hide v') (v_inodes v')" using ns_core_same [OF d(15) s1(1)] unfolding d(1) by blast
  have sl: "slots (v_inodes v') = slots (v_inodes v)"
    unfolding slots_def by (rule same_tree_total [OF d(14)], drule forget_cacheD(7), simp)
  have gens: "cr_gen cr \<noteq> 0 \<and> cr_gen cr < next_chunk_gen (v_tree v)" if gk: "bt_get (v_inodes v') k = Some j" "cr \<in> set (inode_refs j)" for k j cr
  proof -
    obtain i where i: "bt_get (v_inodes v) k = Some i" "forget_cache j = forget_cache i" using g [OF gk(1)] by blast
    then show ?thesis using s1(2) gk(2) forget_cacheD(7) [OF i(2)] unfolding acct_def by metis
  qed
  have ac: "acct R v'"
    using s1(2) gens unfolding acct_def used_def sl d(2,9,10,11) by blast
  have ch: "chain_good E (v_container v) k j" if gk: "bt_get (v_inodes v') k = Some j" "i_external_list_blocks j \<noteq> []" "k \<notin> v_chunks_dirty v" for k j
  proof -
    obtain i where i: "bt_get (v_inodes v) k = Some i" "forget_cache j = forget_cache i" using g [OF gk(1)] by blast
    show ?thesis using s1(3) i(1) gk(2,3) unfolding disk_inv_def chains_ok_def chain_good_def forget_cacheD(1,4) [OF i(2)] by blast
  qed
  have v2: "i_external_list_blocks j = []" if gk: "v_format v = V2" "bt_get (v_inodes v') k = Some j" for k j
  proof -
    obtain i where i: "bt_get (v_inodes v) k = Some i" "forget_cache j = forget_cache i" using g [OF gk(2)] by blast
    show ?thesis using s1(3) i(1) gk(1) unfolding disk_inv_def forget_cacheD(4) [OF i(2)] by blast
  qed
  have "disk_inv E v'" using s1(3) ch v2 unfolding disk_inv_def chains_ok_def d(1,3,5,6) by blast
  then show ?thesis using ns ac by (simp add: sys_def)
qed

lemma data_same_size: "data_same i j \<Longrightarrow> size_in hide j pts = size_in hide i pts"
  by (rule size_in_cong) (rule data_sameD(4))

text \<open>A file keeps its contents when its slots stay readable.\<close>

lemma file_frame:
  assumes fr: "frame v v'" and s: "safe E S (v_container v) (v_container v')" and ns: "ns_core (v_hide v) (v_inodes v)"
    and fo: "files_ok E v" and sub: "\<And>i. bt_get (v_inodes v) k = Some i \<Longrightarrow> cr_id ` set (i_chunks i) \<subseteq> S"
  shows "content E v' k = content E v k"
    "bt_get (v_inodes v') k = Some j \<Longrightarrow> i_kind j = File \<Longrightarrow> file_ok E (v_container v') (v_hide v') k j"
proof -
  note st = frameD(1) [OF fr] and hide = frameD(4) [OF fr]
  have both: "content E v' k = content E v k \<and> (i_kind j = File \<longrightarrow> file_ok E (v_container v') (v_hide v') k j)"
    if j: "bt_get (v_inodes v') k = Some j" for j
  proof -
    obtain i where i: "bt_get (v_inodes v) k = Some i" "data_same i j" using same_tree_getD(1) [OF st j] by blast
    note ds = data_sameD [OF i(2)]
    show ?thesis
    proof (cases "i_kind i = File")
      case True
      then have "file_ok E (v_container v) (v_hide v) k i" using fo i(1) by (simp add: files_ok_def)
      then obtain pts where p: "holds E (v_container v) k (i_chunks i) pts" "plain E (v_container v) k (i_chunks i) = pts" "length pts < 2 ^ 40"
        "unat (size_in (v_hide v) i pts) \<le> 2 ^ 44" "size_in (v_hide v) i pts \<noteq> 0 \<longrightarrow> unat (size_in (v_hide v) i pts) + hdr (v_hide v) \<le> 4096 * length pts"
        "v_hide v \<longrightarrow> (\<forall>s. i_cached_real_size i = Some s \<longrightarrow> s = size_in (v_hide v) i pts)"
        by (rule file_okE)
      have h: "holds E (v_container v') k (i_chunks j) pts" unfolding ds(6) by (rule holds_safe [OF p(1) s sub [OF i(1)]])
      have sz: "size_in (v_hide v') j pts = size_in (v_hide v) i pts" unfolding hide by (rule data_same_size [OF i(2)])
      have "content E v' k = content E v k"
        using i(1) j p(2) holds_plain [OF h] sz hide by (simp add: content_def Let_def)
      moreover have "file_ok E (v_container v') (v_hide v') k j"
        by (rule file_okI [OF h p(3) sz p(4)]) (use p(5,6) hide ds(8) in simp_all)
      ultimately show ?thesis by simp
    next
      case False
      have "i_chunks i = []" using ns_coreD(4) [OF ns i(1)] False by (cases "i_kind i") (simp_all add: inode_ok_def inode_refs_def)
      then have "content E v' k = content E v k" using i(1) j ds(6) by (simp add: content_def plain_def bytes_in_def)
      then show ?thesis using False ds(3) by simp
    qed
  qed
  show "content E v' k = content E v k"
  proof (cases "bt_get (v_inodes v') k")
    case None
    then show ?thesis using same_tree_getD(3) [OF st, of k] by (simp add: content_def)
  qed (use both in blast)
  show "bt_get (v_inodes v') k = Some j \<Longrightarrow> i_kind j = File \<Longrightarrow> file_ok E (v_container v') (v_hide v') k j" using both by blast
qed

section \<open>Committing the new chunks\<close>

lemma committed_simps [simp]:
  "v_inodes (committed hide now fid sz rs ret v) = bt_modify fid (commit_inode hide now sz rs) (v_inodes v)"
  "v_container (committed hide now fid sz rs ret v) = v_container v" "v_format (committed hide now fid sz rs ret v) = v_format v"
  "v_max_vault_size (committed hide now fid sz rs ret v) = v_max_vault_size v"
  "v_tolerated_inodes (committed hide now fid sz rs ret v) = v_tolerated_inodes v"
  "v_chunks_dirty (committed hide now fid sz rs ret v) = insert fid (v_chunks_dirty v)"
  "t_root (v_tree (committed hide now fid sz rs ret v)) = t_root (v_tree v)"
  "next_file_id (v_tree (committed hide now fid sz rs ret v)) = next_file_id (v_tree v)"
  by (simp_all add: committed_def on_inodes_def)

lemma commit_inode_simps [simp]:
  "i_chunks (commit_inode hide now sz rs i) = rs" "i_external_list_blocks (commit_inode hide now sz rs i) = i_external_list_blocks i"
  "i_kind (commit_inode hide now sz rs i) = i_kind i" "names_same i (commit_inode hide now sz rs i)"
  "inode_refs (commit_inode hide now sz rs i) = rs @ i_external_list_blocks i"
  by (simp_all add: commit_inode_def names_same_def inode_refs_def)

lemma commit_inode_ok:
  assumes i: "inode_ok hide i" "i_kind i = File" and n: "length rs < 2 ^ 40" and sz: "\<not> hide \<Longrightarrow> required_chunks sz False \<le> length rs"
  shows "inode_ok hide (commit_inode hide now sz rs i)"
proof -
  let ?j = "commit_inode hide now sz rs i"
  have "is_ok (validate_capacity hide ?j)"
  proof (cases hide)
    case True
    have b: "4096 * length rs < 2 ^ 64" using n by simp
    have u: "unat (of_nat (length rs) :: u64) = length rs" using n by (intro unat_small) simp
    then have m: "checked_mul_u64 (of_nat (length rs)) 4096 = Some (of_nat (length rs) * 4096 :: u64)"
      using b by (simp add: checked_mul_u64_def mult.commute)
    have c: "i_size ?j = of_nat (length rs) * 4096" "i_chunks ?j = rs" using True by (simp_all add: commit_inode_def)
    show ?thesis using m True unfolding validate_capacity_def c by simp
  next
    case False
    have c: "i_size ?j = sz" "i_chunks ?j = rs" using False by (simp_all add: commit_inode_def)
    show ?thesis using sz [OF False] False unfolding validate_capacity_def c by simp
  qed
  moreover have "i_children ?j = i_children i" "i_symlink_target ?j = i_symlink_target i" "i_link_count ?j = i_link_count i"
    by (simp_all add: commit_inode_def)
  ultimately show ?thesis using i by (simp add: inode_ok_def)
qed

lemma commit_working:
  fixes E :: "'r env"
  assumes w: "working E v0 fid cs rs retired pts v" and ns0: "ns_core (v_hide v0) (v_inodes v0)" and fo: "files_ok E v0"
    and i: "bt_get (v_inodes v0) fid = Some i" "i_kind i = File" and hide: "hide = v_hide v0"
    and n: "length rs < 2 ^ 40" and sz: "unat sz \<le> 2 ^ 44" "required_chunks sz hide \<le> length rs"
    and hd: "hide \<Longrightarrow> (if rs = [] then sz = 0 else take 8 (hd pts) = u64_to_le sz)"
    and v': "v' = committed hide now fid sz rs ret v" and ret: "mset ret = mset retired"
  shows "same_tree names_same (v_inodes v0) (v_inodes v')" "sys E {} v'" "content E v' fid = bytes_in hide sz pts"
    "k \<noteq> fid \<Longrightarrow> content E v' k = content E v0 k" "files_ok E v'"
proof -
  obtain i' R where d: "frame v0 v" "holds E (v_container v) fid rs pts"
    "\<forall>r \<in> set rs. cr_gen r \<noteq> 0 \<and> cr_gen r < next_chunk_gen (v_tree v)"
    "safe E (others v0 fid) (v_container v0) (v_container v)" "bt_get (v_inodes v0) fid = Some i'" "i_chunks i' = cs"
    "sys E (set R) v" "distinct R" "mset (map cr_id rs) + mset retired = mset (map cr_id (i_chunks i')) + mset R"
    by (rule workingE [OF w])
  have i': "i' = i" using d(5) i(1) by simp
  obtain j where j: "bt_get (v_inodes v) fid = Some j" "data_same i j" using same_tree_getD(2) [OF frameD(1) [OF d(1)] i(1)] by blast
  note ds = data_sameD [OF j(2)] and s = sysD [OF d(7)] and hv = frameD(4) [OF d(1)]
  have st: "same_tree names_same (v_inodes v) (v_inodes v')"
    unfolding v' committed_simps by (rule same_tree_modify [OF s(4)]) simp_all
  show "same_tree names_same (v_inodes v0) (v_inodes v')"
    by (rule same_tree_trans [OF frameD(2) [OF d(1)] st]) (simp add: names_same_def)
  have get: "bt_get (v_inodes v') k = (if k = fid then Some (commit_inode hide now sz rs j) else bt_get (v_inodes v) k)" for k
    using j(1) by (simp add: v')
  have c': "v_container v' = v_container v" by (simp add: v')
  have iok: "inode_ok hide (commit_inode hide now sz rs j)"
    by (rule commit_inode_ok) (use ns_coreD(4) [OF s(1) j(1)] hv hide ds(3) i(2) n sz(2) in simp_all)
  have "inode_ok (v_hide v) q" if "bt_get (v_inodes v') k = Some q" for k q
    using that iok ns_coreD(4) [OF s(1)] hv hide unfolding get by (auto split: if_splits)
  then have ns: "ns_core (v_hide v') (v_inodes v')" using ns_core_same [OF st s(1)] unfolding c' by blast
  have "mset (map cr_id (rs @ i_external_list_blocks j)) + mset (v_pending_free v @ ret) + mset []
      = mset (map cr_id (inode_refs j)) + mset (v_pending_free v) + mset R"
  proof -
    have "mset (map cr_id (rs @ i_external_list_blocks j)) + mset (v_pending_free v @ ret) + mset []
      = (mset (map cr_id rs) + mset retired) + mset (map cr_id (i_external_list_blocks j)) + mset (v_pending_free v)"
      using ret by (simp add: ac_simps)
    also have "\<dots> = mset (map cr_id (inode_refs j)) + mset (v_pending_free v) + mset R"
      unfolding d(9) i' by (simp add: inode_refs_def ds(6) ac_simps)
    finally show ?thesis .
  qed
  then have u: "mset (map cr_id (inode_refs (commit_inode hide now sz rs j))) + mset (v_pending_free v @ ret) + mset []
      = mset (map cr_id (inode_refs j)) + mset (v_pending_free v) + mset R" by simp
  have gs: "\<forall>b \<in> set (inode_refs (commit_inode hide now sz rs j)). cr_gen b \<noteq> 0 \<and> cr_gen b < next_chunk_gen (v_tree v)"
    using d(3) s(2) j(1) unfolding acct_def by (auto simp: inode_refs_def)
  have "acct {} (on_inodes (bt_modify fid (commit_inode hide now sz rs)) (v\<lparr>v_pending_free := v_pending_free v @ ret\<rparr>))"
    by (rule acct_replace [where f = "commit_inode hide now sz rs", OF s(2,4) j(1) u d(8) subset_refl _ gs]) simp
  then have ac: "acct {} v'" unfolding acct_def used_def v' committed_def on_inodes_def by simp
  have ch: "chain_good E (v_container v) k q" if "bt_get (v_inodes v') k = Some q" "i_external_list_blocks q \<noteq> []" "k \<notin> v_chunks_dirty v'" for k q
    using that s(3) unfolding get disk_inv_def chains_ok_def v' by (auto split: if_splits)
  have v2: "i_external_list_blocks q = []" if "v_format v = V2" "bt_get (v_inodes v') k = Some q" for k q
    using that s(3) j(1) unfolding get disk_inv_def by (auto split: if_splits)
  have "disk_inv E v'" using s(3) ch v2 unfolding disk_inv_def chains_ok_def c' by (simp add: v')
  then show "sys E {} v'" using ns ac by (simp add: sys_def)
  have h: "holds E (v_container v') fid (i_chunks (commit_inode hide now sz rs j)) pts" using d(2) c' by simp
  have lp: "length pts = length rs" using d(2) by (simp add: holds_def)
  have si: "size_in (v_hide v') (commit_inode hide now sz rs j) pts = sz"
  proof (cases hide)
    case True
    then have "v_hide v'" using hide hv c' by simp
    then show ?thesis using hd [OF True] lp by (cases pts) (auto simp: size_in_def split: if_splits)
  next
    case False
    then have "\<not> v_hide v'" using hide hv c' by simp
    then show ?thesis using False by (simp add: size_in_def commit_inode_def)
  qed
  have hide': "v_hide v' = hide" using hide hv c' by simp
  show "content E v' fid = bytes_in hide sz pts"
    using get [of fid] holds_plain [OF h] si hide' by (simp add: content_def Let_def)
  have cap: "sz \<noteq> 0 \<longrightarrow> unat sz + hdr hide \<le> 4096 * length pts"
  proof
    assume "sz \<noteq> 0"
    then have "unat sz + hdr hide \<le> 4096 * required_chunks sz hide" by (rule required_chunks_bounds(1) [OF sz(1)])
    also have "\<dots> \<le> 4096 * length pts" using mult_le_mono2 [OF sz(2), of 4096] unfolding lp .
    finally show "unat sz + hdr hide \<le> 4096 * length pts" .
  qed
  have fok: "file_ok E (v_container v') (v_hide v') fid (commit_inode hide now sz rs j)"
  proof (rule file_okI [OF h _ si sz(1)])
    show "length pts < 2 ^ 40" using n unfolding lp .
    show "sz \<noteq> 0 \<longrightarrow> unat sz + hdr (v_hide v') \<le> 4096 * length pts" using cap unfolding hide' .
    show "v_hide v' \<longrightarrow> (\<forall>s. i_cached_real_size (commit_inode hide now sz rs j) = Some s \<longrightarrow> s = sz)"
      unfolding hide' by (simp add: commit_inode_def)
  qed
  have oth: "content E v k = content E v0 k \<and> (\<forall>q. bt_get (v_inodes v) k = Some q \<longrightarrow> i_kind q = File \<longrightarrow> file_ok E (v_container v) (v_hide v) k q)"
    if "k \<noteq> fid" for k
    using file_frame [OF d(1,4) ns0 fo, of k] that unfolding others_def by blast
  have "content E v' k = content E v k" if "k \<noteq> fid" for k
    using that unfolding content_def get c' by simp
  then show "k \<noteq> fid \<Longrightarrow> content E v' k = content E v0 k" using oth by simp
  show "files_ok E v'"
    unfolding files_ok_def get using fok oth c' by auto
qed

end
