(* ===== verification/Lbx_FileWrite.thy ===== *)
theory Lbx_FileWrite
  imports Lbx_Stages
begin

text \<open>
  Truncation and writing put together from their stages: the contents of the file afterwards.
\<close>

section \<open>Bytes of a file\<close>

lemma bytes_in_nth:
  assumes "blocks pts" "unat sz + hdr hide \<le> 4096 * length pts \<or> sz = 0"
  shows "length (bytes_in hide sz pts) = unat sz" "q < unat sz \<Longrightarrow> bytes_in hide sz pts ! q = byte pts (q + hdr hide)"
  using assms nth_blocks_div [of pts "q + hdr hide"] by (auto simp: bytes_in_def length_blocks add.commute)

lemma bytes_in_eqI:
  assumes "blocks pts" "unat sz + hdr hide \<le> 4096 * length pts \<or> sz = 0" "length xs = unat sz"
    and "\<And>q. q < unat sz \<Longrightarrow> byte pts (q + hdr hide) = xs ! q"
  shows "bytes_in hide sz pts = xs"
  by (rule nth_equalityI) (use bytes_in_nth [OF assms(1,2)] assms(3,4) in auto)

lemma byte_append:
  assumes "blocks pts" "length qs = n" "\<And>k. k < n \<Longrightarrow> qs ! k = zero_chunk" "p < 4096 * (length pts + n)"
  shows "byte (pts @ qs) p = (if p < 4096 * length pts then byte pts p else 0)"
proof (cases "p < 4096 * length pts")
  case True
  then have "p div 4096 < length pts" by auto
  then show ?thesis using True by (simp add: nth_append)
next
  case False
  then have "length pts \<le> p div 4096" "p div 4096 - length pts < n" using assms(4) by auto
  moreover have "p mod 4096 < 4096" by simp
  ultimately show ?thesis using False assms(3) by (simp add: nth_append zero_chunk_def)
qed

section \<open>Before a change\<close>

lemma working_start:
  assumes s: "sys E {} v" and i: "bt_get (v_inodes v) fid = Some i" and h: "holds E (v_container v) fid (i_chunks i) pts"
  shows "working E v fid (i_chunks i) (take n (i_chunks i)) (rev (map cr_id (drop n (i_chunks i)))) (take n pts) v"
proof (rule workingI [OF frame_refl _ _ _ i refl, where R = "[]"])
  let ?cs = "i_chunks i"
  show "holds E (v_container v) fid (take n ?cs) (take n pts)"
    using h by (auto simp: holds_def blocks_def dest: in_set_takeD)
  show "\<forall>r \<in> set (take n ?cs). cr_gen r \<noteq> 0 \<and> cr_gen r < next_chunk_gen (v_tree v)"
    using sysD(2) [OF s] i unfolding acct_def by (auto simp: inode_refs_def dest: in_set_takeD)
  show "sys E (set []) v" using s by simp
  have "map cr_id (take n ?cs) @ map cr_id (drop n ?cs) = map cr_id ?cs" by (simp add: map_append [symmetric] del: map_append)
  then have "mset (map cr_id (take n ?cs) @ map cr_id (drop n ?cs)) = mset (map cr_id ?cs)" by (rule arg_cong)
  then show "mset (map cr_id (take n ?cs)) + mset (rev (map cr_id (drop n ?cs))) = mset (map cr_id ?cs) + mset []"
    by (simp only: mset_append mset_rev mset.simps(1) add_0_right)
qed simp_all

text \<open>What a change starts from: the size of the file, and the state that looking it up leaves.\<close>

lemma size_lookup:
  assumes s: "sys E {} v" and fo: "files_ok E v" and i: "bt_get (v_inodes v) fid = Some i" "i_kind i = File"
  obtains sz v1 j pts where "real_size E fid v = (Inr sz, v1)" "cached_only v v1" "sys E {} v1" "files_ok E v1"
    "bt_get (v_inodes v1) fid = Some j" "i_kind j = File" "i_chunks j = i_chunks i"
    "holds E (v_container v1) fid (i_chunks j) pts" "blocks pts" "length pts = length (i_chunks j)" "length pts < 2 ^ 40"
    "unat sz + hdr (v_hide v) \<le> 4096 * length pts \<or> sz = 0" "unat sz \<le> 2 ^ 44" "content E v fid = bytes_in (v_hide v) sz pts"
    "v_hide v \<Longrightarrow> pts \<noteq> [] \<Longrightarrow> u64_from_le (take 8 (hd pts)) = sz" "v_hide v \<Longrightarrow> pts = [] \<Longrightarrow> sz = 0"
proof -
  let ?h = "v_hide v"
  have f: "file_ok E (v_container v) ?h fid i" using fo i by (simp add: files_ok_def)
  obtain pts where p: "holds E (v_container v) fid (i_chunks i) pts" "plain E (v_container v) fid (i_chunks i) = pts" "length pts < 2 ^ 40" "blocks pts"
    "length pts = length (i_chunks i)" "unat (size_in ?h i pts) \<le> 2 ^ 44"
    "size_in ?h i pts \<noteq> 0 \<longrightarrow> unat (size_in ?h i pts) + hdr ?h \<le> 4096 * length pts" by (rule file_okE [OF f])
  obtain v1 where rs: "real_size E fid v = (Inr (size_in ?h i pts), v1)" and co: "cached_only v v1" and fo1: "files_ok E v1"
    using real_size_file [OF sysD(4) [OF s] fo i] p(2) by blast
  obtain j where j: "bt_get (v_inodes v1) fid = Some j" "forget_cache j = forget_cache i"
    using same_tree_getD(2) [OF cached_onlyD(14) [OF co] i(1)] by blast
  note jc = forget_cacheD(1,3) [OF j(2)]
  have "content E v fid = bytes_in ?h (size_in ?h i pts) pts" using i(1) p(2) by (simp add: content_def)
  note fin = this
  show thesis
  proof (rule that [OF rs co sys_cached [OF co s] fo1 j(1) _ jc(1)])
    show "i_kind j = File" using jc(2) i(2) by simp
    show "holds E (v_container v1) fid (i_chunks j) pts" unfolding jc(1) cached_onlyD(1) [OF co] by (rule p(1))
    show "blocks pts" "length pts < 2 ^ 40" by (rule p)+
    show "length pts = length (i_chunks j)" unfolding jc(1) by (rule p(5))
    show "unat (size_in ?h i pts) + hdr ?h \<le> 4096 * length pts \<or> size_in ?h i pts = 0" using p(7) by blast
    show "unat (size_in ?h i pts) \<le> 2 ^ 44" by (rule p(6))
    show "content E v fid = bytes_in ?h (size_in ?h i pts) pts" by (rule fin)
    show "u64_from_le (take 8 (hd pts)) = size_in ?h i pts" if "?h" "pts \<noteq> []" using that by (simp add: size_in_def)
    show "size_in ?h i pts = 0" if "?h" "pts = []" using that by (simp add: size_in_def)
  qed
qed

section \<open>Truncating\<close>

definition resized :: "bytes \<Rightarrow> nat \<Rightarrow> bytes" where
  "resized c n = take n c @ replicate (n - length c) 0"

text \<open>Changes to the contents of files: the names, the identifiers and the limit are as before.\<close>

definition contents_only :: "Vfs \<Rightarrow> Vfs \<Rightarrow> bool" where
  "contents_only v v' \<longleftrightarrow>
     same_tree names_same (v_inodes v) (v_inodes v') \<and> t_root (v_tree v') = t_root (v_tree v)
     \<and> next_file_id (v_tree v') = next_file_id (v_tree v) \<and> v_tolerated_inodes v' = v_tolerated_inodes v
     \<and> v_max_vault_size v' = v_max_vault_size v \<and> v_hide v' = v_hide v
     \<and> next_chunk_gen (v_tree v) \<le> next_chunk_gen (v_tree v') \<and> hdr_same (v_container v) (v_container v')"

lemma contents_only_refl [simp]: "contents_only v v"
  by (simp add: contents_only_def same_tree_refl)

lemma contents_only_trans:
  assumes "contents_only u v" "contents_only v w"
  shows "contents_only u w"
proof -
  have "same_tree names_same (v_inodes u) (v_inodes w)"
    by (rule same_tree_trans [of names_same _ "v_inodes v" names_same]) (use assms in \<open>simp_all add: contents_only_def names_same_def\<close>)
  moreover have "hdr_same (v_container u) (v_container w)" "next_chunk_gen (v_tree u) \<le> next_chunk_gen (v_tree w)"
    using assms hdr_same_trans order_trans unfolding contents_only_def by blast+
  ultimately show ?thesis using assms unfolding contents_only_def by simp
qed

lemma contents_only_frame: "frame v v' \<Longrightarrow> contents_only v v'"
  using frameD(2,4) unfolding contents_only_def frame_def by blast

lemma contents_only_cached: "cached_only v v' \<Longrightarrow> contents_only v v'"
  by (simp add: contents_only_def cached_onlyD)

lemma contents_only_inv:
  assumes c: "contents_only v v'" and inv: "vfs_inv v" and s: "sys E {} v'" and r: "room v'"
  shows "vfs_inv v'"
proof -
  have st: "same_tree names_same (v_inodes v) (v_inodes v')" using c by (simp add: contents_only_def)
  have ok: "bt_ok (v_inodes v)" using inv vfs_coreD unfolding vfs_inv_def by blast
  have "ids_ok v" "parents_held (v_inodes v)" using inv counters_ok_split [OF ok] unfolding vfs_inv_def vfs_core_def by blast+
  moreover have "fid < next_file_id (v_tree v)" if "bt_get (v_inodes v') fid = Some j" for fid j
    using same_tree_getD(1) [OF st that] \<open>ids_ok v\<close> unfolding ids_ok_def by blast
  ultimately have "ids_ok v'" "parents_held (v_inodes v')"
    using c same_names(5) [OF st] unfolding ids_ok_def contents_only_def by simp_all
  then show ?thesis
    using counters_ok_split [OF sysD(4) [OF s]] sysD(1,2) [OF s] r unfolding vfs_inv_def vfs_core_def by blast
qed

lemma committed_only:
  assumes "working E v0 fid cs rs retired pts v"
  shows "contents_only v0 (committed hide now fid sz rs' ret v)"
proof -
  obtain R where f: "frame v0 v" and s: "sys E (set R) v" using assms unfolding working_def by blast
  have "same_tree names_same (v_inodes v) (bt_modify fid (commit_inode hide now sz rs') (v_inodes v))"
    by (rule same_tree_modify [OF sysD(4) [OF s]]) simp_all
  then have "contents_only v (committed hide now fid sz rs' ret v)" by (simp add: contents_only_def) (simp add: committed_def on_inodes_def)
  then show ?thesis by (rule contents_only_trans [OF contents_only_frame [OF f]])
qed

lemma put_header:
  assumes "length pt = 4096"
  shows "take 8 (put pt 0 (u64_to_le n)) = u64_to_le n" "8 \<le> j \<Longrightarrow> j < 4096 \<Longrightarrow> put pt 0 (u64_to_le n) ! j = pt ! j"
  using assms nth_put [of 0 "u64_to_le n" pt j] by (simp_all add: put_def)

lemma byte_header:
  assumes "blocks pts" "pts \<noteq> []" "8 \<le> p" "p < 4096 * length pts"
  shows "byte (pts[0 := put (pts ! 0) 0 (u64_to_le n)]) p = byte pts p"
proof (cases "p div 4096 = 0")
  case True
  then have "p < 4096" "p mod 4096 = p" by (auto simp: div_eq_0_iff)
  then show ?thesis using True put_header(2) [of "pts ! 0" p n] blocks_nth [OF assms(1), of 0] assms(2,3) by simp
qed (use assms in simp)

lemma bindR_heads:
  "m v = (Inr x, v1) \<Longrightarrow> bindR (onV m) K (v, r) = K x (v1, r)" "g v = Inr x \<Longrightarrow> bindR (onV (readV g)) K (v, r) = K x (v, r)"
  "bindR (askV f) K (v, r) = K (f v) (v, r)" "g v = Inl e \<Longrightarrow> bindR (onV (readV g)) K (v, r) = (Inl e, (v, r))"
  by (simp_all add: bindR_def onV_def readV_def askV_def)

lemma bindR_InrE:
  assumes "bindR m f s = (Inr y, s')"
  obtains x s1 where "m s = (Inr x, s1)" "f x s1 = (Inr y, s')"
  using assms unfolding bindR_eq_Inr by blast

lemmas bind_steps = bindR_eq_Inr split_paired_Ex prod.case

lemma truncate_steps:
  fixes E :: "'r env"
  assumes t: "truncate_file E H now fid new (v, r) = (Inr (), (v', r'))" and sz: "real_size E fid v = (Inr old, v1)"
    and j: "bt_get (v_inodes v1) fid = Some j" and hide: "hide = v_hide v1" and key: "key = file_key E (v_container v1) fid"
    and n: "n = padded_chunk_count (required_chunks new hide) (pad_files_pow2 (c_header (v_container v1)))"
  obtains rs2 ret2 v2 r2 app v3 r3 rs4 ret4 v4
  where "unat new \<le> 2 ^ 44"
    "(if old < new then zero_fill_existing_range E H fid key (take n (i_chunks j)) old new hide [] else retR (take n (i_chunks j), [])) (v1, r)
       = (Inr (rs2, ret2), (v2, r2))"
    "grow E H key fid (length rs2) (n - length rs2) [] (v2, r2) = (Inr app, (v3, r3))"
    "truncate_header E H key fid hide new (rs2 @ app) ret2 (v3, r3) = (Inr (rs4, ret4), (v4, r'))"
    "v' = committed hide now fid new rs4 (rev (map cr_id (drop n (i_chunks j))) @ ret4) v4"
proof -
  have ew: "ensure_writable v = Inr ()"
    using t unfolding truncate_file_def by (cases "ensure_writable v") (simp_all add: bindR_heads)
  have le: "\<not> MAX_FILE_SIZE < new"
    using t unfolding truncate_file_def by (auto simp: bindR_heads(2) [of ensure_writable, OF ew])
  then have le44: "unat new \<le> 2 ^ 44" by (simp add: word_less_nat_alt not_less)
  have t2: "truncate_chunks E H now fid new old (i_chunks j) (v1, r) = (Inr (), (v', r'))"
    using t le unfolding truncate_file_def by (auto simp: bindR_heads(1) [of "real_size E fid", OF sz] bindR_heads(2) ew j split: if_splits)
  have bc: "s = (v1, r)" if "budget_check H fid a b (v1, r) = (Inr x, s)" for a b x s
    using that by (cases s) (auto simp: budget_check_def fop_simps split: if_splits)
  show thesis
    using t2 that [OF le44] bc unfolding truncate_chunks_def bindR_heads(3) prod.case Let_def hide [symmetric] n [symmetric] key [symmetric]
    by (simp only: bind_steps setV_Inr) blast
qed

lemma zero_stage:
  fixes E :: "'r env"
  assumes env: "rng_fills E" "digest_lengths E" "aead_correct E"
    and w: "working E v0 fid cs rs pre pts v" and len: "length rs < 2 ^ 40" and b: "unat old \<le> 2 ^ 44" "unat new \<le> 2 ^ 44"
    and z: "(if old < new then zero_fill_existing_range E H fid (file_key E (v_container v0) fid) rs old new hide [] else retR (rs, [])) (v, r)
       = (Inr (rs2, ret2), (v2, r2))"
  shows "\<exists>pts2. working E v0 fid cs rs2 (pre @ ret2) pts2 v2 \<and> length pts2 = length pts
     \<and> (\<forall>p < 4096 * length pts. p < unat new + hdr hide \<longrightarrow> byte pts2 p = (if unat old + hdr hide \<le> p then 0 else byte pts p))"
proof (cases "old < new \<and> rs \<noteq> []")
  case False
  have "byte pts p = (if unat old + hdr hide \<le> p then 0 else byte pts p)" if "p < 4096 * length pts" "p < unat new + hdr hide" for p
    using False that working_facts(1) [OF w] by (auto simp: word_less_nat_alt)
  moreover have "rs2 = rs" "ret2 = []" "v2 = v" using z False by (auto simp: zero_fill_existing_range_def split: if_splits)
  ultimately show ?thesis using w by (intro exI [where x = pts]) simp
next
  case True
  let ?A = "unat old + hdr hide" and ?B = "unat new + hdr hide"
  have lt: "unat old < unat new" using True by (simp add: word_less_nat_alt)
  have "(1 :: u64) \<le> new" using lt by (simp add: word_le_nat_alt)
  then have e1: "unat (new - 1) + hdr hide = ?B - 1" using lt by (simp add: unat_sub)
  have h: "hdr hide \<le> 8" by (simp add: hdr_def)
  have f1: "file_to_chunk old hide = Inr (?A div 4096, ?A mod 4096)" by (rule file_to_chunk_nat) (use b h in simp)
  have f2: "file_to_chunk (new - 1) hide = Inr ((?B - 1) div 4096, (?B - 1) mod 4096)"
    using file_to_chunk_nat [of "new - 1" hide] b h unfolding e1 by simp
  let ?ks = "[?A div 4096..<Suc (min ((?B - 1) div 4096) (length rs - 1))]"
  have nle: "\<not> (new \<le> old \<or> rs = [])" using True by (simp add: not_le)
  have loop: "zero_fill_loop E H (file_key E (v_container v0) fid) fid hide old new ?ks (rs, []) (v, r) = (Inr (rs2, ret2), (v2, r2))"
    using z True nle by (simp add: zero_fill_existing_range_def f1 f2 fop_simps del: upt_Suc)
  have ks: "\<forall>k \<in> set ?ks. k < length rs \<and> k < 2 ^ 40"
  proof
    fix k assume "k \<in> set ?ks"
    then have "k \<le> length rs - 1" by (auto simp del: upt_Suc)
    then show "k < length rs \<and> k < 2 ^ 40" using True len by (cases rs) auto
  qed
  obtain pts2 where p: "zeroed ?A ?B (set ?ks) pts pts2" "working E v0 fid cs rs2 (pre @ ret2) pts2 v2"
    using zero_fill_working [OF env _ ks loop, of cs pre pts] w by auto
  have "byte pts2 q = (if ?A \<le> q then 0 else byte pts q)" if q: "q < 4096 * length pts" "q < ?B" for q
  proof -
    have "q div 4096 < length rs" using q(1) working_facts(1) [OF w] by auto
    moreover have "q div 4096 \<le> (?B - 1) div 4096" using q(2) by (intro div_le_mono) simp
    moreover have "?A \<le> q \<Longrightarrow> ?A div 4096 \<le> q div 4096" by (rule div_le_mono)
    ultimately have "?A \<le> q \<Longrightarrow> q div 4096 \<in> set ?ks" unfolding set_upt atLeastLessThan_iff less_Suc_eq_le min.bounded_iff by linarith
    then show ?thesis using p(1) q unfolding zeroed_def by auto
  qed
  then show ?thesis using p unfolding zeroed_def by blast
qed

lemma header_stage:
  fixes E :: "'r env"
  assumes env: "rng_fills E" "digest_lengths E" "aead_correct E" and w: "working E v0 fid cs rs (pre @ ret) pts v"
    and t: "truncate_header E H (file_key E (v_container v0) fid) fid hide new rs ret (v, r) = (Inr (rs', ret'), (v', r'))"
  shows "\<exists>pts'. working E v0 fid cs rs' (pre @ ret') pts' v' \<and> length pts' = length pts
     \<and> (\<forall>p < 4096 * length pts. hdr hide \<le> p \<longrightarrow> byte pts' p = byte pts p) \<and> (hide \<longrightarrow> pts \<noteq> [] \<longrightarrow> take 8 (hd pts') = u64_to_le new)"
proof (cases "hide \<and> rs \<noteq> []")
  case False
  then have "rs' = rs" "ret' = ret" "v' = v" using t by (auto simp: truncate_header_def)
  then show ?thesis using w False working_facts(1) [OF w] by (intro exI [where x = pts]) auto
next
  case True
  note f = working_facts [OF w]
  have l: "0 < length rs" using True by simp
  have z: "(of_nat 0 :: u32) = 0" by simp
  obtain pt new0 old0 where rd: "read_chunk E (v_container v) (file_key E (v_container v0) fid) fid (of_nat 0) (rs ! 0) = Inr pt"
    and rw: "rewrite_chunk E H (file_key E (v_container v0) fid) fid (of_nat 0) (rs ! 0) (put pt 0 (u64_to_le new)) (v, r) = (Inr (new0, old0), (v', r'))"
    and rs': "rs' = rs[0 := new0]" "ret' = ret @ opt_list old0"
    using t True unfolding truncate_header_def by (auto simp: fop_simps install_size_header_def)
  have pt: "pt = pts ! 0" using f(4) [OF l, of pt] rd by blast
  have len: "length (pts ! 0) = 4096" by (rule blocks_nth [OF f(2)]) (use f(1) l in simp)
  have ln: "length (put (pts ! 0) 0 (u64_to_le new)) = 4096" using len by simp
  have ne: "pts \<noteq> []" using f(1) True by auto
  let ?pts = "pts[0 := put (pts ! 0) 0 (u64_to_le new)]"
  have "working E v0 fid cs rs' (pre @ ret') ?pts v'"
    using rewrite_chunk_working [OF env ln l w rw [unfolded pt]] by (simp add: rs')
  moreover have "hd ?pts = put (pts ! 0) 0 (u64_to_le new)" using ne by (cases pts) simp_all
  ultimately show ?thesis
    using byte_header [OF f(2) ne] put_header(1) [OF len, of new] True by (intro exI [where x = ?pts]) (simp add: hdr_def)
qed

text \<open>The bytes after the three stages: cut or kept, zeroed up to the new size, extended by zero chunks.\<close>

lemma truncated_bytes:
  assumes bl: "blocks pts" "blocks pts2" "blocks pts4" and old: "unat old + hdr hide \<le> 4096 * length pts \<or> old = 0"
    and p2: "length pts2 = length (take n pts)"
      "\<forall>p < 4096 * length (take n pts). p < unat new + hdr hide \<longrightarrow> byte pts2 p = (if unat old + hdr hide \<le> p then 0 else byte (take n pts) p)"
    and p3: "pts3 = pts2 @ replicate (n - length pts2) zero_chunk"
    and p4: "length pts4 = length pts3" "\<forall>p < 4096 * length pts3. hdr hide \<le> p \<longrightarrow> byte pts4 p = byte pts3 p"
    and cap: "unat new + hdr hide \<le> 4096 * n \<or> new = 0"
  shows "bytes_in hide new pts4 = resized (bytes_in hide old pts) (unat new)"
proof (rule bytes_in_eqI)
  note ol = bytes_in_nth [OF bl(1) old]
  have len3: "length pts3 = n" using p2(1) by (simp add: p3)
  show "blocks pts4" by (rule bl(3))
  show "unat new + hdr hide \<le> 4096 * length pts4 \<or> new = 0" using cap p4(1) len3 by simp
  show "length (resized (bytes_in hide old pts) (unat new)) = unat new" using ol(1) by (simp add: resized_def)
  fix q assume q: "q < unat new"
  let ?p = "q + hdr hide"
  have pn: "?p < 4096 * n" using cap q by auto
  have rz: "resized (bytes_in hide old pts) (unat new) ! q = (if q < unat old then byte pts ?p else 0)"
    using q ol by (auto simp: resized_def nth_append)
  have b4: "byte pts4 ?p = byte pts3 ?p" using p4(2) pn len3 by simp
  have "?p < 4096 * (length pts2 + (n - length pts2))" using pn p2(1) by simp
  then have b3: "byte pts3 ?p = (if ?p < 4096 * length pts2 then byte pts2 ?p else 0)"
    unfolding p3 by (intro byte_append [OF bl(2)]) simp_all
  show "byte pts4 ?p = resized (bytes_in hide old pts) (unat new) ! q"
  proof (cases "?p < 4096 * length pts2")
    case True
    then have "?p < 4096 * length (take n pts)" unfolding p2(1) .
    then have "byte pts2 ?p = (if unat old \<le> q then 0 else byte (take n pts) ?p)" using p2(2) q by simp
    moreover have "byte (take n pts) ?p = byte pts ?p" using pn by simp
    ultimately show ?thesis unfolding b4 b3 rz using True by auto
  next
    case False
    then have "4096 * length pts \<le> ?p" using pn p2(1) by (auto simp: min_def split: if_splits)
    then have "unat old \<le> q" using old by auto
    then show ?thesis unfolding b4 b3 rz using False by simp
  qed
qed

definition edits :: "'r env \<Rightarrow> Vfs \<Rightarrow> u64 \<Rightarrow> bytes \<Rightarrow> Vfs \<Rightarrow> bool" where
  "edits E v fid c v' \<longleftrightarrow>
     contents_only v v' \<and> sys E {} v' \<and> files_ok E v' \<and> content E v' fid = c \<and> (\<forall>k. k \<noteq> fid \<longrightarrow> content E v' k = content E v k)"

lemma truncate_effect:
  fixes E :: "'r env"
  assumes env: "rng_fills E" "digest_lengths E" "aead_correct E" and s: "sys E {} v" and fo: "files_ok E v"
    and i: "bt_get (v_inodes v) fid = Some i" "i_kind i = File"
    and t: "truncate_file E H now fid new (v, r) = (Inr (), (v', r'))"
  shows "edits E v fid (resized (content E v fid) (unat new)) v'"
proof -
  obtain old v1 j pts where l: "real_size E fid v = (Inr old, v1)" "cached_only v v1" "sys E {} v1" "files_ok E v1"
    "bt_get (v_inodes v1) fid = Some j" "i_kind j = File"
    "holds E (v_container v1) fid (i_chunks j) pts" "blocks pts" "length pts = length (i_chunks j)" "length pts < 2 ^ 40"
    "unat old + hdr (v_hide v) \<le> 4096 * length pts \<or> old = 0" "unat old \<le> 2 ^ 44" "content E v fid = bytes_in (v_hide v) old pts"
    by (rule size_lookup [OF s fo i])
  have hv: "v_hide v1 = v_hide v" using cached_onlyD(1) [OF l(2)] by simp
  let ?h = "v_hide v" and ?cs = "i_chunks j" and ?key = "file_key E (v_container v1) fid"
  define n where "n = padded_chunk_count (required_chunks new ?h) (pad_files_pow2 (c_header (v_container v1)))"
  define freed where "freed = rev (map cr_id (drop n ?cs))"
  obtain rs2 ret2 v2 r2 app v3 r3 rs4 ret4 v4 where st: "unat new \<le> 2 ^ 44"
    "(if old < new then zero_fill_existing_range E H fid ?key (take n ?cs) old new ?h [] else retR (take n ?cs, [])) (v1, r) = (Inr (rs2, ret2), (v2, r2))"
    "grow E H ?key fid (length rs2) (n - length rs2) [] (v2, r2) = (Inr app, (v3, r3))"
    "truncate_header E H ?key fid ?h new (rs2 @ app) ret2 (v3, r3) = (Inr (rs4, ret4), (v4, r'))"
    "v' = committed ?h now fid new rs4 (freed @ ret4) v4"
    using truncate_steps [OF t l(1,5) hv [symmetric] refl n_def] unfolding freed_def by blast
  have w1: "working E v1 fid ?cs (take n ?cs) freed (take n pts) v1"
    unfolding freed_def by (rule working_start [OF l(3,5,7)])
  have len1: "length (take n ?cs) < 2 ^ 40" using l(9,10) by simp
  obtain pts2 where p2: "working E v1 fid ?cs rs2 (freed @ ret2) pts2 v2" "length pts2 = length (take n pts)"
    "\<forall>p < 4096 * length (take n pts). p < unat new + hdr ?h \<longrightarrow> byte pts2 p = (if unat old + hdr ?h \<le> p then 0 else byte (take n pts) p)"
    using zero_stage [OF env w1 len1 l(12) st(1,2)] by blast
  note f2 = working_facts [OF p2(1)]
  define pts3 where "pts3 = pts2 @ replicate (n - length rs2) zero_chunk"
  have p3: "working E v1 fid ?cs (rs2 @ app) (freed @ ret2) pts3 v3" "length app = n - length rs2"
    using grow_working [OF env, of v1 fid ?cs rs2 "[]" "freed @ ret2" pts2 v2] p2(1) st(3) by (simp_all add: pts3_def)
  obtain pts4 where p4: "working E v1 fid ?cs rs4 (freed @ ret4) pts4 v4" "length pts4 = length pts3"
    "\<forall>p < 4096 * length pts3. hdr ?h \<le> p \<longrightarrow> byte pts4 p = byte pts3 p" "?h \<longrightarrow> pts3 \<noteq> [] \<longrightarrow> take 8 (hd pts4) = u64_to_le new"
    using header_stage [OF env p3(1) st(4)] by blast
  note f4 = working_facts [OF p4(1)]
  have len2: "length rs2 = min n (length pts)" using f2(1) p2(2) by simp
  have len3: "length pts3 = n" using f2(1) len2 by (simp add: pts3_def)
  have req: "required_chunks new ?h \<le> n" "n \<le> 2 * required_chunks new ?h" "n = 0 \<longleftrightarrow> required_chunks new ?h = 0"
    unfolding n_def by (rule padded_bounds)+
  have n40: "n < 2 ^ 40" using req(2) required_chunks_bounds(2) [OF st(1), of ?h] by (simp; linarith)
  have n0: "n = 0 \<Longrightarrow> new = 0" using req(3) required_chunks_bounds(3) [OF st(1), of ?h] by auto
  have cap: "unat new + hdr ?h \<le> 4096 * n \<or> new = 0"
    using required_chunks_bounds(1) [OF st(1), of ?h] req(1) by (metis le_trans mult_le_mono2)
  have rs4: "length rs4 = n" "pts3 = [] \<longleftrightarrow> n = 0" "rs4 = [] \<longleftrightarrow> n = 0" using f4(1) p4(2) len3 by auto
  have hd: "?h \<Longrightarrow> (if rs4 = [] then new = 0 else take 8 (hd pts4) = u64_to_le new)" using p4(4) n0 rs4 by auto
  note c = commit_working [OF p4(1) sysD(1) [OF l(3)] l(4,5,6) hv [symmetric] _ st(1) _ hd st(5) refl]
  have c': "sys E {} v'" "content E v' fid = bytes_in ?h new pts4" "\<And>k. k \<noteq> fid \<Longrightarrow> content E v' k = content E v1 k" "files_ok E v'"
    using c(2-5) n40 rs4(1) req(1) by simp_all
  have "bytes_in ?h new pts4 = resized (content E v fid) (unat new)"
    unfolding l(13) by (rule truncated_bytes [OF l(8) f2(2) f4(2) l(11) p2(2,3) _ p4(2,3) cap]) (use len2 in \<open>simp_all add: pts3_def f2(1)\<close>)
  then show ?thesis
    unfolding edits_def using c' contents_only_trans [OF contents_only_cached [OF l(2)] committed_only [OF p4(1), of ?h now new rs4 "freed @ ret4"]]
      content_cached [OF l(2), of E] st(5) by simp
qed

section \<open>The bytes after a write\<close>

definition overwritten :: "bytes \<Rightarrow> nat \<Rightarrow> bytes \<Rightarrow> bytes" where
  "overwritten c off buf = take off (c @ replicate (off - length c) 0) @ buf @ drop (off + length buf) c"

lemma overwritten_nth:
  "length (overwritten c off buf) = max (length c) (off + length buf)"
  "q < max (length c) (off + length buf) \<Longrightarrow>
     overwritten c off buf ! q = (if q < off then (if q < length c then c ! q else 0) else if q < off + length buf then buf ! (q - off) else c ! q)"
  by (auto simp: overwritten_def nth_append min_def)

text \<open>The stages: zero chunks appended, the hole before the first chunk of the write zeroed, the data laid over, the size header set.\<close>

lemma written_bytes:
  assumes bl: "blocks pts" "blocks pts5" and old: "unat old + hdr hide \<le> 4096 * length pts \<or> old = 0"
    and A: "A = unat off + hdr hide" and O0: "O0 = unat old + hdr hide"
    and new: "unat new = max (unat old) (unat off + length buf)" and first: "first = A div 4096" and lst: "lst = (A + length buf - 1) div 4096"
    and ne: "buf \<noteq> []"
    and p2: "pts2 = pts @ replicate m zero_chunk"
    and p3: "zeroed O0 A {O0 div 4096..<min first (length pts)} pts2 pts3"
    and p4: "changed_on {first..lst} (overlaid hide new first (length pts) O0 A buf) pts3 pts4"
    and p5: "length pts5 = length pts4" "\<forall>p < 4096 * length pts4. hdr hide \<le> p \<longrightarrow> byte pts5 p = byte pts4 p"
    and cap: "unat new + hdr hide \<le> 4096 * length pts5"
  shows "bytes_in hide new pts5 = overwritten (bytes_in hide old pts) (unat off) buf"
proof (rule bytes_in_eqI)
  note ol = bytes_in_nth [OF bl(1) old]
  have len: "length pts4 = length pts2" "length pts3 = length pts2" "length pts5 = length pts2" using p3 p4 p5(1) by (simp_all add: zeroed_def changed_on_def)
  show "blocks pts5" by (rule bl(2))
  show "unat new + hdr hide \<le> 4096 * length pts5 \<or> new = 0" using cap by blast
  show "length (overwritten (bytes_in hide old pts) (unat off) buf) = unat new" using new ol(1) by (simp add: overwritten_nth(1))
  fix q assume q: "q < unat new"
  define p where "p = q + hdr hide"
  have pl: "p < 4096 * length pts2" using q cap len by (simp add: p_def)
  let ?old = "\<lambda>p. if p < O0 then byte pts p else 0"
  have b2: "byte pts2 p = (if p < 4096 * length pts then byte pts p else 0)"
    unfolding p2 by (rule byte_append [OF bl(1)]) (use pl p2 in simp_all)
  have o: "p < O0 \<Longrightarrow> p < 4096 * length pts" using old by (auto simp: p_def O0)
  have b3: "byte pts3 p = (if p div 4096 \<in> {O0 div 4096..<min first (length pts)} \<and> O0 \<le> p \<and> p < A then 0 else byte pts2 p)"
    using p3 pl by (simp add: zeroed_def)
  have b4: "byte pts4 p = (if p div 4096 \<in> {first..lst} then overlaid hide new first (length pts) O0 A buf (byte pts3) p else byte pts3 p)"
    using p4 pl len by (simp add: changed_on_def)
  have b5: "byte pts5 p = byte pts4 p" using p5(2) pl len by (simp add: p_def)
  have nh: "\<not> (hide \<and> p < 8)" by (auto simp: p_def hdr_def)
  have ov: "overwritten (bytes_in hide old pts) (unat off) buf ! q
     = (if p < A then (if p < O0 then byte pts p else 0) else if p < A + length buf then buf ! (p - A) else byte pts p)"
    using overwritten_nth(2) [of q "bytes_in hide old pts" "unat off" buf] q new ol by (auto simp: p_def A O0)
  have small: "byte pts3 p = byte pts p" if "p < O0" using b3 b2 that o by simp
  have cur: "byte pts3 p = 0" if "O0 \<le> p" "length pts \<le> p div 4096" using b3 b2 that by auto
  have tail: "p < O0" if "A + length buf \<le> p" using q new that by (auto simp: p_def A O0)
  have "byte pts4 p = (if p < A then (if p < O0 then byte pts p else 0) else if p < A + length buf then buf ! (p - A) else byte pts p)"
  proof (cases "p < A")
    case True
    then have le: "p div 4096 \<le> first" unfolding first by (intro div_le_mono) simp
    have lf: "first \<le> lst" unfolding first lst using ne by (intro div_le_mono) (cases buf, auto)
    show ?thesis
    proof (cases "p < O0")
      case small': True
      then show ?thesis using True b4 small nh by (auto simp: overlaid_def)
    next
      case False
      then have k: "O0 div 4096 \<le> p div 4096" by (intro div_le_mono) simp
      show ?thesis
      proof (cases "p div 4096 < length pts")
        case kl: True
        show ?thesis
        proof (cases "p div 4096 = first")
          case t: True
          then show ?thesis using b4 lf nh \<open>p < A\<close> False kl by (simp add: overlaid_def)
        next
          case f: False
          then have "byte pts3 p = 0" using b3 k kl le False \<open>p < A\<close> by simp
          then show ?thesis using b4 f le False \<open>p < A\<close> by simp
        qed
      next
        case kg: False
        then have "byte pts3 p = 0" using cur False by simp
        then show ?thesis using b4 nh False \<open>p < A\<close> by (auto simp: overlaid_def)
      qed
    qed
  next
    case False
    then have ge: "first \<le> p div 4096" unfolding first by (intro div_le_mono) simp
    show ?thesis
    proof (cases "p < A + length buf")
      case True
      then have "p div 4096 \<le> lst" unfolding lst by (intro div_le_mono) simp
      then show ?thesis using b4 ge nh True False by (simp add: overlaid_def)
    next
      case f: False
      then have "byte pts3 p = byte pts p" using small tail by simp
      moreover have "overlaid hide new first (length pts) O0 A buf (byte pts3) p = byte pts3 p"
        using f False unfolding overlaid_def if_not_P [OF nh] by simp
      ultimately show ?thesis using b4 f False by simp
    qed
  qed
  then show "byte pts5 (q + hdr hide) = overwritten (bytes_in hide old pts) (unat off) buf ! q" unfolding ov b5 [symmetric] p_def [symmetric] .
qed

lemma take8_eqI: "blocks pts \<Longrightarrow> pts \<noteq> [] \<Longrightarrow> (\<And>p. p < 8 \<Longrightarrow> byte pts p = u64_to_le n ! p) \<Longrightarrow> take 8 (hd pts) = u64_to_le n"
proof (rule nth_equalityI)
  assume a: "blocks pts" "pts \<noteq> []" and b: "\<And>p. p < 8 \<Longrightarrow> byte pts p = u64_to_le n ! p"
  have l: "length (hd pts) = 4096" "hd pts = pts ! 0" using a blocks_nth [OF a(1), of 0] by (simp_all add: hd_conv_nth)
  then show "length (take 8 (hd pts)) = length (u64_to_le n)" by simp
  fix q assume "q < length (take 8 (hd pts))"
  then have "q < 8" by simp
  then show "take 8 (hd pts) ! q = u64_to_le n ! q" using b [of q] l by simp
qed

lemma written_header:
  assumes bl: "blocks pts2" "blocks pts4" and O0: "8 \<le> O0" "8 \<le> A" and ne: "pts2 \<noteq> []"
    and p3: "zeroed O0 A K pts2 pts3" and p4: "changed_on {first..lst} (overlaid True new first cur O0 A buf) pts3 pts4"
    and c: "first = 0 \<or> take 8 (hd pts2) = u64_to_le new"
  shows "take 8 (hd pts4) = u64_to_le new"
proof (rule take8_eqI [OF bl(2)])
  have len: "length pts4 = length pts2" "length pts3 = length pts2" using p3 p4 by (simp_all add: zeroed_def changed_on_def)
  then show "pts4 \<noteq> []" using ne by auto
  fix p :: nat assume p: "p < 8"
  have l: "p < 4096 * length pts2" using ne p by (cases pts2) auto
  have b4: "byte pts4 p = (if p div 4096 \<in> {first..lst} then overlaid True new first cur O0 A buf (byte pts3) p else byte pts3 p)"
    using p4 l len by (simp add: changed_on_def)
  have b3: "byte pts3 p = byte pts2 p" using p3 l p O0(1) unfolding zeroed_def by auto
  show "byte pts4 p = u64_to_le new ! p"
  proof (cases "first = 0")
    case True
    then show ?thesis using b4 p by (simp add: overlaid_def)
  next
    case False
    then have "byte pts4 p = byte pts2 p" using b4 b3 p by simp
    moreover have "byte pts2 p = take 8 (hd pts2) ! p" using p ne by (simp add: hd_conv_nth)
    ultimately show ?thesis using c False by simp
  qed
qed

section \<open>Writing\<close>

lemma write_chunks_steps:
  fixes E :: "'r env"
  assumes t: "write_chunks E H now fid off buf old new_end cur (v1, r) = (Inr n, (v', r'))"
    and hide: "hide = v_hide v1" and key: "key = file_key E (v_container v1) fid" and new: "new = max old new_end"
    and tc: "target = padded_chunk_count (required_chunks new hide) (pad_files_pow2 (c_header (v_container v1)))"
  obtains first x lst y app v2 r2 cov us ret v3 r3 ws v4 r4 ws' v5 i
  where "file_to_chunk off hide = Inr (first, x)" "file_to_chunk (new_end - 1) hide = Inr (lst, y)"
    "grow E H key fid cur (target - cur) [] (v1, r) = (Inr app, (v2, r2))"
    "covered_existing fid first lst cur (v2, r2) = (Inr cov, (v2, r2))"
    "scrub_hole E H key fid hide old off first cur (v2, r2) = (Inr (us, ret), (v3, r3))"
    "write_loop E H key fid hide old off new_end new cur first cov buf [first..<Suc lst]
       \<lparr>ws_appended = app, ws_updates = us, ws_retired = ret, ws_buf_pos = 0\<rparr> (v3, r3) = (Inr ws, (v4, r4))"
    "(if hide \<and> new \<noteq> old \<and> 0 < first \<and> 0 < target then refresh_size_header E H key fid new cur ws else retR ws) (v4, r4) = (Inr ws', (v5, r'))"
    "bt_get (v_inodes v5) fid = Some i"
    "v' = committed hide now fid new (apply_updates (ws_updates ws') (i_chunks i) @ ws_appended ws') (ws_retired ws') v5" "n = length buf"
proof -
  have bc: "budget_check H fid a b (v, r) = (Inr x, (v', r')) \<longleftrightarrow> fst (budget_check H fid a b (v, r)) = Inr x \<and> v' = v \<and> r' = r" for a b v r x v' r'
    by (auto simp: budget_check_def onV_def readV_def retR_def)
  have cv: "covered_existing fid a b c (v, r) = (Inr x, (v', r')) \<longleftrightarrow> covered_existing fid a b c (v, r) = (Inr x, (v, r)) \<and> v' = v \<and> r' = r" for a b c v r x v' r'
    by (auto simp: covered_existing_def Let_def fop_simps split: if_splits)
  have lift: "liftR a s = (Inr x, s') \<longleftrightarrow> a = Inr x \<and> s' = s" for a x s s' by (auto simp: liftR_def)
  have un: "onV (readV (\<lambda>v. unwrap_inode v fid)) (v, r) = (Inr x, (v', r')) \<longleftrightarrow> bt_get (v_inodes v) fid = Some x \<and> v' = v \<and> r' = r" for v r x v' r'
    by (auto simp: unwrap_inode_def fop_simps split: option.splits)
  show thesis
    using t that unfolding write_chunks_def bindR_heads(3) prod.case Let_def new [symmetric] hide [symmetric] tc [symmetric] key [symmetric]
    apply (simp only: bind_steps setV_Inr lift un bc retR_eq sum.inject prod.inject)
    apply (elim exE conjE)
    apply (drule cv [THEN iffD1])
    apply (elim conjE, hypsubst)
    apply blast
    done
qed

lemma covered_refs:
  assumes "working E v0 fid cs rs retired pts v" "covered_existing fid first lst (length cs) (v, r) = (Inr cov, s)"
    and k: "first \<le> k" "k \<le> lst" "k < length cs"
  shows "cov ! (k - first) = cs ! k"
proof -
  obtain j where j: "bt_get (v_inodes v) fid = Some j" "i_chunks j = cs" using working_chunk_at(2) [OF assms(1)] by blast
  let ?hi = "min (Suc lst) (length cs)"
  have lt: "first < ?hi" using k by simp
  then have "cov = slice cs first (?hi - first)" using assms(2) j by (cases s) (simp add: covered_existing_def Let_def fop_simps)
  then show ?thesis using k by (simp add: nth_slice)
qed

lemma scrub_hole_working:
  fixes E :: "'r env"
  assumes env: "rng_fills E" "digest_lengths E" "aead_correct E"
    and w: "working E v0 fid cs (cs @ app) [] pts v" and b: "unat old \<le> 2 ^ 44" "length cs < 2 ^ 40" and first: "first = (unat off + hdr hide) div 4096"
    and s: "scrub_hole E H (file_key E (v_container v0) fid) fid hide old off first (length cs) (v, r) = (Inr (us, ret), (v', r'))"
  shows "\<exists>pts'. zeroed (unat old + hdr hide) (unat off + hdr hide) {(unat old + hdr hide) div 4096..<min first (length cs)} pts pts'
     \<and> working E v0 fid cs (apply_updates us cs @ app) ret pts' v' \<and> fst ` set us \<subseteq> {..<min first (length cs)}"
proof (cases "old < off \<and> cs \<noteq> []")
  case False
  then have e: "us = []" "ret = []" "v' = v" using s by (auto simp: scrub_hole_def)
  have "zeroed (unat old + hdr hide) (unat off + hdr hide) {(unat old + hdr hide) div 4096..<min first (length cs)} pts pts"
    using False by (auto simp: zeroed_def word_less_nat_alt)
  then show ?thesis using w e by (intro exI [where x = pts]) simp
next
  case True
  let ?O = "unat old + hdr hide"
  have f: "file_to_chunk old hide = Inr (?O div 4096, ?O mod 4096)" by (rule file_to_chunk_nat) (use b in \<open>simp add: hdr_def\<close>)
  have g: "scrub_gap E H (file_key E (v_container v0) fid) fid hide old off [?O div 4096..<min first (length cs)] ([], []) (v, r) = (Inr (us, ret), (v', r'))"
    using s True f by (simp add: scrub_hole_def fop_simps)
  have ks: "\<forall>k \<in> set [?O div 4096..<min first (length cs)]. k < length cs \<and> k < 2 ^ 40 \<and> k \<notin> fst ` set ([] :: (nat \<times> ChunkRef) list)" using b(2) by auto
  have w0: "working E v0 fid cs (apply_updates [] cs @ app) [] pts v" using w by simp
  have "\<exists>pts'. zeroed ?O (unat off + hdr hide) (set [?O div 4096..<min first (length cs)]) pts pts'
      \<and> fst ` set us \<subseteq> fst ` set ([] :: (nat \<times> ChunkRef) list) \<union> set [?O div 4096..<min first (length cs)]
      \<and> working E v0 fid cs (apply_updates us cs @ app) ret pts' v'"
    by (rule scrub_gap_working [OF env w0 ks _ g]) simp
  moreover have "{?O div 4096..<min first (length cs)} \<subseteq> {..<min first (length cs)}" by auto
  ultimately show ?thesis by (simp only: list.set(1) image_empty Un_empty_left set_upt) blast
qed

lemma write_geometry:
  assumes old: "unat old \<le> 2 ^ 44" and ne: "buf \<noteq> []" and new_end: "unat new_end = unat off + length buf" "unat new_end \<le> 2 ^ 44"
    and new: "new = max old new_end" and tc: "target = padded_chunk_count (required_chunks new hide) padding"
    and A: "A = unat off + hdr hide" and L: "L = max cur target" and cur: "cur < 2 ^ 40"
    and f: "file_to_chunk off hide = Inr (first, x)" "file_to_chunk (new_end - 1) hide = Inr (lst, y)"
  shows "unat new = max (unat old) (unat off + length buf)" "unat new \<le> 2 ^ 44" "first = A div 4096" "lst = (A + length buf - 1) div 4096"
    "0 < target" "unat new + hdr hide \<le> 4096 * L" "L < 2 ^ 40" "lst < L" "first \<le> lst" "required_chunks new hide \<le> L"
proof -
  show unew: "unat new = max (unat old) (unat off + length buf)" "unat new \<le> 2 ^ 44" using new_end old by (simp_all add: new unat_max_min)
  have lb: "0 < length buf" using ne by simp
  have "1 \<le> unat new_end" using new_end(1) lb by linarith
  then have "(1 :: u64) \<le> new_end" by (simp add: word_le_nat_alt)
  then have "unat (new_end - 1) = unat new_end - 1" by (simp add: unat_sub)
  then have e1: "unat (new_end - 1) + hdr hide = A + length buf - 1" using new_end(1) lb unfolding A by linarith
  show first: "first = A div 4096" using file_to_chunk_Inr(2) [OF f(1)] by (simp add: A)
  show lst: "lst = (A + length buf - 1) div 4096" using file_to_chunk_Inr(2) [OF f(2)] e1 by simp
  have "A \<le> A + length buf - 1" using lb by linarith
  then show "first \<le> lst" unfolding first lst by (rule div_le_mono)
  have new0: "new \<noteq> 0" using unew(1) lb by auto
  have req: "required_chunks new hide \<le> target" "target \<le> 2 * required_chunks new hide" unfolding tc by (rule padded_bounds)+
  show "0 < target" using req(1) required_chunks_bounds(3) [OF unew(2) new0, of hide] by simp
  have "target < 2 ^ 40" using req(2) required_chunks_bounds(2) [OF unew(2), of hide] by (simp; linarith)
  then show "L < 2 ^ 40" using cur by (simp add: L)
  show rl: "required_chunks new hide \<le> L" using req(1) by (simp add: L)
  have "unat new + hdr hide \<le> 4096 * required_chunks new hide" by (rule required_chunks_bounds(1) [OF unew(2) new0])
  also have "\<dots> \<le> 4096 * L" using rl by (rule mult_le_mono2)
  finally show cap: "unat new + hdr hide \<le> 4096 * L" .
  have "A + length buf - 1 < L * 4096" using cap unew(1) lb unfolding A by linarith
  then show "lst < L" unfolding lst by (rule less_mult_imp_div_less)
qed

text \<open>The chunks after the hole is scrubbed and the data written.\<close>

lemma write_stages:
  fixes E :: "'r env"
  assumes env: "rng_fills E" "digest_lengths E" "aead_correct E"
    and w: "working E v1 fid cs cs [] pts v1" and cs: "length cs < 2 ^ 40" and old: "unat old \<le> 2 ^ 44"
    and A: "A = unat off + hdr hide" and O0: "O0 = unat old + hdr hide" and ne: "buf \<noteq> []" and ne2: "unat new_end + hdr hide = A + length buf"
    and g: "first = A div 4096" "lst = (A + length buf - 1) div 4096" "lst < max (length cs) target" "max (length cs) target < 2 ^ 40" "first \<le> lst"
    and st: "grow E H (file_key E (v_container v1) fid) fid (length cs) (target - length cs) [] (v1, r) = (Inr app, (v2, r2))"
      "covered_existing fid first lst (length cs) (v2, r2) = (Inr cov, (v2, r2))"
      "scrub_hole E H (file_key E (v_container v1) fid) fid hide old off first (length cs) (v2, r2) = (Inr (us, ret), (v3, r3))"
      "write_loop E H (file_key E (v_container v1) fid) fid hide old off new_end new (length cs) first cov buf [first..<Suc lst]
         \<lparr>ws_appended = app, ws_updates = us, ws_retired = ret, ws_buf_pos = 0\<rparr> (v3, r3) = (Inr ws, (v4, r4))"
  shows "\<exists>pts3 pts4. zeroed O0 A {O0 div 4096..<min first (length cs)} (pts @ replicate (target - length cs) zero_chunk) pts3
     \<and> changed_on {first..lst} (overlaid hide new first (length cs) O0 A buf) pts3 pts4
     \<and> working E v1 fid cs (ws_refs cs ws) (ws_retired ws) pts4 v4 \<and> (0 < first \<longrightarrow> 0 \<in> fst ` set (ws_updates ws) \<longrightarrow> cs \<noteq> [])"
proof -
  let ?pts2 = "pts @ replicate (target - length cs) zero_chunk"
  have w2: "working E v1 fid cs (cs @ app) [] ?pts2 v2" "length app = target - length cs"
    using grow_working [OF env, of v1 fid cs cs "[]" "[]" pts v1] w st(1) by simp_all
  obtain pts3 where p3: "zeroed O0 A {O0 div 4096..<min first (length cs)} ?pts2 pts3"
    "working E v1 fid cs (apply_updates us cs @ app) ret pts3 v3" "fst ` set us \<subseteq> {..<min first (length cs)}"
    using scrub_hole_working [OF env w2(1) old cs g(1) [unfolded A] st(3)] unfolding A O0 by blast
  define ws0 where "ws0 = \<lparr>ws_appended = app, ws_updates = us, ws_retired = ret, ws_buf_pos = 0\<rparr>"
  have w3: "working E v1 fid cs (ws_refs cs ws0) (ws_retired ws0) pts3 v3" using p3(2) by (simp add: ws0_def ws_refs_def)
  have us: "\<forall>k \<in> fst ` set (ws_updates ws0). k < first" using p3(3) by (auto simp: ws0_def)
  have cov: "cov ! (k - first) = cs ! k" if "first \<le> k" "k \<le> lst" "k < length cs" for k by (rule covered_refs [OF w2(1) st(2) that])
  have lst40: "lst < 2 ^ 40" by (rule order.strict_trans [OF g(3,4)])
  have "lst < length cs + length (ws_appended ws0)" using g(3) w2(2) by (simp add: ws0_def)
  moreover have "4096 * first \<le> A" unfolding g(1) by simp
  then have "first \<le> lst \<longrightarrow> ws_buf_pos ws0 = 4096 * first - A" by (simp add: ws0_def)
  ultimately obtain pts4 where p4: "changed_on {first..lst} (overlaid hide new first (length cs) O0 A buf) pts3 pts4"
    "working E v1 fid cs (ws_refs cs ws) (ws_retired ws) pts4 v4" "fst ` set (ws_updates ws) \<subseteq> fst ` set (ws_updates ws0) \<union> {first..lst}"
    using write_loop_working [OF env A ne2 O0 ne g(1,2) lst40 cov w3 _ le_refl _ us _ st(4) [folded ws0_def]] g(5) by auto
  have "cs \<noteq> []" if "0 < first" "0 \<in> fst ` set (ws_updates ws)"
    using that p4(3) p3(3) by (auto simp: ws0_def)
  then show ?thesis using p3(1) p4(1,2) by blast
qed

lemma refresh_stage:
  fixes E :: "'r env"
  assumes env: "rng_fills E" "digest_lengths E" "aead_correct E" and w: "working E v0 fid cs (ws_refs cs ws) (ws_retired ws) pts v"
    and us: "refresh \<Longrightarrow> 0 \<in> fst ` set (ws_updates ws) \<Longrightarrow> cs \<noteq> []" and ne: "pts \<noteq> []"
    and keep: "hide \<Longrightarrow> \<not> refresh \<Longrightarrow> take 8 (hd pts) = u64_to_le new" and rh: "refresh \<Longrightarrow> hide"
    and rf: "(if refresh then refresh_size_header E H (file_key E (v_container v0) fid) fid new (length cs) ws else retR ws) (v, r) = (Inr ws', (v', r'))"
  shows "\<exists>pts'. working E v0 fid cs (ws_refs cs ws') (ws_retired ws') pts' v' \<and> length pts' = length pts
     \<and> (\<forall>p < 4096 * length pts. hdr hide \<le> p \<longrightarrow> byte pts' p = byte pts p) \<and> (hide \<longrightarrow> take 8 (hd pts') = u64_to_le new)"
proof (cases refresh)
  case False
  then show ?thesis using rf w keep by (intro exI [where x = pts]) auto
next
  case True
  note f = working_facts [OF w]
  let ?pts = "pts[0 := put (pts ! 0) 0 (u64_to_le new)]"
  have l: "0 < length (ws_refs cs ws)" using f(1) ne by (metis length_greater_0_conv)
  have "working E v0 fid cs (ws_refs cs ws') (ws_retired ws') ?pts v'"
    using refresh_working(1) [OF env l us [OF True] w] rf True by simp
  moreover have "hd ?pts = put (pts ! 0) 0 (u64_to_le new)" using ne by (cases pts) simp_all
  moreover have "length (pts ! 0) = 4096" by (rule blocks_nth [OF f(2)]) (use ne in simp)
  ultimately show ?thesis
    using byte_header [OF f(2) ne] put_header(1) [of "pts ! 0" new] rh [OF True] by (intro exI [where x = ?pts]) (simp add: hdr_def)
qed

lemma write_chunks_effect:
  fixes E :: "'r env"
  assumes env: "rng_fills E" "digest_lengths E" "aead_correct E" and s: "sys E {} v1" and fo: "files_ok E v1"
    and j: "bt_get (v_inodes v1) fid = Some j" "i_kind j = File" and hide: "hide = v_hide v1"
    and pts: "holds E (v_container v1) fid (i_chunks j) pts" "blocks pts" "length pts = length (i_chunks j)" "length pts < 2 ^ 40"
    and old: "unat old + hdr hide \<le> 4096 * length pts \<or> old = 0" "unat old \<le> 2 ^ 44"
    and hd: "hide \<Longrightarrow> pts \<noteq> [] \<Longrightarrow> u64_from_le (take 8 (hd pts)) = old"
    and ne: "buf \<noteq> []" and new_end: "unat new_end = unat off + length buf" "unat new_end \<le> 2 ^ 44"
    and t: "write_chunks E H now fid off buf old new_end (length (i_chunks j)) (v1, r) = (Inr n, (v', r'))"
  shows "edits E v1 fid (overwritten (bytes_in hide old pts) (unat off) buf) v' \<and> n = length buf"
proof -
  let ?cs = "i_chunks j" and ?key = "file_key E (v_container v1) fid"
  define A O0 where "A = unat off + hdr hide" and "O0 = unat old + hdr hide"
  define new where "new = max old new_end"
  define target where "target = padded_chunk_count (required_chunks new hide) (pad_files_pow2 (c_header (v_container v1)))"
  obtain first x lst y app v2 r2 cov us ret v3 r3 ws v4 r4 ws' v5 i5 where st:
    "file_to_chunk off hide = Inr (first, x)" "file_to_chunk (new_end - 1) hide = Inr (lst, y)"
    "grow E H ?key fid (length ?cs) (target - length ?cs) [] (v1, r) = (Inr app, (v2, r2))"
    "covered_existing fid first lst (length ?cs) (v2, r2) = (Inr cov, (v2, r2))"
    "scrub_hole E H ?key fid hide old off first (length ?cs) (v2, r2) = (Inr (us, ret), (v3, r3))"
    "write_loop E H ?key fid hide old off new_end new (length ?cs) first cov buf [first..<Suc lst]
       \<lparr>ws_appended = app, ws_updates = us, ws_retired = ret, ws_buf_pos = 0\<rparr> (v3, r3) = (Inr ws, (v4, r4))"
    "(if hide \<and> new \<noteq> old \<and> 0 < first \<and> 0 < target then refresh_size_header E H ?key fid new (length ?cs) ws else retR ws) (v4, r4) = (Inr ws', (v5, r'))"
    "bt_get (v_inodes v5) fid = Some i5"
    "v' = committed hide now fid new (apply_updates (ws_updates ws') (i_chunks i5) @ ws_appended ws') (ws_retired ws') v5" "n = length buf"
    by (rule write_chunks_steps [OF t hide refl new_def target_def])
  have cs: "length ?cs < 2 ^ 40" using pts(3,4) by simp
  note g = write_geometry [OF old(2) ne new_end new_def target_def A_def refl cs st(1,2)]
  have w1: "working E v1 fid ?cs ?cs [] pts v1"
    using working_start [OF s j(1) pts(1), of "length ?cs"] pts(3) by simp
  have ne2: "unat new_end + hdr hide = A + length buf" using new_end(1) by (simp add: A_def)
  let ?pts2 = "pts @ replicate (target - length ?cs) zero_chunk"
  have len2: "length ?pts2 = max (length ?cs) target" "?pts2 \<noteq> []" using pts(3) g(5) by auto
  obtain pts3 pts4 where p3: "zeroed O0 A {O0 div 4096..<min first (length ?cs)} ?pts2 pts3"
    and p4: "changed_on {first..lst} (overlaid hide new first (length ?cs) O0 A buf) pts3 pts4"
      "working E v1 fid ?cs (ws_refs ?cs ws) (ws_retired ws) pts4 v4" and us: "0 < first \<longrightarrow> 0 \<in> fst ` set (ws_updates ws) \<longrightarrow> ?cs \<noteq> []"
    using write_stages [OF env w1 cs old(2) A_def O0_def ne ne2 g(3,4,8,7,9) st(3-6)] by blast
  note f4 = working_facts [OF p4(2)]
  have len4: "length pts4 = length ?pts2" using p3 p4(1) by (simp add: zeroed_def changed_on_def)
  then have ne4: "pts4 \<noteq> []" using len2(2) by auto
  have bl2: "blocks ?pts2" using pts(2) by (auto simp: blocks_def zero_chunk_def)
  have keep: "take 8 (hd pts4) = u64_to_le new" if h: "hide" "\<not> (hide \<and> new \<noteq> old \<and> 0 < first \<and> 0 < target)"
  proof (rule written_header [OF bl2 f4(2) _ _ len2(2) p3])
    show "8 \<le> O0" "8 \<le> A" using h(1) by (simp_all add: O0_def A_def hdr_def)
    show "changed_on {first..lst} (overlaid True new first (length ?cs) O0 A buf) pts3 pts4" using p4(1) h(1) by simp
    show "first = 0 \<or> take 8 (hd ?pts2) = u64_to_le new"
    proof (cases "first = 0")
      case False
      then have eq: "new = old" using h g(5) by simp
      moreover have "0 < length buf" using ne by simp
      ultimately have "unat old \<noteq> 0" using g(1) by (simp only: max_def split: if_splits)
      then have np: "pts \<noteq> []" using old(1) by auto
      then have "length (take 8 (hd pts)) = 8" using pts(2) by (cases pts) (auto simp: blocks_def)
      then have "u64_to_le old = take 8 (hd pts)" using hd [OF h(1) np] by (metis to_from_le(3))
      then show ?thesis using eq np by simp
    qed simp
  qed
  obtain pts5 where p5: "working E v1 fid ?cs (ws_refs ?cs ws') (ws_retired ws') pts5 v5" "length pts5 = length pts4"
    "\<forall>p < 4096 * length pts4. hdr hide \<le> p \<longrightarrow> byte pts5 p = byte pts4 p" "hide \<longrightarrow> take 8 (hd pts5) = u64_to_le new"
    using refresh_stage [OF env p4(2) _ ne4 keep _ st(7)] us by blast
  note f5 = working_facts [OF p5(1)]
  have L: "length (ws_refs ?cs ws') = max (length ?cs) target" using f5(1) p5(2) len4 len2(1) by simp
  have i5: "i_chunks i5 = ?cs" using working_chunk_at(2) [OF p5(1)] st(8) by auto
  have v': "v' = committed hide now fid new (ws_refs ?cs ws') (ws_retired ws') v5" using st(9) by (simp add: i5 ws_refs_def)
  have hd5: "hide \<Longrightarrow> (if ws_refs ?cs ws' = [] then new = 0 else take 8 (hd pts5) = u64_to_le new)" using p5(4) L g(5) by auto
  note c = commit_working [OF p5(1) sysD(1) [OF s] fo j hide _ g(2) _ hd5 v' refl]
  have c': "sys E {} v'" "content E v' fid = bytes_in hide new pts5" "\<And>k. k \<noteq> fid \<Longrightarrow> content E v' k = content E v1 k" "files_ok E v'"
    using c(2-5) g(7,10) L by simp_all
  have "bytes_in hide new pts5 = overwritten (bytes_in hide old pts) (unat off) buf"
    by (rule written_bytes [OF pts(2) f5(2) old(1) A_def O0_def g(1,3,4) ne refl p3 [folded pts(3)] p4(1) [folded pts(3)] p5(2,3)])
      (use g(6) p5(2) len4 len2(1) in simp)
  then show ?thesis
    unfolding edits_def using c' committed_only [OF p5(1)] v' st(10) by simp
qed

lemma flush_contents:
  fixes E :: "'r env"
  assumes env: "rng_fills E" "digest_lengths E" "aead_correct E" and s: "sys E {} v" and fo: "files_ok E v"
    and f: "flush E H (v, r) = (Inr (), (v', r'))"
  shows "files_ok E v'" "content E v' k = content E v k"
proof -
  note e = flush_effect [OF env s f] and s1 = sysD [OF s]
  have sub: "cr_id ` set (i_chunks i) \<subseteq> prot {} v" if "bt_get (v_inodes v) k = Some i" for k i
    using refs_prot [OF s1(4) that, of "{}"] by (auto simp: inode_refs_def)
  have ff: "content E v' k = content E v k" "\<And>j. bt_get (v_inodes v') k = Some j \<Longrightarrow> i_kind j = File \<Longrightarrow> file_ok E (v_container v') (v_hide v') k j" for k
    using file_frame [OF e(1,3) s1(1) fo, of k] sub [of k] by blast+
  show "content E v' k = content E v k" by (rule ff(1))
  show "files_ok E v'" unfolding files_ok_def using ff(2) by blast
qed

lemma write_steps:
  fixes E :: "'r env"
  assumes t: "write_file E H now fid off buf (v, r) = (Inr n, (v', r'))" and ne: "buf \<noteq> []"
  obtains v0 r0 old v1 j new_end where "flush E H (v, r) = (Inr (), (v0, r0)) \<or> v0 = v \<and> r0 = r" "real_size E fid v0 = (Inr old, v1)"
    "bt_get (v_inodes v1) fid = Some j" "i_kind j = File" "checked_add_u64 off (of_nat (length buf)) = Some new_end" "unat new_end \<le> 2 ^ 44"
    "write_chunks E H now fid off buf old new_end (length (i_chunks j)) (v1, r0) = (Inr n, (v', r'))"
proof -
  let ?f = "if 65536 \<le> length (v_pending_free v) then flush E H else retR ()"
  have ew: "ensure_writable v = Inr ()"
    using t unfolding write_file_def by (cases "ensure_writable v") (simp_all add: bindR_heads)
  then obtain v0 r0 old v1 j new_end where f: "?f (v, r) = (Inr (), (v0, r0))" and rs: "real_size E fid v0 = (Inr old, v1)"
    and j: "bt_get (v_inodes v1) fid = Some j" and k: "i_kind j = File" and e: "checked_add_u64 off (of_nat (length buf)) = Some new_end"
    and le: "\<not> MAX_FILE_SIZE < new_end" and w: "write_chunks E H now fid off buf old new_end (length (i_chunks j)) (v1, r0) = (Inr n, (v', r'))"
    using t ne unfolding write_file_def bindR_heads(2) [of ensure_writable, OF ew] if_not_P [OF ne] bindR_heads(3)
    by (auto simp: fop_simps liftR_eq ok_or_Inr split: if_splits)
  have "unat new_end \<le> 2 ^ 44" using le by (simp add: word_less_nat_alt not_less)
  moreover have "flush E H (v, r) = (Inr (), (v0, r0)) \<or> v0 = v \<and> r0 = r" using f by (auto split: if_splits)
  ultimately show thesis using that rs j k e w by blast
qed

lemma write_effect:
  fixes E :: "'r env"
  assumes env: "rng_fills E" "digest_lengths E" "aead_correct E" and s: "sys E {} v" and fo: "files_ok E v"
    and i: "bt_get (v_inodes v) fid = Some i" "i_kind i = File" and ne: "buf \<noteq> []" and len: "length buf < 2 ^ 64"
    and t: "write_file E H now fid off buf (v, r) = (Inr n, (v', r'))"
  shows "edits E v fid (overwritten (content E v fid) (unat off) buf) v' \<and> n = length buf"
proof -
  obtain v0 r0 old v1 j new_end where st: "flush E H (v, r) = (Inr (), (v0, r0)) \<or> v0 = v \<and> r0 = r" "real_size E fid v0 = (Inr old, v1)"
    "bt_get (v_inodes v1) fid = Some j" "i_kind j = File" "checked_add_u64 off (of_nat (length buf)) = Some new_end" "unat new_end \<le> 2 ^ 44"
    "write_chunks E H now fid off buf old new_end (length (i_chunks j)) (v1, r0) = (Inr n, (v', r'))"
    by (rule write_steps [OF t ne])
  have f0: "sys E {} v0 \<and> files_ok E v0 \<and> (\<forall>k. content E v0 k = content E v k) \<and> frame v v0"
    using st(1) flush_effect [OF env s, of H r v0 r0] flush_contents [OF env s fo, of H r v0 r0] s fo by auto
  obtain i0 where i0: "bt_get (v_inodes v0) fid = Some i0" "i_kind i0 = File"
    using same_tree_getD(2) [OF frameD(1) i(1), of v0] f0 data_sameD(3) i(2) by fastforce
  obtain old' v1' j' pts where l: "real_size E fid v0 = (Inr old', v1')" "cached_only v0 v1'" "sys E {} v1'" "files_ok E v1'"
    "bt_get (v_inodes v1') fid = Some j'" "i_kind j' = File"
    "holds E (v_container v1') fid (i_chunks j') pts" "blocks pts" "length pts = length (i_chunks j')" "length pts < 2 ^ 40"
    "unat old' + hdr (v_hide v0) \<le> 4096 * length pts \<or> old' = 0" "unat old' \<le> 2 ^ 44" "content E v0 fid = bytes_in (v_hide v0) old' pts"
    "v_hide v0 \<longrightarrow> pts \<noteq> [] \<longrightarrow> u64_from_le (take 8 (hd pts)) = old'"
    using size_lookup [of E v0 fid i0] f0 i0 by metis
  have eq: "old' = old" "v1' = v1" "j' = j" using l(1,5) st(2,3) by auto
  have hv: "v_hide v0 = v_hide v1" using cached_onlyD(1) [OF l(2)] eq by simp
  have ne': "unat new_end = unat off + length buf" using st(5) unat_small [OF len] by (simp add: checked_add_u64_Some)
  have "edits E v1 fid (overwritten (bytes_in (v_hide v0) old pts) (unat off) buf) v' \<and> n = length buf"
    by (rule write_chunks_effect [OF env l(3) [unfolded eq] l(4) [unfolded eq] st(3,4) hv l(7-12) [unfolded eq] _ ne ne' st(6,7)])
      (use l(14) eq in blast)
  then show ?thesis
    using f0 content_cached [OF l(2), of E] contents_only_trans [OF contents_only_frame contents_only_trans [OF contents_only_cached [OF l(2)]]] l(13)
    unfolding edits_def eq by auto
qed

end
