(* ===== verification/Lbx_Files.thy ===== *)
theory Lbx_Files
  imports Lbx_FileWrite
begin

text \<open>
  The properties of files as sequences of bytes: reading, writing, truncating, any sequence of these with
  saves, and a whole session up to the next opening of the vault; with a session on the demonstration
  vault at the end.
\<close>

section \<open>Files as sequences of bytes\<close>

lemma sys_inv: "vfs_inv v \<Longrightarrow> disk_inv E v \<Longrightarrow> sys E {} v"
  using vfs_coreD counters_ok_split unfolding vfs_inv_def vfs_core_def sys_def by blast

text \<open>
  C10: reading returns the bytes of the file. For a file whose chunks decrypt, \<open>read\<close> of \<open>n\<close> bytes at
  an offset succeeds and returns exactly the bytes of the file's contents from there, as many as there
  are up to \<open>n\<close>: none at or past the end, across chunk borders and behind the size header alike. It
  changes at most the cached size of the file.
\<close>

theorem read_returns_content:
  assumes "vfs_inv v" "files_ok E v" "bt_get (v_inodes v) fid = Some i" "i_kind i = File" "unat off + n < 2 ^ 64"
  shows "\<exists>v'. read_file E fid off n v = (Inr (take n (drop (unat off) (content E v fid))), v')
     \<and> cached_only v v' \<and> files_ok E v' \<and> content E v' = content E v"
proof -
  have "bt_ok (v_inodes v)" using assms(1) vfs_coreD unfolding vfs_inv_def by blast
  then show ?thesis using read_file_content [OF _ assms(2-5)] content_cached by blast
qed

text \<open>
  C4: writing replaces bytes of one file. When \<open>write\<close> succeeds it reports the whole buffer written;
  the contents of the file are then those before, extended with zeros up to the offset when the write
  starts past the end, with the buffer in place of what was there; the contents of every other file are
  what they were, the names and identifiers too, and the invariants of the file system and of the
  slots on disk hold again. This holds through the zero-filled extension, the scrubbing of the hole,
  the size header, padding to powers of two, copy-on-write to fresh slots, the rewriting in place at
  the size limit, and the saves a write may trigger.
\<close>

theorem write_changes_content:
  assumes env: "rng_fills E" "digest_lengths E" "aead_correct E"
    and inv: "vfs_inv v" "disk_inv E v" "files_ok E v" and i: "bt_get (v_inodes v) fid = Some i" "i_kind i = File"
    and buf: "buf \<noteq> []" "length buf < 2 ^ 64" and w: "write_file E H now fid off buf (v, r) = (Inr n, (v', r'))"
  shows "n = length buf \<and> content E v' = (content E v)(fid := overwritten (content E v fid) (unat off) buf)
     \<and> contents_only v v' \<and> files_ok E v' \<and> disk_inv E v' \<and> (room v' \<longrightarrow> vfs_inv v')"
proof -
  note e = write_effect [OF env sys_inv [OF inv(1,2)] inv(3) i buf w]
  then show ?thesis using contents_only_inv [OF _ inv(1)] sysD(3) unfolding edits_def by (auto simp: fun_eq_iff)
qed

text \<open>
  C9: truncating cuts or extends one file. When \<open>truncate\<close> succeeds the contents of the file are the
  first bytes of those before, extended with zeros when the file grows, never with what an earlier
  truncation had cut off; everything else is as it was and the invariants hold again.
\<close>

theorem truncate_changes_content:
  assumes env: "rng_fills E" "digest_lengths E" "aead_correct E"
    and inv: "vfs_inv v" "disk_inv E v" "files_ok E v" and i: "bt_get (v_inodes v) fid = Some i" "i_kind i = File"
    and t: "truncate_file E H now fid new_size (v, r) = (Inr (), (v', r'))"
  shows "content E v' = (content E v)(fid := resized (content E v fid) (unat new_size))
     \<and> contents_only v v' \<and> files_ok E v' \<and> disk_inv E v' \<and> (room v' \<longrightarrow> vfs_inv v')"
proof -
  note e = truncate_effect [OF env sys_inv [OF inv(1,2)] inv(3) i t]
  then show ?thesis using contents_only_inv [OF _ inv(1)] sysD(3) unfolding edits_def by (auto simp: fun_eq_iff)
qed

section \<open>Sequences of operations\<close>

datatype FileOp = WriteAt u64 u64 bytes | SetLen u64 u64 | Save

fun run_file :: "'r env \<Rightarrow> Host \<Rightarrow> u64 \<Rightarrow> FileOp \<Rightarrow> ('r, unit) fop" where
  "run_file E H now (WriteAt fid off buf) = bindR (write_file E H now fid off buf) (\<lambda>_. retR ())"
| "run_file E H now (SetLen fid n) = truncate_file E H now fid n"
| "run_file E H now Save = flush E H"

fun run_files :: "'r env \<Rightarrow> Host \<Rightarrow> u64 \<Rightarrow> FileOp list \<Rightarrow> ('r, unit) fop" where
  "run_files E H now [] = retR ()"
| "run_files E H now (x # xs) = bindR (run_file E H now x) (\<lambda>_. run_files E H now xs)"

text \<open>What they mean for the contents alone.\<close>

fun spec_file :: "FileOp \<Rightarrow> (u64 \<Rightarrow> bytes) \<Rightarrow> u64 \<Rightarrow> bytes" where
  "spec_file (WriteAt fid off buf) c = c(fid := if buf = [] then c fid else overwritten (c fid) (unat off) buf)"
| "spec_file (SetLen fid n) c = c(fid := resized (c fid) (unat n))"
| "spec_file Save c = c"

definition is_file :: "Vfs \<Rightarrow> u64 \<Rightarrow> bool" where
  "is_file v fid \<longleftrightarrow> (\<exists>i. bt_get (v_inodes v) fid = Some i \<and> i_kind i = File)"

fun op_ok :: "Vfs \<Rightarrow> FileOp \<Rightarrow> bool" where
  "op_ok v (WriteAt fid off buf) \<longleftrightarrow> is_file v fid \<and> length buf < 2 ^ 64"
| "op_ok v (SetLen fid n) \<longleftrightarrow> is_file v fid"
| "op_ok v Save \<longleftrightarrow> True"

lemma op_ok_only:
  assumes "contents_only v v'"
  shows "op_ok v' x = op_ok v x"
proof -
  note g = same_tree_getD [of names_same "v_inodes v" "v_inodes v'"]
  have "is_file v' k = is_file v k" for k
    using g(1,2) assms names_sameD(3) unfolding is_file_def contents_only_def by metis
  then show ?thesis by (cases x) simp_all
qed

lemma run_file_effect:
  fixes E :: "'r env"
  assumes env: "rng_fills E" "digest_lengths E" "aead_correct E" and s: "sys E {} v" and fo: "files_ok E v" and x: "op_ok v x"
    and t: "run_file E H now x (v, r) = (Inr (), (v', r'))"
  shows "content E v' = spec_file x (content E v) \<and> contents_only v v' \<and> sys E {} v' \<and> files_ok E v'"
proof (cases x)
  case (WriteAt fid off buf)
  then obtain i where i: "bt_get (v_inodes v) fid = Some i" "i_kind i = File" and len: "length buf < 2 ^ 64" using x by (auto simp: is_file_def)
  obtain n where w: "write_file E H now fid off buf (v, r) = (Inr n, (v', r'))" using t WriteAt by (auto simp: bindR_eq_Inr)
  show ?thesis
  proof (cases "buf = []")
    case True
    then have "v' = v" using w by (auto simp: write_file_def fop_simps)
    then show ?thesis using s fo WriteAt True by simp
  next
    case False
    show ?thesis using write_effect [OF env s fo i False len w] WriteAt False unfolding edits_def by (auto simp: fun_eq_iff)
  qed
next
  case (SetLen fid n)
  then obtain i where i: "bt_get (v_inodes v) fid = Some i" "i_kind i = File" using x by (auto simp: is_file_def)
  show ?thesis using truncate_effect [OF env s fo i, of H now n r v' r'] t SetLen unfolding edits_def by (auto simp: fun_eq_iff)
next
  case Save
  then have f: "flush E H (v, r) = (Inr (), (v', r'))" using t by simp
  show ?thesis using flush_effect(1,2) [OF env s f] flush_contents [OF env s fo f] contents_only_frame Save by (auto simp: fun_eq_iff)
qed

lemma run_files_effect:
  fixes E :: "'r env"
  assumes env: "rng_fills E" "digest_lengths E" "aead_correct E"
  shows "sys E {} v \<Longrightarrow> files_ok E v \<Longrightarrow> \<forall>x \<in> set xs. op_ok v x \<Longrightarrow> run_files E H now xs (v, r) = (Inr (), (v', r')) \<Longrightarrow>
     content E v' = fold spec_file xs (content E v) \<and> contents_only v v' \<and> sys E {} v' \<and> files_ok E v'"
proof (induction xs arbitrary: v r)
  case (Cons x xs)
  obtain v1 r1 where t: "run_file E H now x (v, r) = (Inr (), (v1, r1))" "run_files E H now xs (v1, r1) = (Inr (), (v', r'))"
    using Cons.prems(4) by (auto simp: bindR_eq_Inr)
  have x: "op_ok v x" using Cons.prems(3) by simp
  have e: "content E v1 = spec_file x (content E v)" "contents_only v v1" "sys E {} v1" "files_ok E v1"
    using run_file_effect [OF env Cons.prems(1,2) x t(1)] by blast+
  have "\<forall>x \<in> set xs. op_ok v1 x" using Cons.prems(3) op_ok_only [OF e(2)] by simp
  from Cons.IH [OF e(3,4) this t(2)] show ?case using e(1) contents_only_trans [OF e(2)] by simp
qed simp

text \<open>
  C5: the file system refines a map from files to byte sequences. Any sequence of writes, truncations and
  saves that succeeds, on any files and in any order, leaves the contents that the same sequence gives
  on plain byte sequences, where saves do nothing; and the invariants hold after it.
\<close>

theorem file_ops_refine:
  assumes "rng_fills E" "digest_lengths E" "aead_correct E" and "vfs_inv v" "disk_inv E v" "files_ok E v"
    and "\<forall>x \<in> set xs. op_ok v x" and "run_files E H now xs (v, r) = (Inr (), (v', r'))"
  shows "content E v' = fold spec_file xs (content E v) \<and> contents_only v v' \<and> files_ok E v' \<and> disk_inv E v' \<and> (room v' \<longrightarrow> vfs_inv v')"
  using run_files_effect [OF assms(1-3) sys_inv [OF assms(4,5)] assms(6-8)] contents_only_inv [OF _ assms(4)] sysD(3) by blast

lemma reopened_contents:
  assumes fo: "files_ok E v" and w: "v_container w = v_container v" "v_inodes w = forget_caches (v_inodes v)"
  shows "content E w k = content E v k" "files_ok E w"
proof -
  have both: "content E w k = content E v k \<and> (\<forall>j. bt_get (v_inodes w) k = Some j \<longrightarrow> i_kind j = File \<longrightarrow> file_ok E (v_container w) (v_hide w) k j)" for k
  proof (cases "bt_get (v_inodes v) k")
    case None
    then have "bt_get (v_inodes w) k = None" using same_tree_getD(3) [OF forget_caches_same] unfolding w by blast
    then show ?thesis using None by (simp add: content_def)
  next
    case (Some i)
    then have g: "bt_get (v_inodes w) k = Some (forget_cache i)" using same_tree_getD(2) [OF forget_caches_same Some] unfolding w by blast
    have sz: "size_in h (forget_cache i) pts = size_in h i pts" for h pts by (simp add: size_in_def)
    have "file_ok E (v_container v) (v_hide v) k (forget_cache i)" if kd: "i_kind i = File"
    proof -
      obtain pts where p: "holds E (v_container v) k (i_chunks i) pts" "length pts < 2 ^ 40" "unat (size_in (v_hide v) i pts) \<le> 2 ^ 44"
        "size_in (v_hide v) i pts \<noteq> 0 \<longrightarrow> unat (size_in (v_hide v) i pts) + hdr (v_hide v) \<le> 4096 * length pts"
        using fo Some kd unfolding files_ok_def file_ok_def by blast
      show ?thesis by (rule file_okI [OF _ p(2) sz p(3,4)]) (use p(1) in simp_all)
    qed
    then show ?thesis using Some g sz by (simp add: content_def w(1))
  qed
  show "content E w k = content E v k" using both by blast
  show "files_ok E w" unfolding files_ok_def using both by blast
qed

text \<open>
  C3: contents survive a save and a reopening. After any sequence of writes, truncations and saves and
  a final save, all successful, opening the container again gives a file system in which every file
  has exactly the contents that the sequence gives on plain byte sequences, and that satisfies all
  invariants, so that the same holds of the next session.
\<close>

theorem session_then_open:
  assumes env: "rng_fills E" "digest_lengths E" "aead_correct E" and pc: "postcard_ok H"
    and inv: "vfs_inv v" "disk_inv E v" "files_ok E v" "v_tolerated_inodes v = []" and ops: "\<forall>x \<in> set xs. op_ok v x"
    and run: "run_files E H now xs (v, r) = (Inr (), (v1, r1))" "v_dirty v1" "room v1"
    and small: "size (refs (v_inodes v1)) < 2 ^ 32" "\<forall>k i. bt_get (v_inodes v1) k = Some i \<longrightarrow> length (i_chunks i) \<le> 2 ^ 32"
    and save: "flush E H (v1, r1) = (Inr (), (v', r'))" "room v'"
  shows "\<exists>w. vfs_open E H (v_container v', r2) = (Inr w, (v_container v', r2)) \<and> content E w = fold spec_file xs (content E v)
     \<and> vfs_inv w \<and> disk_inv E w \<and> files_ok E w \<and> v_tolerated_inodes w = []"
proof -
  have e: "content E v1 = fold spec_file xs (content E v)" "contents_only v v1" "sys E {} v1" "files_ok E v1"
    using run_files_effect [OF env sys_inv [OF inv(1,2)] inv(3) ops run(1)] by blast+
  have inv1: "vfs_inv v1" "disk_inv E v1" "v_tolerated_inodes v1 = []"
    using contents_only_inv [OF e(2) inv(1) e(3) run(3)] sysD(3) [OF e(3)] e(2) inv(4) by (simp_all add: contents_only_def)
  obtain w where w: "vfs_open E H (v_container v', r2) = (Inr w, (v_container v', r2))" "vfs_inv w" "disk_inv E w"
    "v_container w = v_container v'" "v_inodes w = forget_caches (v_inodes v')" "v_tolerated_inodes w = []"
    using save_open [OF env pc inv1 run(2) small save, of r2] by blast
  note f = flush_contents [OF env e(3,4) save(1)]
  have "content E w = content E v1" using reopened_contents(1) [OF f(1) w(4,5)] f(2) by (simp add: fun_eq_iff)
  then show ?thesis using w reopened_contents(2) [OF f(1) w(4,5)] e(1) by auto
qed

section \<open>A session on the demonstration vault\<close>

text \<open>The demonstration vault with an empty file \<open>F\<close>.\<close>

definition demo_finode :: "ChunkRef list \<Rightarrow> u64 \<Rightarrow> Inode" where
  "demo_finode cs sz =
     \<lparr>i_id = 2, i_parent = 1, i_kind = File, i_size = sz, i_mtime_ns = 0, i_chunks = cs, i_children = [],
      i_cached_real_size = None, i_external_list_blocks = [], i_mode = 420, i_link_count = 1, i_symlink_target = None\<rparr>"

definition demo_ftree :: "u64 \<Rightarrow> u64 \<Rightarrow> ChunkRef list \<Rightarrow> u64 \<Rightarrow> DirectoryTree" where
  "demo_ftree nc ng cs sz = \<lparr>t_root = 1, next_file_id = 3, next_chunk_id = nc, next_chunk_gen = ng, free_chunks = [],
     inodes = [(1, demo_inode 1 [([70], 2)]), (2, demo_finode cs sz)]\<rparr>"

definition demo_file :: Vfs where
  "demo_file = demo_vfs\<lparr>v_dirty := True, v_chunks_dirty := {2}, v_tree := demo_ftree 0 1 [] 0\<rparr>"

lemma demo_file_run: "run_ns (Create 0 1 [70] 420) demo_vfs = (Inr 2, demo_file)"
  by (simp add: demo_vfs_def tree_new_def ns_eval demo_file_def demo_inode_def demo_ftree_def demo_finode_def)

lemma demo_file_core: "ns_reaches True demo_vfs demo_file"
  by (rule ns_step [OF ns_start _ demo_file_run]) simp

lemma demo_file_inv: "vfs_inv demo_file"
  using reaches_core [OF demo_file_core] demo_inv by (simp add: vfs_inv_def) (simp add: demo_file_def demo_ftree_def)

lemma demo_file_get: "bt_get (v_inodes demo_file) 2 = Some (demo_finode [] 0)"
  by (simp add: demo_file_def demo_ftree_def bt_get_def)

lemma demo_flags: "v_hide demo_file = False" "v_doff demo_file = 131072"
  by (simp_all add: demo_file_def demo_vfs_def demo_header_def hide_size_header_def)

lemma demo_file_disk: "disk_inv demo_env demo_file" "files_ok demo_env demo_file"
proof -
  show "disk_inv demo_env demo_file"
    using demo_container_ok by (auto simp: disk_inv_def chains_ok_def demo_file_def demo_vfs_def demo_inode_def demo_ftree_def demo_finode_def bt_get_def split: if_splits)
  show "files_ok demo_env demo_file"
    unfolding files_ok_def demo_flags
  proof (intro allI impI)
    fix k i assume "bt_get (v_inodes demo_file) k = Some i" "i_kind i = File"
    then have "i = demo_finode [] 0" by (auto simp: demo_file_def demo_ftree_def demo_inode_def bt_get_def split: if_splits)
    then show "file_ok demo_env (v_container demo_file) False k i"
      by (intro file_okI [where pts = "[]" and sz = 0]) (simp_all add: holds_def demo_finode_def size_in_def)
  qed
qed

lemma demo_file_content: "content demo_env demo_file = (\<lambda>_. [])"
  by (rule ext) (auto simp: content_def demo_file_def demo_ftree_def demo_finode_def demo_inode_def bt_get_def plain_def bytes_in_def)

text \<open>A host whose codec knows one tree, and the projection the budget check makes of the file one chunk longer.\<close>

definition demo_projection :: DirectoryTreeV3OnDisk where
  "demo_projection = tree_on_disk (v_tree demo_file) (map (\<lambda>(k, i). (k, projected_inode V5 2 (Suc 0) k i)) (v_inodes demo_file))"

definition demo_fhost :: "DirectoryTreeV4OnDisk \<Rightarrow> Host" where
  "demo_fhost d = (demo_host d)\<lparr>pc_v3 := (\<lambda>t. if t = demo_projection then Some [8] else None),
     un_v3 := (\<lambda>b. if b \<noteq> [] \<and> hd b = 8 then Some (demo_projection, tl b) else None)\<rparr>"

text \<open>The state once the file has the chunks \<open>cs\<close> in a container with the file \<open>g\<close>.\<close>

definition demo_at :: "bytes \<Rightarrow> u64 \<Rightarrow> Vfs" where
  "demo_at g ng = demo_file\<lparr>v_container := demo_container\<lparr>lbx_file := g\<rparr>, v_tree := demo_ftree 1 ng [] 0\<rparr>"

lemma demo_slot: "slot_offset (data_offset (c_header (demo_container\<lparr>lbx_file := g\<rparr>))) 0 = Inr 131072"
  by (simp add: slot_offset_Inr demo_header_def)

lemma demo_chunk_write:
  assumes "length pt = 4096"
  shows "\<exists>g' r'. write_chunk demo_env key 2 0 \<lparr>cr_id = 0, cr_gen = n\<rparr> pt (demo_container\<lparr>lbx_file := g\<rparr>, r)
     = (Inr (), (demo_container\<lparr>lbx_file := g'\<rparr>, r'))"
proof -
  obtain c' r' where w: "write_chunk demo_env key 2 0 \<lparr>cr_id = 0, cr_gen = n\<rparr> pt (demo_container\<lparr>lbx_file := g\<rparr>, r) = (Inr (), (c', r'))"
    using write_chunk_live [OF demo_env_live assms, of "demo_container\<lparr>lbx_file := g\<rparr>" "\<lparr>cr_id = 0, cr_gen = n\<rparr>" 131072 key 2 0 r]
      demo_slot [of g] by auto
  then show ?thesis using write_chunk_file [OF w] by auto
qed

lemma demo_grow:
  "\<exists>g r. grow demo_env H key 2 0 (Suc 0) [] (demo_file, 0) = (Inr [\<lparr>cr_id = 0, cr_gen = 1\<rparr>], (demo_at g 2, r))
     \<and> read_chunk demo_env (v_container (demo_at g 2)) key 2 0 \<lparr>cr_id = 0, cr_gen = 1\<rparr> = Inr zero_chunk"
proof -
  have len: "length zero_chunk = 4096" by (simp add: zero_chunk_def)
  have c0: "v_container demo_file = demo_container\<lparr>lbx_file := lbx_file demo_container\<rparr>" by (simp add: demo_file_def demo_vfs_def)
  obtain g r where w: "write_chunk demo_env key 2 0 \<lparr>cr_id = 0, cr_gen = 1\<rparr> zero_chunk (v_container demo_file, 0)
      = (Inr (), (demo_container\<lparr>lbx_file := g\<rparr>, r))"
    unfolding c0 using demo_chunk_write [OF len] by blast
  define v2 where "v2 = demo_file\<lparr>v_tree := demo_ftree 1 2 [] 0\<rparr>"
  have a: "alloc_slot demo_env H 1 (demo_file, 0) = (Inr 0, (demo_file\<lparr>v_tree := demo_ftree 1 1 [] 0\<rparr>, 0))"
    by (simp add: alloc_slot_def bindR_heads(3) onV_Inr alloc_cid_Inr) (simp add: demo_file_def demo_vfs_def demo_ftree_def)
  have b: "alloc_gen (demo_file\<lparr>v_tree := demo_ftree 1 1 [] 0\<rparr>) = (Inr 1, v2)" by (simp add: alloc_gen_Inr v2_def demo_ftree_def)
  have c: "v_container v2 = v_container demo_file" "v2\<lparr>v_container := demo_container\<lparr>lbx_file := g\<rparr>\<rparr> = demo_at g 2"
    by (simp_all add: v2_def demo_at_def)
  have "onK (write_chunk demo_env key 2 0 \<lparr>cr_id = 0, cr_gen = 1\<rparr> zero_chunk) (v2, 0) = (Inr (), (demo_at g 2, r))"
    using w c by (simp add: onK_def)
  then have "grow demo_env H key 2 0 (Suc 0) [] (demo_file, 0) = (Inr [\<lparr>cr_id = 0, cr_gen = 1\<rparr>], (demo_at g 2, r))"
    using a b by (simp add: on_fail_def bindR_def onV_def Let_def retR_def)
  moreover have "read_chunk demo_env (demo_container\<lparr>lbx_file := g\<rparr>) key 2 0 \<lparr>cr_id = 0, cr_gen = 1\<rparr> = Inr zero_chunk"
    by (rule read_write_chunk [OF demo_env_ok(2,1) w])
  ultimately show ?thesis by (auto simp: demo_at_def)
qed

text \<open>After a byte is written at offset 2, and after the file is extended to five bytes.\<close>

definition demo_done :: "ChunkRef \<Rightarrow> u64 \<Rightarrow> u64 \<Rightarrow> bytes \<Rightarrow> Vfs" where
  "demo_done cr sz ng g = demo_file\<lparr>v_container := demo_container\<lparr>lbx_file := g\<rparr>, v_tree := demo_ftree 1 ng [cr] sz\<rparr>"

lemma demo_committed: "committed False 0 2 sz [cr] [] (demo_at g ng) = demo_done cr sz ng g"
  by (simp add: committed_def on_inodes_def demo_at_def demo_done_def demo_ftree_def bt_modify_def bt_get_def demo_finode_def
      commit_inode_def demo_file_def demo_vfs_def demo_inode_def)

lemma demo_sizes: "real_size E 2 demo_file = (Inr 0, demo_file)" "ensure_writable demo_file = Inr ()" "v_pending_free demo_file = []"
  "pad_files_pow2 (c_header (v_container demo_file)) = pad_files_pow2 demo_header"
  using demo_flags by (simp_all add: real_size_def demo_file_get) (simp_all add: demo_file_def demo_vfs_def ensure_writable_def demo_finode_def)

lemma demo_budget: "check_metadata_budget_for_chunks (demo_fhost d) 2 (Suc 0) demo_file = Inr ()"
proof -
  have f: "v_format demo_file = V5" "metadata_size (c_header (v_container demo_file)) = 65536"
    by (simp_all add: demo_file_def demo_vfs_def demo_header_def)
  have p: "pc_v3 (demo_fhost d) demo_projection = Some [8]" by (simp add: demo_fhost_def)
  show ?thesis
    unfolding check_metadata_budget_for_chunks_def f demo_projection_def [symmetric] p by (simp add: payload_budget_for_def ok_or_def)
qed

lemma demo_truncate: "\<exists>g r. truncate_file demo_env (demo_fhost d) 0 2 5 (demo_file, 0) = (Inr (), (demo_done \<lparr>cr_id = 0, cr_gen = 1\<rparr> 5 2 g, r))"
proof -
  obtain g r where gr: "grow demo_env (demo_fhost d) (file_key demo_env (v_container demo_file) 2) 2 0 (Suc 0) [] (demo_file, 0)
      = (Inr [\<lparr>cr_id = 0, cr_gen = 1\<rparr>], (demo_at g 2, r))" using demo_grow by blast
  have n: "padded_chunk_count (required_chunks 5 False) p = 1" for p by (simp add: padded_chunk_count_def required_chunks_def Let_def)
  have "truncate_chunks demo_env (demo_fhost d) 0 2 5 0 [] (demo_file, 0) = (Inr (), (demo_done \<lparr>cr_id = 0, cr_gen = 1\<rparr> 5 2 g, r))"
    using gr unfolding truncate_chunks_def bindR_heads(3) prod.case Let_def demo_flags n
    by (simp add: bindR_def onV_def readV_def setV_def modV_def retR_def budget_check_def demo_budget zero_fill_existing_range_def
        truncate_header_def demo_committed del: grow.simps)
  then show ?thesis
    unfolding truncate_file_def using demo_sizes demo_file_get
    by (auto simp: bindR_heads(1) [of "real_size demo_env 2", OF demo_sizes(1)] bindR_heads(2) demo_finode_def)
qed

lemma demo_write: "\<exists>g r. write_file demo_env (demo_fhost d) 0 2 2 [9] (demo_file, 0) = (Inr 1, (demo_done \<lparr>cr_id = 0, cr_gen = 2\<rparr> 3 3 g, r))"
proof -
  let ?H = "demo_fhost d" and ?cr = "\<lparr>cr_id = 0, cr_gen = 2\<rparr>"
  define key where "key = file_key demo_env (v_container demo_file) 2"
  obtain g r where gr: "grow demo_env ?H key 2 0 (Suc 0) [] (demo_file, 0) = (Inr [\<lparr>cr_id = 0, cr_gen = 1\<rparr>], (demo_at g 2, r))"
    and rd: "read_chunk demo_env (v_container (demo_at g 2)) key 2 0 \<lparr>cr_id = 0, cr_gen = 1\<rparr> = Inr zero_chunk" using demo_grow by blast
  have len: "length (put zero_chunk 2 [9]) = 4096" by (simp add: zero_chunk_def)
  obtain g' r' where w: "write_chunk demo_env key 2 0 ?cr (put zero_chunk 2 [9]) (demo_container\<lparr>lbx_file := g\<rparr>, r)
      = (Inr (), (demo_container\<lparr>lbx_file := g'\<rparr>, r'))" using demo_chunk_write [OF len] by blast
  have at: "v_container (demo_at g ng) = demo_container\<lparr>lbx_file := g\<rparr>" "(demo_at g ng)\<lparr>v_container := demo_container\<lparr>lbx_file := g'\<rparr>\<rparr> = demo_at g' ng"
    "alloc_gen (demo_at g 2) = (Inr 2, demo_at g 3)" "bt_get (v_inodes (demo_at g' 3)) 2 = Some (demo_finode [] 0)" for ng
    by (simp_all add: demo_at_def alloc_gen_Inr demo_ftree_def bt_get_def)
  have rw: "rewrite_in_place demo_env key 2 0 \<lparr>cr_id = 0, cr_gen = 1\<rparr> (put zero_chunk 2 [9]) (demo_at g 2, r) = (Inr ?cr, (demo_at g' 3, r'))"
    unfolding rewrite_in_place_def by (simp add: fop_simps at(1,3) w) (simp add: at(2))
  have cr: "covered_range False 0 2 3 = Inr (2, 3)" using covered_range_nat [of 0 False 2 3] by (simp add: hdr_def)
  have wl: "write_loop demo_env ?H key 2 False 0 2 3 3 0 0 [] [9] [0] \<lparr>ws_appended = [\<lparr>cr_id = 0, cr_gen = 1\<rparr>], ws_updates = [], ws_retired = [], ws_buf_pos = 0\<rparr>
      (demo_at g 2, r) = (Inr \<lparr>ws_appended = [?cr], ws_updates = [], ws_retired = [], ws_buf_pos = 1\<rparr>, (demo_at g' 3, r'))"
    using rd rw by (simp add: cr bindR_def liftR_def onV_def readV_def retR_def Let_def patched_def slice_def)
  have n: "padded_chunk_count (required_chunks 3 False) p = Suc 0" for p by (simp add: padded_chunk_count_def required_chunks_def Let_def)
  have f: "file_to_chunk 2 False = Inr (0, 2)" by (simp add: file_to_chunk_def)
  have "write_chunks demo_env ?H 0 2 2 [9] 0 3 0 (demo_file, 0) = (Inr 1, (demo_done ?cr 3 3 g' , r'))"
    using gr wl unfolding write_chunks_def bindR_heads(3) prod.case Let_def demo_flags key_def [symmetric]
    by (simp add: n f bindR_def liftR_def onV_def readV_def setV_def modV_def retR_def budget_check_def demo_budget covered_existing_def scrub_hole_def
        unwrap_inode_def at(4) ok_or_def demo_committed del: grow.simps write_loop.simps) (simp add: demo_finode_def apply_updates_def demo_committed)
  then have "write_file demo_env ?H 0 2 2 [9] (demo_file, 0) = (Inr 1, (demo_done ?cr 3 3 g' , r'))"
    by (simp add: write_file_def bindR_def retR_def liftR_def onV_def readV_def askV_def demo_sizes(1-3) demo_file_get demo_finode_def checked_add_u64_def)
  then show ?thesis by blast
qed

text \<open>The save after the write.\<close>

abbreviation demo_ref :: ChunkRef where
  "demo_ref \<equiv> \<lparr>cr_id = 0, cr_gen = 2\<rparr>"

definition demo_rows :: DirectoryTreeV4OnDisk where
  "demo_rows = \<lparr>d_root = 1, d_next_file_id = 3, d_next_chunk_id = 1, d_next_chunk_gen = 4, d_free_chunks = [],
     d_inodes = map (\<lambda>(k, i). (k, with_v4_fields (on_disk_of i (i_chunks i) None) i)) [(1, demo_inode 1 [([70], 2)]), (2, demo_finode [demo_ref] 3)]\<rparr>"

lemma demo_done_spills:
  assumes v: "v_tree v = demo_ftree 1 4 [demo_ref] 3" "v_format v = V5"
  shows "spill_to_v4_on_disk E (v, r) = (Inr demo_rows, (v, r))"
proof -
  have m: "v_inodes v = [(1, demo_inode 1 [([70], 2)]), (2, demo_finode [demo_ref] 3)]" by (simp add: v demo_ftree_def)
  have ok: "bt_ok (v_inodes v)" by (simp add: m bt_ok_def bt_keys_def)
  have sp: "spill_inode E k (v, r) = (Inr (on_disk_of i (i_chunks i) None), (v, r))"
    if g: "bt_get (v_inodes v) k = Some i" for k i r
  proof (rule inline_spill_inode [OF g _ _ ok])
    show "\<not> file_needs_external (v_format v) i" "i_external_list_blocks i = []"
      using g v(2) by (auto simp: m bt_get_def demo_inode_def demo_finode_def file_needs_external_def inline_chunk_threshold_def split: if_splits)
  qed
  have "spill_ids E (bt_keys (v_inodes v)) [] (v, r)
      = (Inr [(1, on_disk_of (demo_inode 1 [([70], 2)]) [] None), (2, on_disk_of (demo_finode [demo_ref] 3) [demo_ref] None)], (v, r))"
    using sp [of 1] sp [of 2] by (simp add: m bt_keys_def bt_get_def bindR_eq_Inr demo_inode_def demo_finode_def)
  then show ?thesis
    by (simp add: spill_to_v4_on_disk_def spill_to_v3_on_disk_def bindR_eq_Inr askV_Inr onV_Inr readV_eq tree_on_disk_def
        unwrap_inode_def bt_get_def m ok_or_def) (simp add: demo_rows_def v demo_ftree_def demo_inode_def demo_finode_def)
qed

lemma demo_done_flush:
  assumes val: "validate_metadata_tree (v_tree (demo_done demo_ref 3 3 g)) (v_doff (demo_done demo_ref 3 3 g)) (v_hide (demo_done demo_ref 3 3 g)) = Inr ()"
  shows "\<exists>v' r'. flush demo_env (demo_fhost demo_rows) (demo_done demo_ref 3 3 g, r) = (Inr (), (v', r')) \<and> v_tree v' = demo_ftree 1 4 [demo_ref] 3
    \<and> v_doff v' = 131072"
proof -
  let ?H = "demo_fhost demo_rows" and ?v = "demo_done demo_ref 3 3 g"
  define u where "u = ?v\<lparr>v_cow_floor_gen := 3, v_tree := demo_ftree 1 4 [demo_ref] 3\<rparr>"
  have fl: "v_format u = V5" "v_container u = demo_container\<lparr>lbx_file := g\<rparr>" "v_pending_free u = []" "v_max_vault_size u = 0"
    "v_tree u = demo_ftree 1 4 [demo_ref] 3" "next_chunk_gen (v_tree ?v) = 3"
    by (simp_all add: u_def demo_done_def demo_file_def demo_vfs_def demo_ftree_def)
  have gen: "alloc_gen (?v\<lparr>v_cow_floor_gen := 3\<rparr>) = (Inr 3, u)" by (simp add: alloc_gen_Inr u_def demo_done_def demo_ftree_def)
  have up: "auto_upgrade_format (auto_upgrade_header ?H u) = u"
    using fl by (simp add: auto_upgrade_format_def auto_upgrade_header_def demo_header_def)
  obtain c' r' where w: "c_write_metadata demo_env (METADATA_V5_MAGIC @ [7]) (demo_container\<lparr>lbx_file := g\<rparr>, r) = (Inr (), (c', r'))"
    using demo_write_metadata [of "METADATA_V5_MAGIC @ [7]" g r] by (auto simp: bstr_def)
  have enc: "encode_tree demo_env ?H V5 (u, r) = (Inr (METADATA_V5_MAGIC @ [7]), (u, r))"
    using demo_done_spills [OF fl(5,1), of demo_env r] fl
    by (simp add: encode_tree_def fop_simps settings_tail_def limited_def add_pending_def demo_fhost_def demo_host_def)
  have "commit demo_env ?H (?v, r) = (Inr (), (settle (u\<lparr>v_container := c'\<rparr>), r'))"
    unfolding commit_def using val gen up enc w fl by (simp add: fop_simps fmt_eq_Inr)
  moreover have "container_ok (demo_container\<lparr>lbx_file := g\<rparr>)" using demo_container_ok by (simp add: container_ok_def)
  then have "data_offset (c_header c') = 131072"
    using c_write_metadata_frame(1) [OF demo_env_ok(2,3,1) _ w] by (simp add: hdr_same_def Let_def demo_header_def)
  ultimately show ?thesis
    using flush_dirty [of ?v demo_env ?H r] fl by (simp add: demo_done_def demo_file_def demo_vfs_def settle_def demo_ftree_def)
qed

lemma demo_bytes: "overwritten [] 2 [9] = [0, 0, 9]" "resized [] 5 = [0, 0, 0, 0, 0]"
  by (simp_all add: overwritten_def resized_def numeral_2_eq_2) (simp add: numeral_eq_Suc)

lemma demo_written:
  assumes w: "write_file demo_env H 0 2 2 [9] (demo_file, 0) = (Inr 1, (demo_done demo_ref 3 3 g, r))"
  shows "sys demo_env {} (demo_done demo_ref 3 3 g)" "files_ok demo_env (demo_done demo_ref 3 3 g)" "vfs_inv (demo_done demo_ref 3 3 g)"
    "content demo_env (demo_done demo_ref 3 3 g) 2 = [0, 0, 9]" "room (demo_done demo_ref 3 3 g)"
proof -
  let ?v = "demo_done demo_ref 3 3 g"
  have "sys demo_env {} demo_file" by (rule sys_inv [OF demo_file_inv demo_file_disk(1)])
  note e = write_effect [OF demo_env_ok(2,3,1) this demo_file_disk(2) demo_file_get _ _ _ w]
  then have e: "contents_only demo_file ?v" "sys demo_env {} ?v" "files_ok demo_env ?v" "content demo_env ?v 2 = overwritten (content demo_env demo_file 2) 2 [9]"
    by (simp_all add: edits_def demo_finode_def)
  show "sys demo_env {} ?v" "files_ok demo_env ?v" by (rule e)+
  show r: "room ?v" by (simp add: room_def slot_offset_ok demo_done_def demo_ftree_def demo_header_def)
  show "vfs_inv ?v" by (rule contents_only_inv [OF e(1) demo_file_inv e(2) r])
  show "content demo_env ?v 2 = [0, 0, 9]" using e(4) unfolding demo_file_content demo_bytes .
qed

lemma demo_done_get: "bt_get (v_inodes (demo_done cr sz ng g)) 2 = Some (demo_finode [cr] sz)" "i_kind (demo_finode [cr] sz) = File"
  by (simp_all add: demo_done_def demo_ftree_def bt_get_def demo_finode_def)

theorem read_returns_content_witness:
  "\<exists>g v'. read_file demo_env 2 1 5 (demo_done demo_ref 3 3 g) = (Inr [0, 9], v')"
proof -
  obtain g r where w: "write_file demo_env (demo_fhost demo_rows) 0 2 2 [9] (demo_file, 0) = (Inr 1, (demo_done demo_ref 3 3 g, r))"
    using demo_write by blast
  note d = demo_written [OF w]
  show ?thesis using read_returns_content [OF d(3,2) demo_done_get, of 1 5] d(4) by auto
qed

theorem write_changes_content_witness:
  "\<exists>v' r'. write_file demo_env (demo_fhost demo_rows) 0 2 2 [9] (demo_file, 0) = (Inr 1, (v', r')) \<and> content demo_env v' 2 = [0, 0, 9]"
proof -
  obtain v' r' where w: "write_file demo_env (demo_fhost demo_rows) 0 2 2 [9] (demo_file, 0) = (Inr 1, (v', r'))" using demo_write by blast
  have "content demo_env v' = (content demo_env demo_file)(2 := overwritten (content demo_env demo_file 2) 2 [9])"
    using write_changes_content [OF demo_env_ok(2,3,1) demo_file_inv demo_file_disk demo_file_get _ _ _ w] by (simp add: demo_finode_def)
  then show ?thesis using w by (auto simp: demo_file_content demo_bytes)
qed

theorem truncate_changes_content_witness:
  "\<exists>v' r'. truncate_file demo_env (demo_fhost demo_rows) 0 2 5 (demo_file, 0) = (Inr (), (v', r')) \<and> content demo_env v' 2 = [0, 0, 0, 0, 0]"
proof -
  obtain v' r' where w: "truncate_file demo_env (demo_fhost demo_rows) 0 2 5 (demo_file, 0) = (Inr (), (v', r'))" using demo_truncate by blast
  have "content demo_env v' = (content demo_env demo_file)(2 := resized (content demo_env demo_file 2) 5)"
    using truncate_changes_content [OF demo_env_ok(2,3,1) demo_file_inv demo_file_disk demo_file_get _ w] by (simp add: demo_finode_def)
  then show ?thesis using w by (auto simp: demo_file_content demo_bytes)
qed

lemma demo_done_small: "size (refs (v_inodes (demo_done cr sz ng g))) < 2 ^ 32" "v_dirty (demo_done cr sz ng g)"
  "\<forall>k i. bt_get (v_inodes (demo_done cr sz ng g)) k = Some i \<longrightarrow> length (i_chunks i) \<le> 2 ^ 32"
  by (auto simp: demo_done_def demo_ftree_def refs_def demo_inode_def demo_finode_def bt_values_def bt_get_def demo_file_def split: if_splits)

lemma demo_session:
  "\<exists>g r v' r'. write_file demo_env (demo_fhost demo_rows) 0 2 2 [9] (demo_file, 0) = (Inr 1, (demo_done demo_ref 3 3 g, r))
     \<and> flush demo_env (demo_fhost demo_rows) (demo_done demo_ref 3 3 g, r) = (Inr (), (v', r')) \<and> room v'"
proof -
  obtain g r where w: "write_file demo_env (demo_fhost demo_rows) 0 2 2 [9] (demo_file, 0) = (Inr 1, (demo_done demo_ref 3 3 g, r))"
    using demo_write by blast
  let ?v = "demo_done demo_ref 3 3 g"
  note d = demo_written [OF w]
  have "validate_metadata_tree (v_tree ?v) (v_doff ?v) (v_hide ?v) = Inr ()"
    using validate_metadata_tree_iff [OF vfs_inv_valid(1) [OF d(3)] demo_done_small(1)] vfs_inv_valid(3) [OF d(3)] by blast
  from demo_done_flush [OF this] obtain v' r' where "flush demo_env (demo_fhost demo_rows) (?v, r) = (Inr (), (v', r'))"
    "v_tree v' = demo_ftree 1 4 [demo_ref] 3" "v_doff v' = 131072" by blast
  moreover from this(2,3) have "room v'" by (simp add: room_def slot_offset_ok demo_ftree_def)
  ultimately show ?thesis using w by blast
qed

lemma demo_ops_ok: "op_ok demo_file (WriteAt 2 2 [9])"
  using demo_file_get by (auto simp: is_file_def demo_finode_def)

theorem file_ops_refine_witness:
  "\<exists>v' r'. run_files demo_env (demo_fhost demo_rows) 0 [WriteAt 2 2 [9], Save] (demo_file, 0) = (Inr (), (v', r')) \<and> content demo_env v' 2 = [0, 0, 9]"
proof -
  obtain g r v' r' where s: "write_file demo_env (demo_fhost demo_rows) 0 2 2 [9] (demo_file, 0) = (Inr 1, (demo_done demo_ref 3 3 g, r))"
    "flush demo_env (demo_fhost demo_rows) (demo_done demo_ref 3 3 g, r) = (Inr (), (v', r'))" using demo_session by blast
  have run: "run_files demo_env (demo_fhost demo_rows) 0 [WriteAt 2 2 [9], Save] (demo_file, 0) = (Inr (), (v', r'))"
    using s by (simp add: bindR_def retR_def)
  have ok: "\<forall>x \<in> set [WriteAt 2 2 [9], Save]. op_ok demo_file x" using demo_ops_ok by simp
  show ?thesis using file_ops_refine [OF demo_env_ok(2,3,1) demo_file_inv demo_file_disk ok run] run
    by (auto simp: demo_file_content demo_bytes)
qed

lemma demo_fhost_ok: "postcard_ok (demo_fhost d)"
  by (auto simp: postcard_ok_def demo_fhost_def demo_host_def split: if_splits)

theorem session_then_open_witness:
  "\<exists>v1 r1 v' r' w. run_files demo_env (demo_fhost demo_rows) 0 [WriteAt 2 2 [9]] (demo_file, 0) = (Inr (), (v1, r1))
     \<and> flush demo_env (demo_fhost demo_rows) (v1, r1) = (Inr (), (v', r'))
     \<and> vfs_open demo_env (demo_fhost demo_rows) (v_container v', r') = (Inr w, (v_container v', r')) \<and> content demo_env w 2 = [0, 0, 9]"
proof -
  obtain g r v' r' where s: "write_file demo_env (demo_fhost demo_rows) 0 2 2 [9] (demo_file, 0) = (Inr 1, (demo_done demo_ref 3 3 g, r))"
    "flush demo_env (demo_fhost demo_rows) (demo_done demo_ref 3 3 g, r) = (Inr (), (v', r'))" "room v'" using demo_session by blast
  have run: "run_files demo_env (demo_fhost demo_rows) 0 [WriteAt 2 2 [9]] (demo_file, 0) = (Inr (), (demo_done demo_ref 3 3 g, r))"
    using s by (simp add: bindR_def retR_def)
  have ok: "\<forall>x \<in> set [WriteAt 2 2 [9]]. op_ok demo_file x" using demo_ops_ok by simp
  have tol: "v_tolerated_inodes demo_file = []" by (simp add: demo_file_def demo_vfs_def)
  obtain w where w: "vfs_open demo_env (demo_fhost demo_rows) (v_container v', r') = (Inr w, (v_container v', r'))"
    "content demo_env w = fold spec_file [WriteAt 2 2 [9]] (content demo_env demo_file)"
    using session_then_open [OF demo_env_ok(2,3,1) demo_fhost_ok demo_file_inv demo_file_disk tol ok run demo_done_small(2) demo_written(5) [OF s(1)]
        demo_done_small(1,3) s(2,3), of r'] by blast
  have "content demo_env w 2 = [0, 0, 9]" using w(2) by (simp add: demo_file_content demo_bytes)
  with run s(2) w(1) show ?thesis by blast
qed

end
