(* ===== verification/Lbx_Anchor.thy ===== *)
theory Lbx_Anchor
  imports Lbx_Files
begin

text \<open>
  The rollback anchor (\<open>luksbox-format/src/anchor.rs\<close> and the anchor operations of container.rs): the
  authenticated side file with the generations last seen, in its standard and its deniable format, how a
  container arms, creates and rewrites it, and the save of vfs.rs with an anchor armed. The lemmas show
  that exactly the bytes the code writes are accepted, and the property that an older copy of the
  vault is detected. The header generation inside deniable vaults is not modelled, so that deniable
  anchors carry none here.
\<close>

section \<open>The anchor file\<close>

abbreviation (input) ANCHOR_MAGIC :: bytes where "ANCHOR_MAGIC \<equiv> bstr ''LBXANCH1''"
abbreviation (input) ANCHOR_MAGIC_V2 :: bytes where "ANCHOR_MAGIC_V2 \<equiv> bstr ''LBXANCH2''"
abbreviation (input) ANCHOR_INFO :: bytes where "ANCHOR_INFO \<equiv> bstr ''lbx:anchor-mac/v1''"
abbreviation (input) ANCHOR_SIZE :: nat where "ANCHOR_SIZE \<equiv> 48"
abbreviation (input) ANCHOR_V2_SIZE :: nat where "ANCHOR_V2_SIZE \<equiv> 56"

record AnchorContents =
  an_generation :: u64
  an_header_generation :: "u64 option"

definition anchor_key :: "'r env \<Rightarrow> bytes \<Rightarrow> bytes \<Rightarrow> bytes" where
  "anchor_key E mvk salt = derive_subkey E mvk salt ANCHOR_INFO"

definition anchor_body :: "u64 \<Rightarrow> u64 option \<Rightarrow> bytes" where
  "anchor_body generation hg =
     (case hg of
        None \<Rightarrow> ANCHOR_MAGIC @ u64_to_le generation
      | Some h \<Rightarrow> ANCHOR_MAGIC_V2 @ u64_to_le generation @ u64_to_le h)"

definition build_anchor_buf :: "'r env \<Rightarrow> u64 \<Rightarrow> u64 option \<Rightarrow> bytes \<Rightarrow> bytes \<Rightarrow> bytes" where
  "build_anchor_buf E generation hg mvk salt =
     (let body = anchor_body generation hg in body @ hmac_sha256 E (anchor_key E mvk salt) body)"

text \<open>The verification of what was read from the file, at most one byte more than the larger format.\<close>

definition anchor_body_len :: "bytes \<Rightarrow> nat option" where
  "anchor_body_len buf =
     (if length buf = ANCHOR_SIZE \<and> take 8 buf = ANCHOR_MAGIC then Some 16
      else if length buf = ANCHOR_V2_SIZE \<and> take 8 buf = ANCHOR_MAGIC_V2 then Some 24
      else None)"

definition read_and_verify :: "'r env \<Rightarrow> bytes \<Rightarrow> bytes \<Rightarrow> bytes \<Rightarrow> AnchorContents fres" where
  "read_and_verify E file mvk salt =
     (let buf = take (ANCHOR_V2_SIZE + 1) file in
      bindE (ok_or AnchorCorrupt (anchor_body_len buf)) (\<lambda>body_len.
      if hmac_sha256 E (anchor_key E mvk salt) (take body_len buf) \<noteq> drop body_len buf then Inl AnchorAuthFailed
      else Inr \<lparr>an_generation = u64_from_le (slice buf 8 8),
                an_header_generation = (if body_len = 24 then Some (u64_from_le (slice buf 16 8)) else None)\<rparr>))"

datatype VerificationOutcome =
    AnchorOk
  | RollbackDetected u64 u64
  | AnchorStale u64 u64

definition anchor_compare :: "u64 \<Rightarrow> u64 \<Rightarrow> VerificationOutcome" where
  "anchor_compare anchor_gen metadata_gen =
     (if anchor_gen = metadata_gen then AnchorOk
      else if metadata_gen < anchor_gen then RollbackDetected anchor_gen metadata_gen
      else AnchorStale anchor_gen metadata_gen)"

section \<open>The anchor file of deniable vaults\<close>

abbreviation (input) DENIABLE_ANCHOR_LABEL :: bytes where "DENIABLE_ANCHOR_LABEL \<equiv> bstr ''luksbox-deniable-v1/anchor''"
abbreviation (input) DENIABLE_ANCHOR_SIZE :: nat where "DENIABLE_ANCHOR_SIZE \<equiv> 256"
abbreviation (input) DENIABLE_ANCHOR_HG_MARKER :: bytes where "DENIABLE_ANCHOR_HG_MARKER \<equiv> bstr ''LBXDAHG2''"

definition deniable_anchor_key :: "'r env \<Rightarrow> bytes \<Rightarrow> bytes \<Rightarrow> bytes" where
  "deniable_anchor_key E mvk salt = derive_subkey E mvk salt DENIABLE_ANCHOR_LABEL"

definition deniable_anchor_aad :: "bytes \<Rightarrow> bytes" where
  "deniable_anchor_aad salt = DENIABLE_ANCHOR_LABEL @ salt"

definition deniable_anchor_plaintext :: "u64 \<Rightarrow> u64 option \<Rightarrow> bytes \<Rightarrow> bytes" where
  "deniable_anchor_plaintext generation hg padding =
     (let pt = u64_to_le generation @ padding in
      case hg of
        None \<Rightarrow> pt
      | Some h \<Rightarrow> put (put pt 8 DENIABLE_ANCHOR_HG_MARKER) 16 (u64_to_le h))"

definition build_deniable_anchor_buf ::
  "'r env \<Rightarrow> u64 \<Rightarrow> u64 option \<Rightarrow> bytes \<Rightarrow> bytes \<Rightarrow> CipherSuite \<Rightarrow> ('r, fmt_error, bytes) rand" where
  "build_deniable_anchor_buf E generation hg mvk salt suite =
     bindR (crypto (fill E 204)) (\<lambda>padding.
     bindR (crypto (fill E 12)) (\<lambda>nonce.
     bindR (crypto (liftR (seal E suite (deniable_anchor_key E mvk salt) nonce (deniable_anchor_aad salt)
              (deniable_anchor_plaintext generation hg padding)))) (\<lambda>ct.
     bindR (crypto (fill E 16)) (\<lambda>trailing.
     retR (put (put (put (replicate DENIABLE_ANCHOR_SIZE 0) 0 nonce) 12 ct) 240 trailing)))))"

definition deniable_read_and_verify :: "'r env \<Rightarrow> bytes \<Rightarrow> bytes \<Rightarrow> bytes \<Rightarrow> CipherSuite \<Rightarrow> AnchorContents fres" where
  "deniable_read_and_verify E file mvk salt suite =
     (if length file < DENIABLE_ANCHOR_SIZE then Inl OpaqueUnlockFailed
      else
        bindE (map_err (\<lambda>_. OpaqueUnlockFailed) (aead_open E suite (deniable_anchor_key E mvk salt) (take 12 file)
                 (deniable_anchor_aad salt) (slice file 12 228))) (\<lambda>pt.
        if length pt \<noteq> 212 then Inl OpaqueUnlockFailed
        else Inr \<lparr>an_generation = u64_from_le (take 8 pt),
                  an_header_generation = (if slice pt 8 8 = DENIABLE_ANCHOR_HG_MARKER then Some (u64_from_le (slice pt 16 8)) else None)\<rparr>))"

section \<open>Lemmas on the formats\<close>

lemma anchor_body_length: "length (anchor_body g hg) = (case hg of None \<Rightarrow> 16 | Some _ \<Rightarrow> 24)"
  by (simp add: anchor_body_def bstr_def length_le split: option.splits)

lemma anchor_magic: "length ANCHOR_MAGIC = 8" "length ANCHOR_MAGIC_V2 = 8" "ANCHOR_MAGIC \<noteq> ANCHOR_MAGIC_V2"
  by (simp_all add: bstr_def)

lemma anchor_len_cases:
  assumes "anchor_body_len buf = Some n"
  shows "n = 16 \<and> length buf = 48 \<and> take 8 buf = ANCHOR_MAGIC \<or> n = 24 \<and> length buf = 56 \<and> take 8 buf = ANCHOR_MAGIC_V2"
  using assms by (auto simp: anchor_body_len_def split: if_splits)

lemma anchor_bytes_exact:
  assumes dl: "digest_lengths E"
  shows "read_and_verify E file mvk salt = Inr a \<longleftrightarrow> file = build_anchor_buf E (an_generation a) (an_header_generation a) mvk salt"
proof
  let ?k = "anchor_key E mvk salt"
  have h: "length (hmac_sha256 E k d) = 32" for k d using hmac_length [OF dl] .
  assume r: "read_and_verify E file mvk salt = Inr a"
  let ?buf = "take 57 file"
  obtain n where n: "anchor_body_len ?buf = Some n" and mac: "hmac_sha256 E ?k (take n ?buf) = drop n ?buf"
    and a: "a = \<lparr>an_generation = u64_from_le (slice ?buf 8 8), an_header_generation = (if n = 24 then Some (u64_from_le (slice ?buf 16 8)) else None)\<rparr>"
    using r by (auto simp: read_and_verify_def Let_def bindE_eq_Inr ok_or_eq_Inr split: if_splits)
  note c = anchor_len_cases [OF n]
  have f: "?buf = file" using c by auto
  have "take n file = anchor_body (an_generation a) (an_header_generation a)"
    using c
  proof
    assume c: "n = 16 \<and> length ?buf = 48 \<and> take 8 ?buf = ANCHOR_MAGIC"
    then have "take 16 file = take 8 file @ slice file 8 8" "length (slice file 8 8) = 8"
      unfolding f using take_add [of 8 8 "file"] by (simp_all add: slice_def)
    then show ?thesis using c unfolding f by (simp add: a f anchor_body_def to_from_le)
  next
    assume c: "n = 24 \<and> length ?buf = 56 \<and> take 8 ?buf = ANCHOR_MAGIC_V2"
    then have "take 24 file = take 8 file @ slice file 8 8 @ slice file 16 8" "length (slice file 8 8) = 8" "length (slice file 16 8) = 8"
      unfolding f using take_add [of 8 16 "file"] take_add [of 8 8 "drop 8 file"] by (simp_all add: slice_def)
    then show ?thesis using c unfolding f by (simp add: a f anchor_body_def to_from_le)
  qed
  then show "file = build_anchor_buf E (an_generation a) (an_header_generation a) mvk salt"
    using mac append_take_drop_id [of n "file"] unfolding f by (simp add: build_anchor_buf_def Let_def)
next
  let ?k = "anchor_key E mvk salt"
  let ?b = "anchor_body (an_generation a) (an_header_generation a)"
  have h: "length (hmac_sha256 E k d) = 32" for k d using hmac_length [OF dl] .
  assume f: "file = build_anchor_buf E (an_generation a) (an_header_generation a) mvk salt"
  then have f': "file = ?b @ hmac_sha256 E ?k ?b" by (simp add: build_anchor_buf_def Let_def)
  have len: "length file = length ?b + 32" by (simp add: f' h)
  have t: "take 57 file = file" using len by (simp add: anchor_body_length split: option.splits)
  have bl: "anchor_body_len file = Some (length ?b)"
  proof (cases "an_header_generation a")
    case None
    then have "take 8 file = ANCHOR_MAGIC" "length file = 48" using len by (simp_all add: f' anchor_body_def anchor_magic length_le)
    then show ?thesis using None by (simp add: anchor_body_len_def anchor_body_length)
  next
    case (Some h)
    then have "take 8 file = ANCHOR_MAGIC_V2" "length file = 56" using len by (simp_all add: f' anchor_body_def anchor_magic length_le)
    then show ?thesis using Some by (simp add: anchor_body_len_def anchor_body_length)
  qed
  have g: "u64_from_le (slice file 8 8) = an_generation a"
    by (cases "an_header_generation a") (simp_all add: f' anchor_body_def slice_def anchor_magic length_le)
  have hg: "(if length ?b = 24 then Some (u64_from_le (slice file 16 8)) else None) = an_header_generation a"
    by (cases "an_header_generation a") (simp_all add: f' anchor_body_length, simp add: anchor_body_def slice_def anchor_magic length_le)
  have "take (length ?b) file = ?b" "drop (length ?b) file = hmac_sha256 E ?k ?b" by (simp_all add: f')
  then show "read_and_verify E file mvk salt = Inr a"
    using bl g hg by (simp add: read_and_verify_def Let_def t)
qed

lemma deniable_anchor_roundtrip:
  assumes env: "rng_fills E" "aead_correct E"
    and b: "build_deniable_anchor_buf E g hg mvk salt suite r = (Inr file, r')"
  shows "length file = 256"
    "\<exists>a. deniable_read_and_verify E (file @ extra) mvk salt suite = Inr a \<and> an_generation a = g \<and> (hg \<noteq> None \<longrightarrow> an_header_generation a = hg)"
proof -
  obtain pad nonce ct tr r1 r2 where d: "fill E 204 r = (Inr pad, r1)" "fill E 12 r1 = (Inr nonce, r2)"
    "seal E suite (deniable_anchor_key E mvk salt) nonce (deniable_anchor_aad salt) (deniable_anchor_plaintext g hg pad) = Inr ct"
    "fill E 16 r2 = (Inr tr, r')" and f: "file = put (put (put (replicate 256 0) 0 nonce) 12 ct) 240 tr"
    using b by (auto simp: build_deniable_anchor_buf_def bindR_eq_Inr retR_eq crypto_eq_Inr liftR_eq)
  have len: "length pad = 204" "length nonce = 12" "length tr = 16" using fill_length [OF env(1)] d by blast+
  let ?pt = "deniable_anchor_plaintext g hg pad"
  have mk: "length DENIABLE_ANCHOR_HG_MARKER = 8" by (simp add: bstr_def)
  have lpt: "length ?pt = 212" using len by (simp add: deniable_anchor_plaintext_def Let_def length_le put_def mk split: option.splits)
  have lct: "length ct = 228" using seal_length [OF env(2) d(3)] lpt by simp
  have f': "file = nonce @ ct @ tr" using len lct by (simp add: f put_def)
  then show fl: "length file = 256" using len lct by simp
  have t: "take 12 (file @ extra) = nonce" "slice (file @ extra) 12 228 = ct" using len lct by (simp_all add: f' slice_def)
  have op: "aead_open E suite (deniable_anchor_key E mvk salt) nonce (deniable_anchor_aad salt) ct = Inr ?pt" by (rule seal_open [OF env(2) d(3)])
  have g: "u64_from_le (take 8 ?pt) = g"
    using len by (cases hg) (simp_all add: deniable_anchor_plaintext_def Let_def length_le put_def mk)
  have "hg \<noteq> None \<longrightarrow> slice ?pt 8 8 = DENIABLE_ANCHOR_HG_MARKER \<and> Some (u64_from_le (slice ?pt 16 8)) = hg"
    using len by (cases hg) (simp_all add: deniable_anchor_plaintext_def Let_def length_le put_def mk slice_def)
  moreover have rd: "deniable_read_and_verify E (file @ extra) mvk salt suite = Inr \<lparr>an_generation = u64_from_le (take 8 ?pt),
      an_header_generation = (if slice ?pt 8 8 = DENIABLE_ANCHOR_HG_MARKER then Some (u64_from_le (slice ?pt 16 8)) else None)\<rparr>"
    using op lpt fl unfolding deniable_read_and_verify_def t by simp
  ultimately show "\<exists>a. deniable_read_and_verify E (file @ extra) mvk salt suite = Inr a \<and> an_generation a = g \<and> (hg \<noteq> None \<longrightarrow> an_header_generation a = hg)"
    using rd g by simp
qed

section \<open>The anchor of an open container\<close>

text \<open>
  What the container knows of its anchor, the side files by their path, and the salt of a deniable
  vault. Replacing a side file and creating a new one are the atomic writes of file_util.rs.
\<close>

record Anchor =
  anchor_path :: "string option"
  anchored_metadata_gen :: "u64 option"
  side_files :: "string \<Rightarrow> bytes option"
  den_salt :: bytes

type_synonym ('r, 'a) aop = "((Container \<times> Anchor) \<times> 'r, fmt_error, 'a) rand"

definition anchor_bytes :: "'r env \<Rightarrow> u64 \<Rightarrow> Container \<Rightarrow> Anchor \<Rightarrow> ('r, fmt_error, bytes) rand" where
  "anchor_bytes E generation c a =
     (if is_deniable c
      then build_deniable_anchor_buf E generation (c_header_generation c) (c_mvk c) (den_salt a) (cipher_suite (c_header c))
      else retR (build_anchor_buf E generation (c_header_generation c) (c_mvk c) (header_salt (c_header c))))"

definition read_anchor :: "'r env \<Rightarrow> string \<Rightarrow> Container \<Rightarrow> Anchor \<Rightarrow> AnchorContents fres" where
  "read_anchor E p c a =
     (case side_files a p of
        None \<Rightarrow> Inl (if is_deniable c then OpaqueUnlockFailed else Io ''No such file or directory'')
      | Some bs \<Rightarrow>
          if is_deniable c then deniable_read_and_verify E bs (c_mvk c) (den_salt a) (cipher_suite (c_header c))
          else read_and_verify E bs (c_mvk c) (header_salt (c_header c)))"

definition generation_or_zero :: "Container \<Rightarrow> u64" where
  "generation_or_zero c = (case c_header_generation c of None \<Rightarrow> 0 | Some g \<Rightarrow> g)"

definition check_header_rollback :: "Container \<Rightarrow> AnchorContents \<Rightarrow> unit fres" where
  "check_header_rollback c x =
     (case an_header_generation x of
        None \<Rightarrow> Inr ()
      | Some anchor_hg \<Rightarrow>
          (let hg = generation_or_zero c in
           if hg < anchor_hg then Inl (HeaderRollbackDetected anchor_hg hg) else Inr ()))"

definition set_anchor :: "'r env \<Rightarrow> string option \<Rightarrow> ('r, u64 option) aop" where
  "set_anchor E path = (\<lambda>((c, a), r).
     case path of
       None \<Rightarrow> (Inr None, ((c, a\<lparr>anchor_path := None\<rparr>), r))
     | Some p \<Rightarrow>
         (case bindE (read_anchor E p c a) (\<lambda>x. bindE (check_header_rollback c x) (\<lambda>_. Inr (an_generation x))) of
            Inl e \<Rightarrow> (Inl e, ((c, a), r))
          | Inr g \<Rightarrow> (Inr (Some g), ((c, a\<lparr>anchor_path := Some p, anchored_metadata_gen := Some g\<rparr>), r))))"

definition init_anchor :: "'r env \<Rightarrow> string \<Rightarrow> u64 \<Rightarrow> ('r, unit) aop" where
  "init_anchor E p generation = (\<lambda>((c, a), r).
     case anchor_bytes E generation c a r of
       (Inl e, r') \<Rightarrow> (Inl e, ((c, a), r'))
     | (Inr bs, r') \<Rightarrow>
         if side_files a p \<noteq> None then (Inl (Io ''File exists''), ((c, a), r'))
         else (Inr (), ((c, a\<lparr>side_files := (side_files a)(p := Some bs), anchor_path := Some p,
                              anchored_metadata_gen := Some generation\<rparr>), r')))"

definition write_anchor :: "'r env \<Rightarrow> u64 \<Rightarrow> ('r, unit) aop" where
  "write_anchor E generation = (\<lambda>((c, a), r).
     case anchor_path a of
       None \<Rightarrow> (Inr (), ((c, a), r))
     | Some p \<Rightarrow>
         (case anchor_bytes E generation c a r of
            (Inl e, r') \<Rightarrow> (Inl e, ((c, a), r'))
          | (Inr bs, r') \<Rightarrow>
              (Inr (), ((c, a\<lparr>side_files := (side_files a)(p := Some bs), anchored_metadata_gen := Some generation\<rparr>), r'))))"

definition refresh_anchor_after_header_write :: "'r env \<Rightarrow> ('r, unit) aop" where
  "refresh_anchor_after_header_write E = (\<lambda>((c, a), r).
     if rotating c \<or> c_header_generation c = None then (Inr (), ((c, a), r))
     else
       (case (anchor_path a, anchored_metadata_gen a) of
          (Some _, Some g) \<Rightarrow> write_anchor E g ((c, a), r)
        | _ \<Rightarrow> (Inr (), ((c, a), r))))"

text \<open>The operations of a container that end in a header write, with an anchor that may be armed.\<close>

definition onC :: "('r, 'a) cop \<Rightarrow> ('r, 'a) aop" where
  "onC m = (\<lambda>((c, a), r). case m (c, r) of (x, (c', r')) \<Rightarrow> (x, ((c', a), r')))"

definition persist_header_anchored :: "'r env \<Rightarrow> ('r, unit) aop" where
  "persist_header_anchored E = (\<lambda>((c, a), r).
     if \<not> header_dirty c then (Inr (), ((c, a), r))
     else bindR (onC (persist_header E)) (\<lambda>_. refresh_anchor_after_header_write E) ((c, a), r))"

definition restore_header_anchored :: "'r env \<Rightarrow> Header \<Rightarrow> ('r, unit) aop" where
  "restore_header_anchored E h = bindR (onC (restore_header_as_new_state E h)) (\<lambda>_. refresh_anchor_after_header_write E)"

section \<open>Saving with an anchor\<close>

text \<open>
  The save of \<open>Lbx_Save\<close> with the anchor written between the reuse of the freed slots and the clearing
  of the dirty marks, as in the source.
\<close>

type_synonym ('r, 'a) afop = "((Vfs \<times> Anchor) \<times> 'r, vfs_error, 'a) rand"

definition onF :: "('r, 'a) fop \<Rightarrow> ('r, 'a) afop" where
  "onF m = (\<lambda>((v, a), r). case m (v, r) of (x, (v', r')) \<Rightarrow> (x, ((v', a), r')))"

definition onA :: "(Vfs \<Rightarrow> ('r, 'a) aop) \<Rightarrow> ('r, 'a) afop" where
  "onA m = (\<lambda>((v, a), r). case m v ((v_container v, a), r) of
      (x, ((c, a'), r')) \<Rightarrow> (map_err Format x, ((v\<lparr>v_container := c\<rparr>, a'), r')))"

definition write_tree :: "'r env \<Rightarrow> Host \<Rightarrow> ('r, unit) fop" where
  "write_tree E H =
     bindR (setV (\<lambda>v. v\<lparr>v_cow_floor_gen := next_chunk_gen (v_tree v)\<rparr>)) (\<lambda>_.
     bindR (onV (readV (\<lambda>v. validate_metadata_tree (v_tree v) (v_doff v) (v_hide v)))) (\<lambda>_.
     bindR (onV alloc_gen) (\<lambda>_.
     bindR (setV (auto_upgrade_header H)) (\<lambda>_.
     bindR (setV auto_upgrade_format) (\<lambda>_.
     bindR (askV v_format) (\<lambda>f.
     bindR (encode_tree E H f) (\<lambda>bs.
     onK (fmt (c_write_metadata E bs)))))))))"

definition reuse_freed :: "Vfs \<Rightarrow> Vfs" where
  "reuse_freed v =
     v\<lparr>v_tree := (v_tree v)\<lparr>free_chunks := free_chunks (v_tree v) @ v_pending_free v\<rparr>, v_pending_free := [],
       v_container := (v_container v)\<lparr>recovered_from_mirror := False\<rparr>\<rparr>"

definition mark_clean :: "Vfs \<Rightarrow> Vfs" where
  "mark_clean v = v\<lparr>v_dirty := False, v_chunks_dirty := {}\<rparr>"

definition commit_anchored :: "'r env \<Rightarrow> Host \<Rightarrow> ('r, unit) afop" where
  "commit_anchored E H =
     bindR (onF (write_tree E H)) (\<lambda>_.
     bindR (onF (setV reuse_freed)) (\<lambda>_.
     bindR (onA (\<lambda>v. write_anchor E (next_chunk_gen (v_tree v)))) (\<lambda>_.
     onF (setV mark_clean))))"

definition flush_anchored :: "'r env \<Rightarrow> Host \<Rightarrow> ('r, unit) afop" where
  "flush_anchored E H = (\<lambda>((v, a), r).
     if v_tolerated_inodes v \<noteq> [] then (if v_dirty v then Inl ReadOnlyMount else Inr (), ((v, a), r))
     else if \<not> v_dirty v \<and> \<not> recovered_from_mirror (v_container v) then (Inr (), ((v, a), r))
     else commit_anchored E H ((v, a), r))"

definition vault_generation :: "Vfs \<Rightarrow> u64" where
  "vault_generation v = next_chunk_gen (v_tree v)"

section \<open>Lemmas\<close>

lemma bindR_assoc: "bindR (bindR m f) g = bindR m (\<lambda>x. bindR (f x) g)"
  by (rule ext) (simp add: bindR_def split: prod.splits sum.splits)

lemma commit_write_tree: "commit E H = bindR (write_tree E H) (\<lambda>_. setV settle)"
  by (simp add: commit_def write_tree_def bindR_assoc)

lemma settle_parts: "mark_clean (reuse_freed v) = settle v"
  by (simp add: mark_clean_def reuse_freed_def settle_def)

lemma onF_Inr: "onF m ((v, a), r) = (Inr x, ((v', a'), r')) \<longleftrightarrow> m (v, r) = (Inr x, (v', r')) \<and> a' = a"
  by (auto simp: onF_def split: prod.splits)

text \<open>A save with an anchor is the save without one, followed by the writing of the anchor.\<close>

lemma commit_anchored_parts:
  assumes c: "commit_anchored E H ((v, a), r) = (Inr (), ((v', a'), r'))" and p: "anchor_path a = Some p"
  obtains r1 bs where "commit E H (v, r) = (Inr (), (v', r1))" "anchor_bytes E (vault_generation v') (v_container v') a r1 = (Inr bs, r')"
    "a' = a\<lparr>side_files := (side_files a)(p := Some bs), anchored_metadata_gen := Some (vault_generation v')\<rparr>"
proof -
  obtain v1 r1 v3 r3 where w: "write_tree E H (v, r) = (Inr (), (v1, r1))"
    and an: "onA (\<lambda>v. write_anchor E (next_chunk_gen (v_tree v))) ((reuse_freed v1, a), r1) = (Inr (), ((v3, a'), r3))" and v': "v' = mark_clean v3" "r' = r3"
    using c by (auto simp: commit_anchored_def bindR_eq_Inr onF_Inr setV_Inr)
  let ?c = "v_container (reuse_freed v1)"
  obtain c3 where wa: "write_anchor E (next_chunk_gen (v_tree (reuse_freed v1))) ((?c, a), r1) = (Inr (), ((c3, a'), r3))"
    and v3: "v3 = (reuse_freed v1)\<lparr>v_container := c3\<rparr>"
    using an by (auto simp: onA_def split: prod.splits sum.splits)
  have c3: "c3 = ?c" using wa p by (auto simp: write_anchor_def split: prod.splits sum.splits)
  then have v3': "v3 = reuse_freed v1" using v3 by simp
  have vv: "v_container v' = ?c" "vault_generation v' = next_chunk_gen (v_tree (reuse_freed v1))"
    using v' v3' by (simp_all add: mark_clean_def vault_generation_def)
  obtain bs where bs: "anchor_bytes E (vault_generation v') (v_container v') a r1 = (Inr bs, r')"
    "a' = a\<lparr>side_files := (side_files a)(p := Some bs), anchored_metadata_gen := Some (vault_generation v')\<rparr>"
    using wa p v'(2) unfolding vv by (auto simp: write_anchor_def split: prod.splits sum.splits)
  have "commit E H (v, r) = (Inr (), (v', r1))"
    using w v' v3' by (simp add: commit_write_tree bindR_eq_Inr setV_Inr settle_parts)
  then show ?thesis using that bs by blast
qed

text \<open>Every save that writes something raises the generation.\<close>

lemma commit_gen:
  assumes env: "rng_fills E" "digest_lengths E" "aead_correct E" and s: "sys E {} v" and cm: "commit E H (v, r) = (Inr (), (v', r'))"
  shows "vault_generation v < vault_generation v'"
proof -
  define v0 where "v0 = v\<lparr>v_cow_floor_gen := next_chunk_gen (v_tree v)\<rparr>"
  obtain g v1 v2 bs r2 c where al: "alloc_gen v0 = (Inr g, v1)"
    and en: "encode_tree E H (v_format (auto_upgrade_format (auto_upgrade_header H v1))) (auto_upgrade_format (auto_upgrade_header H v1), r) = (Inr bs, (v2, r2))"
    and v': "v' = settle (v2\<lparr>v_container := c\<rparr>)"
    by (rule commit_steps [OF cm, folded v0_def])
  define u where "u = auto_upgrade_format (auto_upgrade_header H v1)"
  have a0: "acct {} v0" using sysD(2) [OF s] by (simp add: v0_def acct_def used_def)
  have d0: "disk_inv E v0" using sysD(3) [OF s] by (simp add: v0_def disk_inv_def chains_ok_def)
  note f1 = alloc_gen_frame [OF a0 al]
  note fr1 = alloc_frameD [OF f1]
  have mx1: "v_max_vault_size v1 = v_max_vault_size v0" using fr1(4) by (simp add: frame_def)
  have d1: "disk_inv E v1" using d0 fr1 mx1 unfolding disk_inv_def chains_ok_def by simp
  note up = upgrade_frame [OF d1 u_def]
  have au: "acct {} u" using alloc_gen_acct(1) [OF a0 al] up(1,2) by (simp add: acct_def used_def)
  have oku: "bt_ok (v_inodes u)" using sysD(4) [OF s] up(1) fr1(1) by (simp add: v0_def)
  have sp: "spilled E {} u v2"
    using encode_tree_effect(1) [OF env(1,3) au oku _ en [folded u_def]] up(4) by (simp add: disk_inv_def)
  have "next_chunk_gen (v_tree v) < next_chunk_gen (v_tree v1)"
    using al less_plus_one by (auto simp: v0_def alloc_gen_Inr)
  also have "\<dots> \<le> next_chunk_gen (v_tree v2)" using up(1) sp by (simp add: spilled_def frame_def)
  finally show ?thesis by (simp add: vault_generation_def v' settle_def)
qed

lemma anchored_save:
  assumes env: "rng_fills E" "digest_lengths E" "aead_correct E" and s: "sys E {} v"
    and d: "v_dirty v" "v_tolerated_inodes v = []" "\<not> is_deniable (v_container v)" "anchor_path a = Some p"
    and f: "flush_anchored E H ((v, a), r) = (Inr (), ((v', a'), r'))"
  shows "flush E H (v, r) = (Inr (), (v', r'))" "vault_generation v < vault_generation v'" "hdr_same (v_container v) (v_container v')"
    "side_files a' p = Some (build_anchor_buf E (vault_generation v') (c_header_generation (v_container v'))
        (c_mvk (v_container v')) (header_salt (c_header (v_container v'))))"
proof -
  have ca: "commit_anchored E H ((v, a), r) = (Inr (), ((v', a'), r'))" using f d(1,2) by (simp add: flush_anchored_def)
  obtain r1 bs where cm: "commit E H (v, r) = (Inr (), (v', r1))" and ab: "anchor_bytes E (vault_generation v') (v_container v') a r1 = (Inr bs, r')"
    and a': "a' = a\<lparr>side_files := (side_files a)(p := Some bs), anchored_metadata_gen := Some (vault_generation v')\<rparr>"
    by (rule commit_anchored_parts [OF ca d(4)])
  show h: "hdr_same (v_container v) (v_container v')"
    using commit_effect(1) [OF env sysD(1,2,3) [OF s] cm] by (simp add: frame_def)
  then have std: "\<not> is_deniable (v_container v')" using d(3) by (simp add: hdr_same_def is_deniable_def)
  then have b: "r1 = r'" "bs = build_anchor_buf E (vault_generation v') (c_header_generation (v_container v'))
      (c_mvk (v_container v')) (header_salt (c_header (v_container v')))"
    using ab by (simp_all add: anchor_bytes_def retR_def)
  show "flush E H (v, r) = (Inr (), (v', r'))" using cm b(1) flush_dirty [OF d(1,2), of E H r] by simp
  show "vault_generation v < vault_generation v'" by (rule commit_gen [OF env s cm])
  show "side_files a' p = Some (build_anchor_buf E (vault_generation v') (c_header_generation (v_container v'))
        (c_mvk (v_container v')) (header_salt (c_header (v_container v'))))" by (simp add: a' b(2))
qed

lemma commit_anchored_live:
  assumes cm: "commit E H (v, r) = (Inr (), (v', r'))" and std: "\<not> is_deniable (v_container v')"
  shows "\<exists>a'. commit_anchored E H ((v, a), r) = (Inr (), ((v', a'), r'))"
proof -
  obtain v1 where w: "write_tree E H (v, r) = (Inr (), (v1, r'))" and v': "v' = mark_clean (reuse_freed v1)"
    using cm by (auto simp: commit_write_tree bindR_eq_Inr setV_Inr settle_parts)
  have "\<not> is_deniable (v_container (reuse_freed v1))" using std by (simp add: v' mark_clean_def)
  then have "\<exists>a'. write_anchor E g ((v_container (reuse_freed v1), a), r') = (Inr (), ((v_container (reuse_freed v1), a'), r'))" for g
    by (auto simp: write_anchor_def anchor_bytes_def retR_def split: option.splits)
  then obtain a' where "write_anchor E (next_chunk_gen (v_tree (reuse_freed v1))) ((v_container (reuse_freed v1), a), r')
      = (Inr (), ((v_container (reuse_freed v1), a'), r'))" by blast
  then have "onA (\<lambda>v. write_anchor E (next_chunk_gen (v_tree v))) ((reuse_freed v1, a), r') = (Inr (), ((reuse_freed v1, a'), r'))"
    by (simp add: onA_def)
  then show ?thesis using w v' by (auto simp: commit_anchored_def bindR_eq_Inr onF_Inr setV_Inr)
qed

text \<open>What arming an anchor makes of a file that was written for generation \<open>g\<close> and header generation \<open>hg\<close>.\<close>

lemma set_anchor_written:
  assumes dl: "digest_lengths E" and c: "\<not> is_deniable c" "side_files b p = Some (build_anchor_buf E g hg (c_mvk c) (header_salt (c_header c)))"
  shows "fst (set_anchor E (Some p) ((c, b), s)) =
     (case check_header_rollback c \<lparr>an_generation = g, an_header_generation = hg\<rparr> of Inl e \<Rightarrow> Inl e | Inr _ \<Rightarrow> Inr (Some g))"
proof -
  have "read_and_verify E (build_anchor_buf E g hg (c_mvk c) (header_salt (c_header c))) (c_mvk c) (header_salt (c_header c))
      = Inr \<lparr>an_generation = g, an_header_generation = hg\<rparr>" by (simp add: anchor_bytes_exact [OF dl])
  then have "read_anchor E p c b = Inr \<lparr>an_generation = g, an_header_generation = hg\<rparr>" using c by (simp add: read_anchor_def)
  then show ?thesis by (simp add: set_anchor_def split: sum.splits)
qed

text \<open>
  C6: an armed anchor detects that the vault was replaced by an older copy. Take a session of writes,
  truncations and saves on a standard vault, followed by a save with the anchor armed at \<open>p\<close>, all
  successful, and the side files as they are then. Opening the saved container and arming the anchor
  again succeeds, and the generations agree. For every state of the same vault whose generation is at
  most that at the start of the session, arming the anchor fails with the error for an older header, or
  returns a generation whose comparison reports the rollback. And where the saved header carries a
  generation, every container of the same vault with an older header is refused, however new its
  metadata. Anchors that the saves in between write are replaced by the last one.
\<close>

theorem rollback_detected:
  assumes env: "rng_fills E" "digest_lengths E" "aead_correct E" and pc: "postcard_ok H"
    and inv: "vfs_inv v0" "disk_inv E v0" "files_ok E v0" "v_tolerated_inodes v0 = []" "\<not> is_deniable (v_container v0)"
    and ops: "\<forall>x \<in> set xs. op_ok v0 x" and run: "run_files E H now xs (v0, r0) = (Inr (), (v, r))" "v_dirty v" "room v"
    and small: "size (refs (v_inodes v)) < 2 ^ 32" "\<forall>k i. bt_get (v_inodes v) k = Some i \<longrightarrow> length (i_chunks i) \<le> 2 ^ 32"
    and save: "anchor_path a = Some p" "flush_anchored E H ((v, a), r) = (Inr (), ((v', a'), r'))" "room v'"
    and b: "side_files b = side_files a'"
  shows "(\<exists>w g. vfs_open E H (v_container v', s) = (Inr w, (v_container v', s))
      \<and> fst (set_anchor E (Some p) ((v_container v', b), s)) = Inr (Some g) \<and> anchor_compare g (vault_generation w) = AnchorOk)
    \<and> (\<forall>w. \<not> is_deniable (v_container w) \<and> c_mvk (v_container w) = c_mvk (v_container v0)
        \<and> header_salt (c_header (v_container w)) = header_salt (c_header (v_container v0)) \<and> vault_generation w \<le> vault_generation v0 \<longrightarrow>
        (\<exists>x y. fst (set_anchor E (Some p) ((v_container w, b), s)) = Inl (HeaderRollbackDetected x y))
        \<or> (\<exists>g. fst (set_anchor E (Some p) ((v_container w, b), s)) = Inr (Some g)
             \<and> anchor_compare g (vault_generation w) = RollbackDetected g (vault_generation w)))
    \<and> (\<forall>c hg. \<not> is_deniable c \<and> c_mvk c = c_mvk (v_container v0) \<and> header_salt (c_header c) = header_salt (c_header (v_container v0))
        \<and> c_header_generation (v_container v') = Some hg \<and> generation_or_zero c < hg \<longrightarrow>
        fst (set_anchor E (Some p) ((c, b), s)) = Inl (HeaderRollbackDetected hg (generation_or_zero c)))"
proof -
  have e: "contents_only v0 v" "sys E {} v" "files_ok E v"
    using run_files_effect [OF env sys_inv [OF inv(1,2)] inv(3) ops run(1)] by blast+
  have iv: "vfs_inv v" "disk_inv E v" "v_tolerated_inodes v = []"
    using contents_only_inv [OF e(1) inv(1) e(2) run(3)] sysD(3) [OF e(2)] e(1) inv(4) by (simp_all add: contents_only_def)
  have h0: "hdr_same (v_container v0) (v_container v)" "vault_generation v0 \<le> vault_generation v"
    using e(1) by (simp_all add: contents_only_def vault_generation_def)
  have std: "\<not> is_deniable (v_container v)" using inv(5) h0(1) by (simp add: hdr_same_def is_deniable_def)
  note f = anchored_save [OF env e(2) run(2) iv(3) std save(1,2)]
  have lt: "vault_generation v0 < vault_generation v'" using f(2) h0(2) by simp
  have h: "hdr_same (v_container v0) (v_container v')" by (rule hdr_same_trans [OF h0(1) f(3)])
  then have k: "c_mvk (v_container v') = c_mvk (v_container v0)" "header_salt (c_header (v_container v')) = header_salt (c_header (v_container v0))"
    "\<not> is_deniable (v_container v')" using inv(5) by (simp_all add: hdr_same_def Let_def is_deniable_def)
  let ?hg = "c_header_generation (v_container v')" and ?g = "vault_generation v'"
  let ?x = "\<lparr>an_generation = ?g, an_header_generation = ?hg\<rparr>"
  have arm: "fst (set_anchor E (Some p) ((c, b), s)) = (case check_header_rollback c ?x of Inl e \<Rightarrow> Inl e | Inr _ \<Rightarrow> Inr (Some ?g))"
    if "\<not> is_deniable c" "c_mvk c = c_mvk (v_container v0)" "header_salt (c_header c) = header_salt (c_header (v_container v0))" for c
    by (rule set_anchor_written [OF env(2) that(1)]) (use f(4) that k b in simp)
  have ck: "check_header_rollback (v_container v') ?x = Inr ()" by (simp add: check_header_rollback_def generation_or_zero_def Let_def split: option.splits)
  obtain w where w: "vfs_open E H (v_container v', s) = (Inr w, (v_container v', s))" "v_tree w = (v_tree v')\<lparr>inodes := forget_caches (v_inodes v')\<rparr>"
    using save_open [OF env pc iv run(2) small f(1) save(3), of s] by blast
  then have now_ok: "\<exists>w g. vfs_open E H (v_container v', s) = (Inr w, (v_container v', s))
      \<and> fst (set_anchor E (Some p) ((v_container v', b), s)) = Inr (Some g) \<and> anchor_compare g (vault_generation w) = AnchorOk"
    using arm [OF k(3,1,2)] ck by (intro exI [of _ w] exI [of _ ?g]) (simp add: anchor_compare_def vault_generation_def)
  have old: "(\<exists>x y. fst (set_anchor E (Some p) ((v_container w, b), s)) = Inl (HeaderRollbackDetected x y))
        \<or> (\<exists>g. fst (set_anchor E (Some p) ((v_container w, b), s)) = Inr (Some g)
             \<and> anchor_compare g (vault_generation w) = RollbackDetected g (vault_generation w))"
    if "\<not> is_deniable (v_container w)" "c_mvk (v_container w) = c_mvk (v_container v0)"
      "header_salt (c_header (v_container w)) = header_salt (c_header (v_container v0))" "vault_generation w \<le> vault_generation v0" for w
  proof (cases "check_header_rollback (v_container w) ?x")
    case (Inl x)
    then have "\<exists>y z. x = HeaderRollbackDetected y z" by (auto simp: check_header_rollback_def Let_def split: option.splits if_splits)
    then show ?thesis using arm [OF that(1-3)] Inl by auto
  next
    case (Inr u)
    have "vault_generation w < ?g" using that(4) lt by simp
    then show ?thesis using arm [OF that(1-3)] Inr by (auto simp: anchor_compare_def)
  qed
  have hdr: "fst (set_anchor E (Some p) ((c, b), s)) = Inl (HeaderRollbackDetected hg (generation_or_zero c))"
    if "\<not> is_deniable c" "c_mvk c = c_mvk (v_container v0)" "header_salt (c_header c) = header_salt (c_header (v_container v0))"
      "?hg = Some hg" "generation_or_zero c < hg" for c hg
    using arm [OF that(1-3)] that(4,5) by (simp add: check_header_rollback_def generation_or_zero_def Let_def)
  show ?thesis using now_ok old hdr by blast
qed

definition demo_anchor :: Anchor where
  "demo_anchor = \<lparr>anchor_path = Some ''a'', anchored_metadata_gen = Some 1, side_files = (\<lambda>_. None), den_salt = []\<rparr>"

theorem rollback_detected_witness:
  "\<exists>v' a' r'. flush_anchored demo_env (demo_host demo_dir_rows) ((demo_dir, demo_anchor), 0) = (Inr (), ((v', a'), r'))
     \<and> (\<exists>w g. vfs_open demo_env (demo_host demo_dir_rows) (v_container v', 0) = (Inr w, (v_container v', 0))
          \<and> fst (set_anchor demo_env (Some ''a'') ((v_container v', a'), 0)) = Inr (Some g) \<and> anchor_compare g (vault_generation w) = AnchorOk)
     \<and> fst (set_anchor demo_env (Some ''a'') ((demo_container\<lparr>c_header := demo_header\<lparr>header_generation := 41\<rparr>\<rparr>, a'), 0))
         = Inl (HeaderRollbackDetected 42 41)"
proof -
  let ?H = "demo_host demo_dir_rows" and ?c = "demo_container\<lparr>c_header := demo_header\<lparr>header_generation := 41\<rparr>\<rparr>"
  have v: "v_dirty demo_dir" "v_tolerated_inodes demo_dir = []" "\<not> is_deniable (v_container demo_dir)" "v_container demo_dir = demo_container"
    by (simp_all add: demo_dir_def demo_vfs_def is_deniable_def)
  have an: "anchor_path demo_anchor = Some ''a''" by (simp add: demo_anchor_def)
  have di: "disk_inv demo_env demo_dir"
    using demo_container_ok by (auto simp: disk_inv_def chains_ok_def demo_dir_def demo_vfs_def demo_inode_def bt_get_def split: if_splits)
  have fo: "files_ok demo_env demo_dir" by (auto simp: files_ok_def demo_dir_def demo_inode_def bt_get_def split: if_splits)
  note sy = sys_inv [OF demo_dir_inv di]
  obtain v' r' where f: "flush demo_env ?H (demo_dir, 0) = (Inr (), (v', r'))" and t: "v_tree v' = v_tree demo_dir_next" and d: "v_doff v' = 131072"
    using demo_dir_flush by blast
  have cm: "commit demo_env ?H (demo_dir, 0) = (Inr (), (v', r'))" using f flush_dirty [OF v(1,2), of demo_env ?H 0] by simp
  have h: "hdr_same demo_container (v_container v')"
    using commit_effect(1) [OF demo_env_ok(2,3,1) sysD(1,2,3) [OF sy] cm] v(4) by (simp add: frame_def)
  have "c_header_generation demo_container = Some 42" by (simp add: c_header_generation_def has_header_generation_def demo_header_def)
  then have std: "\<not> is_deniable (v_container v')" and hg: "c_header_generation (v_container v') = Some 42"
    using h by (simp_all add: hdr_same_def is_deniable_def)
  obtain a' where "commit_anchored demo_env ?H ((demo_dir, demo_anchor), 0) = (Inr (), ((v', a'), r'))"
    using commit_anchored_live [OF cm std] by blast
  then have fa: "flush_anchored demo_env ?H ((demo_dir, demo_anchor), 0) = (Inr (), ((v', a'), r'))" using v by (simp add: flush_anchored_def)
  have rm: "room demo_dir" "room v'" unfolding room_def d slot_offset_ok t by (simp_all add: demo_dir_next_def demo_dir_def demo_vfs_def demo_header_def)
  have cs: "\<forall>k i. bt_get (v_inodes demo_dir) k = Some i \<longrightarrow> length (i_chunks i) \<le> 2 ^ 32"
    by (auto simp: demo_dir_def demo_inode_def bt_get_def split: if_splits)
  have run: "\<forall>x \<in> set []. op_ok demo_dir x" "run_files demo_env ?H 0 [] (demo_dir, 0) = (Inr (), (demo_dir, 0))" by (simp_all add: retR_def)
  note r = rollback_detected [OF demo_env_ok(2,3,1) demo_host_ok demo_dir_inv di fo v(2,3) run v(1) rm(1) demo_dir_refs cs an fa rm(2) refl]
  have g: "\<not> is_deniable ?c" "c_mvk ?c = c_mvk (v_container demo_dir)" "header_salt (c_header ?c) = header_salt (c_header (v_container demo_dir))"
    "generation_or_zero ?c = 41" by (simp_all add: v(4) is_deniable_def generation_or_zero_def c_header_generation_def has_header_generation_def demo_header_def)
  have "fst (set_anchor demo_env (Some ''a'') ((?c, a'), 0)) = Inl (HeaderRollbackDetected 42 41)"
    using r [THEN conjunct2, THEN conjunct2, rule_format, of ?c 42] g hg by simp
  then show ?thesis using fa r [THEN conjunct1] by blast
qed

end
