(* ===== verification/Spec2Isabelle.thy ===== *)
theory Spec2Isabelle
  imports Lbx_Open Lbx_Anchor
begin

text \<open>
  \<^bold>\<open>LUKSbox: the vault format and its file system.\<close>

  A LUKSbox vault is one file that holds an encrypted file system. Its 8192-byte header has eight
  keyslots, each of which wraps the master volume key under one credential (a passphrase, a FIDO2
  authenticator, a TPM, a Secure Enclave key, or one of these combined with a post-quantum shared
  secret); the metadata region holds the sealed directory tree; the data area is an array of
  equal slots, each with one sealed chunk of a file or one block of a file's chunk list. On top of
  it the file system keeps the tree in memory, changes it by the usual operations and writes it back
  on a save. This library models the crates luksbox-core, luksbox-format and luksbox-vfs.

  \<^bold>\<open>Parts and theories\<close>, in the order of their dependencies.

  \<^item> \<open>Lbx_Prelude\<close>: results as sums (\<open>Inl\<close> the error), computations that thread a state and may fail
    (\<open>rand\<close>), byte buffers with in-place writes, little-endian codes, checked arithmetic on words, and
    the interface \<open>codec\<close> of a serialiser and its parser.
  \<^item> \<open>Lbx_Crypto\<close>: src/crates/luksbox-core/src/aead.rs, kdf.rs, key.rs and error.rs. The ciphers,
    Argon2id, HKDF, HMAC and the random source are the fields of a record \<open>env\<close>; what the code relies
    on of them are the hypotheses \<open>aead_correct\<close>, \<open>env_sizes\<close> and the like, each shown to hold for a
    concrete environment in the witnesses.
  \<^item> \<open>Lbx_SlotKind\<close>, \<open>Lbx_Keyslot\<close>, \<open>Lbx_Enroll\<close>, \<open>Lbx_Unlock\<close>: keyslot.rs. The 28 slot kinds and
    their byte codes; the 512-byte slot with its two layouts, its serialiser, parser and associated
    data; every constructor and every unlock path. The interfaces \<open>slot_scheme\<close> and \<open>total_scheme\<close>
    state once what enrolling, storing and unlocking have to do with each other, and are interpreted
    on each of the fourteen families of slots.
  \<^item> \<open>Lbx_Header\<close>: header.rs. The header record, its serialiser and parser with all layout checks, the
    enclave region, the HMAC, and the operations on the slot table.
  \<^item> \<open>Lbx_Metadata\<close>: metadata.rs. The sealed metadata region with its optional length mask.
  \<^item> \<open>Lbx_Container\<close>: the open vault of container.rs as a record of file contents and header; reading
    and writing the metadata with its mirror, enrolling, revoking, rotating, and writing the header
    with its mirror and generation.
  \<^item> \<open>Lbx_Open\<close>: the unlock loops over the slots, opening with recovery from the header mirror, and
    the creation of vaults (container.rs).
  \<^item> \<open>Lbx_BTree\<close>: ordered maps as sorted association lists, behind the interface \<open>ordered_map\<close>.
  \<^item> \<open>Lbx_Tree\<close>: tree.rs, error.rs and the name rules of luksbox-vfs: inodes, the directory tree with
    its counters and allocators, validity of names and of symlink targets.
  \<^item> \<open>Lbx_Chunk\<close>: chunk.rs. Slot addresses, associated data, sealing and opening of chunks, and the
    chained blocks of external chunk lists; the interface \<open>slot_store\<close> says that what is written to a
    slot is read back and other slots keep their contents.
  \<^item> \<open>Lbx_Validate\<close>: the validator of metadata trees (vfs.rs), the declarative validity \<open>tree_ok\<close> it
    decides, and the descendant search.
  \<^item> \<open>Lbx_Namespace\<close>, \<open>Lbx_NsInv\<close>, \<open>Lbx_NsOps\<close>: the directory operations of vfs.rs, the invariant
    they keep, and their correctness against a plain map from directory and name to file; the
    interface \<open>simulation\<close> lifts it to sequences of operations.
  \<^item> \<open>Lbx_Save\<close>: saving and loading (flush, the spilling of chunk lists, open of vfs.rs) with the
    on-disk shapes of all metadata formats and their automatic upgrades. The postcard serialiser is a
    record \<open>Host\<close> of functions; \<open>postcard_ok\<close> says that it reads back what it writes. \<open>Lbx_Slots\<close>,
    \<open>Lbx_Spill\<close> and \<open>Lbx_Load\<close> hold the accounting of slots, the effect of spilling and the round trip
    through a save and an open.
  \<^item> \<open>Lbx_FileIO\<close>: stat, read, write, truncate, the size limit, the space report, shrinking and the
    final save of vfs.rs. \<open>Lbx_FileRead\<close>, \<open>Lbx_Rewrite\<close>, \<open>Lbx_Stages\<close> and \<open>Lbx_FileWrite\<close> prove the
    stages of a write (extension, scrubbing of holes, rewriting, size header, commit) one after the
    other; \<open>Lbx_Files\<close> has the resulting properties of whole operations and of sessions.
  \<^item> \<open>Lbx_Anchor\<close>: anchor.rs and the anchor operations of container.rs: the authenticated side file with
    the generations last seen, in its standard and its deniable format, and header writes and saves of
    vfs.rs with an anchor armed.

  \<^bold>\<open>How state and operations correspond.\<close> Rust structs are records and enums are datatypes with the
  constructors of the source; field names carry a short prefix where a record field would clash
  (\<open>c_header\<close>, \<open>i_parent\<close>, \<open>v_tree\<close>). A method on \<open>&mut self\<close> is a computation on the record, and the
  early returns of the source are its error results. Machine integers are words of their width, with
  wrapping, checked and saturating operations as in the source; \<open>usize\<close> values are natural numbers
  bounded by the lengths they count. Files are byte lists. A panic of the source (\<open>unwrap\<close>,
  \<open>expect\<close>) is the error \<open>Panic\<close>, so that its absence can be proved. Unicode strings are lists of
  code points.

  \<^bold>\<open>What the lemmas show.\<close> Keyslots and headers survive the disk and every accepted byte string is
  well formed; enrolled credentials unlock, and the factors of a slot are separated before they are
  hashed; revocation and rotation leave no other wrap behind, also in the mirrors; persisted and created
  vaults open again, from the mirror where the live header is damaged; metadata survives damage to
  the live region; the validator accepts exactly the valid trees; chunk lists and chunks are read
  back as written and are bound to their file, position and generation; and the directory operations
  implement a namespace, keep the invariant, are atomic when they fail, and never panic. A save that
  succeeds is undone by open in every metadata format; reads return the contents of a file, writes and
  truncations change them as the same operations on byte sequences do, under size hiding, padding,
  copy-on-write and the size limit; and any session of writes, truncations and saves followed by a
  save is what the next open finds. After a save with an armed anchor, copies of the
  vault from before that session are reported as a rollback.

  \<^bold>\<open>Termination and bounds.\<close> All definitions are total. The chunk-list walk decreases the number of
  blocks it may still read; the descendant and reachability searches decrease the set of inodes not
  yet visited. Statements about sequences of operations assume that file ids stay below \<open>2 ^ 63\<close>, the
  bit reserved for chunk-list ids, which the validator requires of every saved tree.

  Properties of saves assume that the counters have room (\<open>room\<close>: the
  address of the next slot is representable and the generations are not used up) and that no file has more than \<open>2 ^ 32\<close> chunks, the width of the position in the associated
  data; \<open>MAX_FILE_SIZE\<close> keeps written files below that. The clock of a write is an argument.

  \<^bold>\<open>Not modelled.\<close> Deniable vaults (only the guard that refuses slot changes on them, and the
  format of their anchor), the post-quantum key files, secret memory and wiping, file locks, permissions and fsync,
  the rotation of the volume key over the chunks of the file system, the device transports, the mount
  back ends and the user interfaces. Shrinking is modelled; its effect on the contents is not proved.
\<close>

end
